(* ===== verification/Prelude.thy ===== *)
theory Prelude
  imports Complex_Main "HOL-Library.Word" "HOL-Library.Signed_Division"
begin

text \<open>
  Shared vocabulary of the development: byte strings, the JavaScript loop and indexing
  conventions the sources use, and the lemmas on lists, sums and integer division that the
  component theories rely on.

  A loop \<^verbatim>\<open>for (let i = a; i < b; i++) body\<close> whose body may throw is
  \<open>for_range a b body\<close>: the state is passed through the body, and \<open>None\<close> is the
  exception. \<open>for_range_rule\<close> is its total-correctness rule: an invariant indexed by the
  loop counter. An array read \<^verbatim>\<open>xs[i]\<close> is \<open>js_at xs i\<close>, \<open>None\<close> being
  \<^verbatim>\<open>undefined\<close>.
\<close>

named_theorems js_defs "definitions of the JavaScript primitives"

type_synonym byte = "8 word"
type_synonym bytes = "byte list"

text \<open>A hash function as the sources use it: bytes in, digest bytes out.\<close>

type_synonym digest = "bytes \<Rightarrow> bytes"

text \<open>UTF-8 text of an Isabelle string: its characters are already single bytes.\<close>

definition utf8 :: "string \<Rightarrow> bytes" where
  "utf8 s = map of_char s"

subsection \<open>Reads, writes and loops\<close>

definition js_at :: "'a list \<Rightarrow> nat \<Rightarrow> 'a option" where
  "js_at xs i = (if i < length xs then Some (xs ! i) else None)"

text \<open>
  An array write \<^verbatim>\<open>xs[i] = v\<close>: in range it overwrites, at the end it extends the array by one;
  further out it would leave holes, which no loop of the sources does (\<open>None\<close>).
\<close>

definition js_set :: "'a list \<Rightarrow> nat \<Rightarrow> 'a \<Rightarrow> 'a list option" where
  "js_set xs i v =
     (if i < length xs then Some (xs[i := v]) else if i = length xs then Some (xs @ [v]) else None)"

lemma js_at_in [simp]: "i < length xs \<Longrightarrow> js_at xs i = Some (xs ! i)"
  by (simp add: js_at_def)

lemma js_at_eq_Some: "js_at xs i = Some x \<longleftrightarrow> i < length xs \<and> xs ! i = x"
  by (auto simp: js_at_def)

lemma js_set_in [simp]: "i < length xs \<Longrightarrow> js_set xs i v = Some (xs[i := v])"
  by (simp add: js_set_def)

function for_range :: "nat \<Rightarrow> nat \<Rightarrow> (nat \<Rightarrow> 's \<Rightarrow> 's option) \<Rightarrow> 's \<Rightarrow> 's option" where
  "for_range a b f s =
     (if a < b then (case f a s of None \<Rightarrow> None | Some s' \<Rightarrow> for_range (Suc a) b f s') else Some s)"
  by pat_completeness auto
termination
  by (relation "measure (\<lambda>(a, b, f, s). b - a)") auto

declare for_range.simps [simp del]

lemma for_range_done [simp]: "b \<le> a \<Longrightarrow> for_range a b f s = Some s"
  by (simp add: for_range.simps)

lemma for_range_step: "a < b \<Longrightarrow>
    for_range a b f s = (case f a s of None \<Rightarrow> None | Some s' \<Rightarrow> for_range (Suc a) b f s')"
  by (simp add: for_range.simps)

lemma for_range_rule_aux:
  assumes "\<And>i s. a \<le> i \<Longrightarrow> i < b \<Longrightarrow> I i s \<Longrightarrow> \<exists>s'. f i s = Some s' \<and> I (Suc i) s'"
    and "I a s" and "a \<le> b"
  shows "\<exists>s'. for_range a b f s = Some s' \<and> I b s'"
  using assms
proof (induction "b - a" arbitrary: a s)
  case 0
  then have "a = b" by simp
  with 0 show ?case by simp
next
  case (Suc n)
  then have ab: "a < b" by simp
  with Suc.prems(1)[of a s] Suc.prems(2) obtain s' where s': "f a s = Some s'" "I (Suc a) s'"
    by auto
  have "\<exists>t. for_range (Suc a) b f s' = Some t \<and> I b t"
  proof (rule Suc.hyps(1))
    show "n = b - Suc a" using Suc.hyps(2) by simp
    show "\<exists>t. f i u = Some t \<and> I (Suc i) t" if "Suc a \<le> i" "i < b" "I i u" for i u
      using Suc.prems(1)[of i u] that by simp
  qed (use s' ab in auto)
  with s' ab show ?case by (simp add: for_range_step)
qed

text \<open>Total correctness of a loop from 0: the invariant \<open>I i s\<close> holds before iteration \<open>i\<close>.\<close>

lemma for_range_rule:
  assumes "I 0 s"
    and "\<And>i s. i < b \<Longrightarrow> I i s \<Longrightarrow> \<exists>s'. f i s = Some s' \<and> I (Suc i) s'"
  shows "\<exists>s'. for_range 0 b f s = Some s' \<and> I b s'"
  using for_range_rule_aux[of 0 b I f s] assms by auto

text \<open>The loop that overwrites positions \<open>0..<n\<close> of an array one after the other.\<close>

lemma for_range_fill:
  assumes "n \<le> length d" and "\<And>i. i < n \<Longrightarrow> g i = Some (h i)"
  shows "for_range 0 n (\<lambda>i d. case g i of None \<Rightarrow> None | Some v \<Rightarrow> js_set d i v) d
           = Some (map h [0..<n] @ drop n d)"
proof -
  have "\<exists>d'. for_range 0 n (\<lambda>i d. case g i of None \<Rightarrow> None | Some v \<Rightarrow> js_set d i v) d = Some d'
          \<and> d' = map h [0..<n] @ drop n d"
  proof (rule for_range_rule)
    show "d = map h [0..<0] @ drop 0 d" by simp
    fix i e
    assume "i < n" and e: "e = map h [0..<i] @ drop i d"
    with assms have "i < length d" by simp
    then have "drop i d = d ! i # drop (Suc i) d" by (simp add: Cons_nth_drop_Suc)
    then have "e[i := h i] = map h [0..<Suc i] @ drop (Suc i) d"
      unfolding e by (simp add: list_update_append)
    moreover have "i < length e" using \<open>i < length d\<close> by (simp add: e)
    ultimately show "\<exists>e'. (case g i of None \<Rightarrow> None | Some v \<Rightarrow> js_set e i v) = Some e'
        \<and> e' = map h [0..<Suc i] @ drop (Suc i) d"
      using assms(2)[OF \<open>i < n\<close>] by simp
  qed
  then show ?thesis by simp
qed

subsection \<open>Option and sum plumbing\<close>

fun opt_all :: "'a option list \<Rightarrow> 'a list option" where
  "opt_all [] = Some []"
| "opt_all (None # xs) = None"
| "opt_all (Some x # xs) = (case opt_all xs of None \<Rightarrow> None | Some ys \<Rightarrow> Some (x # ys))"

lemma opt_all_map_Some [simp]: "opt_all (map (\<lambda>x. Some (f x)) xs) = Some (map f xs)"
  by (induction xs) auto

lemma opt_all_SomeD: "opt_all xs = Some ys \<Longrightarrow> xs = map Some ys"
  by (induction xs arbitrary: ys rule: opt_all.induct) (auto split: option.splits)

lemma opt_all_cong_Some:
  "(\<And>x. x \<in> set xs \<Longrightarrow> f x = Some (g x)) \<Longrightarrow> opt_all (map f xs) = Some (map g xs)"
  by (induction xs) auto

subsection \<open>Lists\<close>

lemma nth_row_major:
  assumes "i < m" and "j < (n::nat)"
  shows "i * n + j < m * n"
proof -
  have "i * n + j < i * n + n" using assms(2) by simp
  also have "\<dots> = Suc i * n" by simp
  also have "\<dots> \<le> m * n" using assms(1) by (intro mult_right_mono) auto
  finally show ?thesis .
qed

lemma row_major_inj:
  assumes "j < n" and "j' < (n::nat)" and "i * n + j = i' * n + j'"
  shows "i = i' \<and> j = j'"
proof -
  have "(i * n + j) div n = i" "(i' * n + j') div n = i'"
    "(i * n + j) mod n = j" "(i' * n + j') mod n = j'"
    using assms(1,2) by auto
  with assms(3) show ?thesis by metis
qed

lemma row_major_cases:
  assumes "k < m * (n::nat)"
  obtains i j where "i < m" "j < n" "k = i * n + j"
proof
  have n: "0 < n" using assms by (cases n) auto
  show "k div n < m" using assms by (simp add: less_mult_imp_div_less)
  show "k mod n < n" using n by simp
  show "k = k div n * n + k mod n" by simp
qed

lemma list_eq_row_major:
  assumes "length xs = m * n" and "length ys = m * n"
    and "\<And>i j. i < m \<Longrightarrow> j < n \<Longrightarrow> xs ! (i * n + j) = ys ! (i * n + j)"
  shows "xs = ys"
proof (rule nth_equalityI)
  show "length xs = length ys" using assms(1,2) by simp
  fix k assume "k < length xs"
  with assms(1) have "k < m * n" by simp
  then obtain i j where "i < m" "j < n" "k = i * n + j" by (rule row_major_cases)
  with assms(3) show "xs ! k = ys ! k" by simp
qed

lemma sum_list_filter_le:
  "(\<And>x. x \<in> set xs \<Longrightarrow> 0 \<le> f x) \<Longrightarrow> sum_list (map f (filter P xs)) \<le> (sum_list (map f xs) :: int)"
  by (induction xs) (auto simp: add_increasing)

lemma sum_list_map_mono_int:
  "(\<And>x. x \<in> set xs \<Longrightarrow> f x \<le> g x) \<Longrightarrow> sum_list (map f xs) \<le> (sum_list (map g xs) :: int)"
  by (induction xs) (auto intro: add_mono)

lemma sum_list_nonneg_int:
  "(\<And>x. x \<in> set xs \<Longrightarrow> 0 \<le> f x) \<Longrightarrow> 0 \<le> (sum_list (map f xs) :: int)"
  by (induction xs) auto

subsection \<open>Integer division\<close>

text \<open>BigInt division and remainder truncate; on non-negative operands they are \<open>div\<close> and \<open>mod\<close>.\<close>

lemma sdiv_nonneg: "0 \<le> a \<Longrightarrow> 0 \<le> b \<Longrightarrow> a sdiv b = a div (b::int)"
  by (cases "b = 0") (auto simp: signed_divide_int_def sgn_if)

lemma smod_nonneg: "0 \<le> a \<Longrightarrow> 0 \<le> b \<Longrightarrow> a smod b = a mod (b::int)"
  by (cases "a = 0") (auto simp: signed_modulo_int_def)

text \<open>Truncated remainder keeps the residue class.\<close>

lemma smod_mod_cong: "(a smod b) mod b = a mod (b::int)"
proof -
  have "a smod b = a - a sdiv b * b"
    by (simp add: minus_sdiv_mult_eq_smod)
  then show ?thesis by (simp add: minus_sdiv_mult_eq_smod[symmetric] mod_diff_right_eq[symmetric, of _ "_ * b"])
qed

lemma div_add_le_int:
  assumes "0 < (d::int)"
  shows "a div d + b div d \<le> (a + b) div d"
proof -
  have "0 \<le> a mod d" "0 \<le> b mod d" using assms by simp_all
  then have "(a div d + b div d) * d \<le> a + b"
    by (simp add: distrib_right minus_mod_eq_div_mult[symmetric])
  from zdiv_mono1[OF this assms] show ?thesis using assms by simp
qed

lemma div_floor_sum_le:
  assumes "0 < (d::int)"
  shows "(\<Sum>x\<leftarrow>xs. f x div d) \<le> (\<Sum>x\<leftarrow>xs. f x) div d"
proof (induction xs)
  case (Cons x xs)
  have "f x div d + (\<Sum>x\<leftarrow>xs. f x) div d \<le> (f x + (\<Sum>x\<leftarrow>xs. f x)) div d"
    using assms by (simp add: div_add_le_int)
  with Cons show ?case by simp
qed simp

end
