(* ===== verification/Matrix.thy ===== *)
theory Matrix
  imports Prelude
begin

unbundle bit_operations_syntax

text \<open>
  Modular matrix arithmetic over the field of \<open>PRIME = 1000000007\<close> elements
  (\<^verbatim>\<open>pouw/src/matrix.ts\<close>): the flat row-major \<^verbatim>\<open>Matrix\<close>, addition, subtraction,
  the triple loop of the product with its two zero tests, block read and write, and the
  big-endian int32 encoding that is hashed.

  Every operation is partial: \<open>None\<close> is a read of \<^verbatim>\<open>undefined\<close> (a \<^verbatim>\<open>TypeError\<close> from
  \<^verbatim>\<open>BigInt(undefined)\<close>, or a \<^verbatim>\<open>NaN\<close> entry). The lemmas show that on well-formed operands
  of matching shape nothing of the kind happens and give every entry of the result.
\<close>

subsection \<open>Definitions\<close>

definition PRIME :: int where
  "PRIME = 1000000007"

record matrix =
  rows :: nat
  cols :: nat
  data :: "int list"

definition matCreate :: "nat \<Rightarrow> nat \<Rightarrow> matrix" where
  "matCreate r c = \<lparr>rows = r, cols = c, data = replicate (r * c) 0\<rparr>"

definition matGet :: "matrix \<Rightarrow> nat \<Rightarrow> nat \<Rightarrow> int option" where
  "matGet m r c = js_at (data m) (r * cols m + c)"

definition modp :: "int \<Rightarrow> int" where
  "modp x = ((x smod PRIME) + PRIME) smod PRIME"

definition mulmod :: "int \<Rightarrow> int \<Rightarrow> int" where
  "mulmod a b = (a * b) smod PRIME"

definition matAdd :: "matrix \<Rightarrow> matrix \<Rightarrow> matrix option" where
  "matAdd a b =
     (let result = matCreate (rows a) (cols a) in
      map_option (\<lambda>d. result\<lparr>data := d\<rparr>)
        (for_range 0 (length (data a))
          (\<lambda>i d. case (case js_at (data a) i of None \<Rightarrow> None | Some x \<Rightarrow>
                        map_option (\<lambda>y. modp (x + y)) (js_at (data b) i))
                 of None \<Rightarrow> None | Some v \<Rightarrow> js_set d i v)
          (data result)))"

definition matSub :: "matrix \<Rightarrow> matrix \<Rightarrow> matrix option" where
  "matSub a b =
     (let result = matCreate (rows a) (cols a) in
      map_option (\<lambda>d. result\<lparr>data := d\<rparr>)
        (for_range 0 (length (data a))
          (\<lambda>i d. case (case js_at (data a) i of None \<Rightarrow> None | Some x \<Rightarrow>
                        map_option (\<lambda>y. modp (x - y)) (js_at (data b) i))
                 of None \<Rightarrow> None | Some v \<Rightarrow> js_set d i v)
          (data result)))"

definition matMul_j :: "int \<Rightarrow> matrix \<Rightarrow> nat \<Rightarrow> nat \<Rightarrow> nat \<Rightarrow> int list \<Rightarrow> int list option" where
  "matMul_j aik b i k j d =
     (case js_at (data b) (k * cols b + j) of None \<Rightarrow> None
      | Some bkj \<Rightarrow>
          if bkj = 0 then Some d
          else (let idx = i * cols b + j in
                case js_at d idx of None \<Rightarrow> None
                | Some c \<Rightarrow> js_set d idx ((c + aik * bkj) smod PRIME)))"

definition matMul_k :: "matrix \<Rightarrow> matrix \<Rightarrow> nat \<Rightarrow> nat \<Rightarrow> int list \<Rightarrow> int list option" where
  "matMul_k a b i k d =
     (case js_at (data a) (i * cols a + k) of None \<Rightarrow> None
      | Some aik \<Rightarrow> if aik = 0 then Some d else for_range 0 (cols b) (matMul_j aik b i k) d)"

definition matMul :: "matrix \<Rightarrow> matrix \<Rightarrow> matrix option" where
  "matMul a b =
     (let result = matCreate (rows a) (cols b) in
      map_option (\<lambda>d. result\<lparr>data := d\<rparr>)
        (for_range 0 (rows a) (\<lambda>i. for_range 0 (cols a) (matMul_k a b i)) (data result)))"

definition matGetBlock :: "matrix \<Rightarrow> nat \<Rightarrow> nat \<Rightarrow> nat \<Rightarrow> matrix option" where
  "matGetBlock m rowStart colStart r =
     (let block = matCreate r r in
      map_option (\<lambda>d. block\<lparr>data := d\<rparr>)
        (for_range 0 r (\<lambda>i. for_range 0 r (\<lambda>j d.
            case js_at (data m) ((rowStart + i) * cols m + (colStart + j)) of None \<Rightarrow> None
            | Some v \<Rightarrow> js_set d (i * r + j) v))
          (data block)))"

definition matSetBlock :: "matrix \<Rightarrow> nat \<Rightarrow> nat \<Rightarrow> matrix \<Rightarrow> matrix option" where
  "matSetBlock m rowStart colStart block =
     map_option (\<lambda>d. m\<lparr>data := d\<rparr>)
       (for_range 0 (rows block) (\<lambda>i. for_range 0 (cols block) (\<lambda>j d.
           case js_at (data block) (i * cols block + j) of None \<Rightarrow> None
           | Some v \<Rightarrow> js_set d ((rowStart + i) * cols m + (colStart + j)) v))
         (data m))"

text \<open>\<^verbatim>\<open>buf.writeInt32BE(x | 0)\<close>: the 32-bit wrap of \<open>x\<close>, most significant byte first.\<close>

definition int32_be :: "int \<Rightarrow> bytes" where
  "int32_be x =
     (let w = (of_int x :: 32 word) in
      [ucast (drop_bit 24 w), ucast (drop_bit 16 w), ucast (drop_bit 8 w), ucast w])"

definition matToBytes :: "matrix \<Rightarrow> bytes" where
  "matToBytes m = concat (map int32_be (data m))"

subsection \<open>Well-formed matrices and their entries\<close>

definition mat_wf :: "nat \<Rightarrow> nat \<Rightarrow> matrix \<Rightarrow> bool" where
  "mat_wf r c m \<longleftrightarrow> rows m = r \<and> cols m = c \<and> length (data m) = r * c"

text \<open>Field form: every entry is a canonical residue.\<close>

definition in_field :: "int \<Rightarrow> bool" where
  "in_field x \<longleftrightarrow> 0 \<le> x \<and> x < PRIME"

definition mat_field :: "matrix \<Rightarrow> bool" where
  "mat_field m \<longleftrightarrow> (\<forall>x \<in> set (data m). in_field x)"

definition entry :: "matrix \<Rightarrow> nat \<Rightarrow> nat \<Rightarrow> int" where
  "entry m i j = data m ! (i * cols m + j)"

lemma PRIME_pos [simp]: "0 < PRIME" "0 \<le> PRIME" "PRIME \<noteq> 0"
  by (simp_all add: PRIME_def)

lemma modp_eq_mod: "modp x = x mod PRIME"
proof -
  have range: "- PRIME < x smod PRIME" "x smod PRIME < PRIME"
    using smod_int_range[of PRIME x] by auto
  then have "modp x = ((x smod PRIME) + PRIME) mod PRIME"
    unfolding modp_def by (intro smod_nonneg) auto
  then show ?thesis by (simp add: smod_mod_cong)
qed

lemma in_field_mod [simp]: "in_field (x mod PRIME)"
  by (simp add: in_field_def)

lemma in_field_mod_id: "in_field x \<Longrightarrow> x mod PRIME = x"
  by (simp add: in_field_def)

lemma mat_wfD: "mat_wf r c m \<Longrightarrow> rows m = r" "mat_wf r c m \<Longrightarrow> cols m = c"
  "mat_wf r c m \<Longrightarrow> length (data m) = r * c"
  by (auto simp: mat_wf_def)

lemma mat_field_entry: "mat_field m \<Longrightarrow> mat_wf r c m \<Longrightarrow> i < r \<Longrightarrow> j < c \<Longrightarrow> in_field (entry m i j)"
  by (simp add: mat_field_def entry_def mat_wf_def nth_row_major)

lemma mat_eqI:
  assumes "mat_wf r c a" and "mat_wf r c b"
    and "\<And>i j. i < r \<Longrightarrow> j < c \<Longrightarrow> entry a i j = entry b i j"
  shows "a = b"
proof -
  have "data a = data b"
    by (rule list_eq_row_major[of _ r c]) (use assms in \<open>auto simp: mat_wf_def entry_def\<close>)
  with assms(1,2) show ?thesis by (cases a, cases b) (auto simp: mat_wf_def)
qed

lemma mat_field_iff:
  assumes "mat_wf r c m"
  shows "mat_field m \<longleftrightarrow> (\<forall>i < r. \<forall>j < c. in_field (entry m i j))"
proof
  assume "\<forall>i < r. \<forall>j < c. in_field (entry m i j)"
  moreover have "\<exists>i < r. \<exists>j < c. x = entry m i j" if "x \<in> set (data m)" for x
  proof -
    from that obtain k where "k < r * c" "x = data m ! k"
      using assms by (auto simp: in_set_conv_nth mat_wf_def)
    then show ?thesis
      using assms by (metis entry_def mat_wf_def row_major_cases)
  qed
  ultimately show "mat_field m" unfolding mat_field_def by metis
qed (use assms mat_field_entry in blast)

subsection \<open>A data array described by its entries\<close>

definition filled :: "nat \<Rightarrow> nat \<Rightarrow> (nat \<Rightarrow> nat \<Rightarrow> int) \<Rightarrow> int list \<Rightarrow> bool" where
  "filled r c f d \<longleftrightarrow> length d = r * c \<and> (\<forall>i < r. \<forall>j < c. d ! (i * c + j) = f i j)"

lemma filled_length: "filled r c f d \<Longrightarrow> length d = r * c"
  by (simp add: filled_def)

lemma filled_nth: "filled r c f d \<Longrightarrow> i < r \<Longrightarrow> j < c \<Longrightarrow> d ! (i * c + j) = f i j"
  by (simp add: filled_def)

lemma filled_cong:
  "filled r c f d \<Longrightarrow> (\<And>i j. i < r \<Longrightarrow> j < c \<Longrightarrow> f i j = g i j) \<Longrightarrow> filled r c g d"
  by (simp add: filled_def)

lemma filled_zero: "filled r c (\<lambda>_ _. 0) (replicate (r * c) 0)"
  by (simp add: filled_def nth_row_major)

lemma filled_update:
  assumes "filled r c f d" and "i < r" and "j < c"
  shows "filled r c (\<lambda>i' j'. if i' = i \<and> j' = j then v else f i' j') (d[i * c + j := v])"
  unfolding filled_def
proof (intro conjI allI impI)
  show "length (d[i * c + j := v]) = r * c" using assms(1) by (simp add: filled_def)
  fix i' j' assume ij: "i' < r" "j' < c"
  show "d[i * c + j := v] ! (i' * c + j') = (if i' = i \<and> j' = j then v else f i' j')"
  proof (cases "i' * c + j' = i * c + j")
    case True
    with row_major_inj[OF ij(2) assms(3)] have "i' = i" "j' = j" by auto
    then show ?thesis using assms nth_row_major[OF assms(2,3)] by (simp add: filled_def)
  next
    case False
    then show ?thesis using assms(1) ij by (auto simp: filled_def)
  qed
qed

lemma filled_entry: "mat_wf r c m \<Longrightarrow> filled r c (entry m) (data m)"
  by (simp add: filled_def mat_wf_def entry_def)

lemma filled_mat:
  "filled r c f d \<Longrightarrow> m = \<lparr>rows = r, cols = c, data = d\<rparr> \<Longrightarrow>
     mat_wf r c m \<and> (\<forall>i < r. \<forall>j < c. entry m i j = f i j)"
  by (simp add: filled_def mat_wf_def entry_def)

subsection \<open>Entries of the results\<close>

lemma mat_zip_loop:
  assumes "mat_wf r c a" and "mat_wf r c b"
  shows "map_option (\<lambda>d. (matCreate (rows a) (cols a))\<lparr>data := d\<rparr>)
     (for_range 0 (length (data a))
        (\<lambda>i d. case (case js_at (data a) i of None \<Rightarrow> None | Some x \<Rightarrow>
                       map_option (\<lambda>y. op x y) (js_at (data b) i))
               of None \<Rightarrow> None | Some v \<Rightarrow> js_set d i v)
        (data (matCreate (rows a) (cols a))))
   = Some \<lparr>rows = r, cols = c, data = map (\<lambda>i. op (data a ! i) (data b ! i)) [0..<r * c]\<rparr>"
proof -
  have "for_range 0 (r * c)
        (\<lambda>i d. case (case js_at (data a) i of None \<Rightarrow> None | Some x \<Rightarrow>
                       map_option (\<lambda>y. op x y) (js_at (data b) i))
               of None \<Rightarrow> None | Some v \<Rightarrow> js_set d i v) (replicate (r * c) 0)
      = Some (map (\<lambda>i. op (data a ! i) (data b ! i)) [0..<r * c] @ drop (r * c) (replicate (r * c) 0))"
    by (rule for_range_fill) (use assms in \<open>auto simp: mat_wf_def\<close>)
  with assms show ?thesis by (simp add: matCreate_def mat_wf_def)
qed

lemma matAdd_wf:
  assumes "mat_wf r c a" and "mat_wf r c b"
  obtains m where "matAdd a b = Some m" "mat_wf r c m" "mat_field m"
    "\<And>i j. i < r \<Longrightarrow> j < c \<Longrightarrow> entry m i j = (entry a i j + entry b i j) mod PRIME"
proof
  let ?m = "\<lparr>rows = r, cols = c, data = map (\<lambda>i. modp (data a ! i + data b ! i)) [0..<r * c]\<rparr>"
  show "matAdd a b = Some ?m"
    unfolding matAdd_def Let_def using mat_zip_loop[OF assms, of "\<lambda>x y. modp (x + y)"] by simp
  show "mat_wf r c ?m" by (simp add: mat_wf_def)
  show "mat_field ?m" by (auto simp: mat_field_def modp_eq_mod)
  show "entry ?m i j = (entry a i j + entry b i j) mod PRIME" if "i < r" "j < c" for i j
    using assms that nth_row_major[of i r j c] by (simp add: entry_def mat_wf_def modp_eq_mod)
qed

lemma matSub_wf:
  assumes "mat_wf r c a" and "mat_wf r c b"
  obtains m where "matSub a b = Some m" "mat_wf r c m" "mat_field m"
    "\<And>i j. i < r \<Longrightarrow> j < c \<Longrightarrow> entry m i j = (entry a i j - entry b i j) mod PRIME"
proof
  let ?m = "\<lparr>rows = r, cols = c, data = map (\<lambda>i. modp (data a ! i - data b ! i)) [0..<r * c]\<rparr>"
  show "matSub a b = Some ?m"
    unfolding matSub_def Let_def using mat_zip_loop[OF assms, of "\<lambda>x y. modp (x - y)"] by simp
  show "mat_wf r c ?m" by (simp add: mat_wf_def)
  show "mat_field ?m" by (auto simp: mat_field_def modp_eq_mod)
  show "entry ?m i j = (entry a i j - entry b i j) mod PRIME" if "i < r" "j < c" for i j
    using assms that nth_row_major[of i r j c] by (simp add: entry_def mat_wf_def modp_eq_mod)
qed

text \<open>
  The product: \<open>psum a b k i j\<close> is the partial dot product after \<open>k\<close> rounds of the middle loop.
\<close>

definition psum :: "matrix \<Rightarrow> matrix \<Rightarrow> nat \<Rightarrow> nat \<Rightarrow> nat \<Rightarrow> int" where
  "psum a b k i j = (\<Sum>t < k. entry a i t * entry b t j) mod PRIME"

lemma psum_0 [simp]: "psum a b 0 i j = 0"
  by (simp add: psum_def)

lemma psum_Suc: "psum a b (Suc k) i j = (psum a b k i j + entry a i k * entry b k j) mod PRIME"
  by (simp add: psum_def mod_add_left_eq)

lemma psum_range: "0 \<le> psum a b k i j" "psum a b k i j < PRIME"
  by (simp_all add: psum_def)

definition mul_ok :: "nat \<Rightarrow> nat \<Rightarrow> nat \<Rightarrow> matrix \<Rightarrow> matrix \<Rightarrow> bool" where
  "mul_ok m n p a b \<longleftrightarrow> mat_wf m n a \<and> mat_wf n p b \<and> mat_field a \<and> mat_field b"

lemma mul_ok_nonneg:
  assumes "mul_ok m n p a b"
  shows "i < m \<Longrightarrow> k < n \<Longrightarrow> 0 \<le> entry a i k" "k < n \<Longrightarrow> j < p \<Longrightarrow> 0 \<le> entry b k j"
  using assms mat_field_entry[of a m n i k] mat_field_entry[of b n p k j]
  by (auto simp: in_field_def mul_ok_def)

lemma matMul_j_step:
  assumes ok: "mul_ok m n p a b"
    and "i < m" "k < n" "j < p" and "filled m p f d" and "f i j = psum a b k i j"
  shows "\<exists>d'. matMul_j (entry a i k) b i k j d = Some d'
     \<and> filled m p (\<lambda>i' j'. if i' = i \<and> j' = j then psum a b (Suc k) i j else f i' j') d'"
proof (cases "entry b k j = 0")
  case True
  then have "psum a b (Suc k) i j = f i j"
    using assms(6) psum_range[of a b k i j] by (simp add: psum_Suc)
  with True assms show ?thesis
    by (auto simp: mul_ok_def matMul_j_def mat_wf_def entry_def nth_row_major intro: filled_cong)
next
  case False
  have "0 \<le> f i j + entry a i k * entry b k j"
    using mul_ok_nonneg(1)[OF ok, of i k] mul_ok_nonneg(2)[OF ok, of k j] psum_range[of a b k i j] assms by simp
  then have "(f i j + entry a i k * entry b k j) smod PRIME = psum a b (Suc k) i j"
    using assms(6) by (simp add: smod_nonneg psum_Suc)
  moreover have "d ! (i * p + j) = f i j" using assms by (simp add: filled_nth)
  ultimately have "matMul_j (entry a i k) b i k j d = Some (d[i * p + j := psum a b (Suc k) i j])"
    using False assms
    by (simp add: mul_ok_def matMul_j_def mat_wf_def entry_def nth_row_major Let_def filled_length)
  then show ?thesis using filled_update[OF assms(5,2,4)] by simp
qed

lemma matMul_k_step:
  assumes ok: "mul_ok m n p a b"
    and "i < m" "k < n" and "filled m p f d" and "\<And>j. j < p \<Longrightarrow> f i j = psum a b k i j"
  shows "\<exists>d'. matMul_k a b i k d = Some d'
     \<and> filled m p (\<lambda>i' j'. if i' = i then psum a b (Suc k) i j' else f i' j') d'"
proof (cases "entry a i k = 0")
  case True
  then have "psum a b (Suc k) i j = f i j" if "j < p" for j
    using assms(5)[OF that] psum_range[of a b k i j] by (simp add: psum_Suc)
  with True assms show ?thesis
    by (auto simp: mul_ok_def matMul_k_def mat_wf_def entry_def nth_row_major intro: filled_cong)
next
  case False
  let ?g = "\<lambda>l i' j'. if i' = i \<and> j' < l then psum a b (Suc k) i j' else f i' j'"
  have "\<exists>d'. for_range 0 p (matMul_j (entry a i k) b i k) d = Some d' \<and> filled m p (?g p) d'"
  proof (rule for_range_rule[where I = "\<lambda>j. filled m p (?g j)"])
    show "filled m p (?g 0) d" using assms(4) by simp
    fix j e assume "j < p" and e: "filled m p (?g j) e"
    then show "\<exists>e'. matMul_j (entry a i k) b i k j e = Some e' \<and> filled m p (?g (Suc j)) e'"
      using matMul_j_step[OF ok assms(2,3) \<open>j < p\<close> e] assms(5)
      by (auto elim!: filled_cong simp: less_Suc_eq split: if_splits)
  qed
  then show ?thesis
    using False assms(1,2,3)
    by (auto simp: mul_ok_def matMul_k_def mat_wf_def entry_def nth_row_major elim!: filled_cong)
qed

lemma matMul_field:
  assumes ok: "mul_ok m n p a b"
  obtains c where "matMul a b = Some c" "mat_wf m p c" "mat_field c"
    "\<And>i j. i < m \<Longrightarrow> j < p \<Longrightarrow> entry c i j = (\<Sum>t < n. entry a i t * entry b t j) mod PRIME"
proof -
  let ?g = "\<lambda>l i' j'. if i' < l then psum a b n i' j' else 0"
  have "\<exists>d. for_range 0 m (\<lambda>i. for_range 0 n (matMul_k a b i)) (replicate (m * p) 0) = Some d
      \<and> filled m p (?g m) d"
  proof (rule for_range_rule[where I = "\<lambda>i. filled m p (?g i)"])
    show "filled m p (?g 0) (replicate (m * p) 0)" using filled_zero by simp
    fix i d assume i: "i < m" and d: "filled m p (?g i) d"
    let ?h = "\<lambda>k i' j'. if i' < i then psum a b n i' j' else if i' = i then psum a b k i j' else 0"
    have "\<exists>d'. for_range 0 n (matMul_k a b i) d = Some d' \<and> filled m p (?h n) d'"
    proof (rule for_range_rule[where I = "\<lambda>k. filled m p (?h k)"])
      show "filled m p (?h 0) d" using d by (auto elim!: filled_cong)
      fix k e assume k: "k < n" and e: "filled m p (?h k) e"
      show "\<exists>e'. matMul_k a b i k e = Some e' \<and> filled m p (?h (Suc k)) e'"
        using matMul_k_step[OF ok i k e] by (auto elim!: filled_cong split: if_splits)
    qed
    then show "\<exists>d'. for_range 0 n (matMul_k a b i) d = Some d' \<and> filled m p (?g (Suc i)) d'"
      by (auto elim!: filled_cong simp: less_Suc_eq split: if_splits)
  qed
  then obtain d where d: "for_range 0 m (\<lambda>i. for_range 0 n (matMul_k a b i)) (replicate (m * p) 0) = Some d"
    "filled m p (?g m) d"
    by blast
  from d(2) have d2: "filled m p (psum a b n) d" by (rule filled_cong) simp
  let ?c = "\<lparr>rows = m, cols = p, data = d\<rparr>"
  have c: "matMul a b = Some ?c"
    using d(1) ok by (simp add: mul_ok_def matMul_def matCreate_def mat_wf_def)
  have wf: "mat_wf m p ?c" "\<And>i j. i < m \<Longrightarrow> j < p \<Longrightarrow> entry ?c i j = psum a b n i j"
    using filled_mat[OF d2, of ?c] by auto
  moreover have "mat_field ?c"
    unfolding mat_field_iff[OF wf(1)] using wf(2) psum_range by (simp add: in_field_def)
  ultimately show thesis using that[OF c] by (simp add: psum_def)
qed

subsection \<open>Blocks\<close>

text \<open>A doubly nested loop that writes a rectangle of a row-major array.\<close>

definition in_rect :: "nat \<Rightarrow> nat \<Rightarrow> nat \<Rightarrow> nat \<Rightarrow> nat \<Rightarrow> nat \<Rightarrow> bool" where
  "in_rect ro co h w i j \<longleftrightarrow> ro \<le> i \<and> i < ro + h \<and> co \<le> j \<and> j < co + w"

lemma rect_row_loop:
  assumes d: "filled m n f d" and b: "ro + i < m" "co + w \<le> n"
    and g: "\<And>j. j < w \<Longrightarrow> g j = Some (h j)"
  shows "\<exists>d'. for_range 0 w (\<lambda>j d. case g j of None \<Rightarrow> None
             | Some v \<Rightarrow> js_set d ((ro + i) * n + (co + j)) v) d = Some d'
     \<and> filled m n (\<lambda>x y. if in_rect (ro + i) co 1 w x y then h (y - co) else f x y) d'"
proof -
  let ?q = "\<lambda>l x y. if in_rect (ro + i) co 1 l x y then h (y - co) else f x y"
  show ?thesis
  proof (rule for_range_rule[where I = "\<lambda>l. filled m n (?q l)"])
    show "filled m n (?q 0) d" using d by (rule filled_cong) (auto simp: in_rect_def)
    fix j e assume j: "j < w" and e: "filled m n (?q j) e"
    have lt: "(ro + i) * n + (co + j) < length e"
      using e b j by (simp add: filled_length nth_row_major)
    have "filled m n (?q (Suc j)) (e[(ro + i) * n + (co + j) := h j])"
      using filled_update[OF e, of "ro + i" "co + j" "h j"] b j
      by (auto elim!: filled_cong simp: in_rect_def)
    then show "\<exists>e'. (case g j of None \<Rightarrow> None | Some v \<Rightarrow> js_set e ((ro + i) * n + (co + j)) v) = Some e'
        \<and> filled m n (?q (Suc j)) e'"
      using lt g[OF j] by simp
  qed
qed

lemma rect_loop:
  assumes d: "filled m n f d" and b: "ro + hh \<le> m" "co + w \<le> n"
    and g: "\<And>i j. i < hh \<Longrightarrow> j < w \<Longrightarrow> g i j = Some (h i j)"
  shows "\<exists>d'. for_range 0 hh (\<lambda>i. for_range 0 w (\<lambda>j d. case g i j of None \<Rightarrow> None
             | Some v \<Rightarrow> js_set d ((ro + i) * n + (co + j)) v)) d = Some d'
     \<and> filled m n (\<lambda>x y. if in_rect ro co hh w x y then h (x - ro) (y - co) else f x y) d'"
proof (rule for_range_rule[where I = "\<lambda>l. filled m n
    (\<lambda>x y. if in_rect ro co l w x y then h (x - ro) (y - co) else f x y)"])
  let ?q = "\<lambda>l x y. if in_rect ro co l w x y then h (x - ro) (y - co) else f x y"
  show "filled m n (?q 0) d" using d by (rule filled_cong) (auto simp: in_rect_def)
  fix i e assume i: "i < hh" and e: "filled m n (?q i) e"
  have "ro + i < m" using b i by simp
  from rect_row_loop[OF e this b(2) g[OF i], of "\<lambda>j. j"]
  show "\<exists>e'. for_range 0 w (\<lambda>j d. case g i j of None \<Rightarrow> None
             | Some v \<Rightarrow> js_set d ((ro + i) * n + (co + j)) v) e = Some e'
        \<and> filled m n (?q (Suc i)) e'"
    by (auto elim!: filled_cong simp: in_rect_def less_Suc_eq)
qed

lemma matGetBlock_wf:
  assumes "mat_wf m n a" and "rs + r \<le> m" and "cs + r \<le> n"
  obtains b where "matGetBlock a rs cs r = Some b" "mat_wf r r b"
    "\<And>i j. i < r \<Longrightarrow> j < r \<Longrightarrow> entry b i j = entry a (rs + i) (cs + j)"
proof -
  let ?g = "\<lambda>i j. js_at (data a) ((rs + i) * cols a + (cs + j))"
  let ?h = "\<lambda>i j. entry a (rs + i) (cs + j)"
  have "?g i j = Some (?h i j)" if "i < r" "j < r" for i j
    using assms that nth_row_major[of "rs + i" m "cs + j" n] by (simp add: mat_wf_def entry_def)
  from rect_loop[OF filled_zero[of r r], where ro = 0 and co = 0 and hh = r and w = r and g = ?g and h = ?h, OF _ _ this]
  obtain d where d: "for_range 0 r (\<lambda>i. for_range 0 r (\<lambda>j d. case ?g i j of None \<Rightarrow> None
       | Some v \<Rightarrow> js_set d (i * r + j) v)) (replicate (r * r) 0) = Some d"
    "filled r r (\<lambda>x y. if in_rect 0 0 r r x y then ?h x y else 0) d"
    unfolding add_0 diff_zero by auto
  let ?b = "\<lparr>rows = r, cols = r, data = d\<rparr>"
  show thesis
  proof (rule that[of ?b])
    show "matGetBlock a rs cs r = Some ?b" using d(1) by (simp add: matGetBlock_def matCreate_def)
    show "mat_wf r r ?b" using filled_mat[OF d(2), of ?b] by simp
    show "entry ?b i j = entry a (rs + i) (cs + j)" if "i < r" "j < r" for i j
      using filled_mat[OF d(2), of ?b] that by (simp add: in_rect_def)
  qed
qed

lemma matSetBlock_wf:
  assumes "mat_wf m n a" and "mat_wf h w b" and "rs + h \<le> m" and "cs + w \<le> n"
  obtains c where "matSetBlock a rs cs b = Some c" "mat_wf m n c"
    "\<And>i j. i < m \<Longrightarrow> j < n \<Longrightarrow>
       entry c i j = (if in_rect rs cs h w i j then entry b (i - rs) (j - cs) else entry a i j)"
proof -
  let ?g = "\<lambda>i j. js_at (data b) (i * cols b + j)"
  have "?g i j = Some (entry b i j)" if "i < h" "j < w" for i j
    using assms(2) that nth_row_major[of i h j w] by (simp add: mat_wf_def entry_def)
  from rect_loop[OF filled_entry[OF assms(1)], where g = ?g and h = "entry b", OF assms(3,4) this]
  obtain d where d: "for_range 0 h (\<lambda>i. for_range 0 w (\<lambda>j d. case ?g i j of None \<Rightarrow> None
       | Some v \<Rightarrow> js_set d ((rs + i) * n + (cs + j)) v)) (data a) = Some d"
    "filled m n (\<lambda>x y. if in_rect rs cs h w x y then entry b (x - rs) (y - cs) else entry a x y) d"
    by auto
  let ?c = "a\<lparr>data := d\<rparr>"
  have c: "?c = \<lparr>rows = m, cols = n, data = d\<rparr>" using assms(1) by (cases a) (simp add: mat_wf_def)
  show thesis
  proof (rule that[of ?c])
    show "matSetBlock a rs cs b = Some ?c"
      using d(1) assms(1,2) by (auto simp: matSetBlock_def mat_wf_def)
  qed (use filled_mat[OF d(2) c] in auto)
qed

subsection \<open>The hashed encoding\<close>

lemma int32_be_eq_iff: "int32_be x = int32_be y \<longleftrightarrow> (of_int x :: 32 word) = of_int y"
proof
  assume eq: "int32_be x = int32_be y"
  let ?u = "of_int x :: 32 word" and ?v = "of_int y :: 32 word"
  have byte: "bit ?u (n + s) = bit ?v (n + s)"
    if "(ucast (drop_bit s ?u) :: byte) = ucast (drop_bit s ?v)" "n < 8" for n s
  proof -
    from that(1) have "bit (ucast (drop_bit s ?u) :: byte) n = bit (ucast (drop_bit s ?v) :: byte) n"
      by simp
    with that(2) show ?thesis by (simp add: bit_ucast_iff bit_drop_bit_eq add.commute)
  qed
  have parts: "(ucast (drop_bit 24 ?u) :: byte) = ucast (drop_bit 24 ?v)"
    "(ucast (drop_bit 16 ?u) :: byte) = ucast (drop_bit 16 ?v)"
    "(ucast (drop_bit 8 ?u) :: byte) = ucast (drop_bit 8 ?v)"
    "(ucast (drop_bit 0 ?u) :: byte) = ucast (drop_bit 0 ?v)"
    using eq by (simp_all add: int32_be_def Let_def)
  show "?u = ?v"
  proof (rule bit_word_eqI)
    fix n assume "n < LENGTH(32)"
    then have "n < 32" by simp
    then consider "n < 8" | "8 \<le> n \<and> n < 16" | "16 \<le> n \<and> n < 24" | "24 \<le> n \<and> n < 32" by linarith
    then show "bit ?u n = bit ?v n"
    proof cases
      case 1 then show ?thesis using byte[OF parts(4), of n] by simp
    next
      case 2
      then have "n - 8 < 8" by arith
      with 2 show ?thesis using byte[OF parts(3), of "n - 8"] by simp
    next
      case 3
      then have "n - 16 < 8" by arith
      with 3 show ?thesis using byte[OF parts(2), of "n - 16"] by simp
    next
      case 4
      then have "n - 24 < 8" by arith
      with 4 show ?thesis using byte[OF parts(1), of "n - 24"] by simp
    qed
  qed
qed (simp add: int32_be_def)

lemma int32_be_length [simp]: "length (int32_be x) = 4"
  by (simp add: int32_be_def Let_def)

lemma int32_be_field_inj: "in_field x \<Longrightarrow> in_field y \<Longrightarrow> int32_be x = int32_be y \<Longrightarrow> x = y"
proof -
  assume f: "in_field x" "in_field y" and "int32_be x = int32_be y"
  then have "uint (of_int x :: 32 word) = uint (of_int y :: 32 word)" by (simp add: int32_be_eq_iff)
  then have "x mod 2 ^ 32 = y mod 2 ^ 32" by (simp add: uint_word_of_int_eq take_bit_eq_mod)
  with f show "x = y" by (simp add: in_field_def PRIME_def)
qed

lemma concat_int32_be_inj:
  "length xs = length ys \<Longrightarrow> (\<forall>x \<in> set xs. in_field x) \<Longrightarrow> (\<forall>x \<in> set ys. in_field x) \<Longrightarrow>
     concat (map int32_be xs) = concat (map int32_be ys) \<Longrightarrow> xs = ys"
  by (induction xs ys rule: list_induct2) (auto dest: int32_be_field_inj)

text \<open>The bytes that are hashed determine a field matrix of known shape.\<close>

lemma matToBytes_inj:
  assumes "mat_wf r c a" "mat_wf r c b" "mat_field a" "mat_field b" "matToBytes a = matToBytes b"
  shows "a = b"
proof -
  have "data a = data b"
    by (rule concat_int32_be_inj) (use assms in \<open>auto simp: mat_wf_def mat_field_def matToBytes_def\<close>)
  with assms(1,2) show ?thesis by (cases a, cases b) (auto simp: mat_wf_def)
qed

end
