(* ===== verification/Hex.thy ===== *)
theory Hex
  imports Prelude
begin

text \<open>
  Text encodings the sources share: lower-case hex of a byte string
  (\<^verbatim>\<open>toHex\<close> / \<^verbatim>\<open>fromHex\<close> of \<^verbatim>\<open>shared/storage-proof.ts\<close>, also what
  \<^verbatim>\<open>digest("hex")\<close> prints), \<^verbatim>\<open>parseInt(s, 16)\<close> on the slices the sources parse, and the
  decimal text of a natural number (\<^verbatim>\<open>String(n)\<close>).
\<close>

subsection \<open>Definitions\<close>

definition hex_digit :: "nat \<Rightarrow> char" where
  "hex_digit n = ''0123456789abcdef'' ! n"

definition hex_val :: "char \<Rightarrow> nat option" where
  "hex_val c =
     (let n = of_char c :: nat in
      if 48 \<le> n \<and> n \<le> 57 then Some (n - 48)
      else if 97 \<le> n \<and> n \<le> 102 then Some (n - 87)
      else if 65 \<le> n \<and> n \<le> 70 then Some (n - 55)
      else None)"

text \<open>\<^verbatim>\<open>x.toString(16).padStart(2, "0")\<close> of one byte.\<close>

definition hex_byte :: "byte \<Rightarrow> string" where
  "hex_byte b = [hex_digit (unat b div 16), hex_digit (unat b mod 16)]"

definition toHex :: "bytes \<Rightarrow> string" where
  "toHex bs = concat (map hex_byte bs)"

text \<open>\<^verbatim>\<open>parseInt(s, 16)\<close>: the longest hex prefix; no digit at all is \<^verbatim>\<open>NaN\<close> (\<open>None\<close>).\<close>

fun parse_hex_acc :: "nat \<Rightarrow> string \<Rightarrow> nat" where
  "parse_hex_acc acc [] = acc"
| "parse_hex_acc acc (c # cs) = (case hex_val c of None \<Rightarrow> acc | Some v \<Rightarrow> parse_hex_acc (16 * acc + v) cs)"

definition parse_hex :: "string \<Rightarrow> nat option" where
  "parse_hex s = (case s of [] \<Rightarrow> None | c # cs \<Rightarrow>
     (case hex_val c of None \<Rightarrow> None | Some v \<Rightarrow> Some (parse_hex_acc v cs)))"

text \<open>A typed-array store of \<^verbatim>\<open>NaN\<close> is 0; an odd trailing character is dropped
  (\<^verbatim>\<open>new Uint8Array(s.length / 2)\<close> of a fraction throws and never happens on the regular-expression
  checked inputs).\<close>

fun fromHex :: "string \<Rightarrow> bytes" where
  "fromHex (a # b # cs) = of_nat (case parse_hex [a, b] of None \<Rightarrow> 0 | Some v \<Rightarrow> v) # fromHex cs"
| "fromHex _ = []"

text \<open>\<^verbatim>\<open>/^[0-9a-f]*$/\<close> with a length: the regular expressions of hashes, nonces and signatures.\<close>

definition lower_hex :: "char \<Rightarrow> bool" where
  "lower_hex c \<longleftrightarrow> (let n = of_char c :: nat in (48 \<le> n \<and> n \<le> 57) \<or> (97 \<le> n \<and> n \<le> 102))"

definition is_hex :: "nat \<Rightarrow> string \<Rightarrow> bool" where
  "is_hex n s \<longleftrightarrow> length s = n \<and> list_all lower_hex s"

fun dec_digits :: "nat \<Rightarrow> string" where
  "dec_digits n = (if n < 10 then [hex_digit n] else dec_digits (n div 10) @ [hex_digit (n mod 10)])"

declare dec_digits.simps [simp del]

subsection \<open>Hex round trip\<close>

lemma less_16_cases: "n < 16 \<Longrightarrow> P 0 \<Longrightarrow> P 1 \<Longrightarrow> P 2 \<Longrightarrow> P 3 \<Longrightarrow> P 4 \<Longrightarrow> P 5 \<Longrightarrow> P 6 \<Longrightarrow> P 7 \<Longrightarrow>
    P 8 \<Longrightarrow> P 9 \<Longrightarrow> P 10 \<Longrightarrow> P 11 \<Longrightarrow> P 12 \<Longrightarrow> P 13 \<Longrightarrow> P 14 \<Longrightarrow> P 15 \<Longrightarrow> P (n::nat)"
  by (auto simp: numeral_eq_Suc less_Suc_eq)

lemma hex_val_digit [simp]: "n < 16 \<Longrightarrow> hex_val (hex_digit n) = Some n"
  by (erule less_16_cases) (simp_all add: hex_val_def hex_digit_def)

lemma lower_hex_digit [simp]: "n < 16 \<Longrightarrow> lower_hex (hex_digit n)"
  by (erule less_16_cases) (simp_all add: lower_hex_def hex_digit_def)

lemma hex_digit_val: "lower_hex c \<Longrightarrow> \<exists>n < 16. c = hex_digit n"
proof -
  assume "lower_hex c"
  then have "of_char c \<in> ({48..57} \<union> {97..102} :: nat set)" by (auto simp: lower_hex_def Let_def)
  moreover have "({48..57} \<union> {97..102} :: nat set) = of_char ` hex_digit ` {..<16}"
    by (simp add: hex_digit_def lessThan_nat_numeral lessThan_Suc numeral_eq_Suc atLeastAtMostSuc_conv insert_commute)
  ultimately obtain n where "n < 16" "(of_char c :: nat) = of_char (hex_digit n)" by auto
  then show ?thesis by (metis char_of_char)
qed

lemma byte_parts: "unat (b::byte) div 16 < 16" "unat (b::byte) mod 16 < 16"
proof -
  have "unat b < 2 ^ LENGTH(8)" by (rule unsigned_less)
  then show "unat b div 16 < 16" "unat b mod 16 < 16" by simp_all
qed

lemma fromHex_hex_byte [simp]: "fromHex (hex_byte b @ s) = b # fromHex s"
proof -
  have "16 * (unat b div 16) + unat b mod 16 = unat b" by simp
  then show ?thesis by (simp add: hex_byte_def parse_hex_def byte_parts)
qed

lemma fromHex_toHex [simp]: "fromHex (toHex bs) = bs"
  by (induction bs) (simp_all add: toHex_def)

lemma toHex_inj: "toHex a = toHex b \<Longrightarrow> a = b"
  by (metis fromHex_toHex)

lemma length_toHex [simp]: "length (toHex bs) = 2 * length bs"
  by (induction bs) (simp_all add: toHex_def hex_byte_def)

lemma is_hex_toHex [simp]: "is_hex n (toHex bs) \<longleftrightarrow> n = 2 * length bs"
proof -
  have "list_all lower_hex (toHex bs)"
    by (induction bs) (simp_all add: toHex_def hex_byte_def byte_parts)
  then show ?thesis by (auto simp: is_hex_def)
qed

lemma toHex_fromHex: "is_hex (2 * n) s \<Longrightarrow> toHex (fromHex s) = s \<and> length (fromHex s) = n"
proof (induction n arbitrary: s)
  case 0
  then show ?case by (simp add: is_hex_def toHex_def)
next
  case (Suc n)
  then obtain a b t where s: "s = a # b # t"
    by (cases s; cases "tl s") (auto simp: is_hex_def)
  with Suc.prems have "lower_hex a" "lower_hex b" and t: "is_hex (2 * n) t" by (auto simp: is_hex_def)
  then obtain x y where xy: "x < 16" "a = hex_digit x" "y < 16" "b = hex_digit y"
    using hex_digit_val by metis
  then have u: "unat (of_nat (16 * x + y) :: byte) = 16 * x + y"
    by (simp add: unat_of_nat take_bit_eq_mod del: of_nat_add of_nat_mult)
  have "hex_byte (of_nat (16 * x + y)) = [a, b]"
    unfolding hex_byte_def u using xy by simp
  with Suc.IH[OF t] xy s show ?case
    by (simp add: toHex_def parse_hex_def del: of_nat_add of_nat_mult)
qed

end
