(* ===== verification/Transcript.thy ===== *)
theory Transcript
  imports Matrix Hex
begin

text \<open>
  Block matrix multiplication with a transcript (\<^verbatim>\<open>pouw/src/matmul.ts\<close>): every intermediate
  \<open>r\<close>-by-\<open>r\<close> partial sum is appended to one SHA-256 computation. The hash is the parameter
  \<open>H\<close>; \<^verbatim>\<open>hasher.update\<close> calls are the concatenation of their arguments. \<open>None\<close> is
  the exception for a dimension that is not divisible by \<open>r\<close> (or a read out of range).

  Shown here: on field matrices the block algorithm computes exactly the product of
  \<^verbatim>\<open>matMul\<close>, records \<open>(n/r)^3\<close> blocks, and the transcript has \<open>4 r^2 (n/r)^3\<close> bytes.
\<close>

subsection \<open>Definitions\<close>

record matMulResult =
  mm_C :: matrix
  mm_transcriptHash :: string
  mm_intermediateCount :: nat

definition hexdigest :: "digest \<Rightarrow> bytes \<Rightarrow> string" where
  "hexdigest H bs = toHex (H bs)"

text \<open>The accumulation of one output block: state \<open>(Cij, bytes hashed so far, count)\<close>.\<close>

definition block_step ::
    "matrix \<Rightarrow> matrix \<Rightarrow> nat \<Rightarrow> nat \<Rightarrow> nat \<Rightarrow> nat \<Rightarrow> matrix \<times> bytes \<times> nat \<Rightarrow> (matrix \<times> bytes \<times> nat) option" where
  "block_step A B r i j l st =
     (case st of (Cij, tr, cnt) \<Rightarrow>
      (case matGetBlock A (i * r) (l * r) r of None \<Rightarrow> None | Some Ail \<Rightarrow>
      (case matGetBlock B (l * r) (j * r) r of None \<Rightarrow> None | Some Blj \<Rightarrow>
      (case matMul Ail Blj of None \<Rightarrow> None | Some pr \<Rightarrow>
      (case matAdd Cij pr of None \<Rightarrow> None | Some Cij' \<Rightarrow>
         Some (Cij', tr @ matToBytes Cij', Suc cnt))))))"

definition block_out ::
    "matrix \<Rightarrow> matrix \<Rightarrow> nat \<Rightarrow> nat \<Rightarrow> nat \<Rightarrow> nat \<Rightarrow> matrix \<times> bytes \<times> nat \<Rightarrow> (matrix \<times> bytes \<times> nat) option" where
  "block_out A B r nb i j st =
     (case st of (C, tr, cnt) \<Rightarrow>
      (case for_range 0 nb (block_step A B r i j) (matCreate r r, tr, cnt) of None \<Rightarrow> None
       | Some (Cij, tr', cnt') \<Rightarrow>
           map_option (\<lambda>C'. (C', tr', cnt')) (matSetBlock C (i * r) (j * r) Cij)))"

definition matMulWithTranscript :: "digest \<Rightarrow> matrix \<Rightarrow> matrix \<Rightarrow> nat \<Rightarrow> matMulResult option" where
  "matMulWithTranscript H A B r =
     (let n = rows A in
      if r = 0 \<or> n mod r \<noteq> 0 then None
      else (let nb = n div r in
        map_option (\<lambda>(C, tr, cnt). \<lparr>mm_C = C, mm_transcriptHash = hexdigest H tr, mm_intermediateCount = cnt\<rparr>)
          (for_range 0 nb (\<lambda>i. for_range 0 nb (block_out A B r nb i)) (matCreate n n, [], 0))))"

subsection \<open>One output block\<close>

lemma sum_lessThan_add:
  fixes f :: "nat \<Rightarrow> 'a::comm_monoid_add"
  shows "(\<Sum>t < a + b. f t) = (\<Sum>t < a. f t) + (\<Sum>t < b. f (a + t))"
  by (induction b) (simp_all add: add.assoc)

definition block_inv :: "matrix \<Rightarrow> matrix \<Rightarrow> nat \<Rightarrow> nat \<Rightarrow> nat \<Rightarrow> nat \<Rightarrow> matrix \<Rightarrow> bool" where
  "block_inv A B r i j l Cij \<longleftrightarrow> mat_wf r r Cij \<and>
     (\<forall>a < r. \<forall>b < r. entry Cij a b = psum A B (l * r) (i * r + a) (j * r + b))"

lemma block_idx: "i < nb \<Longrightarrow> i * r + r \<le> nb * (r::nat)"
  using mult_le_mono1[of "Suc i" nb r] by simp

lemma block_step_inv:
  assumes ok: "mul_ok (nb * r) (nb * r) (nb * r) A B" and "i < nb" "j < nb" "l < nb"
    and inv: "block_inv A B r i j l Cij"
  shows "\<exists>C'. block_step A B r i j l (Cij, tr, cnt) = Some (C', tr @ matToBytes C', Suc cnt)
     \<and> block_inv A B r i j (Suc l) C'"
proof -
  have wf: "mat_wf (nb * r) (nb * r) A" "mat_wf (nb * r) (nb * r) B" "mat_field A" "mat_field B"
    using ok by (simp_all add: mul_ok_def)
  obtain P where P: "matGetBlock A (i * r) (l * r) r = Some P" "mat_wf r r P"
    "\<And>a b. a < r \<Longrightarrow> b < r \<Longrightarrow> entry P a b = entry A (i * r + a) (l * r + b)"
    using matGetBlock_wf[OF wf(1) block_idx[OF assms(2)] block_idx[OF assms(4)]] by metis
  obtain Q where Q: "matGetBlock B (l * r) (j * r) r = Some Q" "mat_wf r r Q"
    "\<And>a b. a < r \<Longrightarrow> b < r \<Longrightarrow> entry Q a b = entry B (l * r + a) (j * r + b)"
    using matGetBlock_wf[OF wf(2) block_idx[OF assms(4)] block_idx[OF assms(3)]] by metis
  have idx: "i * r + a < nb * r" "j * r + a < nb * r" "l * r + a < nb * r" if "a < r" for a
    using that block_idx[OF assms(2), of r] block_idx[OF assms(3), of r] block_idx[OF assms(4), of r]
    by simp_all
  have "mat_field P" "mat_field Q"
    unfolding mat_field_iff[OF P(2)] mat_field_iff[OF Q(2)]
    using P(3) Q(3) idx mat_field_entry[OF wf(3,1)] mat_field_entry[OF wf(4,2)] by simp_all
  with P Q have PQ: "mul_ok r r r P Q" by (simp add: mul_ok_def)
  obtain M where M: "matMul P Q = Some M" "mat_wf r r M"
    "\<And>a b. a < r \<Longrightarrow> b < r \<Longrightarrow> entry M a b = (\<Sum>t < r. entry P a t * entry Q t b) mod PRIME"
    using matMul_field[OF PQ] by metis
  have cwf: "mat_wf r r Cij" using inv by (simp add: block_inv_def)
  obtain C' where C': "matAdd Cij M = Some C'" "mat_wf r r C'"
    "\<And>a b. a < r \<Longrightarrow> b < r \<Longrightarrow> entry C' a b = (entry Cij a b + entry M a b) mod PRIME"
    using matAdd_wf[OF cwf M(2)] by metis
  have "entry C' a b = psum A B (Suc l * r) (i * r + a) (j * r + b)" if ab: "a < r" "b < r" for a b
  proof -
    have "(\<Sum>t < r. entry P a t * entry Q t b)
        = (\<Sum>t < r. entry A (i * r + a) (l * r + t) * entry B (l * r + t) (j * r + b))"
      using P(3) Q(3) ab by simp
    then show ?thesis
      using C'(3)[OF ab] M(3)[OF ab] inv ab
        sum_lessThan_add[of "\<lambda>t. entry A (i * r + a) t * entry B t (j * r + b)" "l * r" r]
      by (simp add: block_inv_def psum_def mod_add_eq add.commute)
  qed
  then show ?thesis using P(1) Q(1) M(1) C'(1,2) by (simp add: block_step_def block_inv_def)
qed

lemma matToBytes_length: "mat_wf r c m \<Longrightarrow> length (matToBytes m) = 4 * r * c"
proof -
  have "length (concat (map int32_be xs)) = 4 * length xs" for xs by (induction xs) auto
  then show "mat_wf r c m \<Longrightarrow> ?thesis" by (simp add: matToBytes_def mat_wf_def)
qed

lemma block_loop:
  assumes ok: "mul_ok (nb * r) (nb * r) (nb * r) A B" and ij: "i < nb" "j < nb"
  shows "\<exists>Cij tr'. for_range 0 nb (block_step A B r i j) (matCreate r r, tr, cnt) = Some (Cij, tr @ tr', cnt + nb)
     \<and> length tr' = nb * (4 * r * r) \<and> block_inv A B r i j nb Cij"
proof -
  let ?I = "\<lambda>l (st :: matrix \<times> bytes \<times> nat). \<exists>C t. st = (C, tr @ t, cnt + l) \<and> length t = l * (4 * r * r) \<and> block_inv A B r i j l C"
  have "\<exists>st. for_range 0 nb (block_step A B r i j) (matCreate r r, tr, cnt) = Some st \<and> ?I nb st"
  proof (rule for_range_rule[where I = ?I])
    show "?I 0 (matCreate r r, tr, cnt)"
      by (simp add: block_inv_def matCreate_def mat_wf_def entry_def nth_row_major)
    fix l st assume l: "l < nb" and "?I l st"
    then obtain C t where st: "st = (C, tr @ t, cnt + l)" "length t = l * (4 * r * r)" "block_inv A B r i j l C"
      by auto
    obtain C' where C': "block_step A B r i j l (C, tr @ t, cnt + l) = Some (C', (tr @ t) @ matToBytes C', Suc (cnt + l))"
      "block_inv A B r i j (Suc l) C'"
      using block_step_inv[OF ok ij l st(3)] by blast
    then have "mat_wf r r C'" by (simp add: block_inv_def)
    with st C' show "\<exists>st'. block_step A B r i j l st = Some st' \<and> ?I (Suc l) st'"
      by (auto simp: matToBytes_length)
  qed
  then show ?thesis by auto
qed

subsection \<open>The whole product\<close>

text \<open>The entries written after the blocks before \<open>(i, j)\<close> in row-major order.\<close>

definition done_before :: "matrix \<Rightarrow> matrix \<Rightarrow> nat \<Rightarrow> nat \<Rightarrow> nat \<Rightarrow> nat \<Rightarrow> matrix \<Rightarrow> bool" where
  "done_before A B nb r i j C \<longleftrightarrow> mat_wf (nb * r) (nb * r) C \<and>
     (\<forall>x < nb * r. \<forall>y < nb * r. x < i * r \<or> (x < Suc i * r \<and> y < j * r) \<longrightarrow>
        entry C x y = psum A B (nb * r) x y)"

lemma block_out_inv:
  assumes ok: "mul_ok (nb * r) (nb * r) (nb * r) A B" and ij: "i < nb" "j < nb"
    and inv: "done_before A B nb r i j C"
  shows "\<exists>C' tr'. block_out A B r nb i j (C, tr, cnt) = Some (C', tr @ tr', cnt + nb)
     \<and> length tr' = nb * (4 * r * r) \<and> done_before A B nb r i (Suc j) C'"
proof -
  obtain Cij tr' where b: "for_range 0 nb (block_step A B r i j) (matCreate r r, tr, cnt) = Some (Cij, tr @ tr', cnt + nb)"
    "length tr' = nb * (4 * r * r)" "block_inv A B r i j nb Cij"
    using block_loop[OF ok ij] by blast
  have wf: "mat_wf (nb * r) (nb * r) C" "mat_wf r r Cij"
    using inv b(3) by (simp_all add: done_before_def block_inv_def)
  obtain C' where C': "matSetBlock C (i * r) (j * r) Cij = Some C'" "mat_wf (nb * r) (nb * r) C'"
    "\<And>x y. x < nb * r \<Longrightarrow> y < nb * r \<Longrightarrow> entry C' x y =
       (if in_rect (i * r) (j * r) r r x y then entry Cij (x - i * r) (y - j * r) else entry C x y)"
    using matSetBlock_wf[OF wf block_idx[OF ij(1)] block_idx[OF ij(2)]] by metis
  have "entry C' x y = psum A B (nb * r) x y"
    if xy: "x < nb * r" "y < nb * r" and before: "x < i * r \<or> (x < Suc i * r \<and> y < Suc j * r)" for x y
  proof (cases "in_rect (i * r) (j * r) r r x y")
    case True
    then have "entry Cij (x - i * r) (y - j * r) = psum A B (nb * r) x y"
      using b(3) by (auto simp: block_inv_def in_rect_def)
    with True C'(3)[OF xy] show ?thesis by simp
  next
    case False
    with before have "x < i * r \<or> (x < Suc i * r \<and> y < j * r)" by (auto simp: in_rect_def)
    with False C'(3)[OF xy] inv xy show ?thesis by (auto simp: done_before_def)
  qed
  then show ?thesis using b(1,2) C'(1,2) by (simp add: block_out_def done_before_def)
qed

lemma transcript_loop:
  assumes ok: "mul_ok (nb * r) (nb * r) (nb * r) A B"
  shows "\<exists>C tr. for_range 0 nb (\<lambda>i. for_range 0 nb (block_out A B r nb i)) (matCreate (nb * r) (nb * r), [], 0)
       = Some (C, tr, nb * nb * nb)
     \<and> length tr = nb * nb * nb * (4 * r * r) \<and> done_before A B nb r nb 0 C"
proof -
  let ?J = "\<lambda>i j (st :: matrix \<times> bytes \<times> nat). \<exists>C t. st = (C, t, (i * nb + j) * nb)
      \<and> length t = (i * nb + j) * nb * (4 * r * r) \<and> done_before A B nb r i j C"
  have "\<exists>st. for_range 0 nb (\<lambda>i. for_range 0 nb (block_out A B r nb i)) (matCreate (nb * r) (nb * r), [], 0)
       = Some st \<and> ?J nb 0 st"
  proof (rule for_range_rule[where I = "\<lambda>i. ?J i 0"])
    show "?J 0 0 (matCreate (nb * r) (nb * r), [], 0)"
      by (simp add: done_before_def matCreate_def mat_wf_def)
    fix i st assume i: "i < nb" and st: "?J i 0 st"
    have "\<exists>st'. for_range 0 nb (block_out A B r nb i) st = Some st' \<and> ?J i nb st'"
    proof (rule for_range_rule[where I = "?J i"])
      show "?J i 0 st" by (rule st)
      fix j st assume j: "j < nb" and "?J i j st"
      then obtain C t where "st = (C, t, (i * nb + j) * nb)" "length t = (i * nb + j) * nb * (4 * r * r)"
        "done_before A B nb r i j C" by auto
      then show "\<exists>st'. block_out A B r nb i j st = Some st' \<and> ?J i (Suc j) st'"
        using block_out_inv[OF ok i j, of C t "(i * nb + j) * nb"] by (auto simp: algebra_simps)
    qed
    then show "\<exists>st'. for_range 0 nb (block_out A B r nb i) st = Some st' \<and> ?J (Suc i) 0 st'"
      by (auto simp: done_before_def algebra_simps)
  qed
  then show ?thesis by auto
qed

lemma matMulWithTranscript_correct:
  assumes ok: "mul_ok n n n A B" and r: "0 < r" "r dvd n"
  obtains res where "matMulWithTranscript H A B r = Some res" "matMul A B = Some (mm_C res)"
    "mm_intermediateCount res = (n div r) ^ 3"
proof -
  define nb where "nb = n div r"
  then have n: "n = nb * r" using r by simp
  with ok have okn: "mul_ok (nb * r) (nb * r) (nb * r) A B" by simp
  obtain C tr where C: "for_range 0 nb (\<lambda>i. for_range 0 nb (block_out A B r nb i)) (matCreate n n, [], 0)
       = Some (C, tr, nb * nb * nb)" "done_before A B nb r nb 0 C"
    using transcript_loop[OF okn] unfolding n by blast
  let ?res = "\<lparr>mm_C = C, mm_transcriptHash = hexdigest H tr, mm_intermediateCount = nb * nb * nb\<rparr>"
  have "rows A = n" using ok by (simp add: mul_ok_def mat_wf_def)
  then have 1: "matMulWithTranscript H A B r = Some ?res"
    using C(1) r by (simp add: matMulWithTranscript_def Let_def nb_def mod_eq_0_iff_dvd)
  obtain D where D: "matMul A B = Some D" "mat_wf n n D"
    "\<And>i j. i < n \<Longrightarrow> j < n \<Longrightarrow> entry D i j = (\<Sum>t < n. entry A i t * entry B t j) mod PRIME"
    using matMul_field[OF ok] by metis
  have "D = C"
    by (rule mat_eqI[OF D(2)]) (use C(2) D(3) in \<open>auto simp: done_before_def n psum_def\<close>)
  with 1 D(1) show thesis using that[of ?res] by (simp add: nb_def power3_eq_cube)
qed

end
