(* ===== verification/Doubles.thy ===== *)
theory Doubles
  imports Prelude
begin

text \<open>
  IEEE-754 double arithmetic as the sources use it. A JavaScript number that is not known to be
  a small integer is a rational; one arithmetic operation computes the exact rational result and
  rounds it with \<open>dbl\<close>: to the nearest multiple of the unit in the last place of its binade,
  ties to even, 53 significant bits. Overflow to infinity and subnormal results are outside the
  range of every quantity modelled here (prices, rates, random fractions) and are not represented.

  The lemmas used by the components are: \<open>dbl\<close> is monotone, leaves integers up to \<open>2^53\<close>
  unchanged, and \<open>Math.round\<close>, \<open>Math.floor\<close> and \<open>Math.ceil\<close> are monotone.
\<close>

subsection \<open>Rounding to 53 bits\<close>

fun nbits :: "nat \<Rightarrow> nat" where
  "nbits n = (if n = 0 then 0 else Suc (nbits (n div 2)))"

declare nbits.simps [simp del]

definition ilog2 :: "rat \<Rightarrow> int" where
  "ilog2 x =
     (let (n, d) = quotient_of x; e = int (nbits (nat n)) - int (nbits (nat d)) in
      if 2 powi e \<le> x then e else e - 1)"

definition rne :: "rat \<Rightarrow> int" where
  "rne x = (let f = \<lfloor>x\<rfloor>; r = x - of_int f in
            if r < 1 / 2 then f else if 1 / 2 < r then f + 1 else if even f then f else f + 1)"

definition dbl :: "rat \<Rightarrow> rat" where
  "dbl x = (if x = 0 then 0
            else (let u = 2 powi (ilog2 \<bar>x\<bar> - 52) in sgn x * of_int (rne (\<bar>x\<bar> / u)) * u))"

text \<open>\<open>Math.round\<close> rounds halves up; \<open>Math.floor\<close> and \<open>Math.ceil\<close> are exact on doubles.\<close>

definition js_round :: "rat \<Rightarrow> int" where
  "js_round x = \<lfloor>x + 1 / 2\<rfloor>"

subsection \<open>The binade of a positive rational\<close>

lemma nbits_bounds: "0 < n \<Longrightarrow> 2 ^ (nbits n - 1) \<le> n \<and> n < 2 ^ nbits n"
proof (induction n rule: nbits.induct)
  case (1 n)
  show ?case
  proof (cases "n = 1")
    case True
    then show ?thesis by (simp add: nbits.simps)
  next
    case False
    with 1 have pos: "0 < n div 2" and IH: "2 ^ (nbits (n div 2) - 1) \<le> n div 2" "n div 2 < 2 ^ nbits (n div 2)"
      by auto
    have eq: "nbits n = Suc (nbits (n div 2))" using 1 by (subst nbits.simps) simp
    have "0 < nbits (n div 2)" using pos by (subst nbits.simps) simp
    then obtain k where k: "nbits (n div 2) = Suc k" by (cases "nbits (n div 2)") auto
    from IH k have "2 ^ k \<le> n div 2" "n div 2 < 2 * 2 ^ k" by auto
    then have "2 * 2 ^ k \<le> n" "n < 4 * 2 ^ k" by linarith+
    with eq k show ?thesis by simp
  qed
qed

lemma nbits_pos: "0 < n \<Longrightarrow> 0 < nbits n"
  by (subst nbits.simps) simp

lemma ilog2_bounds:
  assumes "0 < x"
  shows "2 powi ilog2 x \<le> x \<and> x < 2 powi (ilog2 x + 1)"
proof -
  obtain n d where q: "quotient_of x = (n, d)" by fastforce
  have x: "x = of_int n / of_int d" and d: "0 < d" and n: "0 < n"
    using q quotient_of_div[OF q] quotient_of_denom_pos[OF q] assms
    by (auto simp: zero_less_divide_iff)
  let ?a = "nbits (nat n)" and ?b = "nbits (nat d)"
  let ?e = "int ?a - int ?b"
  have pos: "0 < ?a" "0 < ?b" using n d by (simp_all add: nbits_pos)
  have "2 ^ (?a - 1) \<le> nat n" "nat n < 2 ^ ?a" "2 ^ (?b - 1) \<le> nat d" "nat d < 2 ^ ?b"
    using nbits_bounds[of "nat n"] nbits_bounds[of "nat d"] n d by auto
  then have "2 ^ (?a - 1) \<le> n" "n < 2 ^ ?a" "2 ^ (?b - 1) \<le> d" "d < 2 ^ ?b"
    using n d by (simp_all add: nat_less_iff le_nat_iff)
  then have N: "(2::rat) ^ (?a - 1) \<le> of_int n" "of_int n < (2::rat) ^ ?a"
    and D: "(2::rat) ^ (?b - 1) \<le> of_int d" "of_int d < (2::rat) ^ ?b"
    by (metis of_int_le_iff of_int_less_iff of_int_numeral of_int_power)+
  have dpos: "0 < (of_int d :: rat)" using d by simp
  have pa: "(2::rat) ^ ?a = 2 * 2 ^ (?a - 1)" and pb: "(2::rat) ^ ?b = 2 * 2 ^ (?b - 1)"
    using pos by (metis Suc_pred' power_Suc)+
  have e: "(2::rat) powi ?e = 2 ^ ?a / 2 ^ ?b"
    by (simp add: power_int_diff)
  have e1: "(2::rat) powi (?e - 1) = 2 ^ ?a / 2 ^ ?b / 2" "(2::rat) powi (?e + 1) = 2 ^ ?a / 2 ^ ?b * 2"
    by (simp_all add: power_int_diff power_int_add)
  have "2 ^ ?a / 2 ^ ?b / 2 \<le> x"
  proof -
    have "2 ^ ?a / 2 ^ ?b / 2 = 2 ^ (?a - 1) / (2::rat) ^ ?b" by (simp add: pa)
    also have "\<dots> \<le> of_int n / of_int d"
      using N D dpos n by (intro frac_le) auto
    finally show ?thesis by (simp add: x)
  qed
  moreover have "x < 2 ^ ?a / 2 ^ ?b * 2"
  proof -
    have "of_int n / of_int d < (2::rat) ^ ?a / of_int d"
      using N dpos by (simp add: divide_strict_right_mono)
    also have "\<dots> \<le> 2 ^ ?a / 2 ^ (?b - 1)" using D dpos by (intro divide_left_mono) auto
    also have "\<dots> = 2 ^ ?a / 2 ^ ?b * 2" by (simp add: pb)
    finally show ?thesis by (simp add: x)
  qed
  ultimately show ?thesis using e e1 q by (auto simp: ilog2_def Let_def)
qed

lemma powi2_mono: "a \<le> b \<Longrightarrow> (2::rat) powi a \<le> 2 powi b"
  by (rule power_int_increasing) auto

lemma ilog2_eqI:
  assumes "2 powi e \<le> x" and "x < 2 powi (e + 1)"
  shows "ilog2 x = e"
proof -
  have x: "0 < x" using assms(1) by (rule less_le_trans[rotated]) simp
  show ?thesis
  proof (rule ccontr)
    assume "ilog2 x \<noteq> e"
    then consider "e + 1 \<le> ilog2 x" | "ilog2 x + 1 \<le> e" by linarith
    then show False
      using ilog2_bounds[OF x] assms powi2_mono[of "e + 1" "ilog2 x"] powi2_mono[of "ilog2 x + 1" e]
      by cases auto
  qed
qed

lemma ilog2_mono: "0 < x \<Longrightarrow> x \<le> y \<Longrightarrow> ilog2 x \<le> ilog2 y"
proof (rule ccontr)
  assume x: "0 < x" "x \<le> y" and "\<not> ilog2 x \<le> ilog2 y"
  then have "(2::rat) powi (ilog2 y + 1) \<le> 2 powi ilog2 x" by (intro powi2_mono) simp
  with x ilog2_bounds[of x] ilog2_bounds[of y] show False by auto
qed

subsection \<open>Rounding is monotone and exact on small integers\<close>

lemma rne_bounds: "\<lfloor>x\<rfloor> \<le> rne x" "rne x \<le> \<lfloor>x\<rfloor> + 1"
  by (auto simp: rne_def Let_def)

lemma rne_of_int [simp]: "rne (of_int k) = k"
  by (simp add: rne_def)

lemma rne_mono: "x \<le> y \<Longrightarrow> rne x \<le> rne y"
proof (cases "\<lfloor>x\<rfloor> = \<lfloor>y\<rfloor>")
  case True
  moreover assume "x \<le> y"
  ultimately show ?thesis by (auto simp: rne_def Let_def)
next
  case False
  assume "x \<le> y"
  then have "\<lfloor>x\<rfloor> \<le> \<lfloor>y\<rfloor>" by (rule floor_mono)
  with False have "\<lfloor>x\<rfloor> + 1 \<le> \<lfloor>y\<rfloor>" by simp
  then show ?thesis using rne_bounds(2)[of x] rne_bounds(1)[of y] by linarith
qed

lemma dbl_0 [simp]: "dbl 0 = 0"
  by (simp add: dbl_def)

lemma dbl_pos: "0 < x \<Longrightarrow> dbl x = of_int (rne (x / 2 powi (ilog2 x - 52))) * 2 powi (ilog2 x - 52)"
  by (simp add: dbl_def Let_def sgn_if)

lemma dbl_neg: "dbl (- x) = - dbl x"
  by (simp add: dbl_def Let_def sgn_if)

text \<open>Evaluation: the binade and the significand are given, and only compared with.\<close>

lemma rne_eqI: "of_int k - 1 / 2 < x \<Longrightarrow> x < of_int k + 1 / 2 \<Longrightarrow> rne x = k"
proof -
  assume x: "of_int k - 1 / 2 < x" "x < of_int k + 1 / 2"
  show ?thesis
  proof (cases "of_int k \<le> x")
    case True
    with x have "\<lfloor>x\<rfloor> = k" by (simp add: floor_eq_iff)
    with x show ?thesis by (simp add: rne_def)
  next
    case False
    with x have "\<lfloor>x\<rfloor> = k - 1" by (simp add: floor_eq_iff)
    with x show ?thesis by (simp add: rne_def)
  qed
qed

lemma dbl_eqI:
  assumes "2 powi e \<le> x" and "x < 2 powi (e + 1)"
    and "of_int k - 1 / 2 < x / 2 powi (e - 52)" and "x / 2 powi (e - 52) < of_int k + 1 / 2"
  shows "dbl x = of_int k * 2 powi (e - 52)"
proof -
  have "0 < x" using assms(1) by (rule less_le_trans[rotated]) simp
  then show ?thesis using dbl_pos[of x] ilog2_eqI[OF assms(1,2)] rne_eqI[OF assms(3,4)] by simp
qed

text \<open>A rounded value stays in the closed binade of its argument.\<close>

lemma dbl_binade:
  assumes "0 < x"
  shows "2 powi ilog2 x \<le> dbl x \<and> dbl x \<le> 2 powi (ilog2 x + 1)"
proof -
  let ?u = "(2::rat) powi (ilog2 x - 52)"
  have u: "0 < ?u" by simp
  have lo: "of_int (2 ^ 52) * ?u = 2 powi ilog2 x"
    by (simp add: power_int_diff)
  have hi: "of_int (2 ^ 53) * ?u = 2 powi (ilog2 x + 1)"
    by (simp add: power_int_diff power_int_add)
  have "of_int (2 ^ 52) * ?u \<le> x" "x \<le> of_int (2 ^ 53) * ?u"
    using ilog2_bounds[OF assms] unfolding lo hi by auto
  then have "of_int (2 ^ 52) \<le> x / ?u" "x / ?u \<le> of_int (2 ^ 53)"
    using u by (simp_all add: pos_le_divide_eq pos_divide_le_eq)
  then have "2 ^ 52 \<le> rne (x / ?u)" "rne (x / ?u) \<le> 2 ^ 53"
    using rne_mono[of "of_int (2 ^ 52)" "x / ?u"] rne_mono[of "x / ?u" "of_int (2 ^ 53)"]
    unfolding rne_of_int by auto
  then have "of_int (2 ^ 52) * ?u \<le> dbl x" "dbl x \<le> of_int (2 ^ 53) * ?u"
    unfolding dbl_pos[OF assms] using u by (intro mult_right_mono; simp)+
  then show ?thesis unfolding lo hi by simp
qed

lemma dbl_mono_pos:
  assumes "0 < x" and "x \<le> y"
  shows "dbl x \<le> dbl y"
proof (cases "ilog2 x = ilog2 y")
  case True
  have "0 < y" using assms by simp
  have "x / 2 powi (ilog2 y - 52) \<le> y / 2 powi (ilog2 y - 52)"
    using assms(2) by (intro divide_right_mono) auto
  from rne_mono[OF this] show ?thesis
    unfolding dbl_pos[OF assms(1)] dbl_pos[OF \<open>0 < y\<close>] True by (intro mult_right_mono) auto
next
  case False
  with ilog2_mono[OF assms] have "(2::rat) powi (ilog2 x + 1) \<le> 2 powi ilog2 y"
    by (intro powi2_mono) simp
  then show ?thesis using dbl_binade[of x] dbl_binade[of y] assms by auto
qed

lemma dbl_nonneg: "0 \<le> x \<Longrightarrow> 0 \<le> dbl x"
proof (cases "x = 0")
  case False
  moreover assume "0 \<le> x"
  ultimately have "0 < x" by simp
  then have "2 powi ilog2 x \<le> dbl x" using dbl_binade by simp
  then show ?thesis by (rule order_trans[rotated]) simp
qed simp

lemma dbl_mono: "x \<le> y \<Longrightarrow> dbl x \<le> dbl y"
proof -
  assume "x \<le> y"
  consider "0 < x" | "x \<le> 0 \<and> 0 \<le> y" | "y < 0" by linarith
  then show ?thesis
  proof cases
    case 1 then show ?thesis using \<open>x \<le> y\<close> by (rule dbl_mono_pos)
  next
    case 2
    then have "0 \<le> dbl (- x)" "0 \<le> dbl y" by (simp_all add: dbl_nonneg del: dbl_neg)
    then show ?thesis by (simp add: dbl_neg)
  next
    case 3
    then have "dbl (- y) \<le> dbl (- x)" using \<open>x \<le> y\<close> by (intro dbl_mono_pos) auto
    then show ?thesis by (simp add: dbl_neg)
  qed
qed

lemma dbl_nat_exact:
  assumes "0 < k" and "k < 2 ^ 53"
  shows "dbl (of_int k) = of_int k"
proof -
  let ?x = "of_int k :: rat" and ?e = "ilog2 (of_int k)"
  have x: "0 < ?x" using assms by simp
  have "2 powi ?e < (2::rat) powi 53"
  proof -
    have "2 powi ?e \<le> ?x" using ilog2_bounds[OF x] by simp
    also have "?x < of_int (2 ^ 53)" using assms(2) by (simp only: of_int_less_iff)
    finally show ?thesis by simp
  qed
  then have e: "?e \<le> 52" using powi2_mono[of 53 ?e] by (cases "?e \<le> 52") auto
  have "(2::rat) powi (?e - 52) = 1 / of_int (2 ^ nat (52 - ?e))"
    using e by (auto simp: power_int_def inverse_eq_divide power_one_over)
  then have "?x / 2 powi (?e - 52) = of_int (k * 2 ^ nat (52 - ?e))" by simp
  then have "dbl ?x = of_int (k * 2 ^ nat (52 - ?e)) * 2 powi (?e - 52)"
    unfolding dbl_pos[OF x] by (simp only: rne_of_int)
  also have "\<dots> = ?x"
    using \<open>?x / 2 powi (?e - 52) = of_int (k * 2 ^ nat (52 - ?e))\<close>
    by (metis nonzero_eq_divide_eq power_int_not_zero zero_neq_numeral)
  finally show ?thesis .
qed

lemma dbl_of_int: "\<bar>k\<bar> < 2 ^ 53 \<Longrightarrow> dbl (of_int k) = of_int k"
proof (cases "0 \<le> k")
  case True
  moreover assume "\<bar>k\<bar> < 2 ^ 53"
  ultimately show ?thesis by (cases "k = 0") (auto simp: dbl_nat_exact)
next
  case False
  moreover assume "\<bar>k\<bar> < 2 ^ 53"
  ultimately have "dbl (of_int (- k)) = of_int (- k)" by (intro dbl_nat_exact) auto
  then show ?thesis by (simp add: dbl_neg)
qed

lemma js_round_mono: "x \<le> y \<Longrightarrow> js_round x \<le> js_round y"
  by (simp add: js_round_def floor_mono)

lemma js_round_of_int [simp]: "js_round (of_int k) = k"
  by (simp add: js_round_def floor_eq_iff)

end
