(* ===== verification/CuPow.thy ===== *)
theory CuPow
  imports Transcript Doubles
begin

text \<open>
  The proof-of-useful-work algorithm (\<^verbatim>\<open>pouw/src/cupow.ts\<close>): the SHA-256 counter-mode random
  source, low-rank noise, encoding and decoding, the proof hash, the difficulty test, the two
  solvers and the verifier. SHA-256 is the parameter \<open>H\<close>; the only thing assumed of it, where a
  digest is read as words, is \<open>digest32 H\<close>: a digest has 32 bytes. \<^verbatim>\<open>Date.now()\<close> is the
  parameter \<open>now\<close>.

  Shown here: the noise never changes the answer (decoding the noisy product gives the exact
  product of the field matrices), every certificate a solver returns is accepted by the verifier,
  the solver for assigned work always returns, and the difficulty test is a bound on the number
  the digest denotes.
\<close>

subsection \<open>Random source\<close>

record prng =
  counter :: nat
  block :: bytes
  offset :: nat

definition prng_init :: prng where
  "prng_init = \<lparr>counter = 0, block = [], offset = 32\<rparr>"

text \<open>\<^verbatim>\<open>Buffer.readUInt32BE\<close>: out of range throws.\<close>

definition readUInt32BE :: "bytes \<Rightarrow> nat \<Rightarrow> int option" where
  "readUInt32BE b ofs =
     (if ofs + 4 \<le> length b
      then Some (((uint (b ! ofs) * 256 + uint (b ! (ofs + 1))) * 256 + uint (b ! (ofs + 2))) * 256 + uint (b ! (ofs + 3)))
      else None)"

definition makePRNG :: "digest \<Rightarrow> string \<Rightarrow> prng \<Rightarrow> (rat \<times> prng) option" where
  "makePRNG H hexSeed st =
     (let st' = (if 32 \<le> offset st
                 then \<lparr>counter = Suc (counter st),
                       block = H (utf8 hexSeed @ utf8 (dec_digits (counter st))), offset = 0\<rparr>
                 else st) in
      map_option (\<lambda>v. (of_int v / 2 ^ 32, st'\<lparr>offset := offset st' + 4\<rparr>))
        (readUInt32BE (block st') (offset st')))"

text \<open>
  \<^verbatim>\<open>Math.floor(rng() * PRIME_N) % PRIME_N\<close>: the product is one rounded double operation.
\<close>

definition field_of_fraction :: "rat \<Rightarrow> int" where
  "field_of_fraction q = \<lfloor>dbl (q * of_int PRIME)\<rfloor> smod PRIME"

definition matRandom :: "nat \<Rightarrow> nat \<Rightarrow> ('s \<Rightarrow> (rat \<times> 's) option) \<Rightarrow> 's \<Rightarrow> (matrix \<times> 's) option" where
  "matRandom r c rng s =
     (let m = matCreate r c in
      map_option (\<lambda>(d, s'). (m\<lparr>data := d\<rparr>, s'))
        (for_range 0 (length (data m))
          (\<lambda>i (d, s). case rng s of None \<Rightarrow> None
             | Some (q, s') \<Rightarrow> map_option (\<lambda>d'. (d', s')) (js_set d i (field_of_fraction q)))
          (data m, s)))"

subsection \<open>Block size\<close>

text \<open>
  \<^verbatim>\<open>Math.floor(Math.pow(n, 0.3))\<close>, the largest \<open>k\<close> with \<open>k^10 \<le> n^3\<close>. The double
  computation agrees with it for every dimension below 1024 (at 1024 the exact power is 8 and the
  double one is just below it); assigned jobs have dimensions of at most 256.
\<close>

function root_from :: "nat \<Rightarrow> nat \<Rightarrow> nat" where
  "root_from k n = (if Suc k ^ 10 \<le> n ^ 3 then root_from (Suc k) n else k)"
  by pat_completeness auto
termination
proof (relation "measure (\<lambda>(k, n). n ^ 3 - k)")
  fix k n :: nat
  assume "Suc k ^ 10 \<le> n ^ 3"
  moreover have "Suc k \<le> Suc k ^ 10" by (rule self_le_power) auto
  ultimately show "((Suc k, n), (k, n)) \<in> measure (\<lambda>(k, n). n ^ 3 - k)" by simp
qed simp

declare root_from.simps [simp del]

definition floor_pow_0_3 :: "nat \<Rightarrow> nat" where
  "floor_pow_0_3 n = root_from 0 n"

function next_divisor :: "nat \<Rightarrow> nat \<Rightarrow> nat" where
  "next_divisor n r = (if n mod r \<noteq> 0 \<and> r \<le> n then next_divisor n (Suc r) else r)"
  by pat_completeness auto
termination
  by (relation "measure (\<lambda>(n, r). Suc n - r)") auto

declare next_divisor.simps [simp del]

definition chooseBlockSize :: "nat \<Rightarrow> nat" where
  "chooseBlockSize n =
     (let r = next_divisor n (max 4 (floor_pow_0_3 n)) in if n < r then n else r)"

subsection \<open>Noise, encoding, decoding\<close>

definition generateLowRankNoise ::
    "digest \<Rightarrow> string \<Rightarrow> string \<Rightarrow> nat \<Rightarrow> nat \<Rightarrow> (matrix \<times> matrix \<times> matrix) option" where
  "generateLowRankNoise H sigma label n r =
     (let seed = hexdigest H (utf8 (sigma @ label)); rng = makePRNG H seed in
      case matRandom n r rng prng_init of None \<Rightarrow> None | Some (EL, st) \<Rightarrow>
      (case matRandom r n rng st of None \<Rightarrow> None | Some (ER, _) \<Rightarrow>
        map_option (\<lambda>E. (EL, ER, E)) (matMul EL ER)))"

definition matHash :: "digest \<Rightarrow> matrix \<Rightarrow> string" where
  "matHash H m = hexdigest H (matToBytes m)"

definition computeZ :: "digest \<Rightarrow> string \<Rightarrow> string \<Rightarrow> string \<Rightarrow> string \<Rightarrow> string" where
  "computeZ H sigma transcriptHash matrixAHash matrixBHash =
     hexdigest H (utf8 sigma @ utf8 transcriptHash @ utf8 matrixAHash @ utf8 matrixBHash)"

definition meetsDifficulty :: "string \<Rightarrow> nat \<Rightarrow> bool" where
  "meetsDifficulty z difficulty =
     (let fullBytes = difficulty div 8; remainBits = difficulty mod 8 in
      if take (fullBytes * 2) z \<noteq> replicate (2 * fullBytes) CHR ''0'' then False
      else if remainBits = 0 then True
      else (case parse_hex (take 2 (drop (fullBytes * 2) z)) of
              None \<Rightarrow> False | Some nextByte \<Rightarrow> nextByte < 2 ^ (8 - remainBits)))"

record encoding =
  Aprime :: matrix
  Bprime :: matrix
  EL :: matrix
  ER :: matrix
  FL :: matrix
  FR :: matrix

definition encode :: "digest \<Rightarrow> string \<Rightarrow> matrix \<Rightarrow> matrix \<Rightarrow> nat \<Rightarrow> encoding option" where
  "encode H sigma A B r =
     (case generateLowRankNoise H sigma ''noise_E'' (rows A) r of None \<Rightarrow> None
      | Some (el, er, e) \<Rightarrow>
     (case generateLowRankNoise H sigma ''noise_F'' (rows B) r of None \<Rightarrow> None
      | Some (fl, fr, f) \<Rightarrow>
     (case matAdd A e of None \<Rightarrow> None | Some a' \<Rightarrow>
        map_option (\<lambda>b'. \<lparr>Aprime = a', Bprime = b', EL = el, ER = er, FL = fl, FR = fr\<rparr>) (matAdd B f))))"

definition decode ::
    "matrix \<Rightarrow> matrix \<Rightarrow> matrix \<Rightarrow> matrix \<Rightarrow> matrix \<Rightarrow> matrix \<Rightarrow> matrix \<Rightarrow> matrix option" where
  "decode A B Cprime el er fl fr =
     Option.bind (Option.bind (matMul A fl) (\<lambda>x. matMul x fr)) (\<lambda>AF.
     Option.bind (Option.bind (matMul er B) (matMul el)) (\<lambda>EB.
     Option.bind (Option.bind (Option.bind (matMul er fl) (matMul el)) (\<lambda>x. matMul x fr)) (\<lambda>EF.
     Option.bind (matSub Cprime AF) (\<lambda>x.
     Option.bind (matSub x EB) (\<lambda>y. matSub y EF)))))"

subsection \<open>Certificates, solvers and the verifier\<close>

record certificate =
  c_sigma :: string
  c_n :: nat
  c_r :: nat
  c_matrixAHash :: string
  c_matrixBHash :: string
  c_transcriptHash :: string
  c_z :: string
  c_difficulty :: nat
  c_timestamp :: int
  c_providerAddress :: string
  c_deviceId :: string
  c_matrixA :: "int list"
  c_matrixB :: "int list"
  c_workloadId :: "string option"

record solveResult =
  s_certificate :: certificate
  s_result :: "int list"

text \<open>
  One solver pass over given matrices, common to both solvers: the certificate and, lazily, the
  decoded answer.
\<close>

definition solve_pass ::
    "digest \<Rightarrow> string \<Rightarrow> nat \<Rightarrow> nat \<Rightarrow> nat \<Rightarrow> matrix \<Rightarrow> matrix \<Rightarrow> int \<Rightarrow> string \<Rightarrow> string
       \<Rightarrow> (certificate \<times> matrix option) option" where
  "solve_pass H sigma n r difficulty A B now providerAddress deviceId =
     (case encode H sigma A B r of None \<Rightarrow> None | Some enc \<Rightarrow>
     (case matMulWithTranscript H (Aprime enc) (Bprime enc) r of None \<Rightarrow> None | Some mm \<Rightarrow>
       (let ah = matHash H A; bh = matHash H B;
            z = computeZ H sigma (mm_transcriptHash mm) ah bh in
        Some (\<lparr>c_sigma = sigma, c_n = n, c_r = r, c_matrixAHash = ah, c_matrixBHash = bh,
               c_transcriptHash = mm_transcriptHash mm, c_z = z, c_difficulty = difficulty,
               c_timestamp = now, c_providerAddress = providerAddress, c_deviceId = deviceId,
               c_matrixA = data A, c_matrixB = data B, c_workloadId = None\<rparr>,
              decode A B (mm_C mm) (EL enc) (ER enc) (FL enc) (FR enc)))))"

text \<open>
  \<^verbatim>\<open>solve\<close>: \<open>None\<close> is an exception, \<open>Some None\<close> is the returned \<^verbatim>\<open>null\<close>.
\<close>

definition solve_matrices ::
    "digest \<Rightarrow> string \<Rightarrow> nat \<Rightarrow> matrix option \<Rightarrow> matrix option \<Rightarrow> (matrix \<times> matrix) option" where
  "solve_matrices H sigma n externalA externalB =
     (let rng = makePRNG H (hexdigest H (utf8 (sigma @ ''matrices''))) in
      case (case externalA of Some A \<Rightarrow> Some (A, prng_init) | None \<Rightarrow> matRandom n n rng prng_init) of
        None \<Rightarrow> None
      | Some (A, st) \<Rightarrow>
          (case (case externalB of Some B \<Rightarrow> Some (B, st) | None \<Rightarrow> matRandom n n rng st) of
             None \<Rightarrow> None | Some (B, _) \<Rightarrow> Some (A, B)))"

fun solve_from ::
    "nat \<Rightarrow> digest \<Rightarrow> string \<Rightarrow> nat \<Rightarrow> nat \<Rightarrow> string \<Rightarrow> string \<Rightarrow> nat \<Rightarrow> matrix option \<Rightarrow> matrix option
       \<Rightarrow> (nat \<Rightarrow> int) \<Rightarrow> solveResult option option" where
  "solve_from 0 H chainSeed n difficulty prov dev attempt extA extB now = Some None"
| "solve_from (Suc k) H chainSeed n difficulty prov dev attempt extA extB now =
     (let r = chooseBlockSize n;
          sigma = hexdigest H (utf8 chainSeed @ utf8 (dec_digits attempt)) in
      case solve_matrices H sigma n extA extB of None \<Rightarrow> None | Some (A, B) \<Rightarrow>
      (case solve_pass H sigma n r difficulty A B (now attempt) prov dev of None \<Rightarrow> None
       | Some (cert, C) \<Rightarrow>
           if meetsDifficulty (c_z cert) difficulty
           then map_option (\<lambda>C. Some \<lparr>s_certificate = cert, s_result = data C\<rparr>) C
           else solve_from k H chainSeed n difficulty prov dev (Suc attempt) extA extB now))"

definition solve ::
    "digest \<Rightarrow> string \<Rightarrow> nat \<Rightarrow> nat \<Rightarrow> string \<Rightarrow> string \<Rightarrow> nat \<Rightarrow> matrix option \<Rightarrow> matrix option
       \<Rightarrow> (nat \<Rightarrow> int) \<Rightarrow> solveResult option option" where
  "solve H chainSeed n difficulty prov dev maxAttempts extA extB now =
     solve_from maxAttempts H chainSeed n difficulty prov dev 0 extA extB now"

definition solveAssigned ::
    "digest \<Rightarrow> string \<Rightarrow> matrix \<Rightarrow> matrix \<Rightarrow> string \<Rightarrow> string \<Rightarrow> int \<Rightarrow> solveResult option" where
  "solveAssigned H sigma A B providerAddress deviceId now =
     (let n = rows A; r = chooseBlockSize n in
      case solve_pass H sigma n r 0 A B now providerAddress deviceId of None \<Rightarrow> None
      | Some (cert, C) \<Rightarrow> map_option (\<lambda>C. \<lparr>s_certificate = cert, s_result = data C\<rparr>) C)"

text \<open>\<^verbatim>\<open>verify\<close>: \<open>None\<close> is an exception (the caller in \<^verbatim>\<open>work-types.ts\<close> catches it).\<close>

definition verify :: "digest \<Rightarrow> certificate \<Rightarrow> bool option" where
  "verify H cert =
     (let A = \<lparr>rows = c_n cert, cols = c_n cert, data = c_matrixA cert\<rparr>;
          B = \<lparr>rows = c_n cert, cols = c_n cert, data = c_matrixB cert\<rparr> in
      if matHash H A \<noteq> c_matrixAHash cert then Some False
      else if matHash H B \<noteq> c_matrixBHash cert then Some False
      else (case encode H (c_sigma cert) A B (c_r cert) of None \<Rightarrow> None | Some enc \<Rightarrow>
           (case matMulWithTranscript H (Aprime enc) (Bprime enc) (c_r cert) of None \<Rightarrow> None | Some mm \<Rightarrow>
             if mm_transcriptHash mm \<noteq> c_transcriptHash cert then Some False
             else if computeZ H (c_sigma cert) (c_transcriptHash cert) (c_matrixAHash cert) (c_matrixBHash cert)
                       \<noteq> c_z cert then Some False
             else if \<not> meetsDifficulty (c_z cert) (c_difficulty cert) then Some False
             else Some True)))"

subsection \<open>The random source never fails and yields field elements\<close>

definition digest32 :: "digest \<Rightarrow> bool" where
  "digest32 H \<longleftrightarrow> (\<forall>x. length (H x) = 32)"

definition prng_ok :: "prng \<Rightarrow> bool" where
  "prng_ok st \<longleftrightarrow> offset st \<le> 32 \<and> 4 dvd offset st \<and> (offset st < 32 \<longrightarrow> length (block st) = 32)"

lemma prng_ok_init [simp]: "prng_ok prng_init"
  by (simp add: prng_ok_def prng_init_def)

lemma readUInt32BE_nonneg: "readUInt32BE b k = Some v \<Longrightarrow> 0 \<le> v"
  by (auto simp: readUInt32BE_def split: if_splits)

lemma makePRNG_ok:
  assumes "digest32 H" and "prng_ok st"
  shows "\<exists>q st'. makePRNG H seed st = Some (q, st') \<and> prng_ok st' \<and> 0 \<le> q"
proof -
  define st1 where "st1 = (if 32 \<le> offset st
                 then \<lparr>counter = Suc (counter st),
                       block = H (utf8 seed @ utf8 (dec_digits (counter st))), offset = 0\<rparr>
                 else st)"
  have st1: "offset st1 < 32" "4 dvd offset st1" "length (block st1) = 32"
    using assms by (auto simp: st1_def prng_ok_def digest32_def)
  then have "offset st1 + 4 \<le> 32" by (auto elim!: dvdE)
  with st1 obtain v where v: "readUInt32BE (block st1) (offset st1) = Some v"
    by (simp add: readUInt32BE_def)
  then have "makePRNG H seed st = Some (of_int v / 2 ^ 32, st1\<lparr>offset := offset st1 + 4\<rparr>)"
    by (simp add: makePRNG_def Let_def st1_def[symmetric])
  moreover have "prng_ok (st1\<lparr>offset := offset st1 + 4\<rparr>)"
    using st1 \<open>offset st1 + 4 \<le> 32\<close> by (simp add: prng_ok_def)
  moreover have "0 \<le> (of_int v / 2 ^ 32 :: rat)" using readUInt32BE_nonneg[OF v] by simp
  ultimately show ?thesis by blast
qed

lemma field_of_fraction_ok: "0 \<le> q \<Longrightarrow> in_field (field_of_fraction q)"
  by (simp add: field_of_fraction_def smod_nonneg dbl_nonneg)

lemma matRandom_ok:
  assumes rng: "\<And>s. I s \<Longrightarrow> \<exists>q s'. rng s = Some (q, s') \<and> I s' \<and> 0 \<le> q" and "I s"
  obtains m s' where "matRandom r c rng s = Some (m, s')" "mat_wf r c m" "mat_field m" "I s'"
proof -
  let ?body = "\<lambda>i (d, s). case rng s of None \<Rightarrow> None
             | Some (q, s') \<Rightarrow> map_option (\<lambda>d'. (d', s')) (js_set d i (field_of_fraction q))"
  let ?J = "\<lambda>i (d, s). length d = r * c \<and> (\<forall>k < r * c. in_field (d ! k)) \<and> I s"
  have "\<exists>st. for_range 0 (r * c) ?body (replicate (r * c) 0, s) = Some st \<and> ?J (r * c) st"
  proof (rule for_range_rule[where I = ?J])
    show "?J 0 (replicate (r * c) 0, s)" using assms(2) by (simp add: in_field_def)
    fix i st assume i: "i < r * c" and "?J i st"
    then obtain d t where st: "st = (d, t)" "length d = r * c" "\<forall>k < r * c. in_field (d ! k)" "I t"
      by (cases st) auto
    obtain q t' where q: "rng t = Some (q, t')" "I t'" "0 \<le> q" using rng[OF st(4)] by blast
    with st i show "\<exists>st'. ?body i st = Some st' \<and> ?J (Suc i) st'"
      by (auto simp: nth_list_update field_of_fraction_ok)
  qed
  then obtain d s' where d: "for_range 0 (r * c) ?body (replicate (r * c) 0, s) = Some (d, s')"
    "length d = r * c" "\<forall>k < r * c. in_field (d ! k)" "I s'"
    by auto
  show thesis
  proof (rule that)
    show "matRandom r c rng s = Some (\<lparr>rows = r, cols = c, data = d\<rparr>, s')"
      using d(1) by (simp add: matRandom_def matCreate_def Let_def)
  qed (use d in \<open>auto simp: mat_wf_def mat_field_def in_set_conv_nth\<close>)
qed

subsection \<open>The algebra of decoding\<close>

text \<open>Integer matrices as index functions, multiplied over an inner dimension \<open>n\<close>.\<close>

type_synonym imat = "nat \<Rightarrow> nat \<Rightarrow> int"

definition mm :: "nat \<Rightarrow> imat \<Rightarrow> imat \<Rightarrow> imat" where
  "mm n X Y i j = (\<Sum>t < n. X i t * Y t j)"

lemma mm_assoc: "mm n (mm k X Y) Z i j = mm k X (mm n Y Z) i j"
proof -
  have "mm n (mm k X Y) Z i j = (\<Sum>t < n. \<Sum>s < k. X i s * Y s t * Z t j)"
    by (simp add: mm_def sum_distrib_right)
  also have "\<dots> = (\<Sum>s < k. \<Sum>t < n. X i s * Y s t * Z t j)" by (rule sum.swap)
  also have "\<dots> = mm k X (mm n Y Z) i j" by (simp add: mm_def sum_distrib_left mult.assoc)
  finally show ?thesis .
qed

lemma mm_add_left: "mm n (\<lambda>i j. X i j + Y i j) Z i j = mm n X Z i j + mm n Y Z i j"
  by (simp add: mm_def distrib_right sum.distrib)

lemma mm_add_right: "mm n X (\<lambda>i j. Y i j + Z i j) i j = mm n X Y i j + mm n X Z i j"
  by (simp add: mm_def distrib_left sum.distrib)

text \<open>Congruence of the entries of an \<open>r\<close>-by-\<open>c\<close> matrix modulo the prime.\<close>

definition cg :: "nat \<Rightarrow> nat \<Rightarrow> imat \<Rightarrow> imat \<Rightarrow> bool" where
  "cg r c X Y \<longleftrightarrow> (\<forall>i < r. \<forall>j < c. X i j mod PRIME = Y i j mod PRIME)"

lemma cg_refl [simp]: "cg r c X X"
  by (simp add: cg_def)

lemma cg_sym: "cg r c X Y \<Longrightarrow> cg r c Y X"
  by (simp add: cg_def)

lemma cg_trans: "cg r c X Y \<Longrightarrow> cg r c Y Z \<Longrightarrow> cg r c X Z"
  by (simp add: cg_def)

lemma cg_mod: "cg r c (\<lambda>i j. X i j mod PRIME) X"
  by (simp add: cg_def)

lemma cg_add: "cg r c X X' \<Longrightarrow> cg r c Y Y' \<Longrightarrow> cg r c (\<lambda>i j. X i j + Y i j) (\<lambda>i j. X' i j + Y' i j)"
  unfolding cg_def by (metis mod_add_cong)

lemma cg_diff: "cg r c X X' \<Longrightarrow> cg r c Y Y' \<Longrightarrow> cg r c (\<lambda>i j. X i j - Y i j) (\<lambda>i j. X' i j - Y' i j)"
  unfolding cg_def by (metis mod_diff_cong)

lemma cg_mm:
  assumes "cg r n X X'" and "cg n c Y Y'"
  shows "cg r c (mm n X Y) (mm n X' Y')"
  unfolding cg_def
proof (intro allI impI)
  fix i j assume ij: "i < r" "j < c"
  have "X i t * Y t j mod PRIME = X' i t * Y' t j mod PRIME" if "t < n" for t
    by (rule mod_mult_cong) (use assms ij that in \<open>auto simp: cg_def\<close>)
  then have "(\<Sum>t < n. X i t * Y t j mod PRIME) = (\<Sum>t < n. X' i t * Y' t j mod PRIME)" by simp
  then show "mm n X Y i j mod PRIME = mm n X' Y' i j mod PRIME"
    using mod_sum_eq[of "\<lambda>t. X i t * Y t j" PRIME "{..<n}"]
      mod_sum_eq[of "\<lambda>t. X' i t * Y' t j" PRIME "{..<n}"] by (simp add: mm_def)
qed

lemma cg_field_eq:
  assumes "mat_wf r c a" "mat_field a" "mat_wf r c b" "mat_field b" "cg r c (entry a) (entry b)"
  shows "a = b"
  by (rule mat_eqI[OF assms(1,3)])
    (use assms mat_field_entry[OF assms(2,1)] mat_field_entry[OF assms(4,3)] in \<open>auto simp: cg_def in_field_mod_id\<close>)

lemma matMul_cg:
  assumes "mul_ok m n p a b"
  obtains c where "matMul a b = Some c" "mat_wf m p c" "mat_field c" "cg m p (entry c) (mm n (entry a) (entry b))"
proof -
  obtain c where c: "matMul a b = Some c" "mat_wf m p c" "mat_field c"
    "\<And>i j. i < m \<Longrightarrow> j < p \<Longrightarrow> entry c i j = (\<Sum>t < n. entry a i t * entry b t j) mod PRIME"
    using matMul_field[OF assms] by metis
  then show thesis using that by (simp add: cg_def mm_def)
qed

lemma matAdd_cg:
  assumes "mat_wf r c a" and "mat_wf r c b"
  obtains m where "matAdd a b = Some m" "mat_wf r c m" "mat_field m"
    "cg r c (entry m) (\<lambda>i j. entry a i j + entry b i j)"
  using matAdd_wf[OF assms] by (metis (no_types, lifting) cg_def mod_mod_trivial)

lemma matSub_cg:
  assumes "mat_wf r c a" and "mat_wf r c b"
  obtains m where "matSub a b = Some m" "mat_wf r c m" "mat_field m"
    "cg r c (entry m) (\<lambda>i j. entry a i j - entry b i j)"
  using matSub_wf[OF assms] by (metis (no_types, lifting) cg_def mod_mod_trivial)

lemma generateLowRankNoise_ok:
  assumes "digest32 H"
  obtains el er e where "generateLowRankNoise H sigma label n r = Some (el, er, e)"
    "mat_wf n r el" "mat_wf r n er" "mat_wf n n e" "mat_field el" "mat_field er" "mat_field e"
    "cg n n (entry e) (mm r (entry el) (entry er))"
proof -
  let ?rng = "makePRNG H (hexdigest H (utf8 (sigma @ label)))"
  note rng = makePRNG_ok[OF assms, of _ "hexdigest H (utf8 (sigma @ label))"]
  obtain el st where el: "matRandom n r ?rng prng_init = Some (el, st)" "mat_wf n r el" "mat_field el" "prng_ok st"
    using matRandom_ok[of prng_ok ?rng prng_init n r] rng by (metis prng_ok_init)
  obtain er st' where er: "matRandom r n ?rng st = Some (er, st')" "mat_wf r n er" "mat_field er"
    using matRandom_ok[of prng_ok ?rng st r n] rng el(4) by metis
  have "mul_ok n r n el er" using el er by (simp add: mul_ok_def)
  then obtain e where "matMul el er = Some e" "mat_wf n n e" "mat_field e"
    "cg n n (entry e) (mm r (entry el) (entry er))"
    by (rule matMul_cg)
  with el er show thesis using that by (simp add: generateLowRankNoise_def)
qed

text \<open>What the encoding of two \<open>n\<close>-by-\<open>n\<close> field matrices satisfies.\<close>

definition encoding_of :: "nat \<Rightarrow> nat \<Rightarrow> matrix \<Rightarrow> matrix \<Rightarrow> encoding \<Rightarrow> bool" where
  "encoding_of n r A B enc \<longleftrightarrow>
     mul_ok n n n (Aprime enc) (Bprime enc) \<and>
     mul_ok n r n (EL enc) (ER enc) \<and> mul_ok n r n (FL enc) (FR enc) \<and>
     cg n n (entry (Aprime enc)) (\<lambda>i j. entry A i j + mm r (entry (EL enc)) (entry (ER enc)) i j) \<and>
     cg n n (entry (Bprime enc)) (\<lambda>i j. entry B i j + mm r (entry (FL enc)) (entry (FR enc)) i j)"

lemma encode_ok:
  assumes "digest32 H" and "mul_ok n n n A B"
  obtains enc where "encode H sigma A B r = Some enc" "encoding_of n r A B enc"
proof -
  have wf: "mat_wf n n A" "mat_wf n n B" and rows: "rows A = n" "rows B = n"
    using assms(2) by (auto simp: mul_ok_def mat_wf_def)
  obtain el er e where E: "generateLowRankNoise H sigma ''noise_E'' n r = Some (el, er, e)"
    "mat_wf n r el" "mat_wf r n er" "mat_wf n n e" "mat_field el" "mat_field er" "mat_field e"
    "cg n n (entry e) (mm r (entry el) (entry er))"
    using generateLowRankNoise_ok[OF assms(1)] by metis
  obtain fl fr f where F: "generateLowRankNoise H sigma ''noise_F'' n r = Some (fl, fr, f)"
    "mat_wf n r fl" "mat_wf r n fr" "mat_wf n n f" "mat_field fl" "mat_field fr" "mat_field f"
    "cg n n (entry f) (mm r (entry fl) (entry fr))"
    using generateLowRankNoise_ok[OF assms(1)] by metis
  obtain a where a: "matAdd A e = Some a" "mat_wf n n a" "mat_field a"
    "cg n n (entry a) (\<lambda>i j. entry A i j + entry e i j)" using matAdd_cg[OF wf(1) E(4)] .
  obtain b where b: "matAdd B f = Some b" "mat_wf n n b" "mat_field b"
    "cg n n (entry b) (\<lambda>i j. entry B i j + entry f i j)" using matAdd_cg[OF wf(2) F(4)] .
  let ?enc = "\<lparr>Aprime = a, Bprime = b, EL = el, ER = er, FL = fl, FR = fr\<rparr>"
  have "encode H sigma A B r = Some ?enc"
    using E(1) F(1) a(1) b(1) rows by (simp add: encode_def)
  moreover have "encoding_of n r A B ?enc"
    using E F a b by (auto simp: encoding_of_def mul_ok_def intro: cg_trans[OF _ cg_add])
  ultimately show thesis by (rule that)
qed

text \<open>Decoding undoes the noise: the result is the product \<^verbatim>\<open>matMul A B\<close> of the clean matrices.\<close>

lemma decode_encoding:
  assumes AB: "mul_ok n n n A B" and enc: "encoding_of n r A B enc"
    and C': "matMul (Aprime enc) (Bprime enc) = Some C'"
  shows "\<exists>C. decode A B C' (EL enc) (ER enc) (FL enc) (FR enc) = Some C \<and> matMul A B = Some C"
proof -
  let ?a = "entry A" and ?b = "entry B" and ?el = "entry (EL enc)" and ?er = "entry (ER enc)"
    and ?fl = "entry (FL enc)" and ?fr = "entry (FR enc)"
  note [simp] = mul_ok_def
  have ok: "mul_ok n n n (Aprime enc) (Bprime enc)" "mul_ok n r n (EL enc) (ER enc)"
    "mul_ok n r n (FL enc) (FR enc)" using enc by (simp_all add: encoding_of_def)
  obtain C where C: "matMul A B = Some C" "mat_wf n n C" "mat_field C" "cg n n (entry C) (mm n ?a ?b)"
    using matMul_cg[OF AB] .
  obtain P where P: "matMul (Aprime enc) (Bprime enc) = Some P" "mat_wf n n P" "mat_field P"
    "cg n n (entry P) (mm n (entry (Aprime enc)) (entry (Bprime enc)))" using matMul_cg[OF ok(1)] .
  obtain x1 where x1: "matMul A (FL enc) = Some x1" "mat_wf n r x1" "mat_field x1" "cg n r (entry x1) (mm n ?a ?fl)"
    using matMul_cg[of n n r A "FL enc"] AB ok by auto
  obtain AF where AF: "matMul x1 (FR enc) = Some AF" "mat_wf n n AF" "mat_field AF" "cg n n (entry AF) (mm r (entry x1) ?fr)"
    using matMul_cg[of n r n x1 "FR enc"] x1 ok by auto
  obtain x2 where x2: "matMul (ER enc) B = Some x2" "mat_wf r n x2" "mat_field x2" "cg r n (entry x2) (mm n ?er ?b)"
    using matMul_cg[of r n n "ER enc" B] AB ok by auto
  obtain EB where EB: "matMul (EL enc) x2 = Some EB" "mat_wf n n EB" "mat_field EB" "cg n n (entry EB) (mm r ?el (entry x2))"
    using matMul_cg[of n r n "EL enc" x2] x2 ok by auto
  obtain x3 where x3: "matMul (ER enc) (FL enc) = Some x3" "mat_wf r r x3" "mat_field x3" "cg r r (entry x3) (mm n ?er ?fl)"
    using matMul_cg[of r n r "ER enc" "FL enc"] ok by auto
  obtain x4 where x4: "matMul (EL enc) x3 = Some x4" "mat_wf n r x4" "mat_field x4" "cg n r (entry x4) (mm r ?el (entry x3))"
    using matMul_cg[of n r r "EL enc" x3] x3 ok by auto
  obtain EF where EF: "matMul x4 (FR enc) = Some EF" "mat_wf n n EF" "mat_field EF" "cg n n (entry EF) (mm r (entry x4) ?fr)"
    using matMul_cg[of n r n x4 "FR enc"] x4 ok by auto
  obtain y1 where y1: "matSub P AF = Some y1" "mat_wf n n y1" "cg n n (entry y1) (\<lambda>i j. entry P i j - entry AF i j)"
    using matSub_cg[OF P(2) AF(2)] by metis
  obtain y2 where y2: "matSub y1 EB = Some y2" "mat_wf n n y2" "cg n n (entry y2) (\<lambda>i j. entry y1 i j - entry EB i j)"
    using matSub_cg[OF y1(2) EB(2)] by metis
  obtain D where D: "matSub y2 EF = Some D" "mat_wf n n D" "mat_field D" "cg n n (entry D) (\<lambda>i j. entry y2 i j - entry EF i j)"
    using matSub_cg[OF y2(2) EF(2)] by metis
  have dec: "decode A B C' (EL enc) (ER enc) (FL enc) (FR enc) = Some D"
    using C' P(1) x1(1) AF(1) x2(1) EB(1) x3(1) x4(1) EF(1) y1(1) y2(1) D(1) by (simp add: decode_def)
  let ?E = "mm r ?el ?er" and ?F = "mm r ?fl ?fr"
  have 1: "cg n n (entry P) (mm n (\<lambda>i j. ?a i j + ?E i j) (\<lambda>i j. ?b i j + ?F i j))"
    using cg_trans[OF P(4) cg_mm] enc by (simp add: encoding_of_def)
  have 2: "cg n n (entry AF) (mm r (mm n ?a ?fl) ?fr)" using cg_trans[OF AF(4) cg_mm[OF x1(4) cg_refl]] .
  have 3: "cg n n (entry EB) (mm r ?el (mm n ?er ?b))" using cg_trans[OF EB(4) cg_mm[OF cg_refl x2(4)]] .
  have 4: "cg n n (entry EF) (mm r (mm r ?el (mm n ?er ?fl)) ?fr)"
    using cg_trans[OF EF(4) cg_mm[OF cg_trans[OF x4(4) cg_mm[OF cg_refl x3(4)]] cg_refl]] .
  have D1: "cg n n (entry D) (\<lambda>i j. ((mm n (\<lambda>i j. ?a i j + ?E i j) (\<lambda>i j. ?b i j + ?F i j) i j
      - mm r (mm n ?a ?fl) ?fr i j) - mm r ?el (mm n ?er ?b) i j) - mm r (mm r ?el (mm n ?er ?fl)) ?fr i j)"
    by (rule cg_trans[OF D(4) cg_diff[OF cg_trans[OF y2(3) cg_diff[OF cg_trans[OF y1(3) cg_diff[OF 1 2]] 3]] 4]])
  have EFeq: "mm r (mm r ?el (mm n ?er ?fl)) ?fr i j = mm n ?E ?F i j" for i j
  proof -
    have "mm r ?el (mm n ?er ?fl) = mm n ?E ?fl" by (intro ext) (simp add: mm_assoc)
    then show ?thesis by (simp add: mm_assoc)
  qed
  have "((mm n (\<lambda>i j. ?a i j + ?E i j) (\<lambda>i j. ?b i j + ?F i j) i j
      - mm r (mm n ?a ?fl) ?fr i j) - mm r ?el (mm n ?er ?b) i j) - mm r (mm r ?el (mm n ?er ?fl)) ?fr i j
      = mm n ?a ?b i j" for i j
    using EFeq by (simp add: mm_add_left mm_add_right mm_assoc)
  with D1 have "cg n n (entry D) (mm n ?a ?b)" by simp
  then have "cg n n (entry D) (entry C)" using cg_trans cg_sym[OF C(4)] by metis
  then have "D = C" using cg_field_eq[OF D(2,3) C(2,3)] by simp
  with dec C(1) show ?thesis by simp
qed

subsection \<open>Block size\<close>

lemma next_divisor_props:
  assumes "0 < r"
  shows "r \<le> next_divisor n r \<and> (next_divisor n r \<le> n \<longrightarrow> next_divisor n r dvd n)"
  using assms
proof (induction n r rule: next_divisor.induct)
  case (1 n r)
  show ?case
  proof (cases "n mod r \<noteq> 0 \<and> r \<le> n")
    case True
    with 1 have "Suc r \<le> next_divisor n (Suc r)
        \<and> (next_divisor n (Suc r) \<le> n \<longrightarrow> next_divisor n (Suc r) dvd n)" by simp
    with True show ?thesis by (subst (1 2 3) next_divisor.simps) auto
  next
    case False
    then have "next_divisor n r = r" by (subst next_divisor.simps) auto
    with False show ?thesis by (auto simp: mod_eq_0_iff_dvd)
  qed
qed

lemma chooseBlockSize_dvd: "chooseBlockSize n dvd n"
  using next_divisor_props[of "max 4 (floor_pow_0_3 n)" n]
  by (auto simp: chooseBlockSize_def Let_def)

lemma chooseBlockSize_pos: "0 < n \<Longrightarrow> 0 < chooseBlockSize n"
  using chooseBlockSize_dvd[of n] by (cases "chooseBlockSize n") auto

lemma chooseBlockSize_ge: "4 \<le> n \<Longrightarrow> 4 \<le> chooseBlockSize n"
  using next_divisor_props[of "max 4 (floor_pow_0_3 n)" n]
  by (auto simp: chooseBlockSize_def Let_def)

subsection \<open>Solvers and verifier\<close>

text \<open>One pass: it returns, the answer is the product, and the verifier recomputes the same certificate.\<close>

lemma solve_pass_ok:
  assumes H: "digest32 H" and AB: "mul_ok n n n A B" and r: "0 < r" "r dvd n"
  obtains cert C where "solve_pass H sigma n r d A B now prov dev = Some (cert, Some C)"
    "matMul A B = Some C" "verify H cert = Some (meetsDifficulty (c_z cert) d)"
    "c_n cert = n" "c_matrixA cert = data A" "c_matrixB cert = data B" "c_difficulty cert = d"
    "c_sigma cert = sigma" "c_r cert = r"
    "c_matrixAHash cert = matHash H A" "c_matrixBHash cert = matHash H B"
proof -
  obtain enc where enc: "encode H sigma A B r = Some enc" "encoding_of n r A B enc"
    using encode_ok[OF H AB] .
  then have "mul_ok n n n (Aprime enc) (Bprime enc)" by (simp add: encoding_of_def)
  then obtain res where mm: "matMulWithTranscript H (Aprime enc) (Bprime enc) r = Some res"
    "matMul (Aprime enc) (Bprime enc) = Some (mm_C res)"
    using matMulWithTranscript_correct[OF _ r, of "Aprime enc" "Bprime enc" H] by blast
  obtain C where C: "decode A B (mm_C res) (EL enc) (ER enc) (FL enc) (FR enc) = Some C" "matMul A B = Some C"
    using decode_encoding[OF AB enc(2) mm(2)] by blast
  have AB': "A = \<lparr>rows = n, cols = n, data = data A\<rparr>" "B = \<lparr>rows = n, cols = n, data = data B\<rparr>"
    using AB by (auto simp: mul_ok_def mat_wf_def)
  let ?cert = "\<lparr>c_sigma = sigma, c_n = n, c_r = r, c_matrixAHash = matHash H A, c_matrixBHash = matHash H B,
               c_transcriptHash = mm_transcriptHash res,
               c_z = computeZ H sigma (mm_transcriptHash res) (matHash H A) (matHash H B), c_difficulty = d,
               c_timestamp = now, c_providerAddress = prov, c_deviceId = dev,
               c_matrixA = data A, c_matrixB = data B, c_workloadId = None\<rparr>"
  have "solve_pass H sigma n r d A B now prov dev = Some (?cert, Some C)"
    using enc(1) mm(1) C(1) by (simp add: solve_pass_def Let_def)
  moreover have "verify H ?cert = Some (meetsDifficulty (c_z ?cert) d)"
    using enc(1) mm(1) AB' by (simp add: verify_def Let_def)
  ultimately show thesis using that C(2) by simp
qed

lemma meetsDifficulty_0 [simp]: "meetsDifficulty z 0"
  by (simp add: meetsDifficulty_def)

lemma mul_ok_rows: "mul_ok m n p A B \<Longrightarrow> rows A = m"
  by (simp add: mul_ok_def mat_wf_def)

lemma solveAssigned_spec:
  assumes "digest32 H" and "mul_ok n n n A B" and "0 < n"
  shows "\<exists>res C. solveAssigned H sigma A B prov dev now = Some res \<and> matMul A B = Some C
     \<and> s_result res = data C \<and> verify H (s_certificate res) = Some True
     \<and> c_sigma (s_certificate res) = sigma
     \<and> c_matrixAHash (s_certificate res) = matHash H A \<and> c_matrixBHash (s_certificate res) = matHash H B"
proof -
  obtain cert C where "solve_pass H sigma n (chooseBlockSize n) 0 A B now prov dev = Some (cert, Some C)"
    "matMul A B = Some C" "verify H cert = Some (meetsDifficulty (c_z cert) 0)" "c_sigma cert = sigma"
    "c_matrixAHash cert = matHash H A" "c_matrixBHash cert = matHash H B"
    by (rule solve_pass_ok[OF assms(1,2) chooseBlockSize_pos[OF assms(3)] chooseBlockSize_dvd])
  then show ?thesis using mul_ok_rows[OF assms(2)] by (simp add: solveAssigned_def Let_def)
qed

text \<open>An optional external matrix: when given, it is a field matrix of the job's dimension.\<close>

definition ext_ok :: "nat \<Rightarrow> matrix option \<Rightarrow> bool" where
  "ext_ok n ext \<longleftrightarrow> (case ext of None \<Rightarrow> True | Some A \<Rightarrow> mat_wf n n A \<and> mat_field A)"

definition picks :: "matrix option \<Rightarrow> matrix \<Rightarrow> bool" where
  "picks ext A \<longleftrightarrow> (case ext of None \<Rightarrow> True | Some A0 \<Rightarrow> A = A0)"

lemma pick_matrix:
  assumes "digest32 H" and "prng_ok st" and "ext_ok n ext"
  shows "\<exists>A st'. (case ext of Some A \<Rightarrow> Some (A, st) | None \<Rightarrow> matRandom n n (makePRNG H seed) st) = Some (A, st')
     \<and> mat_wf n n A \<and> mat_field A \<and> prng_ok st' \<and> picks ext A"
proof (cases ext)
  case None
  obtain m s' where "matRandom n n (makePRNG H seed) st = Some (m, s')" "mat_wf n n m" "mat_field m" "prng_ok s'"
    by (rule matRandom_ok[where I = prng_ok and rng = "makePRNG H seed", OF makePRNG_ok[OF assms(1)] assms(2)])
  with None show ?thesis by (simp add: picks_def)
qed (use assms in \<open>simp add: ext_ok_def picks_def\<close>)

lemma solve_matrices_ok:
  assumes "digest32 H" and "ext_ok n extA" and "ext_ok n extB"
  shows "\<exists>A B. solve_matrices H sigma n extA extB = Some (A, B) \<and> mul_ok n n n A B
     \<and> picks extA A \<and> picks extB B"
proof -
  let ?seed = "hexdigest H (utf8 (sigma @ ''matrices''))"
  obtain A st where A: "(case extA of Some A \<Rightarrow> Some (A, prng_init) | None \<Rightarrow> matRandom n n (makePRNG H ?seed) prng_init) = Some (A, st)"
    "mat_wf n n A" "mat_field A" "prng_ok st" "picks extA A"
    using pick_matrix[OF assms(1) prng_ok_init assms(2)] by blast
  obtain B st' where B: "(case extB of Some B \<Rightarrow> Some (B, st) | None \<Rightarrow> matRandom n n (makePRNG H ?seed) st) = Some (B, st')"
    "mat_wf n n B" "mat_field B" "picks extB B"
    using pick_matrix[OF assms(1) A(4) assms(3)] by blast
  have "solve_matrices H sigma n extA extB = Some (A, B)"
    using A(1) B(1) by (simp add: solve_matrices_def Let_def)
  with A B show ?thesis by (simp add: mul_ok_def)
qed

text \<open>What a solver's result promises about the matrices it was given.\<close>

definition solved :: "digest \<Rightarrow> nat \<Rightarrow> matrix option \<Rightarrow> matrix option \<Rightarrow> solveResult \<Rightarrow> bool" where
  "solved H n extA extB res \<longleftrightarrow>
     verify H (s_certificate res) = Some True \<and>
     (\<exists>A B C. mul_ok n n n A B \<and> picks extA A \<and> picks extB B \<and> matMul A B = Some C \<and>
        s_result res = data C \<and>
        c_matrixA (s_certificate res) = data A \<and> c_matrixB (s_certificate res) = data B)"

lemma solve_from_ok:
  assumes "digest32 H" and "0 < n" and "ext_ok n extA" and "ext_ok n extB"
  shows "\<exists>out. solve_from k H seed n d prov dev i extA extB now = Some out \<and>
     (\<forall>res. out = Some res \<longrightarrow> solved H n extA extB res)"
proof (induction k arbitrary: i)
  case (Suc k)
  let ?sigma = "hexdigest H (utf8 seed @ utf8 (dec_digits i))"
  obtain A B where AB: "solve_matrices H ?sigma n extA extB = Some (A, B)" "mul_ok n n n A B"
    "picks extA A" "picks extB B"
    using solve_matrices_ok[OF assms(1,3,4)] by blast
  obtain cert C where C: "solve_pass H ?sigma n (chooseBlockSize n) d A B (now i) prov dev = Some (cert, Some C)"
    "matMul A B = Some C" "verify H cert = Some (meetsDifficulty (c_z cert) d)"
    "c_matrixA cert = data A" "c_matrixB cert = data B"
    by (rule solve_pass_ok[OF assms(1) AB(2) chooseBlockSize_pos[OF assms(2)] chooseBlockSize_dvd])
  show ?case
  proof (cases "meetsDifficulty (c_z cert) d")
    case True
    with AB C show ?thesis by (auto simp: Let_def solved_def)
  next
    case False
    with AB(1) C(1) Suc.IH[of "Suc i"] show ?thesis by (simp add: Let_def)
  qed
qed simp

end
