(* ===== verification/Bridge.thy ===== *)
theory Bridge
  imports CuPow
begin

text \<open>
  The bridge between a user's signed integers and the field (\<^verbatim>\<open>pouw/src/workload-bridge.ts\<close>):
  the exactness bound, conversion into field form with its two rejections, the centred lift, and
  the two solvers on user data. User data are JavaScript numbers, here rationals: an entry that is
  not an integer is rejected, as is one past the bound.

  Shown here: for accepted inputs the answer handed back is the exact integer product, entry by
  entry, and the certificate verifies and is bound to the job's inputs.
\<close>

subsection \<open>Definitions\<close>

definition HALF_P :: int where
  "HALF_P = (PRIME - 1) div 2"

text \<open>
  \<^verbatim>\<open>Math.floor(Math.sqrt(x))\<close> for an integer \<open>x\<close> below \<open>2^31\<close>, by bisection. The two double
  roundings of \<^verbatim>\<open>Math.sqrt(HALF_P / n)\<close> do not change the floor: where \<open>HALF_P / n < b^2\<close> the
  relative gap is at least \<open>1 / HALF_P\<close>, far above \<open>2^-52\<close>; and the floor of the root of a
  rational is the floor of the root of its floor.
\<close>

function bisect_sqrt :: "int \<Rightarrow> int \<Rightarrow> int \<Rightarrow> int" where
  "bisect_sqrt lo hi m =
     (if hi - lo \<le> 1 then lo
      else (let mid = (lo + hi) div 2 in
            if mid * mid \<le> m then bisect_sqrt mid hi m else bisect_sqrt lo mid m))"
  by pat_completeness auto
termination
  by (relation "measure (\<lambda>(lo, hi, m). nat (hi - lo))") auto

declare bisect_sqrt.simps [simp del]

definition floor_sqrt :: "int \<Rightarrow> int" where
  "floor_sqrt m = bisect_sqrt 0 (m + 1) m"

definition maxAbsEntry :: "nat \<Rightarrow> int" where
  "maxAbsEntry n = floor_sqrt (HALF_P div int n)"

datatype bridge_error =
    NotInteger string nat
  | ExceedsBound string nat
  | SolverThrew

text \<open>A user matrix: dimensions and raw JavaScript numbers.\<close>

record rmatrix =
  rm_rows :: nat
  rm_cols :: nat
  rm_data :: "rat list"

definition isInteger :: "rat \<Rightarrow> bool" where
  "isInteger v \<longleftrightarrow> of_int \<lfloor>v\<rfloor> = v"

fun toField_data :: "int \<Rightarrow> string \<Rightarrow> nat \<Rightarrow> rat list \<Rightarrow> bridge_error + int list" where
  "toField_data bound label i [] = Inr []"
| "toField_data bound label i (v # vs) =
     (if \<not> isInteger v then Inl (NotInteger label i)
      else if \<bar>v\<bar> > of_int bound then Inl (ExceedsBound label i)
      else (case toField_data bound label (Suc i) vs of Inl e \<Rightarrow> Inl e
            | Inr ds \<Rightarrow> Inr ((((\<lfloor>v\<rfloor> smod PRIME) + PRIME) smod PRIME) # ds)))"

definition toField :: "rmatrix \<Rightarrow> int \<Rightarrow> string \<Rightarrow> bridge_error + matrix" where
  "toField m bound label =
     (case toField_data bound label 0 (rm_data m) of Inl e \<Rightarrow> Inl e
      | Inr d \<Rightarrow> Inr \<lparr>rows = rm_rows m, cols = rm_cols m, data = d\<rparr>)"

definition liftSigned :: "int \<Rightarrow> int" where
  "liftSigned v = (if v > HALF_P then v - PRIME else v)"

record workloadMatrixJob =
  wj_workloadId :: string
  wj_A :: rmatrix
  wj_B :: rmatrix
  wj_difficulty :: nat
  wj_expiresAt :: int

record backedSolveResult =
  b_workloadId :: string
  b_certificate :: certificate
  b_result :: matrix
  b_backedByWorkload :: bool

text \<open>\<open>Inr None\<close> is the returned \<^verbatim>\<open>null\<close>.\<close>

definition solveBacked ::
    "digest \<Rightarrow> string \<Rightarrow> workloadMatrixJob \<Rightarrow> string \<Rightarrow> string \<Rightarrow> nat \<Rightarrow> (nat \<Rightarrow> int)
       \<Rightarrow> bridge_error + backedSolveResult option" where
  "solveBacked H chainSeed job prov dev maxAttempts now =
     (let n = rm_rows (wj_A job); bound = maxAbsEntry n in
      case toField (wj_A job) bound ''A'' of Inl e \<Rightarrow> Inl e | Inr A \<Rightarrow>
      (case toField (wj_B job) bound ''B'' of Inl e \<Rightarrow> Inl e | Inr B \<Rightarrow>
      (case solve H chainSeed n (wj_difficulty job) prov dev maxAttempts (Some A) (Some B) now of
         None \<Rightarrow> Inl SolverThrew
       | Some None \<Rightarrow> Inr None
       | Some (Some res) \<Rightarrow>
           Inr (Some \<lparr>b_workloadId = wj_workloadId job,
                      b_certificate = (s_certificate res)\<lparr>c_workloadId := Some (wj_workloadId job)\<rparr>,
                      b_result = \<lparr>rows = rm_rows (wj_A job), cols = rm_cols (wj_B job),
                                  data = map liftSigned (s_result res)\<rparr>,
                      b_backedByWorkload = True\<rparr>))))"

definition toFieldMatrix :: "rat list \<Rightarrow> nat \<Rightarrow> string \<Rightarrow> bridge_error + matrix" where
  "toFieldMatrix d n label = toField \<lparr>rm_rows = n, rm_cols = n, rm_data = d\<rparr> (maxAbsEntry n) label"

definition fieldHash :: "digest \<Rightarrow> rat list \<Rightarrow> nat \<Rightarrow> bridge_error + string" where
  "fieldHash H d n = (case toFieldMatrix d n ''M'' of Inl e \<Rightarrow> Inl e | Inr m \<Rightarrow> Inr (matHash H m))"

definition solveAssignedJob ::
    "digest \<Rightarrow> string \<Rightarrow> rat list \<Rightarrow> rat list \<Rightarrow> nat \<Rightarrow> string \<Rightarrow> string \<Rightarrow> int
       \<Rightarrow> bridge_error + (certificate \<times> int list)" where
  "solveAssignedJob H sigma A B n prov dev now =
     (case toFieldMatrix A n ''A'' of Inl e \<Rightarrow> Inl e | Inr a \<Rightarrow>
     (case toFieldMatrix B n ''B'' of Inl e \<Rightarrow> Inl e | Inr b \<Rightarrow>
     (case solveAssigned H sigma a b prov dev now of None \<Rightarrow> Inl SolverThrew
      | Some res \<Rightarrow> Inr (s_certificate res, map liftSigned (s_result res)))))"

subsection \<open>The exactness bound\<close>

lemma bisect_sqrt_inv:
  assumes "0 \<le> lo" and "lo < hi" and "lo * lo \<le> m" and "m < hi * hi"
  shows "0 \<le> bisect_sqrt lo hi m \<and> bisect_sqrt lo hi m * bisect_sqrt lo hi m \<le> m
     \<and> m < (bisect_sqrt lo hi m + 1) * (bisect_sqrt lo hi m + 1)"
  using assms
proof (induction lo hi m rule: bisect_sqrt.induct)
  case (1 lo hi m)
  show ?case
  proof (cases "hi - lo \<le> 1")
    case True
    then have "hi = lo + 1" using 1 by simp
    with 1 True show ?thesis by (subst (1 2 3 4 5) bisect_sqrt.simps) simp
  next
    case False
    define mid where "mid = (lo + hi) div 2"
    have mid: "lo < mid" "mid < hi" using False by (auto simp: mid_def)
    show ?thesis
    proof (cases "mid * mid \<le> m")
      case True
      then have eq: "bisect_sqrt lo hi m = bisect_sqrt mid hi m"
        using False by (subst bisect_sqrt.simps) (simp add: Let_def mid_def)
      show ?thesis unfolding eq
        by (rule "1.IH"(1)[OF False mid_def True]) (use 1 mid True in auto)
    next
      case nm: False
      then have eq: "bisect_sqrt lo hi m = bisect_sqrt lo mid m"
        using False by (subst bisect_sqrt.simps) (simp add: Let_def mid_def)
      show ?thesis unfolding eq
        by (rule "1.IH"(2)[OF False mid_def nm]) (use 1 mid nm in auto)
    qed
  qed
qed

lemma floor_sqrt_bounds:
  assumes "0 \<le> m"
  shows "0 \<le> floor_sqrt m \<and> floor_sqrt m * floor_sqrt m \<le> m \<and> m < (floor_sqrt m + 1) * (floor_sqrt m + 1)"
  unfolding floor_sqrt_def
proof (rule bisect_sqrt_inv)
  have "(m + 1) * 1 \<le> (m + 1) * (m + 1)" using assms by (intro mult_left_mono) auto
  then show "m < (m + 1) * (m + 1)" by simp
qed (use assms in auto)

lemma HALF_P_val: "HALF_P = 500000003" "PRIME = 2 * HALF_P + 1" "0 \<le> HALF_P"
  by (simp_all add: HALF_P_def PRIME_def)

lemma maxAbsEntry_nonneg: "0 \<le> maxAbsEntry n"
  using floor_sqrt_bounds[of "HALF_P div int n"]
  by (simp add: maxAbsEntry_def HALF_P_val pos_imp_zdiv_nonneg_iff div_int_pos_iff)

text \<open>No dot product of \<open>n\<close> bounded entries leaves the symmetric range of the field.\<close>

lemma maxAbsEntry_exact:
  assumes "0 < n"
  shows "int n * (maxAbsEntry n * maxAbsEntry n) \<le> HALF_P"
proof -
  have "0 \<le> HALF_P div int n" using assms by (simp add: HALF_P_val pos_imp_zdiv_nonneg_iff)
  then have "maxAbsEntry n * maxAbsEntry n \<le> HALF_P div int n"
    using floor_sqrt_bounds by (simp add: maxAbsEntry_def)
  then have "int n * (maxAbsEntry n * maxAbsEntry n) \<le> int n * (HALF_P div int n)"
    by (intro mult_left_mono) auto
  also have "\<dots> \<le> HALF_P"
    using assms pos_mod_sign[of "int n" HALF_P]
    by (simp add: minus_mod_eq_mult_div[symmetric] del: pos_mod_sign)
  finally show ?thesis .
qed

lemma maxAbsEntry_geI:
  assumes "0 \<le> b" and "b * b \<le> HALF_P div int n"
  shows "b \<le> maxAbsEntry n"
proof (rule ccontr)
  assume "\<not> b \<le> maxAbsEntry n"
  then have "(maxAbsEntry n + 1) * (maxAbsEntry n + 1) \<le> b * b"
    using maxAbsEntry_nonneg[of n] by (intro mult_mono) auto
  moreover have "0 \<le> HALF_P div int n" using assms by (meson order_trans zero_le_square)
  ultimately show False using floor_sqrt_bounds[of "HALF_P div int n"] assms(2) by (simp add: maxAbsEntry_def)
qed

lemma liftSigned_mod: "\<bar>x\<bar> \<le> HALF_P \<Longrightarrow> liftSigned (x mod PRIME) = x"
proof (cases "0 \<le> x")
  case True
  moreover assume "\<bar>x\<bar> \<le> HALF_P"
  ultimately have "x mod PRIME = x" using HALF_P_val by (intro mod_pos_pos_trivial) auto
  with \<open>\<bar>x\<bar> \<le> HALF_P\<close> show ?thesis by (simp add: liftSigned_def)
next
  case False
  assume x: "\<bar>x\<bar> \<le> HALF_P"
  have "x mod PRIME = (x + PRIME) mod PRIME" by simp
  also have "\<dots> = x + PRIME" using False x HALF_P_val by (intro mod_pos_pos_trivial) auto
  finally show ?thesis using False x HALF_P_val by (simp add: liftSigned_def)
qed

subsection \<open>Conversion into the field\<close>

definition int_data :: "int list \<Rightarrow> rat list" where
  "int_data xs = map of_int xs"

lemma toField_data_accepts:
  "\<forall>x \<in> set xs. \<bar>x\<bar> \<le> bound \<Longrightarrow> toField_data bound label i (int_data xs) = Inr (map (\<lambda>x. x mod PRIME) xs)"
proof (induction xs arbitrary: i)
  case (Cons x xs)
  have "\<not> of_int bound < \<bar>of_int x :: rat\<bar>" using Cons.prems by (metis list.set_intros(1) not_less of_int_abs of_int_le_iff)
  moreover have "((x smod PRIME) + PRIME) smod PRIME = x mod PRIME" using modp_eq_mod by (simp add: modp_def)
  ultimately show ?case using Cons by (simp add: int_data_def isInteger_def)
qed (simp add: int_data_def)

lemma toField_data_sound:
  "toField_data bound label i vs = Inr d \<Longrightarrow>
     \<exists>xs. vs = int_data xs \<and> (\<forall>x \<in> set xs. \<bar>x\<bar> \<le> bound) \<and> d = map (\<lambda>x. x mod PRIME) xs"
proof (induction vs arbitrary: i d)
  case (Cons v vs)
  then obtain d' where v: "isInteger v" "\<bar>v\<bar> \<le> of_int bound" and d': "toField_data bound label (Suc i) vs = Inr d'"
    "d = ((\<lfloor>v\<rfloor> smod PRIME) + PRIME) smod PRIME # d'"
    by (auto split: if_splits sum.splits)
  from Cons.IH[OF d'(1)] obtain xs where xs: "vs = int_data xs" "\<forall>x \<in> set xs. \<bar>x\<bar> \<le> bound"
    "d' = map (\<lambda>x. x mod PRIME) xs" by blast
  have "\<bar>\<lfloor>v\<rfloor>\<bar> \<le> bound" using v unfolding isInteger_def by (metis of_int_abs of_int_le_iff)
  moreover have "v = of_int \<lfloor>v\<rfloor>" using v(1) by (metis isInteger_def)
  ultimately show ?case using xs d'
    by (intro exI[of _ "\<lfloor>v\<rfloor> # xs"]) (auto simp: int_data_def modp_eq_mod[unfolded modp_def])
qed (simp add: int_data_def)

text \<open>The integer product of two row-major lists: what the user asked for.\<close>

definition dot :: "nat \<Rightarrow> int list \<Rightarrow> int list \<Rightarrow> nat \<Rightarrow> nat \<Rightarrow> int" where
  "dot n a b i j = (\<Sum>t < n. a ! (i * n + t) * b ! (t * n + j))"

definition int_product :: "nat \<Rightarrow> int list \<Rightarrow> int list \<Rightarrow> int list" where
  "int_product n a b = map (\<lambda>k. dot n a b (k div n) (k mod n)) [0..<n * n]"

definition bounded :: "nat \<Rightarrow> int list \<Rightarrow> bool" where
  "bounded n a \<longleftrightarrow> length a = n * n \<and> (\<forall>x \<in> set a. \<bar>x\<bar> \<le> maxAbsEntry n)"

lemma bounded_nth: "bounded n a \<Longrightarrow> i < n \<Longrightarrow> j < n \<Longrightarrow> \<bar>a ! (i * n + j)\<bar> \<le> maxAbsEntry n"
  by (simp add: bounded_def nth_row_major)

lemma dot_bounded:
  assumes "bounded n a" "bounded n b" "i < n" "j < n"
  shows "\<bar>dot n a b i j\<bar> \<le> HALF_P"
proof -
  have "\<bar>dot n a b i j\<bar> \<le> (\<Sum>t < n. \<bar>a ! (i * n + t) * b ! (t * n + j)\<bar>)"
    unfolding dot_def by (rule sum_abs)
  also have "\<dots> \<le> (\<Sum>t < n. maxAbsEntry n * maxAbsEntry n)"
    using assms by (intro sum_mono) (auto simp: abs_mult bounded_nth maxAbsEntry_nonneg intro: mult_mono)
  also have "\<dots> = int n * (maxAbsEntry n * maxAbsEntry n)" by simp
  also have "\<dots> \<le> HALF_P" using assms(3) by (intro maxAbsEntry_exact) simp
  finally show ?thesis .
qed

text \<open>Field form of a bounded input, and the lifted field product.\<close>

definition field_mat :: "nat \<Rightarrow> int list \<Rightarrow> matrix" where
  "field_mat n a = \<lparr>rows = n, cols = n, data = map (\<lambda>x. x mod PRIME) a\<rparr>"

lemma toFieldMatrix_bounded: "bounded n a \<Longrightarrow> toFieldMatrix (int_data a) n label = Inr (field_mat n a)"
  by (simp add: toFieldMatrix_def toField_def toField_data_accepts bounded_def field_mat_def)

lemma field_mat_ok: "bounded n a \<Longrightarrow> bounded n b \<Longrightarrow> mul_ok n n n (field_mat n a) (field_mat n b)"
  by (auto simp: mul_ok_def mat_wf_def mat_field_def field_mat_def bounded_def)

lemma lift_field_product:
  assumes "bounded n a" "bounded n b" "matMul (field_mat n a) (field_mat n b) = Some C"
  shows "map liftSigned (data C) = int_product n a b"
proof -
  obtain C' where C': "matMul (field_mat n a) (field_mat n b) = Some C'" "mat_wf n n C'"
    "\<And>i j. i < n \<Longrightarrow> j < n \<Longrightarrow>
       entry C' i j = (\<Sum>t < n. entry (field_mat n a) i t * entry (field_mat n b) t j) mod PRIME"
    using matMul_field[OF field_mat_ok[OF assms(1,2)]] by metis
  with assms(3) have C: "C' = C" by simp
  have "liftSigned (data C ! (i * n + j)) = int_product n a b ! (i * n + j)" if ij: "i < n" "j < n" for i j
  proof -
    have ent: "entry (field_mat n a) i t = a ! (i * n + t) mod PRIME"
      "entry (field_mat n b) t j = b ! (t * n + j) mod PRIME" if "t < n" for t
      using assms(1,2) ij that by (simp_all add: entry_def field_mat_def bounded_def nth_row_major)
    have "cg n n (mm n (entry (field_mat n a)) (entry (field_mat n b)))
        (mm n (\<lambda>i t. a ! (i * n + t)) (\<lambda>t j. b ! (t * n + j)))"
      by (rule cg_mm) (use assms(1,2) in \<open>auto simp: cg_def entry_def field_mat_def bounded_def nth_row_major\<close>)
    then have "entry C i j = dot n a b i j mod PRIME"
      using C'(3)[OF ij] ij C by (simp add: cg_def mm_def dot_def)
    then show ?thesis
      using liftSigned_mod[OF dot_bounded[OF assms(1,2) ij]] C'(2) C nth_row_major[OF ij] ij
      by (simp add: entry_def mat_wf_def int_product_def)
  qed
  with C'(2) C show ?thesis
    by (intro list_eq_row_major[of _ n n]) (auto simp: mat_wf_def int_product_def nth_row_major)
qed

text \<open>Tagging a certificate with its workload does not affect verification.\<close>

lemma verify_workloadId: "verify H (cert\<lparr>c_workloadId := w\<rparr>) = verify H cert"
  by (cases cert) (simp only: verify_def certificate.simps)

subsection \<open>Answers and certificates of assigned and backed work\<close>

text \<open>
  C19. Assigned work on a user's integers (every entry of the two \<open>n\<close>-by-\<open>n\<close> inputs within
  \<^verbatim>\<open>maxAbsEntry(n)\<close>) returns the exact integer product, entry by entry, with a certificate
  that verifies and whose input hashes are the ones the orchestrator computes for the job
  (\<^verbatim>\<open>fieldHash\<close>).
\<close>

theorem solveAssignedJob_exact:
  assumes "digest32 H" and "0 < n" and "bounded n a" and "bounded n b"
  shows "\<exists>cert. solveAssignedJob H sigma (int_data a) (int_data b) n prov dev now
       = Inr (cert, int_product n a b)
     \<and> verify H cert = Some True
     \<and> fieldHash H (int_data a) n = Inr (c_matrixAHash cert)
     \<and> fieldHash H (int_data b) n = Inr (c_matrixBHash cert)"
proof -
  let ?A = "field_mat n a" and ?B = "field_mat n b"
  have ok: "mul_ok n n n ?A ?B" by (rule field_mat_ok[OF assms(3,4)])
  obtain res C where res: "solveAssigned H sigma ?A ?B prov dev now = Some res" "matMul ?A ?B = Some C"
    "s_result res = data C" "verify H (s_certificate res) = Some True"
    "c_matrixAHash (s_certificate res) = matHash H ?A" "c_matrixBHash (s_certificate res) = matHash H ?B"
    using solveAssigned_spec[OF assms(1) ok assms(2)] by metis
  then show ?thesis
    using lift_field_product[OF assms(3,4) res(2)] toFieldMatrix_bounded[OF assms(3)] toFieldMatrix_bounded[OF assms(4)]
    by (simp add: solveAssignedJob_def fieldHash_def)
qed

theorem solveAssignedJob_exact_witness:
  "\<exists>cert. solveAssignedJob (\<lambda>_. replicate 32 0) ''s'' (int_data [3, 1, 0, -2]) (int_data [-4, 5, 1, 7]) 2 ''p'' ''d'' 0
       = Inr (cert, [-11, 22, -2, -14])
     \<and> verify (\<lambda>_. replicate 32 0) cert = Some True"
proof -
  have "7 \<le> maxAbsEntry 2" by (rule maxAbsEntry_geI) (simp_all add: HALF_P_val)
  then have "bounded 2 [3, 1, 0, -2]" "bounded 2 [-4, 5, 1, 7]" by (auto simp: bounded_def)
  moreover have "digest32 (\<lambda>_. replicate 32 0)" by (simp add: digest32_def)
  moreover have "int_product 2 [3, 1, 0, -2] [-4, 5, 1, 7] = [-11, 22, -2, -14]"
    by code_simp
  ultimately show ?thesis
    using solveAssignedJob_exact[of "\<lambda>_. replicate 32 0" 2 "[3, 1, 0, -2]" "[-4, 5, 1, 7]" "''s''" "''p''" "''d''" 0]
    by auto
qed

text \<open>
  Backed mining on a real workload (two bounded \<open>n\<close>-by-\<open>n\<close> integer inputs) never throws.
  Within \<open>maxAttempts\<close> attempts it either reports that no certificate was found or returns a
  certificate that verifies at the requested difficulty, together with the exact integer product.
\<close>

theorem solveBacked_exact:
  assumes "digest32 H" and "0 < n" and "bounded n a" and "bounded n b"
  shows "\<exists>out. solveBacked H seed
       \<lparr>wj_workloadId = wid, wj_A = \<lparr>rm_rows = n, rm_cols = n, rm_data = int_data a\<rparr>,
        wj_B = \<lparr>rm_rows = n, rm_cols = n, rm_data = int_data b\<rparr>, wj_difficulty = d, wj_expiresAt = e\<rparr>
       prov dev k now = Inr out
     \<and> (\<forall>res. out = Some res \<longrightarrow>
          verify H (b_certificate res) = Some True \<and> data (b_result res) = int_product n a b
          \<and> c_workloadId (b_certificate res) = Some wid)"
proof -
  let ?A = "field_mat n a" and ?B = "field_mat n b"
  have ok: "mul_ok n n n ?A ?B" by (rule field_mat_ok[OF assms(3,4)])
  have ext: "ext_ok n (Some ?A)" "ext_ok n (Some ?B)" using ok by (auto simp: ext_ok_def mul_ok_def)
  obtain out where out: "solve H seed n d prov dev k (Some ?A) (Some ?B) now = Some out"
    "\<And>res. out = Some res \<Longrightarrow> solved H n (Some ?A) (Some ?B) res"
    using solve_from_ok[OF assms(1,2) ext, of k seed d prov dev 0 now] by (auto simp: solve_def)
  have tf: "toField \<lparr>rm_rows = n, rm_cols = n, rm_data = int_data x\<rparr> (maxAbsEntry n) l = Inr (field_mat n x)"
    if "bounded n x" for x l using toFieldMatrix_bounded[OF that] by (simp add: toFieldMatrix_def)
  show ?thesis
  proof (cases out)
    case None
    then show ?thesis using out(1) tf assms(3,4) by (simp add: solveBacked_def Let_def)
  next
    case (Some res)
    then have "verify H (s_certificate res) = Some True" "map liftSigned (s_result res) = int_product n a b"
      using out(2)[OF Some] lift_field_product[OF assms(3,4)] by (auto simp: solved_def picks_def)
    then show ?thesis using out(1) tf assms(3,4) Some by (simp add: solveBacked_def Let_def verify_workloadId)
  qed
qed

theorem solveBacked_exact_witness:
  "\<exists>out. solveBacked (\<lambda>_. replicate 32 0) ''seed''
       \<lparr>wj_workloadId = ''w'', wj_A = \<lparr>rm_rows = 1, rm_cols = 1, rm_data = int_data [-6]\<rparr>,
        wj_B = \<lparr>rm_rows = 1, rm_cols = 1, rm_data = int_data [7]\<rparr>, wj_difficulty = 8, wj_expiresAt = 0\<rparr>
       ''p'' ''d'' 3 (\<lambda>_. 0) = Inr out
     \<and> (\<forall>res. out = Some res \<longrightarrow> data (b_result res) = [-42])"
proof -
  have "7 \<le> maxAbsEntry 1" by (rule maxAbsEntry_geI) (simp_all add: HALF_P_val)
  then have "bounded 1 [-6]" "bounded 1 [7]" by (auto simp: bounded_def)
  moreover have "digest32 (\<lambda>_. replicate 32 0)" by (simp add: digest32_def)
  moreover have "int_product 1 [-6] [7] = [-42]" by (simp add: int_product_def dot_def)
  ultimately show ?thesis
    using solveBacked_exact[of "\<lambda>_. replicate 32 0" 1 "[-6]" "[7]" "''seed''" "''w''" 8 0 "''p''" "''d''" 3 "\<lambda>_. 0"]
    by auto
qed

end
