(* ===== verification/Primality.thy ===== *)
theory Primality
  imports Prelude
begin

text \<open>
  The modulus 1000000007 of the matrix field is prime, by Lucas certificates: a base \<open>g\<close> whose
  order modulo \<open>n\<close> is \<open>n - 1\<close> shows that \<open>n\<close> is prime. The certificate tree is
  \<open>1000000006 = 2 * 500000003\<close>, \<open>500000002 = 2 * 41^2 * 148721\<close>,
  \<open>148720 = 2^4 * 5 * 11 * 13^2\<close>. Powers are evaluated by repeated squaring inside the kernel.
\<close>

definition is_prime :: "nat \<Rightarrow> bool" where
  "is_prime p \<longleftrightarrow> 1 < p \<and> (\<forall>d. d dvd p \<longrightarrow> d = 1 \<or> d = p)"

lemma is_prime_coprime: "is_prime p \<Longrightarrow> \<not> p dvd k \<Longrightarrow> coprime k p"
proof -
  assume p: "is_prime p" "\<not> p dvd k"
  have "gcd k p dvd p" "gcd k p dvd k" by simp_all
  with p have "gcd k p = 1" unfolding is_prime_def by metis
  then show ?thesis by (simp add: coprime_iff_gcd_eq_1)
qed

text \<open>If no listed prime divides \<open>k\<close>, a divisor \<open>k\<close> of a product of them is 1.\<close>

lemma dvd_prod_primes:
  assumes "\<forall>q \<in> set qs. is_prime q" and "\<forall>q \<in> set qs. \<not> q dvd k" and "k dvd prod_list qs"
  shows "k = (1::nat)"
proof -
  have "coprime k (prod_list qs)"
    using assms(1,2) by (induction qs) (auto simp: is_prime_coprime)
  with assms(3) show ?thesis by (metis coprime_common_divisor_nat dvd_refl)
qed

subsection \<open>Repeated squaring\<close>

fun sq_mod :: "nat \<Rightarrow> nat \<Rightarrow> bool list \<Rightarrow> nat \<Rightarrow> nat" where
  "sq_mod n g [] acc = acc"
| "sq_mod n g (b # bs) acc =
     sq_mod n g bs (if b then (acc * acc mod n) * g mod n else acc * acc mod n)"

fun bits_val :: "bool list \<Rightarrow> nat \<Rightarrow> nat" where
  "bits_val [] e = e"
| "bits_val (b # bs) e = bits_val bs (2 * e + (if b then 1 else 0))"

lemma sq_mod_correct: "sq_mod n g bs (g ^ e mod n) = g ^ bits_val bs e mod n"
proof (induction bs arbitrary: e)
  case (Cons b bs)
  have "(if b then ((g ^ e mod n) * (g ^ e mod n) mod n) * g mod n else (g ^ e mod n) * (g ^ e mod n) mod n)
      = g ^ (2 * e + (if b then 1 else 0)) mod n"
    by (simp add: mod_mult_left_eq mod_mult_right_eq power_mult power2_eq_square power_mult_distrib mod_simps mult.commute)
  then show ?case using Cons by (simp del: if_split)
qed simp

subsection \<open>Lucas certificates\<close>

lemma pow_order_dvd:
  assumes "0 < d" and d: "g ^ d mod n = 1 mod (n::nat)"
    and min: "\<And>e. 0 < e \<Longrightarrow> e < d \<Longrightarrow> g ^ e mod n \<noteq> 1 mod n" and m: "g ^ m mod n = 1 mod n"
  shows "d dvd m"
proof -
  have "g ^ m = (g ^ d) ^ (m div d) * g ^ (m mod d)"
    by (simp add: power_mult[symmetric] power_add[symmetric])
  then have "g ^ m mod n = ((g ^ d mod n) ^ (m div d) mod n) * g ^ (m mod d) mod n"
    by (simp add: mod_mult_left_eq power_mod)
  then have "g ^ m mod n = g ^ (m mod d) mod n"
    using d by (simp add: power_mod mod_mult_left_eq)
  with m have "g ^ (m mod d) mod n = 1 mod n" by simp
  with min[of "m mod d"] \<open>0 < d\<close> show ?thesis by (cases "m mod d = 0") auto
qed

lemma lucas:
  assumes n: "2 < n" and g1: "g ^ (n - 1) mod n = 1"
    and qs: "prod_list qs = n - 1" "\<forall>q \<in> set qs. is_prime q"
    and gq: "\<forall>q \<in> set qs. g ^ ((n - 1) div q) mod n \<noteq> 1"
  shows "is_prime n"
proof -
  have one: "1 mod n = 1" using n by simp
  define d where "d = (LEAST d. 0 < d \<and> g ^ d mod n = 1)"
  have ex: "0 < n - 1 \<and> g ^ (n - 1) mod n = 1" using n g1 by simp
  have d: "0 < d" "g ^ d mod n = 1" using LeastI[of "\<lambda>d. 0 < d \<and> g ^ d mod n = 1", OF ex] by (auto simp: d_def)
  have min: "g ^ e mod n \<noteq> 1" if "0 < e" "e < d" for e
    using not_less_Least[of e "\<lambda>d. 0 < d \<and> g ^ d mod n = 1"] that by (auto simp: d_def)
  have "d dvd n - 1" using pow_order_dvd[OF d(1), of g n "n - 1"] d min g1 one by simp
  then obtain k where k: "n - 1 = d * k" by (elim dvdE)
  have "k = 1"
  proof (rule dvd_prod_primes[OF qs(2)])
    show "k dvd prod_list qs" using k qs(1) by simp
    show "\<forall>q \<in> set qs. \<not> q dvd k"
    proof (intro ballI notI)
      fix q assume q: "q \<in> set qs" and "q dvd k"
      then obtain l where l: "k = q * l" by (elim dvdE)
      have "0 < q" using q qs(2) by (auto simp: is_prime_def)
      then have "(n - 1) div q = d * l" using k l by (simp add: mult.left_commute)
      then have "g ^ ((n - 1) div q) mod n = (g ^ d mod n) ^ l mod n" by (simp add: power_mult power_mod)
      with d(2) one gq q show False by simp
    qed
  qed
  with k have dn: "d = n - 1" by simp
  have inj: "inj_on (\<lambda>e. g ^ e mod n) {..<n - 1}"
  proof (rule linorder_inj_onI')
    fix i j assume ij: "i \<in> {..<n - 1}" "j \<in> {..<n - 1}" "i < j"
    show "g ^ i mod n \<noteq> g ^ j mod n"
    proof
      assume eq: "g ^ i mod n = g ^ j mod n"
      let ?c = "n - 1 - i"
      have "g ^ (i + ?c) mod n = g ^ (j + ?c) mod n"
        unfolding power_add using eq by (metis mod_mult_left_eq)
      moreover have "i + ?c = n - 1" "j + ?c = n - 1 + (j - i)" using ij by auto
      ultimately have "g ^ (n - 1) mod n = g ^ (n - 1 + (j - i)) mod n" by metis
      also have "\<dots> = (g ^ (n - 1) mod n) * g ^ (j - i) mod n" by (simp only: power_add mod_mult_left_eq)
      finally have "g ^ (j - i) mod n = 1" using g1 by simp
      moreover have "0 < j - i" "j - i < d" using ij dn by auto
      ultimately show False using min by blast
    qed
  qed
  have unit: "coprime (g ^ e mod n) n" for e
  proof -
    have "n \<noteq> 0" using n by simp
    then have mod: "coprime (x mod n) n \<longleftrightarrow> coprime x n" for x by (rule coprime_mod_left_iff)
    have "coprime (g ^ (n - 1)) n" using g1 mod[of "g ^ (n - 1)"] by simp
    then have "coprime g n" using n by simp
    then show ?thesis using mod by simp
  qed
  have "(\<lambda>e. g ^ e mod n) ` {..<n - 1} \<subseteq> {1..<n}"
  proof
    fix x assume "x \<in> (\<lambda>e. g ^ e mod n) ` {..<n - 1}"
    then obtain e where x: "x = g ^ e mod n" by auto
    have "coprime x n" using unit[of e] x by simp
    with n have "x \<noteq> 0" by (intro notI) simp
    with x n show "x \<in> {1..<n}" by simp
  qed
  then have all: "(\<lambda>e. g ^ e mod n) ` {..<n - 1} = {1..<n}"
    using inj by (intro card_subset_eq) (auto simp: card_image)
  show ?thesis unfolding is_prime_def
  proof (intro conjI allI impI)
    fix x assume x: "x dvd n"
    show "x = 1 \<or> x = n"
    proof (rule disjCI)
      assume "x \<noteq> n"
      with x n have "x \<in> {1..<n}" using dvd_imp_le[of x n] by (cases "x = 0") auto
      then obtain e where "x = g ^ e mod n" using all by blast
      then have "coprime x n" using unit by simp
      with x show "x = 1" by (metis coprime_common_divisor_nat dvd_refl)
    qed
  qed (use n in simp)
qed

lemma lucas_bits:
  assumes "2 < n" and "bits_val b 0 = n - 1" and "sq_mod n g b 1 = 1"
    and "prod_list qs = n - 1" and "\<forall>q \<in> set qs. is_prime q"
    and "\<forall>q \<in> set qs. \<exists>bq. bits_val bq 0 = (n - 1) div q \<and> sq_mod n g bq 1 \<noteq> 1"
  shows "is_prime n"
proof (rule lucas[OF assms(1) _ assms(4,5)])
  have one: "g ^ 0 mod n = 1" using assms(1) by simp
  show "g ^ (n - 1) mod n = 1" using sq_mod_correct[of n g b 0] assms(2,3) one by simp
  show "\<forall>q \<in> set qs. g ^ ((n - 1) div q) mod n \<noteq> 1"
  proof
    fix q assume "q \<in> set qs"
    then obtain bq where "bits_val bq 0 = (n - 1) div q" "sq_mod n g bq 1 \<noteq> 1" using assms(6) by blast
    then show "g ^ ((n - 1) div q) mod n \<noteq> 1" using sq_mod_correct[of n g bq 0] one by simp
  qed
qed

subsection \<open>The certificates\<close>

lemma is_prime_small:
  assumes "1 < p" and "\<forall>d \<in> {2..<p}. \<not> d dvd p"
  shows "is_prime p"
  unfolding is_prime_def
proof (intro conjI allI impI)
  fix d assume d: "d dvd p"
  with assms(1) have "d \<le> p" "d \<noteq> 0" by (auto intro: dvd_imp_le intro!: Nat.gr0I)
  with d assms(2) show "d = 1 \<or> d = p" by (cases "d \<in> {2..<p}") auto
qed (rule assms(1))

lemma prime_2: "is_prime 2"
  by (rule is_prime_small) simp_all

lemma prime_5: "is_prime 5"
  by (rule is_prime_small) (simp_all add: atLeastLessThan_nat_numeral)

lemma prime_11: "is_prime 11"
  by (rule is_prime_small) (simp_all add: atLeastLessThan_nat_numeral)

lemma prime_13: "is_prime 13"
  by (rule is_prime_small) (simp_all add: atLeastLessThan_nat_numeral)

lemma prime_41: "is_prime 41"
  by (rule is_prime_small) (simp_all add: atLeastLessThan_nat_numeral)

lemma prime_148721: "is_prime 148721"
proof (rule lucas_bits[where g = 6 and b = "[True, False, False, True, False, False, False, True, False, False, True, True, True, True, False, False, False, False]" and qs = "[2, 2, 2, 2, 5, 11, 13, 13]"])
  show "\<forall>q \<in> set [2, 2, 2, 2, 5, 11, 13, 13]. is_prime q"
    by (simp add: prime_2 prime_5 prime_11 prime_13)
  show "\<forall>q \<in> set [2, 2, 2, 2, 5, 11, 13, 13]. \<exists>bq. bits_val bq 0 = (148721 - 1) div q \<and> sq_mod 148721 6 bq 1 \<noteq> 1"
  proof
    fix q assume "q \<in> set ([2, 2, 2, 2, 5, 11, 13, 13] :: nat list)"
    then consider "q = 2" | "q = 5" | "q = 11" | "q = 13" by auto
    then show "\<exists>bq. bits_val bq 0 = (148721 - 1) div q \<and> sq_mod 148721 6 bq 1 \<noteq> 1"
    proof cases
      case 1
      then show ?thesis by (intro exI[of _ "[True, False, False, True, False, False, False, True, False, False, True, True, True, True, False, False, False]"]) simp
    next
      case 2
      then show ?thesis by (intro exI[of _ "[True, True, True, False, True, False, False, False, False, True, True, False, False, False, False]"]) simp
    next
      case 3
      then show ?thesis by (intro exI[of _ "[True, True, False, True, False, False, True, True, False, True, False, False, False, False]"]) simp
    next
      case 4
      then show ?thesis by (intro exI[of _ "[True, False, True, True, False, False, True, False, True, True, False, False, False, False]"]) simp
    qed
  qed
qed simp_all

lemma prime_500000003: "is_prime 500000003"
proof (rule lucas_bits[where g = 2 and b = "[True, True, True, False, True, True, True, False, False, True, True, False, True, False, True, True, False, False, True, False, True, False, False, False, False, False, False, True, False]" and qs = "[2, 41, 41, 148721]"])
  show "\<forall>q \<in> set [2, 41, 41, 148721]. is_prime q"
    by (simp add: prime_2 prime_41 prime_148721)
  show "\<forall>q \<in> set [2, 41, 41, 148721]. \<exists>bq. bits_val bq 0 = (500000003 - 1) div q \<and> sq_mod 500000003 2 bq 1 \<noteq> 1"
  proof
    fix q assume "q \<in> set ([2, 41, 41, 148721] :: nat list)"
    then consider "q = 2" | "q = 41" | "q = 148721" by auto
    then show "\<exists>bq. bits_val bq 0 = (500000003 - 1) div q \<and> sq_mod 500000003 2 bq 1 \<noteq> 1"
    proof cases
      case 1
      then show ?thesis by (intro exI[of _ "[True, True, True, False, True, True, True, False, False, True, True, False, True, False, True, True, False, False, True, False, True, False, False, False, False, False, False, True]"]) simp
    next
      case 2
      then show ?thesis by (intro exI[of _ "[True, False, True, True, True, False, True, False, False, False, False, True, False, True, False, True, False, False, True, True, False, False, True, False]"]) simp
    next
      case 3
      then show ?thesis by (intro exI[of _ "[True, True, False, True, False, False, True, False, False, False, True, False]"]) simp
    qed
  qed
qed simp_all

lemma prime_1000000007: "is_prime 1000000007"
proof (rule lucas_bits[where g = 5 and b = "[True, True, True, False, True, True, True, False, False, True, True, False, True, False, True, True, False, False, True, False, True, False, False, False, False, False, False, True, True, False]" and qs = "[2, 500000003]"])
  show "\<forall>q \<in> set [2, 500000003]. is_prime q"
    by (simp add: prime_2 prime_500000003)
  show "\<forall>q \<in> set [2, 500000003]. \<exists>bq. bits_val bq 0 = (1000000007 - 1) div q \<and> sq_mod 1000000007 5 bq 1 \<noteq> 1"
  proof
    fix q assume "q \<in> set ([2, 500000003] :: nat list)"
    then consider "q = 2" | "q = 500000003" by auto
    then show "\<exists>bq. bits_val bq 0 = (1000000007 - 1) div q \<and> sq_mod 1000000007 5 bq 1 \<noteq> 1"
    proof cases
      case 1
      then show ?thesis by (intro exI[of _ "[True, True, True, False, True, True, True, False, False, True, True, False, True, False, True, True, False, False, True, False, True, False, False, False, False, False, False, True, True]"]) simp
    next
      case 2
      then show ?thesis by (intro exI[of _ "[True, False]"]) simp
    qed
  qed
qed simp_all

text \<open>Euclid's lemma for the field modulus, on integers.\<close>

lemma prime_dvd_mult_int:
  fixes a b :: int
  assumes "1000000007 dvd a * b"
  shows "1000000007 dvd a \<or> 1000000007 dvd b"
proof (rule disjCI)
  assume b: "\<not> 1000000007 dvd b"
  have "\<not> 1000000007 dvd nat \<bar>b\<bar>" using b by (simp add: nat_abs_dvd_iff)
  then have "coprime (nat \<bar>b\<bar>) 1000000007" by (rule is_prime_coprime[OF prime_1000000007])
  then have "coprime b 1000000007"
    by (metis coprime_int_iff coprime_abs_left_iff int_nat_eq abs_ge_zero of_nat_numeral)
  with assms show "1000000007 dvd a" by (simp add: coprime_commute coprime_dvd_mult_left_iff)
qed

end
