(* ===== verification/Freivalds.thy ===== *)
theory Freivalds
  imports Bridge Primality
begin

text \<open>
  Freivalds' product check (\<^verbatim>\<open>pouw/src/freivalds.ts\<close>), in its square BigInt form and its
  rectangular double form. The random bytes of each round are a parameter (\<^verbatim>\<open>randomBytes\<close>);
  \<open>None\<close> is an exception. The rectangular form works in doubles: \<open>mulmodN\<close> splits a large
  product so that every intermediate stays an exact integer, which \<open>mulmodN_safe\<close> and
  \<open>rect_acc_safe\<close> bound; the model therefore computes on \<open>int\<close>.

  Shown here: a correct product is accepted for every choice of random bytes; a wrong one is
  accepted by at most one in \<open>p\<close> of the random vectors, over the integers as soon as the claimed
  entries are within \<open>(p - 1) / 2\<close>.
\<close>

subsection \<open>Definitions\<close>

definition fv_mod :: "int \<Rightarrow> int" where
  "fv_mod x = (let m = x smod PRIME in if m < 0 then m + PRIME else m)"

text \<open>\<^verbatim>\<open>readBigUInt64BE\<close> and \<^verbatim>\<open>readUIntBE\<close>: an unsigned big-endian number of \<open>len\<close> bytes.\<close>

definition be_num :: "bytes \<Rightarrow> int" where
  "be_num bs = foldl (\<lambda>acc b. acc * 256 + uint b) 0 bs"

definition read_be :: "bytes \<Rightarrow> nat \<Rightarrow> nat \<Rightarrow> int option" where
  "read_be bs ofs len = (if ofs + len \<le> length bs then Some (be_num (take len (drop ofs bs))) else None)"

definition randomFieldVector :: "bytes \<Rightarrow> nat \<Rightarrow> int list option" where
  "randomFieldVector rb n = opt_all (map (\<lambda>i. map_option (\<lambda>v. v smod PRIME) (read_be rb (i * 8) 8)) [0..<n])"

definition matVec_row :: "int list \<Rightarrow> int list \<Rightarrow> nat \<Rightarrow> nat \<Rightarrow> int option" where
  "matVec_row M v n i =
     map_option fv_mod (for_range 0 n
       (\<lambda>k s. case js_at M (i * n + k) of None \<Rightarrow> None
          | Some a \<Rightarrow> if a \<noteq> 0 then map_option (\<lambda>x. s + a * x) (js_at v k) else Some s) 0)"

definition matVec :: "int list \<Rightarrow> int list \<Rightarrow> nat \<Rightarrow> int list option" where
  "matVec M v n = opt_all (map (matVec_row M v n) [0..<n])"

text \<open>One round: \<open>A (B r) = C r\<close>, compared entry by entry.\<close>

definition freivalds_round :: "int list \<Rightarrow> int list \<Rightarrow> int list \<Rightarrow> nat \<Rightarrow> int list \<Rightarrow> bool option" where
  "freivalds_round A B C n r =
     (case matVec B r n of None \<Rightarrow> None | Some Br \<Rightarrow>
     (case matVec A Br n of None \<Rightarrow> None | Some ABr \<Rightarrow>
     (case matVec C r n of None \<Rightarrow> None | Some Cr \<Rightarrow> Some (ABr = Cr))))"

fun freivalds_loop ::
    "(int list \<Rightarrow> bool option) \<Rightarrow> (nat \<Rightarrow> int list option) \<Rightarrow> nat \<Rightarrow> nat \<Rightarrow> bool option" where
  "freivalds_loop chk vec t 0 = Some True"
| "freivalds_loop chk vec t (Suc k) =
     (case vec t of None \<Rightarrow> None | Some r \<Rightarrow>
     (case chk r of None \<Rightarrow> None | Some ok \<Rightarrow>
        if ok then freivalds_loop chk vec (Suc t) k else Some False))"

definition freivalds ::
    "(nat \<Rightarrow> bytes) \<Rightarrow> int list \<Rightarrow> int list \<Rightarrow> int list \<Rightarrow> nat \<Rightarrow> nat \<Rightarrow> bool option" where
  "freivalds rnd A B C n rounds =
     (if length A \<noteq> n * n \<or> length B \<noteq> n * n \<or> length C \<noteq> n * n then Some False
      else freivalds_loop (freivalds_round A B C n) (\<lambda>t. randomFieldVector (rnd t) n) 0 rounds)"

text \<open>The rectangular check in plain doubles.\<close>

definition SMALL :: int where
  "SMALL = 2 ^ 22"

definition mulmodN :: "int \<Rightarrow> int \<Rightarrow> int" where
  "mulmodN a r =
     (if a > - SMALL \<and> a < SMALL then (a * r) smod PRIME
      else (let x = a smod PRIME; hi = r div 32768; lo = r - hi * 32768 in
            (((x * hi) smod PRIME) * 32768 + x * lo) smod PRIME))"

definition randomFieldVectorN :: "bytes \<Rightarrow> nat \<Rightarrow> int list option" where
  "randomFieldVectorN rb n = opt_all (map (\<lambda>i. map_option (\<lambda>v. v smod PRIME) (read_be rb (i * 6) 6)) [0..<n])"

text \<open>One iteration of the accumulating loop: \<^verbatim>\<open>(k & 0x3fffff) === 0x3fffff\<close> reduces.\<close>

definition rect_acc :: "int list \<Rightarrow> int list \<Rightarrow> nat \<Rightarrow> nat \<Rightarrow> nat \<Rightarrow> int \<Rightarrow> int option" where
  "rect_acc M v nc i k s =
     (case js_at M (i * nc + k) of None \<Rightarrow> None
      | Some a \<Rightarrow>
          map_option (\<lambda>s'. if k mod 2 ^ 22 = 2 ^ 22 - 1 then s' smod PRIME else s')
            (if a \<noteq> 0 then map_option (\<lambda>x. s + mulmodN a x) (js_at v k) else Some s))"

definition matVecRect_row :: "int list \<Rightarrow> int list \<Rightarrow> nat \<Rightarrow> nat \<Rightarrow> int option" where
  "matVecRect_row M v nc i =
     map_option (\<lambda>s. let s' = s smod PRIME in if s' < 0 then s' + PRIME else s')
       (for_range 0 nc (rect_acc M v nc i) 0)"

definition matVecRect :: "int list \<Rightarrow> int list \<Rightarrow> nat \<Rightarrow> nat \<Rightarrow> int list option" where
  "matVecRect M v nr nc = opt_all (map (matVecRect_row M v nc) [0..<nr])"

definition rect_round ::
    "int list \<Rightarrow> int list \<Rightarrow> int list \<Rightarrow> nat \<Rightarrow> nat \<Rightarrow> nat \<Rightarrow> int list \<Rightarrow> bool option" where
  "rect_round A B C m k n r =
     (case matVecRect B r k n of None \<Rightarrow> None | Some Br \<Rightarrow>
     (case matVecRect A Br m k of None \<Rightarrow> None | Some ABr \<Rightarrow>
     (case matVecRect C r m n of None \<Rightarrow> None | Some Cr \<Rightarrow> Some (ABr = Cr))))"

definition freivaldsRect ::
    "(nat \<Rightarrow> bytes) \<Rightarrow> int list \<Rightarrow> int list \<Rightarrow> int list \<Rightarrow> nat \<Rightarrow> nat \<Rightarrow> nat \<Rightarrow> nat \<Rightarrow> bool option" where
  "freivaldsRect rnd A B C m k n rounds =
     (if length A \<noteq> m * k \<or> length B \<noteq> k * n \<or> length C \<noteq> m * n then Some False
      else freivalds_loop (rect_round A B C m k n) (\<lambda>t. randomFieldVectorN (rnd t) n) 0 rounds)"

subsection \<open>Matrix-vector products\<close>

definition mv :: "nat \<Rightarrow> int list \<Rightarrow> int list \<Rightarrow> nat \<Rightarrow> int" where
  "mv c M v i = (\<Sum>k < c. M ! (i * c + k) * v ! k)"

lemma fv_mod_eq: "fv_mod x = x mod PRIME"
proof -
  have range: "- PRIME < x smod PRIME" "x smod PRIME < PRIME"
    using smod_int_range[of PRIME x] by auto
  have c: "x smod PRIME mod PRIME = x mod PRIME" by (rule smod_mod_cong)
  show ?thesis
  proof (cases "x smod PRIME < 0")
    case True
    then have "(x smod PRIME + PRIME) mod PRIME = x smod PRIME + PRIME"
      using range by (intro mod_pos_pos_trivial) auto
    with True c show ?thesis by (simp add: fv_mod_def)
  next
    case False
    with range have "x smod PRIME mod PRIME = x smod PRIME" by (intro mod_pos_pos_trivial) auto
    with False c show ?thesis by (simp add: fv_mod_def)
  qed
qed

lemma matVec_row_eq:
  assumes "length M = m * n" "length v = n" "i < m"
  shows "matVec_row M v n i = Some (mv n M v i mod PRIME)"
proof -
  let ?b = "\<lambda>k s. case js_at M (i * n + k) of None \<Rightarrow> None
          | Some a \<Rightarrow> if a \<noteq> 0 then map_option (\<lambda>x. s + a * x) (js_at v k) else Some s"
  have "\<exists>s. for_range 0 n ?b 0 = Some s \<and> s = (\<Sum>k < n. M ! (i * n + k) * v ! k)"
    by (rule for_range_rule[where I = "\<lambda>l s. s = (\<Sum>k < l. M ! (i * n + k) * v ! k)"])
      (use assms in \<open>auto simp: nth_row_major\<close>)
  then show ?thesis by (auto simp: matVec_row_def mv_def fv_mod_eq)
qed

lemma matVec_eq:
  assumes "length M = n * n" "length v = n"
  shows "matVec M v n = Some (map (\<lambda>i. mv n M v i mod PRIME) [0..<n])"
  unfolding matVec_def
  by (rule opt_all_cong_Some) (use assms in \<open>auto intro: matVec_row_eq[where m = n]\<close>)

lemma mulmodN_cong: "mulmodN a r mod PRIME = a * r mod PRIME"
proof (cases "a > - SMALL \<and> a < SMALL")
  case True
  then show ?thesis by (simp add: mulmodN_def smod_mod_cong)
next
  case False
  define x hi lo where "x = a smod PRIME" and "hi = r div 32768" and "lo = r - hi * 32768"
  have "mulmodN a r mod PRIME = (((x * hi) smod PRIME) * 32768 + x * lo) mod PRIME"
    using False by (simp only: mulmodN_def if_False Let_def smod_mod_cong x_def hi_def lo_def)
  also have "\<dots> = ((x * hi) * 32768 + x * lo) mod PRIME"
    by (metis mod_add_left_eq mod_mult_left_eq smod_mod_cong)
  also have "(x * hi) * 32768 + x * lo = x * r" by (simp add: lo_def algebra_simps)
  also have "x * r mod PRIME = a * r mod PRIME" unfolding x_def by (metis mod_mult_left_eq smod_mod_cong)
  finally show ?thesis .
qed

lemma smod_range: "- PRIME < x smod PRIME" "x smod PRIME < PRIME"
  using smod_int_range[of PRIME x] by auto

lemma mulmodN_range: "- PRIME < mulmodN a r" "mulmodN a r < PRIME"
  using smod_range by (simp_all add: mulmodN_def Let_def)

lemma matVecRect_row_eq:
  assumes "length M = m * n" "length v = n" "i < m"
  shows "matVecRect_row M v n i = Some (mv n M v i mod PRIME)"
proof -
  let ?I = "\<lambda>l s. s mod PRIME = (\<Sum>k < l. M ! (i * n + k) * v ! k) mod PRIME"
  have "\<exists>s. for_range 0 n (rect_acc M v n i) 0 = Some s \<and> ?I n s"
  proof (rule for_range_rule[where I = ?I])
    fix k s assume k: "k < n" and s: "?I k s"
    let ?a = "M ! (i * n + k)"
    have step: "(if ?a \<noteq> 0 then s + mulmodN ?a (v ! k) else s) mod PRIME
        = (\<Sum>k < Suc k. M ! (i * n + k) * v ! k) mod PRIME"
      using mod_add_cong[OF s mulmodN_cong[of ?a "v ! k"]] s by simp
    then show "\<exists>s'. rect_acc M v n i k s = Some s' \<and> ?I (Suc k) s'"
      using assms k by (auto simp: rect_acc_def nth_row_major smod_mod_cong)
  qed simp
  then obtain s where "for_range 0 n (rect_acc M v n i) 0 = Some s" "?I n s" by blast
  then show ?thesis using fv_mod_eq[of s] by (simp add: matVecRect_row_def mv_def fv_mod_def)
qed

lemma matVecRect_eq:
  assumes "length M = m * n" "length v = n"
  shows "matVecRect M v m n = Some (map (\<lambda>i. mv n M v i mod PRIME) [0..<m])"
  unfolding matVecRect_def
  by (rule opt_all_cong_Some) (use assms in \<open>auto intro: matVecRect_row_eq[where m = m]\<close>)

subsection \<open>What a round decides\<close>

text \<open>The residual \<open>A B - C\<close> of a claimed rectangular product, over the integers.\<close>

definition rdot :: "nat \<Rightarrow> nat \<Rightarrow> int list \<Rightarrow> int list \<Rightarrow> nat \<Rightarrow> nat \<Rightarrow> int" where
  "rdot k n A B i j = (\<Sum>t < k. A ! (i * k + t) * B ! (t * n + j))"

definition residual :: "nat \<Rightarrow> nat \<Rightarrow> int list \<Rightarrow> int list \<Rightarrow> int list \<Rightarrow> nat \<Rightarrow> nat \<Rightarrow> int" where
  "residual k n A B C i j = rdot k n A B i j - C ! (i * n + j)"

lemma mv_compose:
  assumes "length Br = k" and "\<And>t. t < k \<Longrightarrow> Br ! t = mv n B r t mod PRIME"
  shows "mv k A Br i mod PRIME = (\<Sum>j < n. rdot k n A B i j * r ! j) mod PRIME"
proof -
  have "mv k A Br i mod PRIME = (\<Sum>t < k. A ! (i * k + t) * mv n B r t mod PRIME) mod PRIME"
    unfolding mv_def[of k] using assms(2) mod_sum_eq[of "\<lambda>t. A ! (i * k + t) * Br ! t" PRIME "{..<k}"]
    by (simp add: mod_mult_right_eq)
  also have "\<dots> = (\<Sum>t < k. A ! (i * k + t) * mv n B r t) mod PRIME" by (rule mod_sum_eq)
  also have "(\<Sum>t < k. A ! (i * k + t) * mv n B r t) = (\<Sum>t < k. \<Sum>j < n. A ! (i * k + t) * B ! (t * n + j) * r ! j)"
    by (simp add: mv_def sum_distrib_left mult.assoc)
  also have "\<dots> = (\<Sum>j < n. rdot k n A B i j * r ! j)"
    by (subst sum.swap) (simp add: rdot_def sum_distrib_right)
  finally show ?thesis .
qed

lemma rect_round_eq:
  assumes "length A = m * k" "length B = k * n" "length C = m * n" "length r = n"
  shows "rect_round A B C m k n r
     = Some (\<forall>i < m. PRIME dvd (\<Sum>j < n. residual k n A B C i j * r ! j))"
proof -
  let ?Br = "map (\<lambda>t. mv n B r t mod PRIME) [0..<k]"
  have Br: "matVecRect B r k n = Some ?Br" "length ?Br = k" using matVecRect_eq assms by auto
  have ABr: "matVecRect A ?Br m k = Some (map (\<lambda>i. mv k A ?Br i mod PRIME) [0..<m])"
    using matVecRect_eq[OF assms(1)] by simp
  have Cr: "matVecRect C r m n = Some (map (\<lambda>i. mv n C r i mod PRIME) [0..<m])"
    using matVecRect_eq assms by simp
  have "mv k A ?Br i mod PRIME = mv n C r i mod PRIME
      \<longleftrightarrow> PRIME dvd (\<Sum>j < n. residual k n A B C i j * r ! j)" for i
  proof -
    have "mv k A ?Br i mod PRIME = (\<Sum>j < n. rdot k n A B i j * r ! j) mod PRIME"
      by (rule mv_compose) simp_all
    moreover have "(\<Sum>j < n. residual k n A B C i j * r ! j) = (\<Sum>j < n. rdot k n A B i j * r ! j) - mv n C r i"
      by (simp add: residual_def mv_def left_diff_distrib sum_subtractf)
    ultimately show ?thesis by (metis mod_eq_dvd_iff)
  qed
  then show ?thesis using Br(1) ABr Cr by (auto simp: rect_round_def)
qed

lemma freivalds_round_rect:
  assumes "length A = n * n" "length B = n * n" "length C = n * n" "length r = n"
  shows "freivalds_round A B C n r = rect_round A B C n n n r"
  using assms matVec_eq matVecRect_eq by (simp add: freivalds_round_def rect_round_def)

subsection \<open>Completeness\<close>

lemma residual_dvd_sum: "(\<And>j. j < n \<Longrightarrow> PRIME dvd f j) \<Longrightarrow> PRIME dvd (\<Sum>j < n. f j * (g j :: int))"
  by (rule dvd_sum) auto

lemma freivalds_loop_all:
  assumes "\<And>t. \<exists>r. vec t = Some r \<and> chk r = Some True"
  shows "freivalds_loop chk vec t k = Some True"
  using assms
proof (induction k arbitrary: t)
  case (Suc k)
  then obtain r where "vec t = Some r" "chk r = Some True" by blast
  with Suc show ?case by simp
qed simp

lemma opt_all_length: "opt_all xs = Some ys \<Longrightarrow> length ys = length xs"
  by (drule opt_all_SomeD) simp

lemma read_all_ok:
  assumes "length rb = n * w"
  shows "\<exists>r. opt_all (map (\<lambda>i. map_option f (read_be rb (i * w) w)) [0..<n]) = Some r \<and> length r = n"
proof -
  have "map_option f (read_be rb (i * w) w) = Some (f (be_num (take w (drop (i * w) rb))))" if "i < n" for i
  proof -
    have "i * w + w \<le> n * w" using that mult_le_mono1[of "Suc i" n w] by simp
    with assms show ?thesis by (simp add: read_be_def)
  qed
  then have "opt_all (map (\<lambda>i. map_option f (read_be rb (i * w) w)) [0..<n])
      = Some (map (\<lambda>i. f (be_num (take w (drop (i * w) rb)))) [0..<n])"
    by (intro opt_all_cong_Some) auto
  then show ?thesis by simp
qed

lemma freivaldsRect_complete_aux:
  assumes "length A = m * k" "length B = k * n" "length C = m * n"
    and "\<And>t. length (rnd t) = n * 6"
    and "\<And>i j. i < m \<Longrightarrow> j < n \<Longrightarrow> C ! (i * n + j) = rdot k n A B i j"
  shows "freivaldsRect rnd A B C m k n rounds = Some True"
proof -
  have "\<exists>r. randomFieldVectorN (rnd t) n = Some r \<and> rect_round A B C m k n r = Some True" for t
  proof -
    obtain r where r: "randomFieldVectorN (rnd t) n = Some r" "length r = n"
      using read_all_ok[OF assms(4)] unfolding randomFieldVectorN_def by blast
    with assms show ?thesis
      by (auto simp: rect_round_eq residual_def intro!: residual_dvd_sum)
  qed
  with assms(1-3) show ?thesis by (simp add: freivaldsRect_def freivalds_loop_all)
qed

lemma dot_rdot: "dot n a b i j = rdot n n a b i j"
  by (simp add: dot_def rdot_def)

lemma freivalds_complete_aux:
  assumes "length A = n * n" "length B = n * n" and "\<And>t. length (rnd t) = n * 8"
  shows "freivalds rnd A B (int_product n A B) n rounds = Some True"
proof -
  have C: "length (int_product n A B) = n * n" by (simp add: int_product_def)
  have "\<exists>r. randomFieldVector (rnd t) n = Some r \<and> freivalds_round A B (int_product n A B) n r = Some True" for t
  proof -
    obtain r where r: "randomFieldVector (rnd t) n = Some r" "length r = n"
      using read_all_ok[OF assms(3)] unfolding randomFieldVector_def by blast
    with assms C show ?thesis
      by (auto simp: freivalds_round_rect rect_round_eq residual_def int_product_def dot_rdot nth_row_major
          intro!: residual_dvd_sum)
  qed
  with assms(1,2) C show ?thesis by (simp add: freivalds_def freivalds_loop_all)
qed

subsection \<open>Soundness: at most one vector in \<open>p\<close> hides a wrong entry\<close>

definition vectors :: "nat \<Rightarrow> int list set" where
  "vectors n = {r. length r = n \<and> (\<forall>x \<in> set r. in_field x)}"

lemma vectors_lists: "vectors n = {r. set r \<subseteq> {0..<PRIME} \<and> length r = n}"
  by (auto simp: vectors_def in_field_def)

lemma finite_vectors [simp]: "finite (vectors n)"
  unfolding vectors_lists by (rule finite_lists_length_eq) simp

lemma card_vectors: "card (vectors n) = nat PRIME ^ n"
  unfolding vectors_lists by (subst card_lists_length_eq) simp_all

lemma prime_dvd_mult: "PRIME dvd a * b \<Longrightarrow> PRIME dvd a \<or> PRIME dvd b"
  unfolding PRIME_def by (rule prime_dvd_mult_int)

lemma hiding_inj:
  assumes j: "j < n" and D: "\<not> PRIME dvd D j"
  shows "inj_on (\<lambda>r. take j r @ drop (Suc j) r) {r \<in> vectors n. PRIME dvd (\<Sum>l < n. D l * r ! l)}"
proof (rule inj_onI, goal_cases)
  case (1 r s)
  then have len: "length r = n" "length s = n" and z: "PRIME dvd (\<Sum>l < n. D l * r ! l)" "PRIME dvd (\<Sum>l < n. D l * s ! l)"
    and f: "in_field (r ! j)" "in_field (s ! j)" using j by (auto simp: vectors_def)
  from 1(3) len j have "take j r = take j s" "drop (Suc j) r = drop (Suc j) s" by auto
  then have eq: "r ! l = s ! l" if "l < n" "l \<noteq> j" for l
    using that len nth_take[of l j r] nth_take[of l j s] nth_drop[of "Suc j" r "l - Suc j"] nth_drop[of "Suc j" s "l - Suc j"]
    by (cases "l < j") auto
  have "(\<Sum>l < n. D l * r ! l) - (\<Sum>l < n. D l * s ! l) = (\<Sum>l < n. D l * (r ! l - s ! l))"
    by (simp add: sum_subtractf right_diff_distrib)
  also have "\<dots> = (\<Sum>l < n. if l = j then D j * (r ! j - s ! j) else 0)"
    using eq by (intro sum.cong) auto
  also have "\<dots> = D j * (r ! j - s ! j)" using j by simp
  finally have "PRIME dvd D j * (r ! j - s ! j)" using z by (metis dvd_diff)
  with D have "PRIME dvd r ! j - s ! j" using prime_dvd_mult by blast
  then have "r ! j mod PRIME = s ! j mod PRIME" by (simp add: mod_eq_dvd_iff)
  then have "r ! j = s ! j" using f by (simp add: in_field_mod_id)
  with eq have "\<And>l. l < n \<Longrightarrow> r ! l = s ! l" by metis
  with len show ?case by (simp add: list_eq_iff_nth_eq)
qed

lemma hiding_card:
  assumes "j < n" and "\<not> PRIME dvd D j"
  shows "card {r \<in> vectors n. PRIME dvd (\<Sum>l < n. D l * r ! l)} * nat PRIME \<le> card (vectors n)"
proof -
  let ?f = "\<lambda>r :: int list. take j r @ drop (Suc j) r" and ?S = "{r \<in> vectors n. PRIME dvd (\<Sum>l < n. D l * r ! l)}"
  have img: "?f ` ?S \<subseteq> vectors (n - 1)"
    using assms(1) by (fastforce simp: vectors_def dest: in_set_takeD in_set_dropD)
  have "card ?S \<le> card (vectors (n - 1))"
    by (rule card_inj_on_le[OF hiding_inj[of j n D, OF assms] img finite_vectors])
  then have "card ?S \<le> nat PRIME ^ (n - 1)" by (simp add: card_vectors)
  then have "card ?S * nat PRIME \<le> nat PRIME ^ (n - 1) * nat PRIME" by (rule mult_le_mono1)
  also have "\<dots> = card (vectors n)" using assms(1) by (simp add: card_vectors power_eq_if)
  finally show ?thesis .
qed

lemma rect_round_sound:
  assumes "length A = m * k" "length B = k * n" "length C = m * n"
    and "i < m" "j < n" "\<not> PRIME dvd residual k n A B C i j"
  shows "card {r \<in> vectors n. rect_round A B C m k n r = Some True} * nat PRIME \<le> card (vectors n)"
proof -
  have "{r \<in> vectors n. rect_round A B C m k n r = Some True}
      \<subseteq> {r \<in> vectors n. PRIME dvd (\<Sum>l < n. residual k n A B C i l * r ! l)}"
    using assms(4) rect_round_eq[OF assms(1-3)] by (auto simp: vectors_def)
  then have "card {r \<in> vectors n. rect_round A B C m k n r = Some True}
      \<le> card {r \<in> vectors n. PRIME dvd (\<Sum>l < n. residual k n A B C i l * r ! l)}"
    by (intro card_mono) auto
  then show ?thesis using hiding_card[OF assms(5), of "residual k n A B C i"] assms(6)
    by (meson le_trans mult_le_mono1)
qed

text \<open>Within the symmetric range a non-zero residual is not a multiple of the prime.\<close>

lemma small_not_dvd: "\<bar>x\<bar> < PRIME \<Longrightarrow> x \<noteq> 0 \<Longrightarrow> \<not> PRIME dvd x"
  using zdvd_not_zless[of "\<bar>x\<bar>" PRIME] by simp

lemma residual_exact:
  assumes "\<bar>rdot k n A B i j\<bar> \<le> HALF_P" "\<bar>C ! (i * n + j)\<bar> \<le> HALF_P" "C ! (i * n + j) \<noteq> rdot k n A B i j"
  shows "\<not> PRIME dvd residual k n A B C i j"
  by (rule small_not_dvd) (use assms HALF_P_val in \<open>auto simp: residual_def\<close>)

subsection \<open>The double arithmetic is exact\<close>

text \<open>Every intermediate of \<open>mulmodN\<close> is an integer below \<open>2^53\<close> in absolute value.\<close>

definition safe :: "int \<Rightarrow> bool" where
  "safe x \<longleftrightarrow> \<bar>x\<bar> < 2 ^ 53"

definition mulmodN_intermediates :: "int \<Rightarrow> int \<Rightarrow> int list" where
  "mulmodN_intermediates a r =
     (if a > - SMALL \<and> a < SMALL then [a * r]
      else (let x = a smod PRIME; hi = r div 32768; lo = r - hi * 32768; y = (x * hi) smod PRIME in
            [x, hi, lo, x * hi, y * 32768, x * lo, y * 32768 + x * lo]))"

lemma abs_mult_less: "\<bar>x\<bar> \<le> a \<Longrightarrow> \<bar>y\<bar> \<le> b \<Longrightarrow> a * b < c \<Longrightarrow> \<bar>x * y\<bar> < (c::int)"
proof -
  assume xy: "\<bar>x\<bar> \<le> a" "\<bar>y\<bar> \<le> b" and c: "a * b < c"
  have "\<bar>x\<bar> * \<bar>y\<bar> \<le> a * b" using xy by (intro mult_mono) auto
  with c show ?thesis by (simp add: abs_mult)
qed

lemma mulmodN_intermediates_safe:
  assumes "in_field r"
  shows "\<forall>v \<in> set (mulmodN_intermediates a r). safe v"
proof -
  have r: "0 \<le> r" "r < 1000000007" "\<bar>r\<bar> \<le> 1000000007" using assms by (simp_all add: in_field_def PRIME_def)
  show ?thesis
  proof (cases "a > - SMALL \<and> a < SMALL")
    case True
    then have "\<bar>a\<bar> \<le> 2 ^ 22" by (auto simp: SMALL_def)
    then have "\<bar>a * r\<bar> < 2 ^ 53" using r(3) by (rule abs_mult_less) simp
    with True show ?thesis by (simp add: mulmodN_intermediates_def safe_def)
  next
    case False
    define x hi lo y where "x = a smod PRIME" and "hi = r div 32768" and "lo = r - hi * 32768"
      and "y = (x * hi) smod PRIME"
    have xy: "\<bar>x\<bar> \<le> 1000000007" "\<bar>y\<bar> \<le> 1000000007"
      using smod_range[of a] smod_range[of "x * hi"] by (auto simp: x_def y_def PRIME_def)
    have hl: "\<bar>hi\<bar> \<le> 32768" "\<bar>lo\<bar> \<le> 32768"
      using r by (auto simp: hi_def lo_def minus_div_mult_eq_mod)
    have "\<bar>x * hi\<bar> < 2 ^ 46" "\<bar>y * 32768\<bar> < 2 ^ 46" "\<bar>x * lo\<bar> < 2 ^ 46"
      using abs_mult_less[OF xy(1) hl(1)] abs_mult_less[OF xy(2), of 32768 32768] abs_mult_less[OF xy(1) hl(2)] by auto
    then show ?thesis
      unfolding mulmodN_intermediates_def Let_def x_def[symmetric] hi_def[symmetric] lo_def[symmetric] y_def[symmetric]
      using False xy hl by (auto simp: safe_def)
  qed
qed

text \<open>The running sum never leaves the exact range either, whatever the number of columns.\<close>

lemma rect_acc_range:
  assumes "length M = m * n" "length v = n" "i < m" "k \<le> n"
  shows "\<exists>s. for_range 0 k (rect_acc M v n i) 0 = Some s \<and> \<bar>s\<bar> \<le> (int (k mod 2 ^ 22) + 1) * PRIME"
proof (rule for_range_rule[where I = "\<lambda>k s. \<bar>s\<bar> \<le> (int (k mod 2 ^ 22) + 1) * PRIME"])
  fix l s assume l: "l < k" and s: "\<bar>s\<bar> \<le> (int (l mod 2 ^ 22) + 1) * PRIME"
  let ?a = "M ! (i * n + l)"
  let ?s = "if ?a \<noteq> 0 then s + mulmodN ?a (v ! l) else s"
  have b: "\<bar>?s\<bar> \<le> (int (l mod 2 ^ 22) + 1) * PRIME + PRIME"
    using s mulmodN_range[of ?a "v ! l"] by auto
  have eq: "rect_acc M v n i l s = Some (if l mod 2 ^ 22 = 2 ^ 22 - 1 then ?s smod PRIME else ?s)"
    using assms l by (simp add: rect_acc_def nth_row_major)
  show "\<exists>s'. rect_acc M v n i l s = Some s' \<and> \<bar>s'\<bar> \<le> (int (Suc l mod 2 ^ 22) + 1) * PRIME"
  proof (cases "l mod 2 ^ 22 = (2 ^ 22 - 1 :: nat)")
    case True
    then have "Suc l mod 2 ^ 22 = 0" by (simp add: mod_Suc)
    with True eq smod_range[of ?s] show ?thesis by (intro exI[of _ "?s smod PRIME"]) auto
  next
    case False
    then have "Suc l mod 2 ^ 22 = Suc (l mod 2 ^ 22)" by (simp add: mod_Suc)
    moreover have "(int (l mod 2 ^ 22) + 1) * PRIME + PRIME = (int (Suc (l mod 2 ^ 22)) + 1) * PRIME"
      by (simp add: algebra_simps)
    ultimately show ?thesis using b eq False by (intro exI[of _ ?s]) auto
  qed
qed simp

subsection \<open>Properties\<close>

text \<open>
  Completeness of the square check: the exact integer product is accepted, for every choice
  of the random bytes and any number of rounds.
\<close>

theorem freivalds_complete:
  assumes "length A = n * n" and "length B = n * n" and "\<And>t. length (rnd t) = n * 8"
  shows "freivalds rnd A B (int_product n A B) n rounds = Some True"
  by (rule freivalds_complete_aux[OF assms])

theorem freivalds_complete_witness:
  "freivalds (\<lambda>t. replicate 16 (of_nat t)) [1, -2, 0, 3] [4, 5, -6, 7] (int_product 2 [1, -2, 0, 3] [4, 5, -6, 7]) 2 2
     = Some True"
  by (rule freivalds_complete) simp_all

lemma freivalds_sound_aux:
  assumes "bounded n A" and "bounded n B" and "length C = n * n" and "\<forall>x \<in> set C. \<bar>x\<bar> \<le> HALF_P"
    and "C \<noteq> int_product n A B"
  shows "card {r \<in> vectors n. freivalds_round A B C n r = Some True} * nat PRIME \<le> card (vectors n)"
proof -
  have len: "length A = n * n" "length B = n * n" using assms(1,2) by (auto simp: bounded_def)
  have "\<exists>i < n. \<exists>j < n. C ! (i * n + j) \<noteq> dot n A B i j"
  proof (rule ccontr)
    assume "\<not> ?thesis"
    then have "C = int_product n A B"
      using assms(3) by (intro list_eq_row_major[of _ n n]) (auto simp: int_product_def nth_row_major)
    with assms(5) show False by simp
  qed
  then obtain i j where ij: "i < n" "j < n" "C ! (i * n + j) \<noteq> rdot n n A B i j" by (auto simp: dot_rdot)
  have "\<not> PRIME dvd residual n n A B C i j"
    using residual_exact[of n n A B i j C] dot_bounded[OF assms(1,2) ij(1,2)] assms(3,4) ij nth_row_major[OF ij(1,2)]
    by (simp add: dot_rdot)
  from rect_round_sound[OF len assms(3) ij(1,2) this]
  show ?thesis using len assms(3) by (simp add: vectors_def freivalds_round_rect cong: conj_cong)
qed

text \<open>
  Soundness of the square check over the integers: let the inputs be within
  \<^verbatim>\<open>maxAbsEntry(n)\<close> and the claimed entries within \<open>(p - 1) / 2\<close>, as the submit path enforces.
  If the claimed matrix is not the integer product, then at most one in \<open>p = 1000000007\<close> of the
  field vectors \<open>r\<close> passes a round.
\<close>

theorem freivalds_sound:
  assumes "bounded n A" and "bounded n B" and "length C = n * n" and "\<forall>x \<in> set C. \<bar>x\<bar> \<le> HALF_P"
    and "C \<noteq> int_product n A B"
  shows "card {r \<in> vectors n. freivalds_round A B C n r = Some True} * nat PRIME \<le> card (vectors n)"
  by (rule freivalds_sound_aux[OF assms])

theorem freivalds_sound_witness:
  "card {r \<in> vectors 1. freivalds_round [2] [3] [7] 1 r = Some True} * nat PRIME \<le> card (vectors 1)"
proof (rule freivalds_sound)
  have "3 \<le> maxAbsEntry 1" by (rule maxAbsEntry_geI) (simp_all add: HALF_P_val)
  then show "bounded 1 [2]" "bounded 1 [3]" by (simp_all add: bounded_def)
qed (simp_all add: HALF_P_val int_product_def dot_def)

text \<open>
  The rectangular check runs in doubles, and every number it forms is an exactly represented
  integer: for field vectors the intermediates of \<^verbatim>\<open>mulmodN\<close> stay below \<open>2^53\<close>, and so does the
  running sum after any number \<open>k\<close> of columns (it is reduced every \<open>2^22\<close> terms).
\<close>

theorem freivaldsRect_doubles_exact:
  assumes "length M = m * n" and "length v = n" and "i < m" and "k \<le> n" and "in_field r"
  shows "(\<forall>x \<in> set (mulmodN_intermediates a r). safe x)
     \<and> (\<exists>s. for_range 0 k (rect_acc M v n i) 0 = Some s \<and> safe s)"
proof -
  obtain s where s: "for_range 0 k (rect_acc M v n i) 0 = Some s" "\<bar>s\<bar> \<le> (int (k mod 2 ^ 22) + 1) * PRIME"
    using rect_acc_range[OF assms(1-4)] by blast
  have "k mod 2 ^ 22 < (2 ^ 22 :: nat)" by simp
  then have "int (k mod 2 ^ 22) + 1 \<le> 2 ^ 22" by simp
  then have "(int (k mod 2 ^ 22) + 1) * PRIME \<le> 2 ^ 22 * PRIME" by (intro mult_right_mono) auto
  also have "\<dots> < 2 ^ 53" by (simp add: PRIME_def)
  finally have "safe s" using s(2) by (simp add: safe_def)
  with s(1) mulmodN_intermediates_safe[OF assms(5)] show ?thesis by blast
qed

theorem freivaldsRect_doubles_exact_witness:
  "list_all safe (mulmodN_intermediates (- 2147483648) 1000000006)
     \<and> (\<exists>s. for_range 0 2 (rect_acc [5000000, -7] [1000000006, 3] 2 0) 0 = Some s \<and> safe s)"
  unfolding list_all_iff by (rule freivaldsRect_doubles_exact[where m = 1]) (simp_all add: in_field_def PRIME_def)

end
