(* ===== verification/StorageProof.thy ===== *)
theory StorageProof
  imports Hex
begin

text \<open>
  Storage possession proofs (\<^verbatim>\<open>shared/storage-proof.ts\<close>): the split of a ciphertext copy into
  leaves, the Merkle tree over them (an odd node is carried up unchanged), the sibling path a node
  serves and the orchestrator's check of it. SHA-256 is the parameter \<open>H\<close>.

  Shown here: the leaves partition the copy; the path of every leaf verifies against the root; and
  a served leaf that verifies under the recorded root and leaf count is the leaf that was stored,
  unless the check and the tree between them exhibit a hash collision, that is, unless two
  different byte strings among those actually hashed have the same digest.
\<close>

subsection \<open>Definitions\<close>

definition LEAF_PLAIN_BYTES :: nat where
  "LEAF_PLAIN_BYTES = 64 * 1024"

definition GCM_TAG_BYTES :: nat where
  "GCM_TAG_BYTES = 16"

definition LEAF_BYTES :: nat where
  "LEAF_BYTES = LEAF_PLAIN_BYTES + GCM_TAG_BYTES"

definition ceil_div :: "nat \<Rightarrow> nat \<Rightarrow> nat" where
  "ceil_div a b = (a + (b - 1)) div b"

definition leafCount :: "nat \<Rightarrow> nat" where
  "leafCount plainSize = max 1 (ceil_div plainSize LEAF_PLAIN_BYTES)"

definition cipherSize :: "nat \<Rightarrow> nat" where
  "cipherSize plainSize = plainSize + leafCount plainSize * GCM_TAG_BYTES"

definition leafRange :: "nat \<Rightarrow> nat \<Rightarrow> nat \<times> nat" where
  "leafRange i sz = (let start = i * LEAF_BYTES in (start, min sz (start + LEAF_BYTES)))"

text \<open>\<^verbatim>\<open>copy.subarray(a, b)\<close>.\<close>

definition subarray :: "bytes \<Rightarrow> nat \<Rightarrow> nat \<Rightarrow> bytes" where
  "subarray xs a b = drop a (take b xs)"

definition leafHash :: "digest \<Rightarrow> bytes \<Rightarrow> bytes" where
  "leafHash H leaf = H (0 # leaf)"

definition nodeHash :: "digest \<Rightarrow> bytes \<Rightarrow> bytes \<Rightarrow> bytes" where
  "nodeHash H left right = H (1 # left @ right)"

definition copy_leaves :: "bytes \<Rightarrow> bytes list" where
  "copy_leaves cp =
     map (\<lambda>i. case leafRange i (length cp) of (a, b) \<Rightarrow> subarray cp a b)
       [0..<max 1 (ceil_div (length cp) LEAF_BYTES)]"

fun next_level :: "digest \<Rightarrow> bytes list \<Rightarrow> bytes list" where
  "next_level H (x # y # zs) = nodeHash H x y # next_level H zs"
| "next_level H xs = xs"

lemma next_level_length [simp]: "length (next_level H xs) = (length xs + 1) div 2"
  by (induction H xs rule: next_level.induct) auto

function levels_from :: "digest \<Rightarrow> bytes list \<Rightarrow> bytes list list" where
  "levels_from H level = (if 1 < length level then level # levels_from H (next_level H level) else [level])"
  by pat_completeness auto
termination
  by (relation "measure (\<lambda>(H, level). length level)") auto

declare levels_from.simps [simp del]

definition merkleLevels :: "digest \<Rightarrow> bytes \<Rightarrow> bytes list list" where
  "merkleLevels H cp = levels_from H (map (leafHash H) (copy_leaves cp))"

definition merkleRoot :: "digest \<Rightarrow> bytes \<Rightarrow> string" where
  "merkleRoot H cp = toHex (last (merkleLevels H cp) ! 0)"

definition carried :: "nat \<Rightarrow> nat \<Rightarrow> bool" where
  "carried idx width \<longleftrightarrow> idx = width - 1 \<and> width mod 2 = 1"

text \<open>\<^verbatim>\<open>idx ^ 1\<close>.\<close>

definition sibling :: "nat \<Rightarrow> nat" where
  "sibling idx = (if even idx then idx + 1 else idx - 1)"

fun merklePath :: "bytes list list \<Rightarrow> nat \<Rightarrow> string list" where
  "merklePath (level # upper # rest) idx =
     (if carried idx (length level) then [] else [toHex (level ! sibling idx)])
       @ merklePath (upper # rest) (idx div 2)"
| "merklePath _ idx = []"

text \<open>
  The climbing loop of \<^verbatim>\<open>verifyLeaf\<close>: \<open>None\<close> is the early \<^verbatim>\<open>return false\<close>; otherwise the
  accumulated hash and the siblings not used.
\<close>

function climb :: "digest \<Rightarrow> nat \<Rightarrow> nat \<Rightarrow> bytes \<Rightarrow> string list \<Rightarrow> (bytes \<times> string list) option" where
  "climb H idx width h path =
     (if 1 < width then
        (if carried idx width then climb H (idx div 2) ((width + 1) div 2) h path
         else (case path of [] \<Rightarrow> None
               | hex # rest \<Rightarrow>
                   if \<not> is_hex 64 hex then None
                   else climb H (idx div 2) ((width + 1) div 2)
                          (if idx mod 2 = 0 then nodeHash H h (fromHex hex) else nodeHash H (fromHex hex) h) rest))
      else Some (h, path))"
  by pat_completeness auto
termination
  by (relation "measure (\<lambda>(H, idx, width, h, path). width)") auto

declare climb.simps [simp del]

definition verifyLeaf :: "digest \<Rightarrow> bytes \<Rightarrow> int \<Rightarrow> nat \<Rightarrow> string list \<Rightarrow> string \<Rightarrow> bool" where
  "verifyLeaf H leaf i leaves path rt =
     (if i < 0 \<or> int leaves \<le> i then False
      else (case climb H (nat i) leaves (leafHash H leaf) path of None \<Rightarrow> False
            | Some (h, unused) \<Rightarrow> unused = [] \<and> toHex h = rt))"

record leafProof =
  lp_i :: nat
  lp_leaf :: bytes
  lp_path :: "string list"

subsection \<open>What is hashed\<close>

text \<open>The inputs the check hashes on its way up, and the inputs the tree was built from.\<close>

function climb_queries :: "digest \<Rightarrow> nat \<Rightarrow> nat \<Rightarrow> bytes \<Rightarrow> string list \<Rightarrow> bytes list" where
  "climb_queries H idx width h path =
     (if 1 < width then
        (if carried idx width then climb_queries H (idx div 2) ((width + 1) div 2) h path
         else (case path of [] \<Rightarrow> []
               | hex # rest \<Rightarrow>
                   (let q = (if idx mod 2 = 0 then 1 # h @ fromHex hex else 1 # fromHex hex @ h) in
                    q # climb_queries H (idx div 2) ((width + 1) div 2) (H q) rest)))
      else [])"
  by pat_completeness auto
termination
  by (relation "measure (\<lambda>(H, idx, width, h, path). width)") auto

declare climb_queries.simps [simp del]

definition verify_queries :: "digest \<Rightarrow> bytes \<Rightarrow> nat \<Rightarrow> nat \<Rightarrow> string list \<Rightarrow> bytes list" where
  "verify_queries H leaf i leaves path = (0 # leaf) # climb_queries H i leaves (leafHash H leaf) path"

fun pair_queries :: "bytes list \<Rightarrow> bytes list" where
  "pair_queries (x # y # zs) = (1 # x @ y) # pair_queries zs"
| "pair_queries xs = []"

definition tree_queries :: "digest \<Rightarrow> bytes \<Rightarrow> bytes list" where
  "tree_queries H cp = map (\<lambda>l. 0 # l) (copy_leaves cp) @ concat (map pair_queries (merkleLevels H cp))"

definition collision_free :: "digest \<Rightarrow> bytes list \<Rightarrow> bytes list \<Rightarrow> bool" where
  "collision_free H xs ys \<longleftrightarrow> (\<forall>x \<in> set xs. \<forall>y \<in> set ys. H x = H y \<longrightarrow> x = y)"

subsection \<open>Levels\<close>

lemma next_level_nth:
  "i < length xs \<Longrightarrow> next_level H xs ! (i div 2) =
     (if carried i (length xs) then xs ! i
      else if even i then nodeHash H (xs ! i) (xs ! sibling i) else nodeHash H (xs ! sibling i) (xs ! i))"
proof (induction H xs arbitrary: i rule: next_level.induct)
  case (1 H x y zs)
  show ?case
  proof (cases "i < 2")
    case True
    then have "i = 0 \<or> i = 1" by auto
    then show ?thesis by (auto simp: carried_def sibling_def)
  next
    case False
    then obtain j where i: "i = j + 2" by (metis add.commute le_Suc_ex not_less)
    have "carried i (length (x # y # zs)) = carried j (length zs)"
      using 1(2) i by (auto simp: carried_def)
    moreover have "sibling i = sibling j + 2" using i by (auto simp: sibling_def)
    ultimately show ?thesis using 1 i by simp
  qed
qed (auto simp: carried_def)

lemma pair_queries_nth:
  "i < length xs \<Longrightarrow> \<not> carried i (length xs) \<Longrightarrow>
     (if even i then 1 # xs ! i @ xs ! sibling i else 1 # xs ! sibling i @ xs ! i) \<in> set (pair_queries xs)"
proof (induction xs arbitrary: i rule: pair_queries.induct)
  case (1 x y zs)
  show ?case
  proof (cases "i < 2")
    case True
    then have "i = 0 \<or> i = 1" by auto
    then show ?thesis by (auto simp: sibling_def)
  next
    case False
    then obtain j where i: "i = j + 2" by (metis add.commute le_Suc_ex not_less)
    have "carried i (length (x # y # zs)) = carried j (length zs)"
      using 1(2) i by (auto simp: carried_def)
    moreover have "sibling i = sibling j + 2" using i by (auto simp: sibling_def)
    ultimately show ?thesis using 1(1)[of j] 1(2,3) i by (auto split: if_splits)
  qed
qed (auto simp: carried_def)

lemma sibling_less: "i < n \<Longrightarrow> \<not> carried i n \<Longrightarrow> sibling i < n"
proof (cases "even i")
  case True
  assume "i < n" "\<not> carried i n"
  with True have "i \<noteq> n - 1 \<or> even n" by (auto simp: carried_def odd_iff_mod_2_eq_one)
  with True \<open>i < n\<close> have "i + 1 \<noteq> n" by auto
  with True \<open>i < n\<close> show ?thesis by (simp add: sibling_def)
qed (simp add: sibling_def)

lemma levels_from_more: "1 < length xs \<Longrightarrow> levels_from H xs = xs # levels_from H (next_level H xs)"
  by (subst levels_from.simps) simp

lemma levels_from_one: "length xs \<le> 1 \<Longrightarrow> levels_from H xs = [xs]"
  by (subst levels_from.simps) simp

lemma levels_from_ne [simp]: "levels_from H xs \<noteq> []"
  by (subst levels_from.simps) simp

lemma climb_one: "width \<le> 1 \<Longrightarrow> climb H idx width h path = Some (h, path)"
  by (subst climb.simps) simp

definition level_digests :: "bytes list \<Rightarrow> bool" where
  "level_digests xs \<longleftrightarrow> (\<forall>x \<in> set xs. length x = 32)"

lemma level_digests_next: "(\<And>x. length (H x) = 32) \<Longrightarrow> level_digests xs \<Longrightarrow> level_digests (next_level H xs)"
  by (induction H xs rule: next_level.induct) (auto simp: level_digests_def nodeHash_def)

text \<open>Completeness of the climb: the honest path leads to the root.\<close>

lemma climb_complete:
  assumes "\<And>x. length (H x) = 32" and "level_digests xs" and "i < length xs"
  shows "climb H i (length xs) (xs ! i) (merklePath (levels_from H xs) i) = Some (last (levels_from H xs) ! 0, [])"
  using assms
proof (induction H xs arbitrary: i rule: levels_from.induct)
  case (1 H level)
  show ?case
  proof (cases "1 < length level")
    case False
    with 1 have "length level = 1" "i = 0" by auto
    then show ?thesis by (simp add: levels_from_one climb_one)
  next
    case True
    let ?next = "next_level H level"
    obtain l ls where ls: "levels_from H ?next = l # ls" by (cases "levels_from H ?next") auto
    have IH: "climb H (i div 2) (length ?next) (?next ! (i div 2)) (merklePath (levels_from H ?next) (i div 2))
        = Some (last (levels_from H ?next) ! 0, [])"
      by (rule 1(1)[OF True _ level_digests_next]) (use 1 in auto)
    show ?thesis
    proof (cases "carried i (length level)")
      case c: True
      then show ?thesis
        using IH True next_level_nth[OF 1(4)] ls by (subst climb.simps) (simp add: levels_from_more)
    next
      case c: False
      have "level ! sibling i \<in> set level" using sibling_less[OF 1(4) c] by simp
      then have "is_hex 64 (toHex (level ! sibling i))" using 1(3) by (simp add: level_digests_def)
      then show ?thesis
        using IH True c ls
        by (subst climb.simps)
          (auto simp: levels_from_more next_level_nth[OF 1(4)] odd_iff_mod_2_eq_one even_iff_mod_2_eq_zero)
    qed
  qed
qed

text \<open>
  Soundness of the climb: if it ends in the root of the tree with every sibling used, and no two
  different inputs among those hashed collide, it started from the tree's own node.
\<close>

lemma collision_free_eq: "collision_free H xs ys \<Longrightarrow> x \<in> set xs \<Longrightarrow> y \<in> set ys \<Longrightarrow> H x = H y \<Longrightarrow> x = y"
  by (auto simp: collision_free_def)

lemma collision_free_mono:
  "collision_free H xs ys \<Longrightarrow> set xs' \<subseteq> set xs \<Longrightarrow> set ys' \<subseteq> set ys \<Longrightarrow> collision_free H xs' ys'"
  by (auto simp: collision_free_def subset_iff)

lemma climb_sound:
  assumes "\<And>x. length (H x) = 32" and "level_digests xs" and "i < length xs" and "length h = 32"
    and "climb H i (length xs) h path = Some (last (levels_from H xs) ! 0, [])"
    and "collision_free H (climb_queries H i (length xs) h path) (concat (map pair_queries (levels_from H xs)))"
  shows "h = xs ! i"
  using assms
proof (induction H xs arbitrary: i h path rule: levels_from.induct)
  case (1 H level)
  show ?case
  proof (cases "1 < length level")
    case False
    with 1 have "length level = 1" "i = 0" by auto
    with 1 show ?thesis by (simp add: levels_from_one climb_one)
  next
    case True
    let ?next = "next_level H level"
    have nx: "level_digests ?next" "i div 2 < length ?next" "length ?next = (length level + 1) div 2"
      using 1(4) level_digests_next[OF 1(2) 1(3)] by auto
    show ?thesis
    proof (cases "carried i (length level)")
      case c: True
      have "collision_free H (climb_queries H (i div 2) (length ?next) h path)
          (concat (map pair_queries (levels_from H ?next)))"
        by (rule collision_free_mono[OF 1(7)])
          (use True c nx(3) in \<open>auto simp: climb_queries.simps[of H i] levels_from_more\<close>)
      then have "h = ?next ! (i div 2)"
        by (intro 1(1)[OF True 1(2) nx(1,2) 1(5)])
          (use 1(6) True c nx(3) in \<open>simp_all add: climb.simps[of H i] levels_from_more\<close>)
      with c next_level_nth[OF 1(4)] show ?thesis by simp
    next
      case c: False
      from 1(6) True c obtain hex rest where path: "path = hex # rest" "is_hex 64 hex"
        by (auto simp: climb.simps[of H i] split: list.splits if_splits)
      define q where "q = (if i mod 2 = 0 then 1 # h @ fromHex hex else 1 # fromHex hex @ h)"
      have "collision_free H (climb_queries H (i div 2) (length ?next) (H q) rest)
          (concat (map pair_queries (levels_from H ?next)))"
        by (rule collision_free_mono[OF 1(7)])
          (use True c nx(3) path in \<open>auto simp: climb_queries.simps[of H i] levels_from_more q_def Let_def\<close>)
      moreover have "climb H (i div 2) (length ?next) (H q) rest = Some (last (levels_from H ?next) ! 0, [])"
        using 1(6) True c nx(3) path
        by (auto simp: climb.simps[of H i] levels_from_more q_def nodeHash_def split: if_splits)
      ultimately have "H q = ?next ! (i div 2)"
        by (intro 1(1)[OF True 1(2) nx(1,2) 1(2)])
      then have eq: "H q = H (if even i then 1 # level ! i @ level ! sibling i else 1 # level ! sibling i @ level ! i)"
        using c next_level_nth[OF 1(4)] by (simp add: nodeHash_def)
      have "q = (if even i then 1 # level ! i @ level ! sibling i else 1 # level ! sibling i @ level ! i)"
        by (rule collision_free_eq[OF 1(7) _ _ eq])
          (use True c path pair_queries_nth[OF 1(4) c]
            in \<open>auto simp: climb_queries.simps[of H i] levels_from_more q_def Let_def\<close>)
      moreover have "length (level ! sibling i) = 32" "length (level ! i) = 32"
        using 1(3,4) sibling_less[OF 1(4) c] by (auto simp: level_digests_def)
      moreover have "length (fromHex hex) = 32" using toHex_fromHex[of 32 hex] path by simp
      ultimately show ?thesis using 1(5) by (auto simp: q_def even_iff_mod_2_eq_zero split: if_splits)
    qed
  qed
qed

subsection \<open>Leaves of a copy\<close>

lemma ceil_div_bounds: "0 < b \<Longrightarrow> a \<le> ceil_div a b * b \<and> ceil_div a b * b < a + b"
proof -
  assume b: "0 < b"
  have "(a + (b - 1)) div b * b + (a + (b - 1)) mod b = a + (b - 1)" by (rule div_mult_mod_eq)
  moreover have "(a + (b - 1)) mod b < b" using b by simp
  ultimately show ?thesis using b unfolding ceil_div_def by linarith
qed

lemma ceil_div_unique: "0 < b \<Longrightarrow> a \<le> n * b \<Longrightarrow> n * b < a + b \<Longrightarrow> ceil_div a b = (n::nat)"
proof -
  assume b: "0 < b" and n: "a \<le> n * b" "n * b < a + b"
  let ?c = "ceil_div a b"
  have c: "a \<le> ?c * b" "?c * b < a + b" using ceil_div_bounds[OF b, of a] by auto
  have "n * b < Suc ?c * b" "?c * b < Suc n * b" using n c by auto
  then have "n < Suc ?c" "?c < Suc n" by (auto simp only: mult_less_cancel2)
  then show ?thesis by simp
qed

lemma leafCount_cipherSize: "max 1 (ceil_div (cipherSize plainSize) LEAF_BYTES) = leafCount plainSize"
proof (cases "plainSize = 0")
  case True
  then show ?thesis
    by (simp add: cipherSize_def leafCount_def ceil_div_def LEAF_BYTES_def LEAF_PLAIN_BYTES_def GCM_TAG_BYTES_def)
next
  case False
  define n where "n = ceil_div plainSize LEAF_PLAIN_BYTES"
  have n: "plainSize \<le> n * LEAF_PLAIN_BYTES" "n * LEAF_PLAIN_BYTES < plainSize + LEAF_PLAIN_BYTES"
    using ceil_div_bounds[of LEAF_PLAIN_BYTES plainSize] by (simp_all add: n_def LEAF_PLAIN_BYTES_def)
  with False have n1: "1 \<le> n" by (cases n) auto
  then have lc: "leafCount plainSize = n" by (simp add: leafCount_def n_def)
  have "ceil_div (cipherSize plainSize) LEAF_BYTES = n"
    by (rule ceil_div_unique) (use n n1 in \<open>simp_all add: cipherSize_def lc LEAF_BYTES_def LEAF_PLAIN_BYTES_def GCM_TAG_BYTES_def\<close>)
  with n1 lc show ?thesis by simp
qed

lemma take_concat_leaves:
  "concat (map (\<lambda>i. drop (i * b) (take (min (length xs) (i * b + b)) xs)) [0..<n]) = take (n * b) xs"
proof (induction n)
  case (Suc n)
  have "take (n * b) xs @ drop (n * b) (take (min (length xs) (n * b + b)) xs) = take (n * b + b) xs"
    by (simp add: take_add drop_take min_def)
  with Suc show ?case by (simp add: add.commute)
qed simp

lemma length_copy_leaves: "length cp = cipherSize p \<Longrightarrow> length (copy_leaves cp) = leafCount p"
  using leafCount_cipherSize[of p] by (simp add: copy_leaves_def)

text \<open>
  The leaves of a copy are its consecutive slices: together they are the copy, none is longer than
  \<open>LEAF_BYTES\<close>, and a copy of the ciphertext size of \<open>p\<close> plaintext bytes has exactly \<open>leafCount p\<close> leaves,
  the number the verifier takes from its own record.
\<close>

theorem copy_leaves_partition:
  "concat (copy_leaves cp) = cp \<and> (\<forall>leaf \<in> set (copy_leaves cp). length leaf \<le> LEAF_BYTES)
     \<and> (length cp = cipherSize p \<longrightarrow> length (copy_leaves cp) = leafCount p)"
proof -
  have "length cp \<le> max 1 (ceil_div (length cp) LEAF_BYTES) * LEAF_BYTES"
    using ceil_div_bounds[of LEAF_BYTES "length cp"]
    by (cases "ceil_div (length cp) LEAF_BYTES") (auto simp: LEAF_BYTES_def GCM_TAG_BYTES_def)
  then have "concat (copy_leaves cp) = cp"
    using take_concat_leaves[of LEAF_BYTES cp] by (simp add: copy_leaves_def leafRange_def subarray_def Let_def)
  moreover have "\<forall>leaf \<in> set (copy_leaves cp). length leaf \<le> LEAF_BYTES"
    by (auto simp: copy_leaves_def leafRange_def subarray_def Let_def)
  ultimately show ?thesis using length_copy_leaves by simp
qed

theorem copy_leaves_partition_witness:
  "concat (copy_leaves (replicate 17 0)) = replicate 17 0 \<and> length (copy_leaves (replicate 17 0)) = leafCount 1"
  using copy_leaves_partition[of "replicate 17 0" 1]
  by (simp add: cipherSize_def leafCount_def ceil_div_def LEAF_PLAIN_BYTES_def GCM_TAG_BYTES_def)

lemma leaf_digests: "(\<And>x. length (H x) = 32) \<Longrightarrow> level_digests (map (leafHash H) xs)"
  by (auto simp: level_digests_def leafHash_def)

text \<open>
  An honest node is always accepted: leaf \<open>i\<close> of the copy with the sibling path read off the tree verifies
  against the recorded root and leaf count.
\<close>

theorem verifyLeaf_complete:
  assumes "\<And>x. length (H x) = 32" and "length cp = cipherSize p" and "i < leafCount p"
  shows "verifyLeaf H (copy_leaves cp ! i) (int i) (leafCount p) (merklePath (merkleLevels H cp) i) (merkleRoot H cp)"
  using climb_complete[of H "map (leafHash H) (copy_leaves cp)" i] assms
  by (simp add: verifyLeaf_def merkleRoot_def merkleLevels_def leaf_digests length_copy_leaves)

text \<open>
  C18. A verified leaf is the stored leaf: if \<^verbatim>\<open>verifyLeaf\<close> accepts \<open>leaf\<close> at index \<open>i\<close> with any path under the
  root of the copy and the recorded leaf count, then \<open>leaf\<close> is leaf \<open>i\<close> of the copy. The hypothesis on the hash
  is the only one possible: among the inputs hashed by this check and by the tree no two collide.
\<close>

theorem verifyLeaf_sound:
  assumes "\<And>x. length (H x) = 32" and "length cp = cipherSize p"
    and "verifyLeaf H leaf i (leafCount p) path (merkleRoot H cp)"
    and "collision_free H (verify_queries H leaf (nat i) (leafCount p) path) (tree_queries H cp)"
  shows "0 \<le> i \<and> nat i < length (copy_leaves cp) \<and> leaf = copy_leaves cp ! nat i"
proof -
  let ?xs = "map (leafHash H) (copy_leaves cp)"
  from assms(3) have i: "0 \<le> i" "i < int (leafCount p)"
    and cl: "climb H (nat i) (leafCount p) (leafHash H leaf) path = Some (last (levels_from H ?xs) ! 0, [])"
    by (auto simp: verifyLeaf_def merkleRoot_def merkleLevels_def dest: toHex_inj split: if_splits option.splits)
  have n: "leafCount p = length (copy_leaves cp)" by (rule length_copy_leaves[OF assms(2), symmetric])
  have lt: "nat i < length (copy_leaves cp)" using i n by auto
  have "collision_free H (climb_queries H (nat i) (length ?xs) (leafHash H leaf) path)
      (concat (map pair_queries (levels_from H ?xs)))"
    by (rule collision_free_mono[OF assms(4)])
      (auto simp: n verify_queries_def tree_queries_def merkleLevels_def)
  then have "leafHash H leaf = ?xs ! nat i"
    by (intro climb_sound[where path = path])
      (use assms(1) lt cl n in \<open>simp_all add: leaf_digests, simp add: leafHash_def\<close>)
  then have "H (0 # leaf) = H (0 # copy_leaves cp ! nat i)" using lt by (simp add: leafHash_def)
  from collision_free_eq[OF assms(4) _ _ this] lt have "0 # leaf = 0 # copy_leaves cp ! nat i"
    by (auto simp: verify_queries_def tree_queries_def)
  with i lt show ?thesis by simp
qed

definition toy_hash :: digest where
  "toy_hash x = take 32 (x @ replicate 32 0)"

theorem verifyLeaf_complete_witness:
  "verifyLeaf toy_hash (copy_leaves (replicate 17 7) ! 0) (int 0) (leafCount 1)
     (merklePath (merkleLevels toy_hash (replicate 17 7)) 0) (merkleRoot toy_hash (replicate 17 7))"
  by (rule verifyLeaf_complete)
    (simp_all add: toy_hash_def cipherSize_def leafCount_def ceil_div_def LEAF_PLAIN_BYTES_def GCM_TAG_BYTES_def)

theorem verifyLeaf_sound_witness:
  "replicate 17 7 = copy_leaves (replicate 17 7) ! 0"
proof -
  let ?cp = "replicate 17 7 :: bytes"
  have one: "leafCount 1 = 1" "length ?cp = cipherSize 1"
    by (simp_all add: cipherSize_def leafCount_def ceil_div_def LEAF_PLAIN_BYTES_def GCM_TAG_BYTES_def)
  have leaves: "copy_leaves ?cp = [?cp]"
    by (simp add: copy_leaves_def leafRange_def subarray_def ceil_div_def LEAF_BYTES_def LEAF_PLAIN_BYTES_def GCM_TAG_BYTES_def)
  have "verifyLeaf toy_hash ?cp 0 (leafCount 1) [] (merkleRoot toy_hash ?cp)"
    by (simp del: One_nat_def add: one leaves verifyLeaf_def climb_one merkleRoot_def merkleLevels_def levels_from_one)
  moreover have "collision_free toy_hash (verify_queries toy_hash ?cp (nat 0) (leafCount 1) []) (tree_queries toy_hash ?cp)"
    by (simp del: One_nat_def add: one leaves collision_free_def verify_queries_def tree_queries_def climb_queries.simps
        merkleLevels_def levels_from_one)
  moreover have "\<And>x. length (toy_hash x) = 32" by (simp add: toy_hash_def)
  ultimately show ?thesis using verifyLeaf_sound[of toy_hash ?cp 1 ?cp 0 "[]"] one(2) by (simp del: One_nat_def)
qed

end
