(* ===== verification/DoubleError.thy ===== *)
theory DoubleError
  imports Doubles
begin

text \<open>
  Error bounds for rounded operations: the relative error of one rounding, the exactness of
  \<^verbatim>\<open>Math.floor(a / b)\<close> on safe integers, and the bound that a pro-rata split
  \<^verbatim>\<open>Math.floor((left * part) / total)\<close> computed in doubles still never hands out more than \<^verbatim>\<open>left\<close>.
\<close>

lemma rne_error: "\<bar>of_int (rne x) - x\<bar> \<le> 1 / 2"
proof -
  have "of_int \<lfloor>x\<rfloor> \<le> x" "x < of_int \<lfloor>x\<rfloor> + 1" by linarith+
  then show ?thesis by (auto simp: rne_def Let_def abs_le_iff)
qed

lemma dbl_error:
  assumes "0 < x"
  shows "\<bar>dbl x - x\<bar> \<le> 2 powi (ilog2 x - 52) / 2"
proof -
  let ?u = "(2::rat) powi (ilog2 x - 52)"
  have u: "0 < ?u" by simp
  have "dbl x - x = (of_int (rne (x / ?u)) - x / ?u) * ?u"
    using u by (simp add: dbl_pos[OF assms] left_diff_distrib)
  then have "\<bar>dbl x - x\<bar> = \<bar>of_int (rne (x / ?u)) - x / ?u\<bar> * ?u" using u by (simp add: abs_mult)
  also have "\<dots> \<le> 1 / 2 * ?u" using rne_error[of "x / ?u"] u by (intro mult_right_mono) auto
  finally show ?thesis by simp
qed

lemma ulp_le:
  assumes "0 < x"
  shows "2 powi (ilog2 x - 52) \<le> x / 2 ^ 52"
proof -
  have "(2::rat) powi (ilog2 x - 52) = 2 powi ilog2 x / 2 ^ 52" by (simp add: power_int_diff)
  also have "\<dots> \<le> x / 2 ^ 52" using ilog2_bounds[OF assms] by (intro divide_right_mono) auto
  finally show ?thesis .
qed

lemma dbl_upper: "0 \<le> x \<Longrightarrow> dbl x \<le> x * (1 + 1 / 2 ^ 53)"
proof (cases "x = 0")
  case False
  assume "0 \<le> x"
  with False have x: "0 < x" by simp
  have "dbl x - x \<le> 2 powi (ilog2 x - 52) / 2" using dbl_error[OF x] by (simp only: abs_le_iff)
  also have "\<dots> \<le> x / 2 ^ 52 / 2" using ulp_le[OF x] by (intro divide_right_mono) auto
  finally show ?thesis by (simp add: field_simps)
qed simp

lemma floor_dbl_div:
  assumes "0 \<le> a" and "a < 2 ^ 53" and "0 < b"
  shows "\<lfloor>dbl (of_int a / of_int b)\<rfloor> = a div b"
proof (cases "a = 0")
  case False
  with assms(1) have a: "0 < a" by simp
  let ?x = "of_int a / of_int b :: rat" and ?q = "a div b"
  have x: "0 < ?x" using a assms(3) by simp
  have q: "0 \<le> ?q" "?q \<le> a" using assms zdiv_mono2[of a 1 b] by (auto simp: pos_imp_zdiv_nonneg_iff)
  have qx: "of_int ?q \<le> ?x" "?x \<le> of_int (?q + 1) - 1 / of_int b"
  proof -
    have "a = ?q * b + a mod b" by (rule div_mult_mod_eq[symmetric])
    moreover have "0 \<le> a mod b" "a mod b < b" using assms(3) by simp_all
    ultimately have "?q * b \<le> a" "a \<le> ?q * b + b - 1" by linarith+
    then have "?q * b \<le> a" "a \<le> (?q + 1) * b - 1" by (simp_all add: distrib_right)
    then have "of_int (?q * b) \<le> (of_int a :: rat)" "(of_int a :: rat) \<le> of_int ((?q + 1) * b - 1)"
      by (simp_all only: of_int_le_iff)
    then show "of_int ?q \<le> ?x" "?x \<le> of_int (?q + 1) - 1 / of_int b"
      using assms(3) by (simp_all add: pos_le_divide_eq pos_divide_le_eq left_diff_distrib)
  qed
  have lo: "of_int ?q \<le> dbl ?x"
    using dbl_mono[OF qx(1)] dbl_of_int[of ?q] q assms(2) by simp
  have "dbl ?x < of_int (?q + 1)"
  proof -
    have "?x / 2 ^ 53 < 1 / of_int b"
      using assms by (simp add: divide_less_eq pos_less_divide_eq)
    moreover have "2 powi (ilog2 ?x - 52) / 2 \<le> ?x / 2 ^ 52 / 2" using ulp_le[OF x] by (intro divide_right_mono) auto
    moreover have "dbl ?x - ?x \<le> 2 powi (ilog2 ?x - 52) / 2" using dbl_error[OF x] by (simp only: abs_le_iff)
    ultimately have "dbl ?x < ?x + 1 / of_int b" by simp
    with qx(2) show ?thesis by simp
  qed
  with lo show ?thesis by (simp add: floor_eq_iff)
qed simp

text \<open>One share of a pro-rata split.\<close>

definition prorata :: "int \<Rightarrow> int \<Rightarrow> int \<Rightarrow> int" where
  "prorata whole part tot = \<lfloor>dbl (dbl (of_int (whole * part)) / of_int tot)\<rfloor>"

lemma prorata_nonneg: "0 \<le> whole \<Longrightarrow> 0 \<le> part \<Longrightarrow> 0 < tot \<Longrightarrow> 0 \<le> prorata whole part tot"
  by (simp add: prorata_def dbl_nonneg)

lemma prorata_upper:
  assumes "0 \<le> whole" and "0 \<le> part" and "0 < tot"
  shows "of_int (prorata whole part tot) \<le> (of_int whole * of_int part / of_int tot) * (1 + 1 / 2 ^ 51 :: rat)"
proof -
  let ?c = "1 + 1 / 2 ^ 53 :: rat"
  let ?p = "of_int (whole * part) :: rat"
  have p: "0 \<le> ?p" using assms by simp
  have t: "0 < (of_int tot :: rat)" using assms by simp
  have "dbl ?p / of_int tot \<le> ?p * ?c / of_int tot" using dbl_upper[OF p] t by (intro divide_right_mono) auto
  then have "dbl (dbl ?p / of_int tot) \<le> dbl (?p * ?c / of_int tot)" by (rule dbl_mono)
  also have "\<dots> \<le> ?p * ?c / of_int tot * ?c" using p t by (intro dbl_upper) simp
  also have "\<dots> = ?p / of_int tot * (?c * ?c)" by simp
  also have "\<dots> \<le> ?p / of_int tot * (1 + 1 / 2 ^ 51)"
    using p t by (intro mult_left_mono) (simp_all add: field_simps)
  finally have "dbl (dbl ?p / of_int tot) \<le> ?p / of_int tot * (1 + 1 / 2 ^ 51)" .
  moreover have "of_int (prorata whole part tot) \<le> dbl (dbl ?p / of_int tot)" by (simp add: prorata_def)
  ultimately show ?thesis by simp
qed

lemma sum_list_prorata_upper:
  assumes "0 \<le> whole" and "0 < tot" and "\<And>x. x \<in> set xs \<Longrightarrow> 0 \<le> f x"
  shows "of_int (\<Sum>x\<leftarrow>xs. prorata whole (f x) tot)
     \<le> (of_int whole * of_int (\<Sum>x\<leftarrow>xs. f x) / of_int tot) * (1 + 1 / 2 ^ 51 :: rat)"
  using assms(3)
proof (induction xs)
  case (Cons x xs)
  have "of_int (prorata whole (f x) tot) \<le> (of_int whole * of_int (f x) / of_int tot) * (1 + 1 / 2 ^ 51 :: rat)"
    using Cons assms by (intro prorata_upper) auto
  with Cons show ?case by (simp add: ring_distribs add_divide_distrib)
qed simp

text \<open>The parts of a split add up to at most the whole, although every share is rounded twice.\<close>

lemma prorata_total:
  assumes "0 \<le> whole" and "whole < 2 ^ 51" and "0 < tot" and "\<And>x. x \<in> set xs \<Longrightarrow> 0 \<le> f x"
    and "(\<Sum>x\<leftarrow>xs. f x) \<le> tot"
  shows "(\<Sum>x\<leftarrow>xs. prorata whole (f x) tot) \<le> whole"
proof -
  let ?S = "\<Sum>x\<leftarrow>xs. prorata whole (f x) tot" and ?F = "\<Sum>x\<leftarrow>xs. f x"
  have t: "0 < (of_int tot :: rat)" using assms(3) by simp
  have "of_int ?F / of_int tot \<le> (1::rat)" using assms(3,5) t by (simp add: divide_le_eq)
  then have "of_int whole * (of_int ?F / of_int tot) \<le> (of_int whole * 1 :: rat)"
    using assms(1) by (intro mult_left_mono) auto
  then have "(of_int whole * of_int ?F / of_int tot) * (1 + 1 / 2 ^ 51) \<le> (of_int whole * (1 + 1 / 2 ^ 51) :: rat)"
    by (intro mult_right_mono) auto
  with sum_list_prorata_upper[OF assms(1,3,4)] have "of_int ?S \<le> (of_int whole * (1 + 1 / 2 ^ 51) :: rat)"
    by (rule order_trans)
  also have "\<dots> = of_int whole + of_int whole / 2 ^ 51" by (simp add: field_simps)
  also have "\<dots> < of_int whole + 1"
  proof -
    have "(of_int whole :: rat) < of_int (2 ^ 51)" using assms(2) by (simp only: of_int_less_iff)
    then show ?thesis by simp
  qed
  finally have "(of_int ?S :: rat) < of_int (whole + 1)" by simp
  then show ?thesis by (simp only: of_int_less_iff)
qed

end
