(* ===== verification/FeeSplit.thy ===== *)
theory FeeSplit
  imports DoubleError
begin

text \<open>
  Epoch arithmetic and the fee split of the reward ledger (first part of
  \<^verbatim>\<open>client/api/src/services/ledger.service.ts\<close>): which epoch a verified job is booked in, when its pay can no
  longer be clawed, and how a fee is split into lane A, treasury and subsidy. Times and amounts are
  integers; the two places where the source computes with fractions, \<^verbatim>\<open>epochOf\<close> and the subsidy rate, are
  rounded with \<open>dbl\<close> the way the engine does.
\<close>

subsection \<open>Definitions\<close>

record api_env =
  EPOCH_SECONDS :: int
  PAY_HOLD_SECONDS :: int
  VEST_B_SECONDS :: int
  SUBSIDY_RHO :: rat
  CLUSTER_N_MIN :: int
  CLUSTER_S_CAP :: rat
  EPOCH_SUBSIDY_BUDGET_UCLD :: int

definition LANE_A_PER_MILLE :: int where
  "LANE_A_PER_MILLE = 950"

definition TREASURY_PER_MILLE :: int where
  "TREASURY_PER_MILLE = 30"

definition epochOf :: "api_env \<Rightarrow> int \<Rightarrow> int" where
  "epochOf env ms = \<lfloor>dbl (of_int ms / of_int (EPOCH_SECONDS env * 1000))\<rfloor>"

definition releasesAt :: "api_env \<Rightarrow> int \<Rightarrow> int" where
  "releasesAt env epoch = epoch * EPOCH_SECONDS env * 1000"

record booking =
  bk_epoch :: int
  bk_heldUntil :: int
  bk_vestsAt :: int

definition jobBooking :: "api_env \<Rightarrow> int \<Rightarrow> booking" where
  "jobBooking env now =
     (if PAY_HOLD_SECONDS env = 0
      then \<lparr>bk_epoch = epochOf env now, bk_heldUntil = now, bk_vestsAt = now + VEST_B_SECONDS env * 1000\<rparr>
      else (let epoch = epochOf env (now + PAY_HOLD_SECONDS env * 1000) + 1 in
            \<lparr>bk_epoch = epoch, bk_heldUntil = releasesAt env epoch,
             bk_vestsAt = releasesAt env (epoch + 1) + VEST_B_SECONDS env * 1000\<rparr>))"

record laneSplit =
  ls_laneA :: int
  ls_treasury :: int
  ls_subsidy :: int

text \<open>The literal \<^verbatim>\<open>0.04\<close>.\<close>

definition RHO_MAX :: rat where
  "RHO_MAX = dbl (4 / 100)"

definition rho_ppm :: "rat \<Rightarrow> int" where
  "rho_ppm rho = js_round (dbl (min rho RHO_MAX * 1000000))"

definition splitFee :: "int \<Rightarrow> rat \<Rightarrow> bool \<Rightarrow> int \<Rightarrow> laneSplit" where
  "splitFee fee rho clusterOk budgetRemaining =
     (let rhoPpm = rho_ppm rho;
          treasuryB = (fee * TREASURY_PER_MILLE + 999) sdiv 1000;
          capB = (fee * (LANE_A_PER_MILLE + TREASURY_PER_MILLE)) sdiv 1000 - treasuryB;
          floorA = (fee * LANE_A_PER_MILLE) sdiv 1000;
          laneA = (if floorA < capB then floorA else if capB > 0 then capB else 0);
          wanted = (if clusterOk then (fee * rhoPpm) sdiv 1000000 else 0);
          subsidy = max 0 (min wanted budgetRemaining)
      in \<lparr>ls_laneA = laneA, ls_treasury = treasuryB, ls_subsidy = subsidy\<rparr>)"

text \<open>\<^verbatim>\<open>Number.MAX_SAFE_INTEGER\<close>.\<close>

definition MAX_SAFE_INTEGER :: int where
  "MAX_SAFE_INTEGER = 2 ^ 53 - 1"

subsection \<open>Epochs\<close>

definition env_ok :: "api_env \<Rightarrow> bool" where
  "env_ok env \<longleftrightarrow> 0 < EPOCH_SECONDS env \<and> 0 \<le> PAY_HOLD_SECONDS env \<and> 0 \<le> VEST_B_SECONDS env"

lemma epochOf_div: "env_ok env \<Longrightarrow> 0 \<le> ms \<Longrightarrow> ms < 2 ^ 53 \<Longrightarrow> epochOf env ms = ms div (EPOCH_SECONDS env * 1000)"
  unfolding epochOf_def env_ok_def by (rule floor_dbl_div) auto

lemma epochOf_bounds:
  assumes "env_ok env" and "0 \<le> ms" and "ms < 2 ^ 53"
  shows "releasesAt env (epochOf env ms) \<le> ms \<and> ms < releasesAt env (epochOf env ms + 1)"
proof -
  let ?d = "EPOCH_SECONDS env * 1000"
  have d: "0 < ?d" using assms(1) by (simp add: env_ok_def)
  have "ms div ?d * ?d \<le> ms" "ms < (ms div ?d + 1) * ?d"
    using d div_mult_mod_eq[of ms ?d] pos_mod_bound[OF d, of ms] pos_mod_sign[OF d, of ms]
    by (auto simp only: distrib_right)
  then show ?thesis using epochOf_div[OF assms] by (simp add: releasesAt_def mult.assoc)
qed

text \<open>
  Booking with a hold: the job's entries go into an epoch that is not open yet, their pay leaves the
  check window when that epoch opens, which is more than \<^verbatim>\<open>PAY_HOLD_SECONDS\<close> from now but at most one
  epoch later than that, and lane B vests only after the epoch has ended.
\<close>

theorem jobBooking_hold:
  assumes "env_ok env" and "PAY_HOLD_SECONDS env \<noteq> 0" and "0 \<le> now"
    and "now + PAY_HOLD_SECONDS env * 1000 < 2 ^ 53"
  shows "let b = jobBooking env now in
     epochOf env now < bk_epoch b
     \<and> now + PAY_HOLD_SECONDS env * 1000 < bk_heldUntil b
     \<and> bk_heldUntil b \<le> now + PAY_HOLD_SECONDS env * 1000 + EPOCH_SECONDS env * 1000
     \<and> bk_heldUntil b = releasesAt env (bk_epoch b)
     \<and> releasesAt env (bk_epoch b + 1) \<le> bk_vestsAt b"
proof -
  let ?t = "now + PAY_HOLD_SECONDS env * 1000"
  have p: "0 < PAY_HOLD_SECONDS env" "0 \<le> VEST_B_SECONDS env" "0 < EPOCH_SECONDS env"
    using assms(1,2) by (auto simp: env_ok_def)
  have t: "0 \<le> ?t" "now \<le> ?t" "now < 2 ^ 53" using p assms by auto
  have "epochOf env now \<le> epochOf env ?t"
    using epochOf_div[OF assms(1)] t assms(3,4) p by (simp add: zdiv_mono1)
  moreover have "releasesAt env (epochOf env ?t) \<le> ?t" "?t < releasesAt env (epochOf env ?t + 1)"
    using epochOf_bounds[OF assms(1) t(1) assms(4)] by auto
  ultimately show ?thesis using assms(2) p by (simp add: jobBooking_def Let_def releasesAt_def algebra_simps)
qed

theorem jobBooking_hold_witness:
  "let env = \<lparr>EPOCH_SECONDS = 3600, PAY_HOLD_SECONDS = 7200, VEST_B_SECONDS = 60, SUBSIDY_RHO = 0, CLUSTER_N_MIN = 1,
       CLUSTER_S_CAP = 1, EPOCH_SUBSIDY_BUDGET_UCLD = 5\<rparr> in
   1700000000000 + 7200000 < bk_heldUntil (jobBooking env 1700000000000)"
  using jobBooking_hold[of "\<lparr>EPOCH_SECONDS = 3600, PAY_HOLD_SECONDS = 7200, VEST_B_SECONDS = 60, SUBSIDY_RHO = 0,
       CLUSTER_N_MIN = 1, CLUSTER_S_CAP = 1, EPOCH_SUBSIDY_BUDGET_UCLD = 5\<rparr>" 1700000000000]
  by (simp add: env_ok_def Let_def)

subsection \<open>The split\<close>

lemma RHO_MAX_value: "RHO_MAX = 5764607523034235 / 2 ^ 57"
  unfolding RHO_MAX_def using dbl_eqI[of "-5" "4 / 100" 5764607523034235] by (simp add: power_int_minus)

lemma RHO_MAX_ppm: "dbl (RHO_MAX * 1000000) = 40000"
  unfolding RHO_MAX_value using dbl_eqI[of 15 "5764607523034235 / 2 ^ 57 * 1000000" "40000 * 2 ^ 37"]
  by (simp add: power_int_minus)

lemma rho_ppm_le: "rho_ppm rho \<le> 40000"
proof -
  have "dbl (min rho RHO_MAX * 1000000) \<le> dbl (RHO_MAX * 1000000)" by (intro dbl_mono mult_right_mono) auto
  then have "js_round (dbl (min rho RHO_MAX * 1000000)) \<le> js_round (of_int 40000)"
    unfolding RHO_MAX_ppm by (intro js_round_mono) simp
  then show ?thesis by (simp only: rho_ppm_def js_round_of_int)
qed

lemma rho_ppm_nonneg: "0 \<le> rho \<Longrightarrow> 0 \<le> rho_ppm rho"
proof -
  assume "0 \<le> rho"
  then have "0 \<le> dbl (min rho RHO_MAX * 1000000)" by (intro dbl_nonneg) (simp add: RHO_MAX_value)
  then show ?thesis by (simp add: rho_ppm_def js_round_def)
qed

lemma div_bounds_int: "0 < d \<Longrightarrow> (a div d) * d \<le> a \<and> a < (a div d) * d + (d::int)"
  using div_mult_mod_eq[of a d] pos_mod_bound[of d a] pos_mod_sign[of d a] by linarith

lemma splitFee_parts:
  assumes "0 \<le> fee"
  shows "ls_treasury (splitFee fee rho ok budget) = (fee * 30 + 999) div 1000"
    and "ls_laneA (splitFee fee rho ok budget) =
      max 0 (min (fee * 950 div 1000) (fee * 980 div 1000 - (fee * 30 + 999) div 1000))"
proof -
  have "0 \<le> fee * 950 div 1000" using assms by (simp add: pos_imp_zdiv_nonneg_iff)
  then show "ls_treasury (splitFee fee rho ok budget) = (fee * 30 + 999) div 1000"
    and "ls_laneA (splitFee fee rho ok budget) =
      max 0 (min (fee * 950 div 1000) (fee * 980 div 1000 - (fee * 30 + 999) div 1000))"
    using assms by (auto simp: splitFee_def Let_def LANE_A_PER_MILLE_def TREASURY_PER_MILLE_def sdiv_nonneg)
qed

lemma splitFee_contract:
  assumes "0 \<le> fee" and "fee \<noteq> 1"
  shows "30 * fee \<le> 1000 * ls_treasury (splitFee fee rho ok budget)
    \<and> 1000 * (ls_laneA (splitFee fee rho ok budget) + ls_treasury (splitFee fee rho ok budget)) \<le> 980 * fee
    \<and> 0 \<le> ls_laneA (splitFee fee rho ok budget) \<and> 1000 * ls_laneA (splitFee fee rho ok budget) \<le> 950 * fee
    \<and> 950 * fee - 2000 < 1000 * ls_laneA (splitFee fee rho ok budget)"
proof (cases "fee = 0")
  case True
  then show ?thesis by (simp add: splitFee_parts)
next
  case False
  with assms have "2 \<le> fee" by simp
  define t a c where "t = (fee * 30 + 999) div 1000" and "a = fee * 950 div 1000" and "c = fee * 980 div 1000"
  have "t * 1000 \<le> fee * 30 + 999" "fee * 30 + 999 < t * 1000 + 1000"
    "a * 1000 \<le> fee * 950" "fee * 950 < a * 1000 + 1000" "c * 1000 \<le> fee * 980" "fee * 980 < c * 1000 + 1000"
    using div_bounds_int[of 1000 "fee * 30 + 999"] div_bounds_int[of 1000 "fee * 950"] div_bounds_int[of 1000 "fee * 980"]
    by (simp_all add: t_def a_def c_def)
  moreover from this \<open>2 \<le> fee\<close> have "t \<le> c" by linarith
  ultimately show ?thesis
    using splitFee_parts[OF assms(1)] \<open>2 \<le> fee\<close>
    by (simp add: t_def[symmetric] a_def[symmetric] c_def[symmetric])
qed

lemma splitFee_subsidy:
  assumes "0 \<le> fee" and "0 \<le> rho"
  shows "0 \<le> ls_subsidy (splitFee fee rho ok budget) \<and> 25 * ls_subsidy (splitFee fee rho ok budget) \<le> fee
    \<and> ls_subsidy (splitFee fee rho ok budget) \<le> max 0 budget
    \<and> (\<not> ok \<longrightarrow> ls_subsidy (splitFee fee rho ok budget) = 0)"
proof -
  let ?w = "fee * rho_ppm rho div 1000000"
  have "?w * 1000000 \<le> fee * rho_ppm rho" using div_bounds_int[of 1000000 "fee * rho_ppm rho"] by simp
  also have "\<dots> \<le> fee * 40000" using assms(1) rho_ppm_le by (intro mult_left_mono) auto
  finally have w: "25 * ?w \<le> fee" by simp
  have "0 \<le> ?w" using assms rho_ppm_nonneg by (simp add: pos_imp_zdiv_nonneg_iff)
  then show ?thesis
    using assms rho_ppm_nonneg[OF assms(2)] w by (auto simp: splitFee_def Let_def sdiv_nonneg)
qed

text \<open>
  The split of every fee but 1 keeps the bounds the settlement contract enforces: the treasury gets at least
  3%, lane A and treasury together at most 98%, lane A at most 95% and less than 2 \<open>\<mu>\<close>CLD below it; the
  subsidy is at most 4% whatever \<^verbatim>\<open>SUBSIDY_RHO\<close> says, nothing without the cluster gate, never above the
  budget; and a provider who pays for its own job always loses money.
\<close>

theorem splitFee_bounds:
  assumes "0 \<le> fee" and "fee \<noteq> 1" and "0 \<le> rho"
  shows "let s = splitFee fee rho ok budget in
    30 * fee \<le> 1000 * ls_treasury s \<and> 1000 * (ls_laneA s + ls_treasury s) \<le> 980 * fee
    \<and> 0 \<le> ls_laneA s \<and> 1000 * ls_laneA s \<le> 950 * fee \<and> 950 * fee - 2000 < 1000 * ls_laneA s
    \<and> 0 \<le> ls_subsidy s \<and> 25 * ls_subsidy s \<le> fee \<and> ls_subsidy s \<le> max 0 budget
    \<and> (\<not> ok \<longrightarrow> ls_subsidy s = 0) \<and> (0 < fee \<longrightarrow> ls_laneA s + ls_subsidy s < fee)"
  using splitFee_contract[OF assms(1,2), of rho ok budget] splitFee_subsidy[OF assms(1,3), of ok budget]
  by (auto simp: Let_def)

theorem splitFee_bounds_witness:
  "let s = splitFee 1000000 (1 / 2) True 7000000 in 0 < ls_subsidy s \<and> ls_laneA s + ls_subsidy s < 1000000"
proof -
  have "rho_ppm (1 / 2) = 40000"
    by (simp add: rho_ppm_def RHO_MAX_ppm min_def RHO_MAX_value[symmetric] js_round_def floor_eq_iff)
      (simp add: RHO_MAX_value)
  then have "ls_subsidy (splitFee 1000000 (1 / 2) True 7000000) = 40000"
    by (simp add: splitFee_def Let_def sdiv_nonneg)
  then show ?thesis using splitFee_bounds[of 1000000 "1 / 2" True 7000000] by (simp add: Let_def)
qed


end
