(* ===== verification/PairTree.thy ===== *)
theory PairTree
  imports Hex
begin

text \<open>
  The binary heap layout of OpenZeppelin's \<^verbatim>\<open>StandardMerkleTree\<close>, which both
  \<^verbatim>\<open>client/api/src/services/epoch-merkle.ts\<close> and \<^verbatim>\<open>keeper/src/tree.ts\<close> build by hand: the sorted leaves
  are placed at the end of an array of \<open>2 n - 1\<close> entries in reverse, and the inner nodes are filled
  from the last one down, node \<open>i\<close> hashing nodes \<open>2 i + 1\<close> and \<open>2 i + 2\<close>. The loops are parameterised
  by the pair hash, because each source has its own. The interface \<open>pair_hash\<close> asks the pair hash to be
  symmetric on the values that occur; from it follow the two facts the clients need: every proof
  read off the array leads to the root, and a value that leads to the root is a node of the array.
\<close>

subsection \<open>Array loops\<close>

text \<open>\<^verbatim>\<open>Array.prototype.sort\<close>: stable, a value moves before the first one it compares below.\<close>

fun insert_by :: "('a \<Rightarrow> 'a \<Rightarrow> int) \<Rightarrow> 'a \<Rightarrow> 'a list \<Rightarrow> 'a list" where
  "insert_by cmp x [] = [x]"
| "insert_by cmp x (y # ys) = (if cmp x y < 0 then x # y # ys else y # insert_by cmp x ys)"

definition sort_by :: "('a \<Rightarrow> 'a \<Rightarrow> int) \<Rightarrow> 'a list \<Rightarrow> 'a list" where
  "sort_by cmp xs = foldl (\<lambda>acc x. insert_by cmp x acc) [] xs"

text \<open>\<^verbatim>\<open>sorted.forEach((leaf, i) => (tree[tree.length - 1 - i] = leaf))\<close>.\<close>

fun place :: "'a option list \<Rightarrow> nat \<Rightarrow> 'a list \<Rightarrow> 'a option list" where
  "place t i [] = t"
| "place t i (x # xs) = place (t[length t - 1 - i := Some x]) (Suc i) xs"

text \<open>
  \<^verbatim>\<open>for (let i = tree.length - 1 - n; i >= 0; i--) tree[i] = hashPair(tree[2*i+1], tree[2*i+2])\<close>; hashing
  an entry that was never written throws (\<open>None\<close>).
\<close>

fun fill_up :: "('a \<Rightarrow> 'a \<Rightarrow> 'a) \<Rightarrow> nat \<Rightarrow> 'a option list \<Rightarrow> 'a option list option" where
  "fill_up hp 0 t = Some t"
| "fill_up hp (Suc i) t = (case (js_at t (2 * i + 1), js_at t (2 * i + 2)) of
     (Some (Some a), Some (Some b)) \<Rightarrow> fill_up hp i (t[i := Some (hp a b)])
   | _ \<Rightarrow> None)"

definition heap_tree :: "('a \<Rightarrow> 'a \<Rightarrow> 'a) \<Rightarrow> 'a list \<Rightarrow> 'a list option" where
  "heap_tree hp leaves =
     (let t = place (replicate (2 * length leaves - 1) None) 0 leaves in
      case fill_up hp (length t - length leaves) t of None \<Rightarrow> None | Some t' \<Rightarrow> opt_all t')"

text \<open>The sibling of node \<open>i\<close>, the walk to the root and the fold of a proof.\<close>

definition heap_sibling :: "nat \<Rightarrow> nat" where
  "heap_sibling i = (if i mod 2 = 1 then i + 1 else i - 1)"

fun heap_proof :: "'a list \<Rightarrow> nat \<Rightarrow> 'a list" where
  "heap_proof t 0 = []"
| "heap_proof t (Suc k) = t ! heap_sibling (Suc k) # heap_proof t (k div 2)"

definition fold_proof :: "('a \<Rightarrow> 'a \<Rightarrow> 'a) \<Rightarrow> 'a \<Rightarrow> 'a list \<Rightarrow> 'a" where
  "fold_proof hp leaf prf = foldl hp leaf prf"

text \<open>The shape of a finished array.\<close>

definition heap_shape :: "('a \<Rightarrow> 'a \<Rightarrow> 'a) \<Rightarrow> 'a list \<Rightarrow> 'a list \<Rightarrow> bool" where
  "heap_shape hp leaves t \<longleftrightarrow> length t = 2 * length leaves - 1 \<and> drop (length leaves - 1) t = rev leaves
     \<and> (\<forall>j < length leaves - 1. t ! j = hp (t ! (2 * j + 1)) (t ! (2 * j + 2)))"

subsection \<open>The loops build the shape\<close>

lemma place_spec:
  "i + length xs \<le> length t \<Longrightarrow>
     place t i xs = take (length t - i - length xs) t @ rev (map Some xs) @ drop (length t - i) t"
proof (induction xs arbitrary: t i)
  case (Cons x xs)
  let ?k = "length t - 1 - i"
  have k: "?k < length t" using Cons.prems by auto
  have "drop ?k (t[?k := Some x]) = Some x # drop (Suc ?k) t"
    using k by (simp add: Cons_nth_drop_Suc[symmetric] drop_update_cancel)
  moreover have "length t - i = Suc ?k" using Cons.prems by simp
  ultimately show ?case
    using Cons.prems Cons.IH[of "Suc i" "t[?k := Some x]"] by (simp add: take_update_cancel)
qed simp

lemma fill_up_spec:
  assumes "i \<le> m" and "length t = 2 * m + 1" and "\<forall>j. i \<le> j \<and> j < length t \<longrightarrow> t ! j \<noteq> None"
  shows "\<exists>s. fill_up hp i t = Some (map Some s) \<and> length s = length t \<and> drop i (map Some s) = drop i t
           \<and> (\<forall>j < i. s ! j = hp (s ! (2 * j + 1)) (s ! (2 * j + 2)))"
  using assms
proof (induction i arbitrary: t)
  case 0
  have "t = map Some (map the t)" using 0(3) by (auto intro!: nth_equalityI)
  then show ?case by (intro exI[of _ "map the t"]) (auto simp del: map_map)
next
  case (Suc i)
  have lt: "2 * i + 1 < length t" "2 * i + 2 < length t" "i < length t" using Suc.prems by auto
  obtain a b where ab: "t ! (2 * i + 1) = Some a" "t ! (2 * i + 2) = Some b"
    using Suc.prems(3) lt by (metis add.commute add_Suc_right add_2_eq_Suc' le_add2 Suc_leI
        less_add_Suc1 mult_2 not_None_eq plus_1_eq_Suc Suc_le_mono trans_le_add1)
  let ?t = "t[i := Some (hp a b)]"
  have "\<forall>j. i \<le> j \<and> j < length ?t \<longrightarrow> ?t ! j \<noteq> None"
    using Suc.prems(3) by (auto simp: nth_list_update)
  with Suc.IH[of ?t] Suc.prems obtain s where s: "fill_up hp i ?t = Some (map Some s)" "length s = length t"
    "drop i (map Some s) = drop i ?t" "\<forall>j < i. s ! j = hp (s ! (2 * j + 1)) (s ! (2 * j + 2))"
    by auto
  have nth: "Some (s ! k) = ?t ! k" if "i \<le> k" "k < length t" for k
    using arg_cong[OF s(3), of "\<lambda>l. l ! (k - i)"] that s(2) by simp
  have "s ! i = hp a b" "s ! (2 * i + 1) = a" "s ! (2 * i + 2) = b"
    using nth[of i] nth[of "2 * i + 1"] nth[of "2 * i + 2"] lt ab by auto
  then have "\<forall>j < Suc i. s ! j = hp (s ! (2 * j + 1)) (s ! (2 * j + 2))"
    using s(4) less_Suc_eq by auto
  moreover have "drop (Suc i) (map Some s) = drop (Suc i) t"
    using s(2) nth by (intro nth_equalityI) auto
  moreover have "fill_up hp (Suc i) t = Some (map Some s)" using lt ab s(1) by simp
  ultimately show ?case using s(2) by auto
qed

lemma opt_all_map_id_Some [simp]: "opt_all (map Some xs) = Some xs"
  by (induction xs) auto

lemma heap_tree_shape:
  assumes "leaves \<noteq> []"
  shows "\<exists>t. heap_tree hp leaves = Some t \<and> heap_shape hp leaves t"
proof -
  let ?n = "length leaves"
  let ?t = "place (replicate (2 * ?n - 1) None) 0 leaves"
  have n: "?n \<le> 2 * ?n - 1" "2 * ?n - 1 = 2 * (?n - 1) + 1" using assms by (cases leaves; simp)+
  have t: "?t = replicate (?n - 1) None @ rev (map Some leaves)"
    using place_spec[of 0 leaves "replicate (2 * ?n - 1) None"] n by simp
  have "\<exists>s. fill_up hp (?n - 1) ?t = Some (map Some s) \<and> length s = length ?t \<and> drop (?n - 1) (map Some s) = drop (?n - 1) ?t
           \<and> (\<forall>j < ?n - 1. s ! j = hp (s ! (2 * j + 1)) (s ! (2 * j + 2)))"
    unfolding t by (rule fill_up_spec[of _ "?n - 1"]) (use n in \<open>auto simp: nth_append rev_nth\<close>)
  then obtain s where s: "fill_up hp (?n - 1) ?t = Some (map Some s)" "length s = length ?t"
    "drop (?n - 1) (map Some s) = drop (?n - 1) ?t"
    "\<forall>j < ?n - 1. s ! j = hp (s ! (2 * j + 1)) (s ! (2 * j + 2))"
    by blast
  have "map Some (drop (?n - 1) s) = map Some (rev leaves)" using s(3) unfolding t by (simp add: drop_map rev_map)
  then have "drop (?n - 1) s = rev leaves" by (simp only: inj_map_eq_map[OF inj_Some])
  moreover have len: "length ?t = 2 * ?n - 1" "length ?t - ?n = ?n - 1" using n t by simp_all
  have "heap_tree hp leaves = Some s" unfolding heap_tree_def Let_def len(2) s(1) by simp
  ultimately show ?thesis using s(2,4) len(1) by (auto simp: heap_shape_def)
qed

lemma heap_shape_leaf:
  assumes "heap_shape hp leaves t" and "k < length leaves"
  shows "t ! (length t - 1 - k) = leaves ! k"
proof -
  let ?n = "length leaves"
  have "drop (?n - 1) t ! (?n - 1 - k) = rev leaves ! (?n - 1 - k)" and "length t = 2 * ?n - 1"
    using assms(1) by (simp_all add: heap_shape_def)
  then show ?thesis using assms(2) by (simp add: rev_nth mult_2)
qed

lemma heap_shape_node:
  assumes "heap_shape hp leaves t" and "length leaves - 1 \<le> k" and "k < length t"
  shows "t ! k \<in> set leaves"
proof -
  have "t ! k = drop (length leaves - 1) t ! (k - (length leaves - 1))" using assms(2,3) by simp
  moreover have "drop (length leaves - 1) t = rev leaves" using assms(1) by (simp add: heap_shape_def)
  ultimately have "t ! k = rev leaves ! (k - (length leaves - 1))" by simp
  moreover have "k - (length leaves - 1) < length leaves" using assms by (auto simp: heap_shape_def)
  ultimately have "t ! k \<in> set (rev leaves)" by (metis length_rev nth_mem)
  then show ?thesis by simp
qed

subsection \<open>Proofs against the root\<close>

text \<open>The array depends on the pair hash only through the values that occur.\<close>

lemma fill_up_cong:
  assumes "\<And>a b. valid a \<Longrightarrow> valid b \<Longrightarrow> f a b = g a b \<and> valid (f a b)"
    and "\<forall>x. Some x \<in> set t \<longrightarrow> valid x"
  shows "fill_up f i t = fill_up g i t"
  using assms(2)
proof (induction i arbitrary: t)
  case (Suc i)
  show ?case
  proof (cases "\<exists>a b. js_at t (2 * i + 1) = Some (Some a) \<and> js_at t (2 * i + 2) = Some (Some b)")
    case True
    then obtain a b where ab: "js_at t (2 * i + 1) = Some (Some a)" "js_at t (2 * i + 2) = Some (Some b)" by blast
    then have "Some a \<in> set t" "Some b \<in> set t" by (metis js_at_eq_Some nth_mem)+
    then have "valid a" "valid b" using Suc.prems by simp_all
    then have fg: "f a b = g a b" "valid (f a b)" using assms(1)[of a b] by blast+
    then have "\<forall>x. Some x \<in> set (t[i := Some (f a b)]) \<longrightarrow> valid x"
      using Suc.prems set_update_subset_insert[of t i "Some (f a b)"] by auto
    from Suc.IH[OF this] ab fg show ?thesis by simp
  next
    case False
    then show ?thesis by (auto split: option.splits)
  qed
qed simp

lemma heap_tree_cong:
  assumes "\<And>a b. valid a \<Longrightarrow> valid b \<Longrightarrow> f a b = g a b \<and> valid (f a b)" and "\<forall>x \<in> set leaves. valid x"
  shows "heap_tree f leaves = heap_tree g leaves"
proof (cases "leaves = []")
  case False
  let ?n = "length leaves"
  let ?t = "place (replicate (2 * ?n - 1) None) 0 leaves"
  have "?n \<le> 2 * ?n - 1" using False by (cases leaves) auto
  then have "?t = replicate (?n - 1) None @ rev (map Some leaves)"
    using place_spec[of 0 leaves "replicate (2 * ?n - 1) None"] by simp
  then have "\<forall>x. Some x \<in> set ?t \<longrightarrow> valid x" using assms(2) by auto
  from fill_up_cong[where f = f and g = g and valid = valid, OF assms(1) this] show ?thesis
    by (simp add: heap_tree_def Let_def)
qed (simp add: heap_tree_def)

lemma heap_shape_valid:
  assumes "heap_shape hp leaves t" and "\<forall>x \<in> set leaves. valid x"
    and "\<And>a b. valid a \<Longrightarrow> valid b \<Longrightarrow> valid (hp a b)" and "k < length t"
  shows "valid (t ! k)"
  using assms(4)
proof (induction "length t - k" arbitrary: k rule: less_induct)
  case less
  show ?case
  proof (cases "length leaves - 1 \<le> k")
    case True
    with heap_shape_node[OF assms(1) True less(2)] assms(2) show ?thesis by simp
  next
    case False
    then have "2 * k + 2 < length t" using assms(1) by (auto simp: heap_shape_def)
    then have "valid (t ! (2 * k + 1))" "valid (t ! (2 * k + 2))" using less by simp_all
    with assms(1,3) False show ?thesis by (simp add: heap_shape_def)
  qed
qed

locale pair_hash =
  fixes hp :: "'a \<Rightarrow> 'a \<Rightarrow> 'a" and valid :: "'a \<Rightarrow> bool"
  assumes hp_comm: "valid a \<Longrightarrow> valid b \<Longrightarrow> hp a b = hp b a"
begin

lemma fold_heap_proof:
  assumes "heap_shape hp leaves t" and "\<forall>x \<in> set t. valid x" and "k < length t"
  shows "fold_proof hp (t ! k) (heap_proof t k) = t ! 0"
  using assms(3)
proof (induction k rule: less_induct)
  case (less k)
  show ?case
  proof (cases k)
    case 0
    then show ?thesis by (simp add: fold_proof_def)
  next
    case (Suc j)
    let ?p = "j div 2"
    have odd_len: "length t = 2 * (length leaves - 1) + 1" using assms(1) less(2) by (auto simp: heap_shape_def)
    have p: "?p < length leaves - 1" using less(2) Suc odd_len by auto
    have node: "t ! ?p = hp (t ! (2 * ?p + 1)) (t ! (2 * ?p + 2))" using assms(1) p by (simp add: heap_shape_def)
    have v: "valid (t ! (2 * ?p + 1))" "valid (t ! (2 * ?p + 2))" using assms(2) p odd_len by simp_all
    have "hp (t ! k) (t ! heap_sibling k) = t ! ?p"
    proof (cases "even j")
      case True
      then have "j = 2 * ?p" by simp
      with True have "k = 2 * ?p + 1" "heap_sibling k = 2 * ?p + 2"
        using Suc by (auto simp: heap_sibling_def mod_Suc)
      with node show ?thesis by simp
    next
      case False
      then have "j = 2 * ?p + 1" by simp
      with False have "k = 2 * ?p + 2" "heap_sibling k = 2 * ?p + 1"
        using Suc by (auto simp: heap_sibling_def mod_Suc odd_iff_mod_2_eq_one)
      with node hp_comm[OF v] show ?thesis by simp
    qed
    moreover have "fold_proof hp (t ! ?p) (heap_proof t ?p) = t ! 0" using less Suc by simp
    ultimately show ?thesis using Suc by (simp add: fold_proof_def)
  qed
qed

end

text \<open>
  A pair hash that is one hash of an injective encoding of the unordered pair, and the inputs it is
  given along a proof. Under this interface a value that folds to the root must be a node, unless the
  hash collides on the inputs involved.
\<close>

fun fold_inputs :: "('q \<Rightarrow> 'a) \<Rightarrow> ('a \<Rightarrow> 'a \<Rightarrow> 'q) \<Rightarrow> 'a \<Rightarrow> 'a list \<Rightarrow> 'q list" where
  "fold_inputs H q x [] = []"
| "fold_inputs H q x (p # ps) = q x p # fold_inputs H q (H (q x p)) ps"

definition node_inputs :: "('a \<Rightarrow> 'a \<Rightarrow> 'q) \<Rightarrow> 'a list \<Rightarrow> 'q list" where
  "node_inputs q t = map (\<lambda>j. q (t ! (2 * j + 1)) (t ! (2 * j + 2))) [0..<length t div 2]"

definition injective_between :: "('q \<Rightarrow> 'a) \<Rightarrow> 'q list \<Rightarrow> 'q list \<Rightarrow> bool" where
  "injective_between H xs ys \<longleftrightarrow> (\<forall>x \<in> set xs. \<forall>y \<in> set ys. H x = H y \<longrightarrow> x = y)"

lemma injective_betweenD: "injective_between H xs ys \<Longrightarrow> x \<in> set xs \<Longrightarrow> y \<in> set ys \<Longrightarrow> H x = H y \<Longrightarrow> x = y"
  by (auto simp: injective_between_def)

lemma fold_inputs_snoc:
  "fold_inputs H q x (ps @ [p]) = fold_inputs H q x ps @ [q (fold_proof (\<lambda>a b. H (q a b)) x ps) p]"
  by (induction ps arbitrary: x) (auto simp: fold_proof_def)

locale pair_query =
  fixes H :: "'q \<Rightarrow> 'a" and q :: "'a \<Rightarrow> 'a \<Rightarrow> 'q" and valid :: "'a \<Rightarrow> bool"
  assumes q_eq: "valid a \<Longrightarrow> valid b \<Longrightarrow> valid c \<Longrightarrow> valid d \<Longrightarrow>
      q a b = q c d \<longleftrightarrow> (a = c \<and> b = d) \<or> (a = d \<and> b = c)"
    and H_valid: "valid a \<Longrightarrow> valid (H x)"
begin

lemma valid_fold: "valid x \<Longrightarrow> valid (fold_proof (\<lambda>a b. H (q a b)) x ps)"
  by (induction ps arbitrary: x) (auto simp: fold_proof_def H_valid)

lemma fold_reaches_node:
  assumes shape: "heap_shape (\<lambda>a b. H (q a b)) (map H leafs) t" and v: "\<forall>x \<in> set t. valid x"
    and "valid x" and "\<forall>p \<in> set ps. valid p"
    and "injective_between H (fold_inputs H q x ps) (node_inputs q t @ leafs)"
    and "set (fold_inputs H q x ps) \<inter> set leafs = {}"
    and "k < length t" and "fold_proof (\<lambda>a b. H (q a b)) x ps = t ! k"
  shows "\<exists>j < length t. x = t ! j"
  using assms(4-)
proof (induction ps arbitrary: k rule: rev_induct)
  case Nil
  then show ?case by (auto simp: fold_proof_def)
next
  case (snoc p ps)
  let ?acc = "fold_proof (\<lambda>a b. H (q a b)) x ps"
  let ?n = "length leafs"
  have len: "length t = 2 * (?n - 1) + 1" using shape snoc.prems(4) by (auto simp: heap_shape_def)
  have eq: "H (q ?acc p) = t ! k" using snoc.prems(5) by (simp add: fold_proof_def)
  have k: "k < ?n - 1"
  proof (rule ccontr)
    assume "\<not> k < ?n - 1"
    with heap_shape_node[OF shape _ snoc.prems(4)] obtain y where "y \<in> set leafs" "t ! k = H y" by auto
    with injective_betweenD[OF snoc.prems(2), of "q ?acc p" y] eq snoc.prems(3) show False
      by (auto simp: fold_inputs_snoc)
  qed
  let ?l = "t ! (2 * k + 1)" and ?r = "t ! (2 * k + 2)"
  have "q ?acc p = q ?l ?r"
    by (rule injective_betweenD[OF snoc.prems(2)])
      (use k eq shape len in \<open>auto simp: fold_inputs_snoc node_inputs_def heap_shape_def\<close>)
  then have "?acc = ?l \<or> ?acc = ?r"
    using q_eq[of ?acc p ?l ?r] valid_fold[OF assms(3)] snoc.prems(1) v k len by auto
  moreover have "2 * k + 1 < length t" "2 * k + 2 < length t" using k len by auto
  ultimately obtain j where "j < length t" "?acc = t ! j" by blast
  with snoc show ?case by (auto simp: fold_inputs_snoc injective_between_def)
qed

end

sublocale pair_query \<subseteq> pair_hash "\<lambda>a b. H (q a b)" valid
  by unfold_locales (metis q_eq)

end
