(* ===== verification/EpochMerkle.thy ===== *)
theory EpochMerkle
  imports PairTree
begin

text \<open>
  The settlement tree as the API computes it (\<^verbatim>\<open>client/api/src/services/epoch-merkle.ts\<close>). The third-party
  \<^verbatim>\<open>viem\<close> functions are the record parameter \<open>viem\<close>; \<open>viem_ok\<close> lists what is used of their documented
  behaviour: a Keccak-256 digest is \<^verbatim>\<open>0x\<close> and 64 lower-case hex digits, \<^verbatim>\<open>concat\<close> concatenates the bytes,
  \<^verbatim>\<open>getAddress\<close> only changes the case of an address, and the ABI encoding of the four leaf fields is
  injective.
\<close>

subsection \<open>Definitions\<close>

record viem =
  vm_keccak256 :: "string \<Rightarrow> string"
  vm_concat :: "string list \<Rightarrow> string"
  vm_encodeLeaf :: "int \<Rightarrow> string \<Rightarrow> int \<Rightarrow> int \<Rightarrow> string"
  vm_getAddress :: "string \<Rightarrow> string option"

definition UCLD_TO_WEI :: int where
  "UCLD_TO_WEI = 10 ^ 12"

definition ZERO_ROOT :: string where
  "ZERO_ROOT = ''0x'' @ replicate 64 (CHR ''0'')"

record epochLeaf =
  el_account :: string
  el_laneAUcld :: int
  el_laneBUcld :: int

definition epoch_leafHash :: "viem \<Rightarrow> int \<Rightarrow> string \<Rightarrow> int \<Rightarrow> int \<Rightarrow> string" where
  "epoch_leafHash v epoch account laneAWei laneBWei =
     (let inner = vm_keccak256 v (vm_encodeLeaf v epoch account laneAWei laneBWei)
      in vm_keccak256 v (vm_concat v [inner]))"

text \<open>JavaScript's \<^verbatim>\<open><\<close> on strings.\<close>

fun str_less :: "string \<Rightarrow> string \<Rightarrow> bool" where
  "str_less xs [] = False"
| "str_less [] (y # ys) = True"
| "str_less (x # xs) (y # ys) = ((of_char x :: nat) < of_char y \<or> x = y \<and> str_less xs ys)"

definition compareHex :: "string \<Rightarrow> string \<Rightarrow> int" where
  "compareHex a b = (if str_less a b then -1 else if str_less b a then 1 else 0)"

definition hashPair :: "viem \<Rightarrow> string \<Rightarrow> string \<Rightarrow> string" where
  "hashPair v a b = vm_keccak256 v (vm_concat v (if compareHex a b \<le> 0 then [a, b] else [b, a]))"

definition lower_char :: "char \<Rightarrow> char" where
  "lower_char c = (let n = of_char c :: nat in if 65 \<le> n \<and> n \<le> 90 then char_of (n + 32) else c)"

definition toLowerCase :: "string \<Rightarrow> string" where
  "toLowerCase s = map lower_char s"

definition epoch_merkleRoot :: "viem \<Rightarrow> string list \<Rightarrow> string option" where
  "epoch_merkleRoot v leaves =
     (if leaves = [] then Some ZERO_ROOT
      else (case heap_tree (hashPair v) (sort_by compareHex (map toLowerCase leaves)) of
              None \<Rightarrow> None
            | Some tree \<Rightarrow> js_at tree 0))"

definition epochRoot :: "viem \<Rightarrow> int \<Rightarrow> epochLeaf list \<Rightarrow> string option" where
  "epochRoot v epoch leaves =
     epoch_merkleRoot v (map (\<lambda>l. epoch_leafHash v epoch (el_account l)
       (el_laneAUcld l * UCLD_TO_WEI) (el_laneBUcld l * UCLD_TO_WEI)) leaves)"

subsection \<open>Hex words\<close>

text \<open>A 32-byte value as \<^verbatim>\<open>viem\<close> prints it.\<close>

definition is_word :: "string \<Rightarrow> bool" where
  "is_word s \<longleftrightarrow> take 2 s = ''0x'' \<and> is_hex 64 (drop 2 s)"

definition u256 :: "int \<Rightarrow> bool" where
  "u256 x \<longleftrightarrow> 0 \<le> x \<and> x < 2 ^ 256"

definition viem_ok :: "viem \<Rightarrow> bool" where
  "viem_ok v \<longleftrightarrow> (\<forall>x. is_word (vm_keccak256 v x))
     \<and> (\<forall>xs. list_all is_word xs \<longrightarrow> vm_concat v xs = ''0x'' @ concat (map (drop 2) xs))
     \<and> (\<forall>e a a' x y. vm_getAddress v a = Some a' \<longrightarrow> vm_encodeLeaf v e a' x y = vm_encodeLeaf v e a x y)
     \<and> (\<forall>e a x y e' a' x' y'. list_all u256 [e, x, y, e', x', y'] \<longrightarrow>
          vm_encodeLeaf v e a x y = vm_encodeLeaf v e' a' x' y' \<longrightarrow>
          e = e' \<and> vm_getAddress v a = vm_getAddress v a' \<and> x = x' \<and> y = y')"

lemma viem_okD:
  assumes "viem_ok v"
  shows "is_word (vm_keccak256 v x)"
    and "is_word a \<Longrightarrow> vm_concat v [a] = a"
    and "is_word a \<Longrightarrow> is_word b \<Longrightarrow> vm_concat v [a, b] = ''0x'' @ drop 2 a @ drop 2 b"
    and "vm_getAddress v ac = Some ac' \<Longrightarrow> vm_encodeLeaf v e ac' l m = vm_encodeLeaf v e ac l m"
proof -
  show "vm_concat v [a] = a" if "is_word a"
  proof -
    have "''0x'' @ drop 2 a = a" using that append_take_drop_id[of 2 a] by (simp add: is_word_def)
    then show ?thesis using assms that by (simp add: viem_ok_def)
  qed
qed (use assms in \<open>auto simp: viem_ok_def\<close>)

lemma word_split: "is_word a \<Longrightarrow> a = ''0x'' @ drop 2 a \<and> length (drop 2 a) = 64 \<and> list_all lower_hex (drop 2 a)"
  using append_take_drop_id[of 2 a] by (simp add: is_word_def is_hex_def)

text \<open>Same-length lower-case hex compares like the numbers it denotes.\<close>

definition BigInt_hex :: "string \<Rightarrow> int" where
  "BigInt_hex s = int (parse_hex_acc 0 (drop 2 s))"

lemma lower_hexE:
  assumes "lower_hex c"
  obtains n where "n < 16" "c = hex_digit n"
  using hex_digit_val[OF assms] by blast

lemma hex_digit_less: "m < 16 \<Longrightarrow> n < 16 \<Longrightarrow> (of_char (hex_digit m) :: nat) < of_char (hex_digit n) \<longleftrightarrow> m < n"
proof -
  have v: "(of_char (hex_digit k) :: nat) = (if k < 10 then 48 + k else 87 + k)" if "k < 16" for k
    using that by (rule less_16_cases) (simp_all add: hex_digit_def)
  show "m < 16 \<Longrightarrow> n < 16 \<Longrightarrow> ?thesis" by (auto simp: v)
qed

lemma hex_digit_inj: "m < 16 \<Longrightarrow> n < 16 \<Longrightarrow> hex_digit m = hex_digit n \<longleftrightarrow> m = n"
  using hex_digit_less[of m n] hex_digit_less[of n m] by (metis less_irrefl linorder_neqE_nat)

lemma parse_hex_acc_shift:
  "list_all lower_hex s \<Longrightarrow> parse_hex_acc acc s = acc * 16 ^ length s + parse_hex_acc 0 s
     \<and> parse_hex_acc 0 s < 16 ^ length s"
proof (induction s arbitrary: acc)
  case (Cons c cs)
  then obtain n where n: "n < 16" "c = hex_digit n" by (auto elim: lower_hexE)
  from Cons have cs: "list_all lower_hex cs" by simp
  have lt: "parse_hex_acc 0 cs < 16 ^ length cs" using Cons.IH[OF cs] by blast
  have "n * 16 ^ length cs + parse_hex_acc 0 cs < (n + 1) * 16 ^ length cs" using lt by simp
  also have "\<dots> \<le> 16 * 16 ^ length cs" using n(1) by (intro mult_right_mono) auto
  finally show ?case
    using n Cons.IH[OF cs, of "16 * acc + n"] Cons.IH[OF cs, of n] by (simp add: algebra_simps)
qed simp

lemma str_less_hex:
  "length a = length b \<Longrightarrow> list_all lower_hex a \<Longrightarrow> list_all lower_hex b \<Longrightarrow>
     str_less a b \<longleftrightarrow> parse_hex_acc 0 a < parse_hex_acc 0 b"
proof (induction a b rule: str_less.induct)
  case (3 x xs y ys)
  obtain m n where mn: "m < 16" "x = hex_digit m" "n < 16" "y = hex_digit n"
    using 3 by (auto elim!: lower_hexE)
  let ?p = "parse_hex_acc 0" and ?w = "16 ^ length ys :: nat"
  have pa: "?p (x # xs) = m * ?w + ?p xs" "?p xs < ?w"
    using 3 mn parse_hex_acc_shift[of xs m] by auto
  have pb: "?p (y # ys) = n * ?w + ?p ys" "?p ys < ?w"
    using 3 mn parse_hex_acc_shift[of ys n] by auto
  have step: "k * ?w + u < l * ?w + v" if "k < l" "u < ?w" for k l u v
  proof -
    have "k * ?w + u < Suc k * ?w" using that by simp
    also have "\<dots> \<le> l * ?w" using that by (intro mult_right_mono) auto
    finally show ?thesis by simp
  qed
  have IH: "str_less xs ys \<longleftrightarrow> ?p xs < ?p ys" using 3 by simp
  consider "m < n" | "m = n" | "n < m" by linarith
  then show ?case
  proof cases
    case 1
    with step[OF 1 pa(2), of "?p ys"] mn pa(1) pb(1) show ?thesis by (simp add: hex_digit_less)
  next
    case 2
    with IH mn pa(1) pb(1) show ?thesis by (simp add: hex_digit_less)
  next
    case 3
    with step[OF 3 pb(2), of "?p xs"] mn pa(1) pb(1) show ?thesis by (simp add: hex_digit_less hex_digit_inj)
  qed
qed auto

lemma str_less_app: "str_less (p @ a) (p @ b) \<longleftrightarrow> str_less a b"
  by (induction p) auto

lemma str_less_words: "is_word a \<Longrightarrow> is_word b \<Longrightarrow> str_less a b \<longleftrightarrow> BigInt_hex a < BigInt_hex b"
  using word_split[of a] word_split[of b] str_less_app[of "''0x''" "drop 2 a" "drop 2 b"]
    str_less_hex[of "drop 2 a" "drop 2 b"]
  by (metis BigInt_hex_def of_nat_less_iff)

lemma str_less_total: "\<not> str_less a b \<Longrightarrow> \<not> str_less b a \<Longrightarrow> a = b"
  by (induction a b rule: str_less.induct) (auto simp: linorder_neq_iff neq_Nil_conv elim: str_less.elims)

lemma str_less_irrefl [simp]: "\<not> str_less a a"
  by (induction a) auto

lemma str_less_asym: "str_less a b \<Longrightarrow> \<not> str_less b a"
  by (induction a b rule: str_less.induct) auto

lemma toLowerCase_word [simp]: "is_word a \<Longrightarrow> toLowerCase a = a"
proof -
  have "lower_char c = c" if "lower_hex c" for c
    using that by (auto simp: lower_hex_def lower_char_def Let_def)
  then have "map lower_char s = s" if "list_all lower_hex s" for s
    using that by (induction s) auto
  then have "toLowerCase (''0x'' @ s) = ''0x'' @ s" if "list_all lower_hex s" for s
    using that by (simp add: toLowerCase_def lower_char_def)
  then show "is_word a \<Longrightarrow> toLowerCase a = a" using word_split[of a] by metis
qed

subsection \<open>The pair hash\<close>

text \<open>What \<^verbatim>\<open>hashPair\<close> feeds to Keccak: the two words in ascending order.\<close>

definition pairInput :: "viem \<Rightarrow> string \<Rightarrow> string \<Rightarrow> string" where
  "pairInput v a b = vm_concat v (if compareHex a b \<le> 0 then [a, b] else [b, a])"

lemma hashPair_pairInput: "hashPair v = (\<lambda>a b. vm_keccak256 v (pairInput v a b))"
  by (intro ext) (simp add: hashPair_def pairInput_def)

lemma compareHex_le: "compareHex a b \<le> 0 \<longleftrightarrow> \<not> str_less b a"
  using str_less_asym by (auto simp: compareHex_def)

lemma concat_words_inj:
  assumes "viem_ok v" and "is_word a" "is_word b" "is_word c" "is_word d"
  shows "vm_concat v [a, b] = vm_concat v [c, d] \<longleftrightarrow> a = c \<and> b = d"
proof -
  have len: "length (drop 2 a) = length (drop 2 c)" using word_split[OF assms(2)] word_split[OF assms(4)] by simp
  have eq: "drop 2 x = drop 2 y \<longleftrightarrow> x = y" if "is_word x" "is_word y" for x y
    using word_split[OF that(1)] word_split[OF that(2)] by metis
  have "vm_concat v [a, b] = vm_concat v [c, d] \<longleftrightarrow> drop 2 a @ drop 2 b = drop 2 c @ drop 2 d"
    using viem_okD(3)[OF assms(1)] assms by simp
  also have "\<dots> \<longleftrightarrow> drop 2 a = drop 2 c \<and> drop 2 b = drop 2 d" using len by (rule append_eq_append_conv[OF disjI1])
  finally show ?thesis using eq assms by blast
qed

lemma pairInput_eq:
  assumes "viem_ok v" and "is_word a" "is_word b" "is_word c" "is_word d"
  shows "pairInput v a b = pairInput v c d \<longleftrightarrow> a = c \<and> b = d \<or> a = d \<and> b = c"
  using assms str_less_total[of a b] str_less_total[of c d] str_less_asym[of a b] str_less_asym[of c d]
  by (auto simp: pairInput_def compareHex_le concat_words_inj)

interpretation api: pair_query "vm_keccak256 v" "pairInput v" "\<lambda>x. viem_ok v \<and> is_word x" for v
  by unfold_locales (use pairInput_eq viem_okD(1) in blast)+

lemma word_leafHash: "viem_ok v \<Longrightarrow> is_word (epoch_leafHash v e ac x y)"
  by (simp add: epoch_leafHash_def Let_def viem_okD)

lemma set_insert_by [simp]: "set (insert_by cmp x ys) = insert x (set ys)"
  by (induction cmp x ys rule: insert_by.induct) auto

lemma length_insert_by [simp]: "length (insert_by cmp x ys) = Suc (length ys)"
  by (induction cmp x ys rule: insert_by.induct) auto

lemma distinct_insert_by [simp]: "distinct (insert_by cmp x ys) \<longleftrightarrow> x \<notin> set ys \<and> distinct ys"
  by (induction cmp x ys rule: insert_by.induct) auto

lemma sort_by_props: "set (sort_by cmp xs) = set xs \<and> length (sort_by cmp xs) = length xs
     \<and> distinct (sort_by cmp xs) = distinct xs"
  by (induction xs rule: rev_induct) (auto simp: sort_by_def)

text \<open>Sorting indices by their keys is sorting the keys.\<close>

lemma sort_by_map:
  assumes "\<And>x y. x \<in> set xs \<Longrightarrow> y \<in> set xs \<Longrightarrow> c' x y < 0 \<longleftrightarrow> c (f x) (f y) < 0"
  shows "map f (sort_by c' xs) = sort_by c (map f xs)"
proof -
  have ins: "map f (insert_by c' x ys) = insert_by c (f x) (map f ys)"
    if "x \<in> set xs" "set ys \<subseteq> set xs" for x ys
    using that assms by (induction c' x ys rule: insert_by.induct) auto
  have "set zs \<subseteq> set xs \<Longrightarrow> map f (sort_by c' zs) = sort_by c (map f zs)" for zs
  proof (induction zs rule: rev_induct)
    case (snoc z zs)
    then show ?case using ins[of z "sort_by c' zs"] sort_by_props[of c' zs] by (auto simp: sort_by_def)
  qed (simp add: sort_by_def)
  then show ?thesis by simp
qed

text \<open>The API root as the first entry of a well-formed array.\<close>

lemma epoch_merkleRoot_ex:
  assumes "leaves \<noteq> []"
  shows "\<exists>t. heap_tree (hashPair v) (sort_by compareHex (map toLowerCase leaves)) = Some t
           \<and> epoch_merkleRoot v leaves = Some (t ! 0)"
proof -
  let ?s = "sort_by compareHex (map toLowerCase leaves)"
  have "?s \<noteq> []" using sort_by_props[of compareHex "map toLowerCase leaves"] assms by auto
  with heap_tree_shape[of ?s "hashPair v"] obtain t where
    "heap_tree (hashPair v) ?s = Some t" "heap_shape (hashPair v) ?s t" by blast
  moreover from this have "0 < length t" using \<open>?s \<noteq> []\<close> by (cases ?s) (auto simp: heap_shape_def)
  ultimately show ?thesis using assms by (simp add: epoch_merkleRoot_def)
qed

end
