(* ===== verification/Ledger.thy ===== *)
theory Ledger
  imports FeeSplit EpochMerkle
begin

text \<open>
  The reward ledger (\<^verbatim>\<open>client/api/src/services/ledger.service.ts\<close>, with the lane-B budget of
  \<^verbatim>\<open>chain-allowance.service.ts\<close>). The database is the record \<open>db\<close>: one list of rows per table the module
  touches, one field per column it reads or writes. \<open>SELECT ... WHERE\<close> is a filter, \<open>UPDATE\<close> rewrites the matching
  rows in place, \<open>INSERT\<close> appends, a batch is the composition of its statements, and every operation returns
  the new database with what the source returns. Row ids (\<^verbatim>\<open>crypto.randomUUID\<close>) and times are arguments.
  SQL integer division is taken to truncate, as the comment on \<^verbatim>\<open>fitLaneB\<close> says.
\<close>

subsection \<open>Tables\<close>

datatype lane = LaneA | LaneB | Treasury | VerifyLane

datatype entry_status = Pending | Posted | Settled | Clawed

record entry =
  en_id :: string
  en_job :: string
  en_epoch :: int
  en_address :: string
  en_lane :: lane
  en_workType :: string
  en_amount :: int
  en_vestsAt :: int
  en_status :: entry_status
  en_createdAt :: int
  en_units :: "int option"

datatype epoch_status = EpClosed | EpPosted | EpSettled | EpVetoed

text \<open>A stored leaf: rows closed before settlement v2 hold \<^verbatim>\<open>{ address, amountUcld }\<close>.\<close>

datatype stored_leaf = NewLeaf epochLeaf | OldLeaf string int

record epochRow =
  er_id :: int
  er_closedAt :: int
  er_fees :: "int option"
  er_mintA :: "int option"
  er_mintB :: "int option"
  er_treasury :: "int option"
  er_leaves :: "stored_leaf list"
  er_root :: "string option"
  er_txHash :: "string option"
  er_status :: epoch_status
  er_settledAt :: "int option"
  er_vetoedRoot :: "string option"

datatype sample_check = SamplePassed | SampleFailed | SampleReversed

datatype job_status = JobQueued | JobAssigned | JobDone | JobFailed

record jobRow =
  jr_id :: string
  jr_price :: int
  jr_status :: job_status
  jr_node :: "string option"
  jr_feeCapturedAt :: "int option"
  jr_sampleCheck :: "sample_check option"

record db =
  db_entries :: "entry list"
  db_epochs :: "epochRow list"
  db_jobs :: "jobRow list"
  db_bills :: "(string \<times> int) list"
  db_claws :: "(string \<times> string) list"

definition update_where :: "('a \<Rightarrow> bool) \<Rightarrow> ('a \<Rightarrow> 'a) \<Rightarrow> 'a list \<Rightarrow> 'a list" where
  "update_where P f = map (\<lambda>r. if P r then f r else r)"

definition changes :: "('a \<Rightarrow> bool) \<Rightarrow> 'a list \<Rightarrow> int" where
  "changes P rows = int (length (filter P rows))"

definition minted :: "lane \<Rightarrow> bool" where
  "minted l \<longleftrightarrow> l = LaneA \<or> l = LaneB \<or> l = Treasury"

definition pending_in :: "int \<Rightarrow> entry \<Rightarrow> bool" where
  "pending_in epoch e \<longleftrightarrow> en_epoch e = epoch \<and> en_status e = Pending"

definition amount_where :: "(entry \<Rightarrow> bool) \<Rightarrow> entry list \<Rightarrow> int" where
  "amount_where P es = sum_list (map en_amount (filter P es))"

definition is_space :: "char \<Rightarrow> bool" where
  "is_space c \<longleftrightarrow> (let n = of_char c :: nat in (9 \<le> n \<and> n \<le> 13) \<or> n = 32)"

definition trim :: "string \<Rightarrow> string" where
  "trim s = rev (dropWhile is_space (rev (dropWhile is_space s)))"

definition normalizeAddress :: "string \<Rightarrow> string" where
  "normalizeAddress a = toLowerCase (trim a)"

definition TREASURY_ACCOUNT :: string where
  "TREASURY_ACCOUNT = ''treasury''"

subsection \<open>Writing entries\<close>

definition lane_entry :: "string \<Rightarrow> string \<Rightarrow> int \<Rightarrow> string \<Rightarrow> int \<Rightarrow> lane \<times> string \<times> int \<Rightarrow> entry" where
  "lane_entry uuid jobId epoch workType now row = (case row of (lane, address, amount) \<Rightarrow>
     \<lparr>en_id = uuid, en_job = jobId, en_epoch = epoch, en_address = address, en_lane = lane, en_workType = workType,
      en_amount = amount, en_vestsAt = now, en_status = Pending, en_createdAt = now, en_units = None\<rparr>)"

text \<open>\<open>uuids\<close> are the random ids drawn, one per statement.\<close>

definition insertLanes :: "string list \<Rightarrow> string \<Rightarrow> int \<Rightarrow> string \<Rightarrow> (lane \<times> string \<times> int) list \<Rightarrow> int \<Rightarrow> db \<Rightarrow> db" where
  "insertLanes uuids jobId epoch workType rows now d =
     (let stmts = filter (\<lambda>(lane, address, amount). amount > 0) rows in
      d\<lparr>db_entries := db_entries d @ map (\<lambda>(uuid, row). lane_entry uuid jobId epoch workType now row) (zip uuids stmts)\<rparr>)"

record jobRewards =
  rw_laneAUcld :: int
  rw_laneBUcld :: int
  rw_treasuryUcld :: int
  rw_vestsAt :: int
  rw_epoch :: int
  rw_heldUntil :: int

definition rewards_of :: "laneSplit \<Rightarrow> booking \<Rightarrow> jobRewards" where
  "rewards_of s b = \<lparr>rw_laneAUcld = ls_laneA s, rw_laneBUcld = ls_subsidy s, rw_treasuryUcld = ls_treasury s,
     rw_vestsAt = bk_vestsAt b, rw_epoch = bk_epoch b, rw_heldUntil = bk_heldUntil b\<rparr>"

definition recordJobRewards ::
  "api_env \<Rightarrow> string list \<Rightarrow> string \<Rightarrow> string \<Rightarrow> string \<Rightarrow> string \<Rightarrow> int \<Rightarrow> bool \<Rightarrow> int \<Rightarrow> db \<Rightarrow> db \<times> jobRewards" where
  "recordJobRewards env uuids uuidB jobId workType provider feeUcld clusterOk now d =
     (let b = jobBooking env now;
          split = splitFee feeUcld (SUBSIDY_RHO env) clusterOk MAX_SAFE_INTEGER;
          d1 = insertLanes uuids jobId (bk_epoch b) workType
                 [(LaneA, normalizeAddress provider, ls_laneA split), (Treasury, TREASURY_ACCOUNT, ls_treasury split)] now d;
          d2 = (if ls_subsidy split > 0
                then d1\<lparr>db_entries := db_entries d1 @
                       [(lane_entry uuidB jobId (bk_epoch b) workType now
                           (LaneB, normalizeAddress provider, ls_subsidy split))\<lparr>en_vestsAt := bk_vestsAt b\<rparr>]\<rparr>
                else d1)
      in (d2, rewards_of split b))"

text \<open>
  The statements of \<^verbatim>\<open>jobRewardStatements\<close>: each inserts one row if the job still carries this capture and this
  assignment at the moment it runs. A statement is its row and the guard; \<open>run_statement\<close> is its effect in the batch.
\<close>

record rewardStatement =
  st_row :: entry
  st_capturedAt :: int
  st_node :: string

definition still_captured :: "string \<Rightarrow> int \<Rightarrow> string \<Rightarrow> db \<Rightarrow> bool" where
  "still_captured jobId capturedAt node d \<longleftrightarrow>
     (\<exists>j \<in> set (db_jobs d). jr_id j = jobId \<and> jr_feeCapturedAt j = Some capturedAt \<and> jr_status j = JobAssigned \<and> jr_node j = Some node)"

definition run_statement :: "rewardStatement \<Rightarrow> db \<Rightarrow> db" where
  "run_statement s d = (if still_captured (en_job (st_row s)) (st_capturedAt s) (st_node s) d
     then d\<lparr>db_entries := db_entries d @ [st_row s]\<rparr> else d)"

type_synonym reward_row = "lane \<times> string \<times> int \<times> int \<times> entry_status \<times> int option"

text \<open>The rows before and after \<^verbatim>\<open>.filter\<close>: protocol work is one lane-B row carrying its units.\<close>

definition reward_rows :: "laneSplit \<Rightarrow> booking \<Rightarrow> string \<Rightarrow> int \<Rightarrow> entry_status \<Rightarrow> int option \<Rightarrow> reward_row list" where
  "reward_rows split b provider now providerStatus protocolUnits =
     (let units = (case protocolUnits of None \<Rightarrow> 0 | Some u \<Rightarrow> u);
          rows = (if units \<noteq> 0
            then [(LaneB, provider, 0, bk_vestsAt b, providerStatus, Some units)]
            else [(LaneA, provider, ls_laneA split, now, providerStatus, None),
                  (Treasury, TREASURY_ACCOUNT, ls_treasury split, now, Pending, None),
                  (LaneB, provider, ls_subsidy split, bk_vestsAt b, providerStatus, None)])
      in filter (\<lambda>(lane, address, amount, vests, status, u). amount > 0 \<or> (u \<noteq> None \<and> u \<noteq> Some 0)) rows)"

definition reward_statement :: "string \<Rightarrow> string \<Rightarrow> int \<Rightarrow> int \<Rightarrow> int \<Rightarrow> string \<Rightarrow> string \<times> reward_row \<Rightarrow> rewardStatement" where
  "reward_statement jobId workType epoch now capturedAt node x = (case x of (uuid, lane, address, amount, vests, status, u) \<Rightarrow>
     \<lparr>st_row = \<lparr>en_id = uuid, en_job = jobId, en_epoch = epoch, en_address = address, en_lane = lane,
        en_workType = workType, en_amount = amount, en_vestsAt = vests, en_status = status, en_createdAt = now,
        en_units = u\<rparr>, st_capturedAt = capturedAt, st_node = node\<rparr>)"

definition jobRewardStatements ::
  "api_env \<Rightarrow> string list \<Rightarrow> string \<Rightarrow> string \<Rightarrow> string \<Rightarrow> int \<Rightarrow> bool \<Rightarrow> int \<Rightarrow> int option \<Rightarrow> int \<Rightarrow> string \<Rightarrow> bool
     \<Rightarrow> rewardStatement list \<times> jobRewards" where
  "jobRewardStatements env uuids jobId workType providerRaw feeUcld clusterOk now protocolUnits capturedAt node clawed =
     (let b = jobBooking env now;
          split = splitFee feeUcld (SUBSIDY_RHO env) clusterOk MAX_SAFE_INTEGER;
          rows = reward_rows split b (normalizeAddress providerRaw) now (if clawed then Clawed else Pending) protocolUnits
      in (map (reward_statement jobId workType (bk_epoch b) now capturedAt node) (zip uuids rows), rewards_of split b))"

definition recordHostingRewards ::
  "api_env \<Rightarrow> string list \<Rightarrow> string \<Rightarrow> string \<Rightarrow> string \<Rightarrow> int \<Rightarrow> int \<Rightarrow> db \<Rightarrow> db \<times> int \<times> int \<times> int" where
  "recordHostingRewards env uuids billId workType provider feeUcld now d =
     (let epoch = epochOf env now;
          split = splitFee feeUcld 0 False 0
      in (insertLanes uuids billId epoch workType
            [(LaneA, normalizeAddress provider, ls_laneA split), (Treasury, TREASURY_ACCOUNT, ls_treasury split)] now d,
          ls_laneA split, ls_treasury split, epoch))"

definition recordVerifyCredit :: "api_env \<Rightarrow> string \<Rightarrow> string \<Rightarrow> string \<Rightarrow> int \<Rightarrow> int \<Rightarrow> db \<Rightarrow> db" where
  "recordVerifyCredit env uuid address taskId points now d =
     d\<lparr>db_entries := db_entries d @
       [lane_entry uuid taskId (epochOf env now) ''verify'' now (VerifyLane, toLowerCase address, points)]\<rparr>"

definition verifyCredits :: "string \<Rightarrow> db \<Rightarrow> int" where
  "verifyCredits address d =
     amount_where (\<lambda>e. en_address e = toLowerCase address \<and> en_lane e = VerifyLane) (db_entries d)"

subsection \<open>Fitting lane B to the budget\<close>

text \<open>
  \<^verbatim>\<open>laneBBudget\<close>: \<open>allowance epoch\<close> is the chain read in wei, \<open>None\<close> when no chain is configured or the read fails.
\<close>

definition laneBBudget :: "api_env \<Rightarrow> (int \<Rightarrow> int option) \<Rightarrow> int \<Rightarrow> int" where
  "laneBBudget env allowance epoch =
     (let budget = EPOCH_SUBSIDY_BUDGET_UCLD env in
      case allowance epoch of None \<Rightarrow> budget | Some wei \<Rightarrow> min budget (wei sdiv 10 ^ 12))"

definition pendingB :: "int \<Rightarrow> entry \<Rightarrow> bool" where
  "pendingB epoch e \<longleftrightarrow> en_epoch e = epoch \<and> en_lane e = LaneB \<and> en_status e = Pending"

definition fitLaneB :: "int \<Rightarrow> int \<Rightarrow> db \<Rightarrow> db \<times> rat" where
  "fitLaneB epoch budget d =
     (let tot = amount_where (pendingB epoch) (db_entries d) in
      if tot \<le> budget then (d, 1)
      else (d\<lparr>db_entries := update_where (pendingB epoch)
              (\<lambda>e. e\<lparr>en_amount := en_amount e * max 0 budget sdiv tot\<rparr>) (db_entries d)\<rparr>,
            dbl (of_int budget / of_int tot)))"

definition protocol_rows :: "int \<Rightarrow> entry list \<Rightarrow> entry list" where
  "protocol_rows epoch es = filter (\<lambda>e. pendingB epoch e \<and> en_units e \<noteq> None) es"

definition row_units :: "entry \<Rightarrow> int" where
  "row_units e = (case en_units e of None \<Rightarrow> 0 | Some u \<Rightarrow> u)"

definition wallet_units :: "entry list \<Rightarrow> string \<Rightarrow> int" where
  "wallet_units rows address = sum_list (map row_units (filter (\<lambda>r. en_address r = address) rows))"

definition protocol_amount :: "int \<Rightarrow> rat \<Rightarrow> entry list \<Rightarrow> entry \<Rightarrow> int" where
  "protocol_amount left sCap rows r =
     (let tot = sum_list (map row_units rows);
          walletUnits = wallet_units rows (en_address r);
          walletUcld = min (prorata left walletUnits tot) \<lfloor>dbl (of_int left * sCap)\<rfloor>
      in prorata walletUcld (row_units r) walletUnits)"

text \<open>\<^verbatim>\<open>UPDATE reward_entries SET amount_ucld = ? WHERE id = ? AND status = 'pending'\<close>.\<close>

definition set_amount :: "string \<Rightarrow> int \<Rightarrow> entry list \<Rightarrow> entry list" where
  "set_amount i a = update_where (\<lambda>e. en_id e = i \<and> en_status e = Pending) (\<lambda>e. e\<lparr>en_amount := a\<rparr>)"

definition fitProtocolB :: "int \<Rightarrow> int \<Rightarrow> int \<Rightarrow> rat \<Rightarrow> db \<Rightarrow> db \<times> int" where
  "fitProtocolB epoch budget nMin sCap d =
     (let paid = amount_where (\<lambda>e. pendingB epoch e \<and> en_units e = None) (db_entries d);
          left = max 0 (budget - paid);
          rows = protocol_rows epoch (db_entries d);
          tot = sum_list (map row_units rows)
      in if rows = [] \<or> tot \<le> 0 \<or> left \<le> 0 then (d, 0)
         else if int (length (remdups (map en_address rows))) < nMin then (d, 0)
         else (d\<lparr>db_entries := fold (\<lambda>r. set_amount (en_id r) (protocol_amount left sCap rows r)) rows (db_entries d)\<rparr>,
               sum_list (map (protocol_amount left sCap rows) rows)))"

subsection \<open>Summary of one address\<close>

record summaryEntry =
  se_id :: string
  se_jobId :: string
  se_epoch :: int
  se_lane :: lane
  se_workType :: string
  se_protocol :: bool
  se_amount :: int
  se_vestsAt :: int
  se_releasesAt :: "int option"
  se_status :: entry_status
  se_createdAt :: int

record ledgerSummary_t =
  sm_pendingA :: int
  sm_pendingB :: int
  sm_pendingTreasury :: int
  sm_heldA :: int
  sm_heldB :: int
  sm_vestingB :: int
  sm_settledA :: int
  sm_settledB :: int
  sm_clawedA :: int
  sm_clawedB :: int
  sm_credits :: int
  sm_protocolPending :: int
  sm_entries :: "summaryEntry list"

definition held :: "int \<Rightarrow> entry \<Rightarrow> bool" where
  "held opn e \<longleftrightarrow> en_status e = Pending \<and> opn < en_epoch e"

definition summary_entry :: "api_env \<Rightarrow> int \<Rightarrow> entry \<Rightarrow> summaryEntry" where
  "summary_entry env opn e =
     \<lparr>se_id = en_id e, se_jobId = en_job e, se_epoch = en_epoch e, se_lane = en_lane e, se_workType = en_workType e,
      se_protocol = (en_units e \<noteq> None), se_amount = en_amount e, se_vestsAt = en_vestsAt e,
      se_releasesAt = (if en_status e = Pending \<and> (en_lane e = LaneA \<or> en_lane e = LaneB) \<and> opn < en_epoch e
                       then Some (releasesAt env (en_epoch e)) else None),
      se_status = en_status e, se_createdAt = en_createdAt e\<rparr>"

text \<open>
  The grouped sums the source folds into the summary are written as the sums over the groups each field adds up;
  the newest 50 rows by \<^verbatim>\<open>created_at\<close> are listed.
\<close>

definition ledgerSummary :: "api_env \<Rightarrow> string \<Rightarrow> int \<Rightarrow> db \<Rightarrow> ledgerSummary_t" where
  "ledgerSummary env address now d =
     (let key = toLowerCase address; opn = epochOf env now;
          rows = filter (\<lambda>e. en_address e = key) (db_entries d);
          total_of = (\<lambda>l ss. amount_where (\<lambda>e. en_lane e = l \<and> en_status e \<in> ss) rows);
          live = {Pending, Posted}
      in \<lparr>sm_pendingA = total_of LaneA live, sm_pendingB = total_of LaneB live, sm_pendingTreasury = total_of Treasury live,
          sm_heldA = amount_where (\<lambda>e. en_lane e = LaneA \<and> en_status e \<in> live \<and> held opn e) rows,
          sm_heldB = amount_where (\<lambda>e. en_lane e = LaneB \<and> en_status e \<in> live \<and> held opn e) rows,
          sm_vestingB = amount_where (\<lambda>e. en_lane e = LaneB \<and> en_status e \<in> live \<and> now < en_vestsAt e \<and> \<not> held opn e) rows,
          sm_settledA = total_of LaneA {Settled}, sm_settledB = total_of LaneB {Settled},
          sm_clawedA = total_of LaneA {Clawed}, sm_clawedB = total_of LaneB {Clawed},
          sm_credits = amount_where (\<lambda>e. en_lane e = VerifyLane) rows,
          sm_protocolPending = changes (\<lambda>e. en_status e = Pending \<and> en_units e \<noteq> None) rows,
          sm_entries = map (summary_entry env opn) (take 50 (sort_by (\<lambda>a b. en_createdAt b - en_createdAt a) rows))\<rparr>)"

subsection \<open>Closing epochs\<close>

record epochPayload =
  py_epoch :: int
  py_root :: string
  py_feesBurnedUcld :: int
  py_totalLaneAUcld :: int
  py_totalLaneBUcld :: int
  py_treasuryUcld :: int
  py_leaves :: "epochLeaf list"
  py_status :: epoch_status

text \<open>\<^verbatim>\<open>epochRoot\<close> never throws (\<open>root_of_epochRoot\<close>), so its value is used directly.\<close>

definition root_of :: "viem \<Rightarrow> int \<Rightarrow> epochLeaf list \<Rightarrow> string" where
  "root_of v epoch leaves = (case epochRoot v epoch leaves of Some r \<Rightarrow> r | None \<Rightarrow> ZERO_ROOT)"

fun leaf_of_stored :: "stored_leaf \<Rightarrow> epochLeaf" where
  "leaf_of_stored (NewLeaf l) = l"
| "leaf_of_stored (OldLeaf address amount) = \<lparr>el_account = address, el_laneAUcld = amount, el_laneBUcld = 0\<rparr>"

definition or_zero :: "int option \<Rightarrow> int" where
  "or_zero x = (case x of None \<Rightarrow> 0 | Some y \<Rightarrow> y)"

definition toPayload :: "viem \<Rightarrow> epochRow \<Rightarrow> epochPayload" where
  "toPayload v r =
     (let leaves = map leaf_of_stored (er_leaves r) in
      \<lparr>py_epoch = er_id r, py_root = (case er_root r of Some x \<Rightarrow> x | None \<Rightarrow> root_of v (er_id r) leaves),
       py_feesBurnedUcld = or_zero (er_fees r), py_totalLaneAUcld = or_zero (er_mintA r),
       py_totalLaneBUcld = or_zero (er_mintB r), py_treasuryUcld = or_zero (er_treasury r),
       py_leaves = leaves, py_status = er_status r\<rparr>)"

definition candidate_epochs :: "int \<Rightarrow> db \<Rightarrow> int list" where
  "candidate_epochs current d =
     sort (remdups (map en_epoch (filter (\<lambda>e. en_status e = Pending \<and> minted (en_lane e) \<and> en_epoch e < current) (db_entries d))))"

definition epoch_row :: "int \<Rightarrow> db \<Rightarrow> epochRow option" where
  "epoch_row i d = find (\<lambda>r. er_id r = i) (db_epochs d)"

definition epoch_leaves :: "int \<Rightarrow> db \<Rightarrow> epochLeaf list" where
  "epoch_leaves epoch d =
     (let rows = filter (\<lambda>e. pending_in epoch e \<and> (en_lane e = LaneA \<or> en_lane e = LaneB)) (db_entries d) in
      map (\<lambda>a. \<lparr>el_account = a,
                el_laneAUcld = amount_where (\<lambda>e. en_address e = a \<and> en_lane e = LaneA) rows,
                el_laneBUcld = amount_where (\<lambda>e. en_address e = a \<and> en_lane e = LaneB) rows\<rparr>)
        (sort_by compareHex (remdups (map en_address rows))))"

definition epoch_fees :: "int \<Rightarrow> db \<Rightarrow> int" where
  "epoch_fees epoch d =
     (let jobs = set (map en_job (filter (\<lambda>e. pending_in epoch e \<and> minted (en_lane e)) (db_entries d))) in
      sum_list (map jr_price (filter (\<lambda>j. jr_id j \<in> jobs) (db_jobs d)))
        + sum_list (map snd (filter (\<lambda>(i, fee). i \<in> jobs) (db_bills d))))"

definition build_payload :: "viem \<Rightarrow> int \<Rightarrow> db \<Rightarrow> epochPayload" where
  "build_payload v epoch d =
     (let leaves = epoch_leaves epoch d in
      \<lparr>py_epoch = epoch, py_root = root_of v epoch leaves, py_feesBurnedUcld = epoch_fees epoch d,
       py_totalLaneAUcld = sum_list (map el_laneAUcld leaves), py_totalLaneBUcld = sum_list (map el_laneBUcld leaves),
       py_treasuryUcld = amount_where (\<lambda>e. pending_in epoch e \<and> en_lane e = Treasury) (db_entries d),
       py_leaves = leaves, py_status = EpClosed\<rparr>)"

definition fill_row :: "int \<Rightarrow> epochPayload \<Rightarrow> epochRow \<Rightarrow> epochRow" where
  "fill_row now p r = r\<lparr>er_closedAt := now, er_fees := Some (py_feesBurnedUcld p), er_mintA := Some (py_totalLaneAUcld p),
     er_mintB := Some (py_totalLaneBUcld p), er_treasury := Some (py_treasuryUcld p), er_leaves := map NewLeaf (py_leaves p),
     er_root := Some (py_root p), er_txHash := None, er_status := EpClosed\<rparr>"

definition new_row :: "int \<Rightarrow> epochPayload \<Rightarrow> epochRow" where
  "new_row now p = fill_row now p \<lparr>er_id = py_epoch p, er_closedAt = now, er_fees = None, er_mintA = None, er_mintB = None,
     er_treasury = None, er_leaves = [], er_root = None, er_txHash = None, er_status = EpClosed, er_settledAt = None,
     er_vetoedRoot = None\<rparr>"

definition set_status_where :: "(entry \<Rightarrow> bool) \<Rightarrow> entry_status \<Rightarrow> db \<Rightarrow> db" where
  "set_status_where P st d = d\<lparr>db_entries := update_where P (\<lambda>e. e\<lparr>en_status := st\<rparr>) (db_entries d)\<rparr>"

text \<open>One candidate: skipped and its late entries moved on, parked, or closed.\<close>

definition close_epoch :: "api_env \<Rightarrow> viem \<Rightarrow> (int \<Rightarrow> int option) \<Rightarrow> int \<Rightarrow> int \<Rightarrow> db \<Rightarrow> db \<times> epochPayload option" where
  "close_epoch env v allowance now epoch d =
     (let exists = epoch_row epoch d in
      if exists \<noteq> None \<and> (case exists of Some r \<Rightarrow> er_status r \<noteq> EpVetoed | None \<Rightarrow> False)
      then (d\<lparr>db_entries := update_where (\<lambda>e. pending_in epoch e \<and> minted (en_lane e))
                 (\<lambda>e. e\<lparr>en_epoch := epochOf env now\<rparr>) (db_entries d)\<rparr>, None)
      else
        (let budget = laneBBudget env allowance epoch;
             d1 = fst (fitLaneB epoch budget d);
             d2 = fst (fitProtocolB epoch budget (CLUSTER_N_MIN env) (CLUSTER_S_CAP env) d1);
             out = build_payload v epoch d2
         in if (case exists of None \<Rightarrow> False
                | Some r \<Rightarrow> (case er_vetoedRoot r of None \<Rightarrow> False | Some x \<Rightarrow> x \<noteq> [] \<and> toLowerCase x = toLowerCase (py_root out)))
            then (d2, None)
            else
              (let d3 = (case exists of
                     Some r \<Rightarrow> d2\<lparr>db_epochs := update_where (\<lambda>r. er_id r = epoch \<and> er_status r = EpVetoed) (fill_row now out) (db_epochs d2)\<rparr>
                   | None \<Rightarrow> d2\<lparr>db_epochs := db_epochs d2 @ [new_row now out]\<rparr>)
               in (set_status_where (\<lambda>e. pending_in epoch e \<and> minted (en_lane e)) Posted d3, Some out))))"

fun close_loop :: "api_env \<Rightarrow> viem \<Rightarrow> (int \<Rightarrow> int option) \<Rightarrow> int \<Rightarrow> int list \<Rightarrow> db \<Rightarrow> db \<times> epochPayload list" where
  "close_loop env v allowance now [] d = (d, [])"
| "close_loop env v allowance now (e # es) d =
     (let (d', out) = close_epoch env v allowance now e d; (d'', outs) = close_loop env v allowance now es d'
      in (d'', (case out of None \<Rightarrow> outs | Some p \<Rightarrow> p # outs)))"

definition closeEpochs :: "api_env \<Rightarrow> viem \<Rightarrow> (int \<Rightarrow> int option) \<Rightarrow> int \<Rightarrow> db \<Rightarrow> db \<times> epochPayload list" where
  "closeEpochs env v allowance now d = close_loop env v allowance now (candidate_epochs (epochOf env now) d) d"

subsection \<open>Reading epochs\<close>

record epochJob =
  ej_jobId :: string
  ej_workType :: string
  ej_provider :: "string option"
  ej_feeUcld :: "int option"
  ej_laneAUcld :: int
  ej_laneBUcld :: int
  ej_treasuryUcld :: int

text \<open>\<^verbatim>\<open>MIN\<close> and \<^verbatim>\<open>MAX\<close> of a text column.\<close>

definition text_min :: "string list \<Rightarrow> string" where
  "text_min xs = (case sort_by compareHex xs of [] \<Rightarrow> [] | x # _ \<Rightarrow> x)"

definition text_max :: "string list \<Rightarrow> string option" where
  "text_max xs = (case rev (sort_by compareHex xs) of [] \<Rightarrow> None | x # _ \<Rightarrow> Some x)"

definition job_fee :: "string \<Rightarrow> db \<Rightarrow> int option" where
  "job_fee i d = (case find (\<lambda>j. jr_id j = i) (db_jobs d) of Some j \<Rightarrow> Some (jr_price j)
     | None \<Rightarrow> map_option snd (find (\<lambda>(b, fee). b = i) (db_bills d)))"

definition epoch_job :: "db \<Rightarrow> entry list \<Rightarrow> string \<Rightarrow> epochJob" where
  "epoch_job d rows i =
     (let es = filter (\<lambda>e. en_job e = i) rows in
      \<lparr>ej_jobId = i, ej_workType = text_min (map en_workType es),
       ej_provider = text_max (map en_address (filter (\<lambda>e. en_lane e = LaneA \<or> en_lane e = LaneB) es)),
       ej_feeUcld = job_fee i d,
       ej_laneAUcld = amount_where (\<lambda>e. en_lane e = LaneA) es, ej_laneBUcld = amount_where (\<lambda>e. en_lane e = LaneB) es,
       ej_treasuryUcld = amount_where (\<lambda>e. en_lane e = Treasury) es\<rparr>)"

definition epochJobs :: "viem \<Rightarrow> int \<Rightarrow> string option \<Rightarrow> int option \<Rightarrow> db \<Rightarrow> epochPayload option \<times> epochJob list \<times> string option" where
  "epochJobs v i after limit d =
     (let row = epoch_row i d;
          closed = (case row of None \<Rightarrow> False | Some r \<Rightarrow> er_status r \<noteq> EpVetoed);
          lim = min 500 (max 1 (case limit of None \<Rightarrow> 200 | Some l \<Rightarrow> l));
          start = (case after of None \<Rightarrow> [] | Some a \<Rightarrow> a);
          rows = filter (\<lambda>e. en_epoch e = i \<and> minted (en_lane e)
                   \<and> (if closed then en_status e = Posted \<or> en_status e = Settled else en_status e = Pending)
                   \<and> str_less start (en_job e)) (db_entries d);
          ids = take (nat (lim + 1)) (sort_by compareHex (remdups (map en_job rows)));
          page = take (nat lim) ids
      in ((if closed then map_option (toPayload v) row else None), map (epoch_job d rows) page,
          (if nat lim < length ids then Some (last page) else None)))"

definition getEpochPayload :: "viem \<Rightarrow> int \<Rightarrow> db \<Rightarrow> epochPayload option" where
  "getEpochPayload v i d =
     map_option (toPayload v) (find (\<lambda>r. er_id r = i \<and> er_status r \<in> {EpClosed, EpPosted, EpSettled}) (db_epochs d))"

definition listEpochs :: "viem \<Rightarrow> epoch_status \<Rightarrow> db \<Rightarrow> epochPayload list" where
  "listEpochs v status d =
     map (toPayload v) (sort_key er_id (filter (\<lambda>r. er_status r = status) (db_epochs d)))"

definition lastSettledEpochAt :: "db \<Rightarrow> int option" where
  "lastSettledEpochAt d =
     (case List.map_filter er_settledAt (filter (\<lambda>r. er_status r = EpSettled) (db_epochs d)) of
        [] \<Rightarrow> None | x # xs \<Rightarrow> Some (fold max xs x))"

subsection \<open>Moving an epoch on\<close>

datatype update_error = NotFound | Conflict

definition same_root :: "string option \<Rightarrow> string \<Rightarrow> bool" where
  "same_root stored given = (case stored of None \<Rightarrow> True | Some r \<Rightarrow> r = [] \<or> toLowerCase r = toLowerCase given)"

definition markEpochPosted :: "int \<Rightarrow> string \<Rightarrow> string \<Rightarrow> db \<Rightarrow> db \<times> (update_error + unit)" where
  "markEpochPosted i given txHash d =
     (case epoch_row i d of None \<Rightarrow> (d, Inl NotFound)
      | Some r \<Rightarrow>
          if er_status r \<noteq> EpClosed then (d, Inl Conflict)
          else if \<not> same_root (er_root r) given then (d, Inl Conflict)
          else (d\<lparr>db_epochs := update_where (\<lambda>r. er_id r = i)
                   (\<lambda>r. r\<lparr>er_root := Some given, er_txHash := Some txHash, er_status := EpPosted\<rparr>) (db_epochs d)\<rparr>, Inr ()))"

definition markEpochSettled :: "int \<Rightarrow> string \<Rightarrow> int \<Rightarrow> db \<Rightarrow> db \<times> (update_error + unit)" where
  "markEpochSettled i txHash now d =
     (case epoch_row i d of None \<Rightarrow> (d, Inl NotFound)
      | Some r \<Rightarrow>
          if er_status r = EpSettled then (d, Inr ())
          else if er_status r \<noteq> EpPosted then (d, Inl Conflict)
          else (set_status_where (\<lambda>e. en_epoch e = i \<and> en_status e = Posted \<and> minted (en_lane e)) Settled
                  (d\<lparr>db_epochs := update_where (\<lambda>r. er_id r = i)
                     (\<lambda>r. r\<lparr>er_txHash := Some txHash, er_settledAt := Some now, er_status := EpSettled\<rparr>) (db_epochs d)\<rparr>),
                Inr ()))"

definition markEpochVetoed :: "int \<Rightarrow> string option \<Rightarrow> db \<Rightarrow> db \<times> (update_error + int)" where
  "markEpochVetoed i txHash d =
     (case epoch_row i d of None \<Rightarrow> (d, Inl NotFound)
      | Some r \<Rightarrow>
          if er_status r = EpVetoed then (d, Inr 0)
          else if er_status r = EpSettled then (d, Inl Conflict)
          else (let reopened = (\<lambda>e. en_epoch e = i \<and> en_status e = Posted \<and> minted (en_lane e)) in
                (set_status_where reopened Pending
                   (d\<lparr>db_epochs := update_where (\<lambda>r. er_id r = i \<and> (er_status r = EpClosed \<or> er_status r = EpPosted))
                      (\<lambda>r. r\<lparr>er_status := EpVetoed, er_vetoedRoot := er_root r, er_root := None, er_fees := None,
                              er_txHash := (case txHash of None \<Rightarrow> er_txHash r | Some t \<Rightarrow> Some t)\<rparr>) (db_epochs d)\<rparr>),
                 Inr (changes reopened (db_entries d)))))"

subsection \<open>Claws\<close>

definition clawEntry :: "int \<Rightarrow> string \<Rightarrow> db \<Rightarrow> db \<times> (update_error + unit)" where
  "clawEntry epoch entryId d =
     (case find (\<lambda>e. en_id e = entryId \<and> en_epoch e = epoch) (db_entries d) of None \<Rightarrow> (d, Inl NotFound)
      | Some e \<Rightarrow>
          if en_status e = Clawed then (d, Inr ())
          else if en_lane e = Treasury then (d, Inl Conflict)
          else if en_status e \<noteq> Pending then (d, Inl Conflict)
          else (let P = (\<lambda>e. en_id e = entryId \<and> en_status e = Pending) in
                if changes P (db_entries d) = 0 then (d, Inl Conflict)
                else (set_status_where P Clawed d, Inr ())))"

definition reverseSampleClaw :: "api_env \<Rightarrow> string \<Rightarrow> int \<Rightarrow> db \<Rightarrow> db \<times> int option" where
  "reverseSampleClaw env jobId now d =
     (if \<not> (\<exists>j \<in> set (db_jobs d). jr_id j = jobId \<and> (jr_sampleCheck j = Some SampleFailed \<or> jr_sampleCheck j = Some SampleReversed))
      then (d, None)
      else (let P = (\<lambda>e. en_status e = Clawed \<and> epochOf env now < en_epoch e \<and> (en_id e, jobId) \<in> set (db_claws d)
                        \<and> \<not> (\<exists>c \<in> set (db_claws d). fst c = en_id e \<and> snd c \<noteq> jobId));
                d1 = set_status_where P Pending d;
                d2 = d1\<lparr>db_claws := filter (\<lambda>c. snd c \<noteq> jobId) (db_claws d1)\<rparr>
            in (d2\<lparr>db_jobs := update_where (\<lambda>j. jr_id j = jobId \<and> jr_sampleCheck j = Some SampleFailed)
                     (\<lambda>j. j\<lparr>jr_sampleCheck := Some SampleReversed\<rparr>) (db_jobs d2)\<rparr>,
                Some (changes P (db_entries d)))))"

text \<open>
  The two ledger statements of \<^verbatim>\<open>caughtStatements\<close> (\<^verbatim>\<open>jobs.service.ts\<close>): a failed sampled check covers every unreleased
  A/B entry of the node's wallet, of the node's finished jobs and of the failing job, and claws those pending.
\<close>

definition still_assigned :: "string \<Rightarrow> string \<Rightarrow> db \<Rightarrow> bool" where
  "still_assigned jobId node d \<longleftrightarrow>
     (\<exists>j \<in> set (db_jobs d). jr_id j = jobId \<and> jr_status j = JobAssigned \<and> jr_node j = Some node)"

definition covered :: "api_env \<Rightarrow> string \<Rightarrow> string \<Rightarrow> string \<Rightarrow> int \<Rightarrow> db \<Rightarrow> entry \<Rightarrow> bool" where
  "covered env jobId node payout now d e \<longleftrightarrow>
     (en_lane e = LaneA \<or> en_lane e = LaneB) \<and> epochOf env now < en_epoch e
     \<and> (en_address e = normalizeAddress payout \<or> en_job e = jobId
        \<or> (\<exists>j \<in> set (db_jobs d). jr_id j = en_job e \<and> jr_node j = Some node \<and> jr_status j = JobDone))
     \<and> (en_status e = Pending \<or> en_job e = jobId \<or> (en_status e = Clawed \<and> (\<exists>c \<in> set (db_claws d). fst c = en_id e)))"

definition caughtLedger :: "api_env \<Rightarrow> string \<Rightarrow> string \<Rightarrow> string \<Rightarrow> int \<Rightarrow> db \<Rightarrow> db" where
  "caughtLedger env jobId node payout now d =
     (if still_assigned jobId node d
      then (let new = filter (\<lambda>c. c \<notin> set (db_claws d)) (map (\<lambda>e. (en_id e, jobId)) (filter (covered env jobId node payout now d) (db_entries d)));
                d1 = d\<lparr>db_claws := db_claws d @ new\<rparr>
            in set_status_where (\<lambda>e. en_status e = Pending \<and> (en_id e, jobId) \<in> set (db_claws d1)) Clawed d1)
      else d)"

end
