(* ===== verification/KeeperTree.thy ===== *)
theory KeeperTree
  imports EpochMerkle
begin

text \<open>
  The keeper's tree (\<^verbatim>\<open>keeper/src/tree.ts\<close>): it rebuilds the settlement tree from the leaves the API
  publishes, with its own comparison (by number instead of by text) and its own leaf conversion, and
  reads one proof per leaf off the array. Shown: the keeper's root is the API's root for the same
  leaves, every proof it produces leads to the root, and a claim whose proof leads to the root is one of
  the epoch's leaves unless Keccak collides on the inputs involved.
\<close>

subsection \<open>Definitions\<close>

datatype tree_error = EmptyTree | NegativeAmount int | InvalidAddress string

record weiLeaf =
  wl_account :: string
  wl_laneA :: int
  wl_laneB :: int

record keeper_tree =
  kt_root :: string
  kt_leaves :: "weiLeaf list"
  kt_leafHashes :: "string list"
  kt_proofs :: "string list list"

definition toWei :: "int \<Rightarrow> tree_error + int" where
  "toWei ucld = (if ucld < 0 then Inl (NegativeAmount ucld) else Inr (ucld * UCLD_TO_WEI))"

definition leafOf :: "viem \<Rightarrow> int \<Rightarrow> string \<Rightarrow> int \<Rightarrow> int \<Rightarrow> string" where
  "leafOf v epoch account laneA laneB =
     (let inner = vm_keccak256 v (vm_encodeLeaf v epoch account laneA laneB) in vm_keccak256 v inner)"

definition keeper_hashPair :: "viem \<Rightarrow> string \<Rightarrow> string \<Rightarrow> string" where
  "keeper_hashPair v a b =
     (if BigInt_hex a < BigInt_hex b then vm_keccak256 v (vm_concat v [a, b]) else vm_keccak256 v (vm_concat v [b, a]))"

definition weiLeaf_of :: "viem \<Rightarrow> epochLeaf \<Rightarrow> tree_error + weiLeaf" where
  "weiLeaf_of v l = (case vm_getAddress v (el_account l) of
       None \<Rightarrow> Inl (InvalidAddress (el_account l))
     | Some account \<Rightarrow> (case toWei (el_laneAUcld l) of Inl e \<Rightarrow> Inl e
       | Inr laneA \<Rightarrow> (case toWei (el_laneBUcld l) of Inl e \<Rightarrow> Inl e
         | Inr laneB \<Rightarrow> Inr \<lparr>wl_account = account, wl_laneA = laneA, wl_laneB = laneB\<rparr>)))"

fun weiLeaves :: "viem \<Rightarrow> epochLeaf list \<Rightarrow> tree_error + weiLeaf list" where
  "weiLeaves v [] = Inr []"
| "weiLeaves v (l # ls) = (case weiLeaf_of v l of Inl e \<Rightarrow> Inl e
     | Inr w \<Rightarrow> (case weiLeaves v ls of Inl e \<Rightarrow> Inl e | Inr ws \<Rightarrow> Inr (w # ws)))"

definition hash_order :: "string list \<Rightarrow> nat list" where
  "hash_order leafHashes =
     sort_by (\<lambda>i j. if BigInt_hex (leafHashes ! i) < BigInt_hex (leafHashes ! j) then -1 else 1) [0..<length leafHashes]"

text \<open>The index half of the \<^verbatim>\<open>order.forEach\<close> loop: \<^verbatim>\<open>treeIndexOf[leafIdx] = tree.length - 1 - sortedPos\<close>.\<close>

fun place_index :: "nat \<Rightarrow> nat \<Rightarrow> nat list \<Rightarrow> nat list \<Rightarrow> nat list" where
  "place_index len pos [] treeIndexOf = treeIndexOf"
| "place_index len pos (leafIdx # rest) treeIndexOf =
     place_index len (Suc pos) rest (treeIndexOf[leafIdx := len - 1 - pos])"

definition keeper_array :: "viem \<Rightarrow> string list \<Rightarrow> string list option" where
  "keeper_array v leafHashes =
     heap_tree (keeper_hashPair v) (map (\<lambda>i. leafHashes ! i) (hash_order leafHashes))"

definition leaf_hashes :: "viem \<Rightarrow> int \<Rightarrow> weiLeaf list \<Rightarrow> string list" where
  "leaf_hashes v epoch leaves = map (\<lambda>l. leafOf v epoch (wl_account l) (wl_laneA l) (wl_laneB l)) leaves"

definition buildTree :: "viem \<Rightarrow> int \<Rightarrow> epochLeaf list \<Rightarrow> tree_error + keeper_tree" where
  "buildTree v epoch apiLeaves =
     (if apiLeaves = [] then Inl EmptyTree
      else case weiLeaves v apiLeaves of Inl e \<Rightarrow> Inl e
      | Inr leaves \<Rightarrow>
          (let leafHashes = leaf_hashes v epoch leaves;
               n = length leaves;
               treeIndexOf = place_index (2 * n - 1) 0 (hash_order leafHashes) (replicate n 0)
           in case keeper_array v leafHashes of None \<Rightarrow> Inl EmptyTree
              | Some tree \<Rightarrow>
                  Inr \<lparr>kt_root = tree ! 0, kt_leaves = leaves, kt_leafHashes = leafHashes,
                       kt_proofs = map (\<lambda>leafIdx. heap_proof tree (treeIndexOf ! leafIdx)) [0..<n]\<rparr>))"

definition processProof :: "viem \<Rightarrow> string \<Rightarrow> string list \<Rightarrow> string" where
  "processProof v leaf prf = fold_proof (keeper_hashPair v) leaf prf"

definition sumLanes :: "weiLeaf list \<Rightarrow> int \<times> int" where
  "sumLanes leaves = foldl (\<lambda>(a, b) l. (a + wl_laneA l, b + wl_laneB l)) (0, 0) leaves"

subsection \<open>The keeper's pair hash is the API's\<close>

lemma keeper_hashPair_eq:
  assumes "viem_ok v" and "is_word a" and "is_word b"
  shows "keeper_hashPair v a b = hashPair v a b"
  using assms str_less_words[of a b] str_less_words[of b a] str_less_total[of a b] str_less_asym[of a b]
  by (auto simp: keeper_hashPair_def hashPair_def compareHex_le)

definition keeper_pairInput :: "viem \<Rightarrow> string \<Rightarrow> string \<Rightarrow> string" where
  "keeper_pairInput v a b = (if BigInt_hex a < BigInt_hex b then vm_concat v [a, b] else vm_concat v [b, a])"

lemma keeper_pairInput_eq:
  "is_word a \<Longrightarrow> is_word b \<Longrightarrow> keeper_pairInput v a b = pairInput v a b"
  using str_less_words[of a b] str_less_words[of b a] str_less_total[of a b] str_less_asym[of a b]
  by (auto simp: keeper_pairInput_def pairInput_def compareHex_le)

lemma keeper_hashPair_input: "keeper_hashPair v = (\<lambda>a b. vm_keccak256 v (keeper_pairInput v a b))"
  by (intro ext) (simp add: keeper_hashPair_def keeper_pairInput_def)

interpretation keeper: pair_query "vm_keccak256 v" "keeper_pairInput v" "\<lambda>x. viem_ok v \<and> is_word x" for v
  by unfold_locales (simp_all add: keeper_pairInput_eq pairInput_eq viem_okD(1))

subsection \<open>Leaves and order\<close>

lemma weiLeaf_of_InrD: "weiLeaf_of v l = Inr w \<Longrightarrow>
    vm_getAddress v (el_account l) = Some (wl_account w) \<and> wl_laneA w = el_laneAUcld l * UCLD_TO_WEI
    \<and> wl_laneB w = el_laneBUcld l * UCLD_TO_WEI \<and> 0 \<le> el_laneAUcld l \<and> 0 \<le> el_laneBUcld l"
  by (auto simp: weiLeaf_of_def toWei_def split: option.splits sum.splits if_splits)

lemma weiLeaves_InrD: "weiLeaves v ls = Inr ws \<Longrightarrow> list_all2 (\<lambda>l w. weiLeaf_of v l = Inr w) ls ws"
  by (induction v ls arbitrary: ws rule: weiLeaves.induct) (auto split: sum.splits)

lemma leaf_hashes_api:
  assumes "viem_ok v" and "weiLeaves v ls = Inr ws"
  shows "leaf_hashes v epoch ws = map (\<lambda>l. epoch_leafHash v epoch (el_account l)
       (el_laneAUcld l * UCLD_TO_WEI) (el_laneBUcld l * UCLD_TO_WEI)) ls"
  using weiLeaves_InrD[OF assms(2)] unfolding leaf_hashes_def
proof (induction rule: list_all2_induct)
  case (Cons l ls w ws)
  then show ?case
    using weiLeaf_of_InrD[of v l w] viem_okD(1,2)[OF assms(1)] viem_okD(4)[OF assms(1), of "el_account l" "wl_account w"]
    by (simp add: leafOf_def epoch_leafHash_def Let_def)
qed simp

lemma leaf_hashes_words: "viem_ok v \<Longrightarrow> x \<in> set (leaf_hashes v epoch ws) \<Longrightarrow> is_word x"
  by (auto simp: leaf_hashes_def leafOf_def Let_def viem_okD)

lemma hash_order_props:
  "set (hash_order hs) = {..<length hs} \<and> length (hash_order hs) = length hs \<and> distinct (hash_order hs)"
  using sort_by_props[of _ "[0..<length hs]"] by (auto simp: hash_order_def)

lemma sorted_hashes:
  assumes "\<forall>h \<in> set hs. is_word h"
  shows "map (\<lambda>i. hs ! i) (hash_order hs) = sort_by compareHex (map toLowerCase hs)"
proof -
  have "map (\<lambda>i. hs ! i) (hash_order hs) = sort_by compareHex (map (\<lambda>i. hs ! i) [0..<length hs])"
    unfolding hash_order_def
    by (rule sort_by_map) (use assms str_less_words in \<open>auto simp: compareHex_def\<close>)
  also have "map (\<lambda>i. hs ! i) [0..<length hs] = map toLowerCase hs"
    using assms by (auto simp: map_nth intro!: nth_equalityI)
  finally show ?thesis .
qed

lemma place_index_spec:
  assumes "distinct os" and "set os \<subseteq> {..<length ix}" and "k < length os"
  shows "place_index len pos os ix ! (os ! k) = len - 1 - (pos + k)"
  using assms
proof (induction len pos os ix arbitrary: k rule: place_index.induct)
  case (2 len pos i rest ix)
  have keep: "place_index len p os' ix' ! j = ix' ! j" if "j \<notin> set os'" for p os' ix' j
    using that by (induction len p os' ix' rule: place_index.induct) auto
  show ?case
  proof (cases k)
    case 0
    then show ?thesis using 2 keep[of i rest] by auto
  next
    case (Suc m)
    then show ?thesis using 2 by auto
  qed
qed simp

lemma keeper_array_shape:
  assumes "hs \<noteq> []"
  shows "\<exists>t. keeper_array v hs = Some t \<and> heap_shape (keeper_hashPair v) (map (\<lambda>i. hs ! i) (hash_order hs)) t"
proof -
  have "map (\<lambda>i. hs ! i) (hash_order hs) \<noteq> []" using assms hash_order_props[of hs] by (metis length_0_conv length_map)
  from heap_tree_shape[OF this] show ?thesis by (simp add: keeper_array_def)
qed

lemma keeper_array_api:
  assumes "viem_ok v" and "\<forall>h \<in> set hs. is_word h"
  shows "keeper_array v hs = heap_tree (hashPair v) (sort_by compareHex (map toLowerCase hs))"
proof -
  let ?s = "sort_by compareHex (map toLowerCase hs)"
  have "\<forall>x \<in> set ?s. is_word x" using assms(2) sort_by_props[of compareHex "map toLowerCase hs"] by auto
  moreover have "keeper_hashPair v a b = hashPair v a b \<and> is_word (keeper_hashPair v a b)"
    if "is_word a" "is_word b" for a b
    using that assms(1) by (simp add: keeper_hashPair_eq hashPair_def viem_okD)
  ultimately have "heap_tree (keeper_hashPair v) ?s = heap_tree (hashPair v) ?s"
    by (intro heap_tree_cong[where valid = is_word]) blast+
  then show ?thesis using assms by (simp add: keeper_array_def sorted_hashes)
qed

lemma keeper_array_valid:
  assumes "viem_ok v" and "\<forall>h \<in> set hs. is_word h" and "hs \<noteq> []"
  shows "\<exists>t. keeper_array v hs = Some t
    \<and> heap_shape (keeper_hashPair v) (map (\<lambda>i. hs ! i) (hash_order hs)) t
    \<and> (\<forall>x \<in> set t. viem_ok v \<and> is_word x) \<and> length t = 2 * length hs - 1 \<and> 0 < length t"
proof -
  obtain t where t: "keeper_array v hs = Some t"
    and sh: "heap_shape (keeper_hashPair v) (map (\<lambda>i. hs ! i) (hash_order hs)) t"
    using keeper_array_shape[OF assms(3)] by blast
  have "is_word (t ! k)" if "k < length t" for k
    by (rule heap_shape_valid[OF sh _ _ that])
      (use assms hash_order_props[of hs] in \<open>auto simp: keeper_hashPair_def viem_okD\<close>)
  then have "\<forall>x \<in> set t. viem_ok v \<and> is_word x" using assms(1) by (auto simp: in_set_conv_nth)
  moreover have "length t = 2 * length hs - 1" using sh hash_order_props[of hs] by (simp add: heap_shape_def)
  moreover have "0 < 2 * length hs - 1" using assms(3) by (cases hs) auto
  ultimately show ?thesis using t sh by auto
qed

definition good_leaf :: "viem \<Rightarrow> epochLeaf \<Rightarrow> bool" where
  "good_leaf v l \<longleftrightarrow> vm_getAddress v (el_account l) \<noteq> None \<and> 0 \<le> el_laneAUcld l \<and> 0 \<le> el_laneBUcld l"

lemma weiLeaves_good: "list_all (good_leaf v) ls \<Longrightarrow> \<exists>ws. weiLeaves v ls = Inr ws \<and> length ws = length ls"
  by (induction ls) (auto simp: good_leaf_def weiLeaf_of_def toWei_def)

lemma buildTree_InrE:
  assumes "viem_ok v" and "buildTree v epoch ls = Inr tr"
  shows "\<exists>ws t. ls \<noteq> [] \<and> weiLeaves v ls = Inr ws \<and> keeper_array v (leaf_hashes v epoch ws) = Some t
    \<and> tr = \<lparr>kt_root = t ! 0, kt_leaves = ws, kt_leafHashes = leaf_hashes v epoch ws,
         kt_proofs = map (\<lambda>i. heap_proof t (place_index (2 * length ws - 1) 0
            (hash_order (leaf_hashes v epoch ws)) (replicate (length ws) 0) ! i)) [0..<length ws]\<rparr>"
  using assms(2) by (auto simp: buildTree_def Let_def split: if_splits sum.splits option.splits)

lemma weiLeaves_length: "weiLeaves v ls = Inr ws \<Longrightarrow> length ws = length ls"
  using weiLeaves_InrD list_all2_lengthD by metis

lemma buildTree_root:
  assumes "viem_ok v" and "buildTree v epoch ls = Inr tr"
  shows "epochRoot v epoch ls = Some (kt_root tr)"
proof -
  from buildTree_InrE[OF assms] obtain ws t where ws: "ls \<noteq> []" "weiLeaves v ls = Inr ws"
    "keeper_array v (leaf_hashes v epoch ws) = Some t" "kt_root tr = t ! 0"
    by auto
  let ?hs = "leaf_hashes v epoch ws"
  have "?hs \<noteq> []" using ws weiLeaves_length[OF ws(2)] by (auto simp: leaf_hashes_def)
  from epoch_merkleRoot_ex[OF this, of v] keeper_array_api[OF assms(1), of ?hs] ws leaf_hashes_words[OF assms(1)]
  have "epoch_merkleRoot v ?hs = Some (t ! 0)" by auto
  then show ?thesis using ws(4) by (simp add: epochRoot_def leaf_hashes_api[OF assms(1) ws(2), symmetric])
qed

lemma buildTree_proof:
  assumes "viem_ok v" and "buildTree v epoch ls = Inr tr" and "i < length ls"
  shows "processProof v (kt_leafHashes tr ! i) (kt_proofs tr ! i) = kt_root tr"
proof -
  from buildTree_InrE[OF assms(1,2)] obtain ws t where ws: "ls \<noteq> []" "weiLeaves v ls = Inr ws"
    and t: "keeper_array v (leaf_hashes v epoch ws) = Some t" and tr: "kt_root tr = t ! 0"
    "kt_leafHashes tr = leaf_hashes v epoch ws"
    "kt_proofs tr = map (\<lambda>i. heap_proof t (place_index (2 * length ws - 1) 0
        (hash_order (leaf_hashes v epoch ws)) (replicate (length ws) 0) ! i)) [0..<length ws]"
    by auto
  let ?hs = "leaf_hashes v epoch ws"
  have len: "length ?hs = length ls" "length ws = length ls"
    using weiLeaves_length[OF ws(2)] by (simp_all add: leaf_hashes_def)
  have ne: "?hs \<noteq> []" using ws len by auto
  obtain sh: "heap_shape (keeper_hashPair v) (map (\<lambda>i. ?hs ! i) (hash_order ?hs)) t"
    and v: "\<forall>x \<in> set t. viem_ok v \<and> is_word x" and tl: "length t = 2 * length ?hs - 1"
    using keeper_array_valid[OF assms(1) _ ne] leaf_hashes_words[OF assms(1)] t by auto
  have "i \<in> set (hash_order ?hs)" using assms(3) len hash_order_props[of ?hs] by auto
  then obtain k where k: "k < length (hash_order ?hs)" "hash_order ?hs ! k = i" by (auto simp: in_set_conv_nth)
  have kl: "k < length ls" using k hash_order_props[of ?hs] len by simp
  let ?p = "2 * length ws - 1 - 1 - k"
  have ix: "place_index (2 * length ws - 1) 0 (hash_order ?hs) (replicate (length ws) 0) ! i = ?p"
    using place_index_spec[of "hash_order ?hs" "replicate (length ws) 0" k] hash_order_props[of ?hs] k len by auto
  have pt: "length t - 1 - k = ?p" "?p < length t" using tl len kl by auto
  have "t ! ?p = ?hs ! i" using heap_shape_leaf[OF sh, of k] k pt by simp
  moreover have "fold_proof (keeper_hashPair v) (t ! ?p) (heap_proof t ?p) = t ! 0"
    using keeper.fold_heap_proof[OF sh[unfolded keeper_hashPair_input] v pt(2)]
    by (simp add: keeper_hashPair_input)
  ultimately show ?thesis using tr ix assms(3) len by (simp add: processProof_def)
qed

lemma buildTree_ex:
  assumes "viem_ok v" and "ls \<noteq> []" and "list_all (good_leaf v) ls"
  shows "\<exists>tr. buildTree v epoch ls = Inr tr"
proof -
  from weiLeaves_good[OF assms(3)] obtain ws where ws: "weiLeaves v ls = Inr ws" "length ws = length ls" by blast
  let ?hs = "leaf_hashes v epoch ws"
  have "?hs \<noteq> []" using ws(2) assms(2) by (auto simp: leaf_hashes_def)
  with keeper_array_shape[of ?hs v] obtain t where "keeper_array v ?hs = Some t" by blast
  with ws assms(2) show ?thesis by (simp add: buildTree_def Let_def)
qed

text \<open>
  C16. The keeper and the API agree: for leaves with valid addresses and non-negative amounts the keeper's
  \<^verbatim>\<open>buildTree\<close> succeeds, and its root is the one \<^verbatim>\<open>epochRoot\<close> stored at the close of the epoch, although
  the two sort and pair by different comparisons and convert the leaves separately.
\<close>

theorem keeper_root_is_api_root:
  assumes "viem_ok v" and "ls \<noteq> []" and "list_all (good_leaf v) ls"
  shows "\<exists>tr. buildTree v epoch ls = Inr tr \<and> epochRoot v epoch ls = Some (kt_root tr)"
  using buildTree_ex[OF assms] buildTree_root[OF assms(1)] by blast

text \<open>
  Every proof the keeper builds is accepted: folding the proof of leaf \<open>i\<close> over its leaf hash, as
  \<^verbatim>\<open>processProof\<close> and the contract do, gives the root of the tree.
\<close>

theorem keeper_proofs_lead_to_root:
  assumes "viem_ok v" and "buildTree v epoch ls = Inr tr"
  shows "length (kt_proofs tr) = length ls \<and> length (kt_leafHashes tr) = length ls
    \<and> (\<forall>i < length ls. processProof v (kt_leafHashes tr ! i) (kt_proofs tr ! i) = kt_root tr)"
proof -
  from buildTree_InrE[OF assms] obtain ws where "weiLeaves v ls = Inr ws"
    and "length (kt_proofs tr) = length ws" "length (kt_leafHashes tr) = length ws"
    by (auto simp: leaf_hashes_def)
  with weiLeaves_length[of v ls ws] buildTree_proof[OF assms] show ?thesis by auto
qed

text \<open>The inputs Keccak is given when a claim is checked, and those it was given when the tree was built.\<close>

definition claim_inputs :: "viem \<Rightarrow> int \<Rightarrow> weiLeaf \<Rightarrow> string list \<Rightarrow> string list" where
  "claim_inputs v epoch w prf =
     [vm_encodeLeaf v epoch (wl_account w) (wl_laneA w) (wl_laneB w),
      vm_keccak256 v (vm_encodeLeaf v epoch (wl_account w) (wl_laneA w) (wl_laneB w))]
     @ fold_inputs (vm_keccak256 v) (keeper_pairInput v) (leafOf v epoch (wl_account w) (wl_laneA w) (wl_laneB w)) prf"

definition leaf_inputs :: "viem \<Rightarrow> int \<Rightarrow> weiLeaf list \<Rightarrow> string list" where
  "leaf_inputs v epoch ws = map (\<lambda>w. vm_encodeLeaf v epoch (wl_account w) (wl_laneA w) (wl_laneB w)) ws"

definition tree_inputs :: "viem \<Rightarrow> int \<Rightarrow> weiLeaf list \<Rightarrow> string list" where
  "tree_inputs v epoch ws = leaf_inputs v epoch ws @ map (vm_keccak256 v) (leaf_inputs v epoch ws)
     @ (case keeper_array v (leaf_hashes v epoch ws) of None \<Rightarrow> [] | Some t \<Rightarrow> node_inputs (keeper_pairInput v) t)"

definition wei_ok :: "weiLeaf \<Rightarrow> bool" where
  "wei_ok w \<longleftrightarrow> u256 (wl_laneA w) \<and> u256 (wl_laneB w)"

lemma encodeLeaf_inj:
  assumes "viem_ok v" and "u256 epoch" and "wei_ok w" and "wei_ok l"
    and "vm_encodeLeaf v epoch (wl_account w) (wl_laneA w) (wl_laneB w) =
      vm_encodeLeaf v epoch (wl_account l) (wl_laneA l) (wl_laneB l)"
  shows "vm_getAddress v (wl_account w) = vm_getAddress v (wl_account l) \<and> wl_laneA w = wl_laneA l \<and> wl_laneB w = wl_laneB l"
proof -
  have "list_all u256 [epoch, wl_laneA w, wl_laneB w, epoch, wl_laneA l, wl_laneB l]"
    using assms(2-4) by (simp add: wei_ok_def)
  with assms(1,5) show ?thesis unfolding viem_ok_def by blast
qed

lemma pairInput_not_word: "viem_ok v \<Longrightarrow> is_word a \<Longrightarrow> is_word b \<Longrightarrow> \<not> is_word (keeper_pairInput v a b)"
  using word_split[of a] word_split[of b]
  by (auto simp: keeper_pairInput_def viem_okD(3) is_word_def is_hex_def)

lemma fold_inputs_not_word:
  "viem_ok v \<Longrightarrow> is_word x \<Longrightarrow> \<forall>p \<in> set ps. is_word p \<Longrightarrow>
     y \<in> set (fold_inputs (vm_keccak256 v) (keeper_pairInput v) x ps) \<Longrightarrow> \<not> is_word y"
proof (induction ps arbitrary: x)
  case (Cons p ps)
  then show ?case using viem_okD(1)[OF Cons.prems(1)] pairInput_not_word[OF Cons.prems(1), of x p] by auto
qed simp

lemma leaf_hashes_inputs: "leaf_hashes v epoch ws = map (vm_keccak256 v) (map (vm_keccak256 v) (leaf_inputs v epoch ws))"
  by (simp add: leaf_hashes_def leaf_inputs_def leafOf_def)

lemma claim_is_node:
  assumes "viem_ok v" and "ws \<noteq> []" and "keeper_array v (leaf_hashes v epoch ws) = Some t"
    and "\<forall>p \<in> set prf. is_word p"
    and "processProof v (leafOf v epoch (wl_account w) (wl_laneA w) (wl_laneB w)) prf = t ! 0"
    and "injective_between (vm_keccak256 v) (claim_inputs v epoch w prf) (tree_inputs v epoch ws)"
  shows "\<exists>j < length t. leafOf v epoch (wl_account w) (wl_laneA w) (wl_laneB w) = t ! j"
proof -
  let ?hs = "leaf_hashes v epoch ws" and ?x = "leafOf v epoch (wl_account w) (wl_laneA w) (wl_laneB w)"
  let ?in = "map (\<lambda>i. map (vm_keccak256 v) (leaf_inputs v epoch ws) ! i) (hash_order ?hs)"
  have ne: "?hs \<noteq> []" using assms(2) by (simp add: leaf_hashes_def)
  obtain sh: "heap_shape (keeper_hashPair v) (map (\<lambda>i. ?hs ! i) (hash_order ?hs)) t"
    and v: "\<forall>x \<in> set t. viem_ok v \<and> is_word x" and tl: "0 < length t"
    using keeper_array_valid[OF assms(1) _ ne] leaf_hashes_words[OF assms(1)] assms(3) by auto
  have ord: "i < length (leaf_inputs v epoch ws)" if "i \<in> set (hash_order ?hs)" for i
    using that hash_order_props[of ?hs] by (auto simp: leaf_hashes_inputs)
  have hs: "map (\<lambda>i. ?hs ! i) (hash_order ?hs) = map (vm_keccak256 v) ?in"
    using ord by (auto simp: leaf_hashes_inputs)
  have in_sub: "set ?in \<subseteq> set (map (vm_keccak256 v) (leaf_inputs v epoch ws))"
    using ord by auto
  have inj: "injective_between (vm_keccak256 v) (fold_inputs (vm_keccak256 v) (keeper_pairInput v) ?x prf)
      (node_inputs (keeper_pairInput v) t @ ?in)"
  proof -
    have "set (node_inputs (keeper_pairInput v) t @ ?in) \<subseteq> set (tree_inputs v epoch ws)"
      using assms(3) in_sub by (auto simp: tree_inputs_def)
    moreover have "set (fold_inputs (vm_keccak256 v) (keeper_pairInput v) ?x prf) \<subseteq> set (claim_inputs v epoch w prf)"
      by (auto simp: claim_inputs_def)
    ultimately show ?thesis using assms(6) unfolding injective_between_def by blast
  qed
  have x: "is_word ?x" using assms(1) by (simp add: leafOf_def viem_okD)
  have disj: "set (fold_inputs (vm_keccak256 v) (keeper_pairInput v) ?x prf) \<inter> set ?in = {}"
  proof -
    have "is_word y" if "y \<in> set ?in" for y using that in_sub viem_okD(1)[OF assms(1)] by auto
    then show ?thesis using fold_inputs_not_word[OF assms(1) x assms(4)] by blast
  qed
  show ?thesis
    by (rule keeper.fold_reaches_node[OF sh[unfolded hs keeper_hashPair_input] v _ _ inj disj tl])
      (use assms x in \<open>auto simp: processProof_def keeper_hashPair_input\<close>)
qed

text \<open>
  C11. Only the epoch's leaves can be claimed: if the proof of a claim folds to the root the keeper built, then the
  claim's account and both amounts are those of one leaf of the epoch, provided Keccak has no collision
  between the inputs of the check and the inputs of the tree.
\<close>

theorem claim_is_epoch_leaf:
  assumes "viem_ok v" and "u256 epoch" and "buildTree v epoch ls = Inr tr"
    and "\<forall>l \<in> set (kt_leaves tr). wei_ok l" and "wei_ok w" and "\<forall>p \<in> set prf. is_word p"
    and "processProof v (leafOf v epoch (wl_account w) (wl_laneA w) (wl_laneB w)) prf = kt_root tr"
    and "injective_between (vm_keccak256 v) (claim_inputs v epoch w prf) (tree_inputs v epoch (kt_leaves tr))"
  shows "\<exists>l \<in> set (kt_leaves tr). vm_getAddress v (wl_account w) = vm_getAddress v (wl_account l)
           \<and> wl_laneA w = wl_laneA l \<and> wl_laneB w = wl_laneB l"
proof -
  let ?x = "leafOf v epoch (wl_account w) (wl_laneA w) (wl_laneB w)"
  let ?enc = "\<lambda>w. vm_encodeLeaf v epoch (wl_account w) (wl_laneA w) (wl_laneB w)"
  from buildTree_InrE[OF assms(1,3)] obtain ws t where "ls \<noteq> []" "weiLeaves v ls = Inr ws"
    and t: "keeper_array v (leaf_hashes v epoch ws) = Some t" "kt_root tr = t ! 0" "kt_leaves tr = ws"
    by auto
  then have ne: "ws \<noteq> []" "leaf_hashes v epoch ws \<noteq> []" using weiLeaves_length[of v ls ws] by (auto simp: leaf_hashes_def)
  obtain sh: "heap_shape (keeper_hashPair v) (map (\<lambda>i. leaf_hashes v epoch ws ! i) (hash_order (leaf_hashes v epoch ws))) t"
    and v: "\<forall>x \<in> set t. viem_ok v \<and> is_word x" and tl: "length t = 2 * length ws - 1"
    using keeper_array_valid[OF assms(1) _ ne(2)] leaf_hashes_words[OF assms(1)] t by (auto simp: leaf_hashes_def)
  note inj = injective_betweenD[OF assms(8)[unfolded t(3)]]
  obtain j where j: "j < length t" "?x = t ! j"
    using claim_is_node[OF assms(1) ne(1) t(1) assms(6)] assms(7,8) t by auto
  have "length ws - 1 \<le> j"
  proof (rule ccontr)
    assume "\<not> length ws - 1 \<le> j"
    then have jn: "j < length ws - 1" by simp
    let ?q = "keeper_pairInput v (t ! (2 * j + 1)) (t ! (2 * j + 2))"
    have eq: "vm_keccak256 v (vm_keccak256 v (?enc w)) = vm_keccak256 v ?q"
      using j(2) sh jn hash_order_props[of "leaf_hashes v epoch ws"]
      by (simp add: heap_shape_def leafOf_def keeper_hashPair_input leaf_hashes_def)
    have q: "?q \<in> set (tree_inputs v epoch ws)" using t(1) jn tl by (auto simp: tree_inputs_def node_inputs_def)
    have "vm_keccak256 v (?enc w) = ?q" by (rule inj[OF _ q eq]) (simp add: claim_inputs_def)
    moreover have "\<not> is_word ?q" using jn tl v by (intro pairInput_not_word assms(1)) simp_all
    ultimately show False using viem_okD(1)[OF assms(1)] by metis
  qed
  moreover have "length (hash_order (leaf_hashes v epoch ws)) = length ws"
    using hash_order_props[of "leaf_hashes v epoch ws"] by (simp add: leaf_hashes_def)
  ultimately have "t ! j \<in> set (map (\<lambda>i. leaf_hashes v epoch ws ! i) (hash_order (leaf_hashes v epoch ws)))"
    by (intro heap_shape_node[OF sh _ j(1)]) simp
  then obtain i where "i \<in> set (hash_order (leaf_hashes v epoch ws))" "?x = leaf_hashes v epoch ws ! i"
    unfolding j(2)[symmetric] set_map by blast
  then have "?x \<in> set (leaf_hashes v epoch ws)"
    using hash_order_props[of "leaf_hashes v epoch ws"] by simp
  then obtain l where l: "l \<in> set ws" "vm_keccak256 v (vm_keccak256 v (?enc w)) = vm_keccak256 v (vm_keccak256 v (?enc l))"
    by (auto simp: leaf_hashes_def leafOf_def)
  have "vm_keccak256 v (?enc w) = vm_keccak256 v (?enc l)"
    by (rule inj) (use l in \<open>auto simp: claim_inputs_def tree_inputs_def leaf_inputs_def\<close>)
  then have "?enc w = ?enc l" by (rule inj[rotated 2]) (use l in \<open>auto simp: claim_inputs_def tree_inputs_def leaf_inputs_def\<close>)
  then show ?thesis using encodeLeaf_inj[OF assms(1,2,5), of l] assms(4) l(1) t(3) by blast
qed

subsection \<open>A concrete instance of the hypotheses\<close>

definition toy_keccak :: "string \<Rightarrow> string" where
  "toy_keccak x = ''0x'' @ replicate 63 (CHR ''0'') @ [hex_digit (length x mod 16)]"

definition unary :: "int \<Rightarrow> string" where
  "unary n = replicate (nat n) (CHR ''1'') @ ''-''"

definition toy_viem :: viem where
  "toy_viem = \<lparr>vm_keccak256 = toy_keccak, vm_concat = (\<lambda>xs. ''0x'' @ concat (map (drop 2) xs)),
     vm_encodeLeaf = (\<lambda>e a x y. unary e @ unary x @ unary y @ a), vm_getAddress = Some\<rparr>"

lemma unary_inj: "0 \<le> m \<Longrightarrow> 0 \<le> n \<Longrightarrow> unary m @ s = unary n @ t \<longleftrightarrow> m = n \<and> s = t"
proof -
  have "replicate k (CHR ''1'') @ CHR ''-'' # s = replicate l (CHR ''1'') @ CHR ''-'' # t \<longleftrightarrow> k = l \<and> s = t" for k l
  proof (induction k arbitrary: l)
    case 0
    then show ?case by (cases l) auto
  next
    case (Suc k)
    then show ?case by (cases l) auto
  qed
  then show "0 \<le> m \<Longrightarrow> 0 \<le> n \<Longrightarrow> ?thesis" by (auto simp: unary_def)
qed

lemma toy_viem_ok: "viem_ok toy_viem"
proof -
  have "is_word (toy_keccak x)" for x
    by (simp add: toy_keccak_def is_word_def is_hex_def list_all_length lower_hex_def nth_append
        lower_hex_digit[unfolded lower_hex_def Let_def])
  then show ?thesis by (auto simp: viem_ok_def toy_viem_def unary_inj u256_def)
qed

definition toy_leaves :: "epochLeaf list" where
  "toy_leaves = [\<lparr>el_account = ''0xA'', el_laneAUcld = 5, el_laneBUcld = 1\<rparr>,
     \<lparr>el_account = ''0xBC'', el_laneAUcld = 7, el_laneBUcld = 0\<rparr>, \<lparr>el_account = ''0xDEF'', el_laneAUcld = 0, el_laneBUcld = 2\<rparr>]"

lemma toy_good: "list_all (good_leaf toy_viem) toy_leaves"
  by (simp add: toy_leaves_def good_leaf_def toy_viem_def)

theorem keeper_root_is_api_root_witness:
  "\<exists>tr. buildTree toy_viem 4 toy_leaves = Inr tr \<and> epochRoot toy_viem 4 toy_leaves = Some (kt_root tr)"
  using keeper_root_is_api_root[OF toy_viem_ok _ toy_good, of 4] by (simp add: toy_leaves_def)

lemma toy_tree: "\<exists>tr. buildTree toy_viem 4 toy_leaves = Inr tr"
proof -
  obtain ws where ws: "weiLeaves toy_viem toy_leaves = Inr ws" "length ws = 3"
    using weiLeaves_good[OF toy_good] by (auto simp: toy_leaves_def)
  then have "leaf_hashes toy_viem 4 ws \<noteq> []" by (auto simp: leaf_hashes_def)
  from keeper_array_shape[OF this, of toy_viem] ws show ?thesis
    by (auto simp: buildTree_def Let_def toy_leaves_def)
qed

theorem keeper_proofs_lead_to_root_witness:
  "\<exists>tr. buildTree toy_viem 4 toy_leaves = Inr tr
     \<and> processProof toy_viem (kt_leafHashes tr ! 2) (kt_proofs tr ! 2) = kt_root tr"
proof -
  obtain tr where "buildTree toy_viem 4 toy_leaves = Inr tr" using toy_tree by blast
  with keeper_proofs_lead_to_root[OF toy_viem_ok this] show ?thesis by (auto simp: toy_leaves_def)
qed

definition toy_leaf :: weiLeaf where
  "toy_leaf = \<lparr>wl_account = ''0xA'', wl_laneA = 5 * 10 ^ 12, wl_laneB = 10 ^ 12\<rparr>"

lemma toy_fields:
  "vm_keccak256 toy_viem = toy_keccak" "vm_encodeLeaf toy_viem = (\<lambda>e a x y. unary e @ unary x @ unary y @ a)"
  by (simp_all add: toy_viem_def)

lemma toy_one:
  "\<exists>tr. buildTree toy_viem 4 [\<lparr>el_account = ''0xA'', el_laneAUcld = 5, el_laneBUcld = 1\<rparr>] = Inr tr
     \<and> kt_leaves tr = [toy_leaf] \<and> kt_root tr = leafOf toy_viem 4 ''0xA'' (5 * 10 ^ 12) (10 ^ 12)"
proof -
  have w: "weiLeaves toy_viem [\<lparr>el_account = ''0xA'', el_laneAUcld = 5, el_laneBUcld = 1\<rparr>] = Inr [toy_leaf]"
    by (simp add: weiLeaf_of_def toWei_def toy_viem_def toy_leaf_def UCLD_TO_WEI_def)
  have "keeper_array toy_viem [h] = Some [h]" for h
    by (simp add: keeper_array_def hash_order_def sort_by_def heap_tree_def)
  with w show ?thesis by (simp add: buildTree_def Let_def leaf_hashes_def toy_leaf_def)
qed

theorem claim_is_epoch_leaf_witness:
  "\<exists>tr. buildTree toy_viem 4 [\<lparr>el_account = ''0xA'', el_laneAUcld = 5, el_laneBUcld = 1\<rparr>] = Inr tr
     \<and> (\<exists>l \<in> set (kt_leaves tr). wl_laneA toy_leaf = wl_laneA l)"
proof -
  from toy_one obtain tr where tr: "buildTree toy_viem 4 [\<lparr>el_account = ''0xA'', el_laneAUcld = 5, el_laneBUcld = 1\<rparr>] = Inr tr"
    "kt_leaves tr = [toy_leaf]" "kt_root tr = leafOf toy_viem 4 ''0xA'' (5 * 10 ^ 12) (10 ^ 12)" by blast
  have ka: "keeper_array toy_viem [h] = Some [h]" for h
    by (simp add: keeper_array_def hash_order_def sort_by_def heap_tree_def)
  let ?e = "unary 4 @ unary (5 * 10 ^ 12) @ unary (10 ^ 12) @ ''0xA''"
  have len: "length ?e mod 16 = 10" "length (toy_keccak x) = 66" for x by (simp_all add: unary_def toy_keccak_def)
  have "last (toy_keccak ?e) = hex_digit 10" using len(1) unfolding toy_keccak_def by simp
  moreover have "last (toy_keccak (toy_keccak ?e)) = hex_digit 2"
    unfolding toy_keccak_def[of "toy_keccak ?e"] len(2) by simp
  ultimately have "toy_keccak ?e \<noteq> toy_keccak (toy_keccak ?e)" by (auto simp: hex_digit_def)
  then have "injective_between (vm_keccak256 toy_viem) (claim_inputs toy_viem 4 toy_leaf []) (tree_inputs toy_viem 4 (kt_leaves tr))"
    by (simp add: tr(2) injective_between_def claim_inputs_def tree_inputs_def leaf_inputs_def leaf_hashes_def ka
        node_inputs_def toy_leaf_def toy_fields)
  then show ?thesis
    using claim_is_epoch_leaf[OF toy_viem_ok _ tr(1), of toy_leaf "[]"] tr
    by (auto simp: u256_def wei_ok_def toy_leaf_def processProof_def fold_proof_def)
qed

end
