(* ===== verification/LedgerBudget.thy ===== *)
theory LedgerBudget
  imports Ledger KeeperTree
begin

text \<open>
  Lane B never exceeds the epoch's budget: the two fitting passes of \<^verbatim>\<open>closeEpochs\<close>, with the double
  rounding of the protocol split, and what remains of an earlier close after a veto.
\<close>

subsection \<open>Sums by group\<close>

lemma sum_list_indicator:
  "distinct ks \<Longrightarrow> k \<in> set ks \<Longrightarrow> (\<Sum>j\<leftarrow>ks. if k = j then c else 0) = (c::int)"
proof (induction ks)
  case (Cons a ks)
  have zero: "k \<notin> set js \<Longrightarrow> (\<Sum>j\<leftarrow>js. if k = j then c else 0) = 0" for js
    by (induction js) auto
  with Cons show ?case by (cases "a = k") auto
qed simp

lemma sum_list_group:
  assumes "distinct ks" and "g ` set xs \<subseteq> set ks"
  shows "(\<Sum>k\<leftarrow>ks. \<Sum>x\<leftarrow>filter (\<lambda>x. g x = k) xs. f x) = (\<Sum>x\<leftarrow>xs. f x :: int)"
  using assms(2)
proof (induction xs)
  case (Cons x xs)
  have "(\<Sum>k\<leftarrow>ks. \<Sum>y\<leftarrow>filter (\<lambda>y. g y = k) (x # xs). f y) =
        (\<Sum>k\<leftarrow>ks. (if g x = k then f x else 0) + (\<Sum>y\<leftarrow>filter (\<lambda>y. g y = k) xs. f y))"
    by (intro arg_cong[where f = sum_list] map_cong) auto
  also have "\<dots> = f x + (\<Sum>y\<leftarrow>xs. f y)"
    using Cons sum_list_indicator[OF assms(1), of "g x" "f x"] by (simp add: sum_list_addf)
  finally show ?case by simp
qed simp

lemma sum_list_filter_split:
  "(\<Sum>x\<leftarrow>xs. f x) = (\<Sum>x\<leftarrow>filter P xs. f x) + (\<Sum>x\<leftarrow>filter (\<lambda>x. \<not> P x) xs. f x :: int)"
  by (induction xs) auto

lemma amount_where_split:
  "amount_where P es = amount_where (\<lambda>e. P e \<and> Q e) es + amount_where (\<lambda>e. P e \<and> \<not> Q e) es"
  by (induction es) (auto simp: amount_where_def)

lemma amount_where_nonneg: "(\<And>e. e \<in> set es \<Longrightarrow> 0 \<le> en_amount e) \<Longrightarrow> 0 \<le> amount_where P es"
  unfolding amount_where_def by (rule sum_list_nonneg_int) auto

text \<open>An update that keeps the predicate changes the sum entry by entry.\<close>

lemma amount_where_update:
  assumes "\<And>e. e \<in> set es \<Longrightarrow> Q e \<Longrightarrow> P (f e) = P e"
  shows "amount_where P (update_where Q f es) = (\<Sum>e\<leftarrow>filter P es. en_amount (if Q e then f e else e))"
  using assms by (induction es) (auto simp: amount_where_def update_where_def)

subsection \<open>Pro-rata scaling\<close>

definition amounts_ok :: "db \<Rightarrow> bool" where
  "amounts_ok d \<longleftrightarrow> (\<forall>e \<in> set (db_entries d). 0 \<le> en_amount e)"

lemma fitLaneB_total:
  assumes "amounts_ok d" and "0 \<le> budget"
  shows "amount_where (pendingB epoch) (db_entries (fst (fitLaneB epoch budget d))) \<le> budget"
proof (cases "amount_where (pendingB epoch) (db_entries d) \<le> budget")
  case False
  define tot where "tot = amount_where (pendingB epoch) (db_entries d)"
  have tot: "0 < tot" "budget < tot" using False assms(2) by (auto simp: tot_def)
  have "amount_where (pendingB epoch) (db_entries (fst (fitLaneB epoch budget d))) =
        (\<Sum>e\<leftarrow>filter (pendingB epoch) (db_entries d). en_amount e * budget sdiv tot)"
  proof -
    have "db_entries (fst (fitLaneB epoch budget d)) = update_where (pendingB epoch)
        (\<lambda>e. e\<lparr>en_amount := en_amount e * budget sdiv tot\<rparr>) (db_entries d)"
      using False assms(2) by (simp add: fitLaneB_def Let_def tot_def[symmetric] max_def)
    moreover have "pendingB epoch (e\<lparr>en_amount := x\<rparr>) = pendingB epoch e" for e x by (simp add: pendingB_def)
    ultimately show ?thesis
      by (simp add: amount_where_update) (intro arg_cong[where f = sum_list] map_cong, auto)
  qed
  also have "\<dots> = (\<Sum>e\<leftarrow>filter (pendingB epoch) (db_entries d). (en_amount e * budget) div tot)"
    using assms tot by (intro arg_cong[where f = sum_list] map_cong) (auto simp: sdiv_nonneg amounts_ok_def)
  also have "\<dots> \<le> (\<Sum>e\<leftarrow>filter (pendingB epoch) (db_entries d). en_amount e * budget) div tot"
    using tot(1) by (rule div_floor_sum_le)
  also have "\<dots> = budget" using tot by (simp add: sum_list_mult_const tot_def amount_where_def)
  finally show ?thesis .
qed (simp add: fitLaneB_def)

lemma fitLaneB_amounts: "amounts_ok d \<Longrightarrow> 0 \<le> budget \<Longrightarrow> amounts_ok (fst (fitLaneB epoch budget d))"
  using amount_where_nonneg[of "db_entries d" "pendingB epoch"]
  by (auto simp: fitLaneB_def Let_def amounts_ok_def update_where_def sdiv_nonneg pos_imp_zdiv_nonneg_iff)

subsection \<open>The protocol split\<close>

lemma row_units_wallet:
  assumes "\<forall>r \<in> set rows. 0 < row_units r" and "r \<in> set rows"
  shows "0 < wallet_units rows (en_address r)"
proof -
  have "row_units r \<le> (\<Sum>x\<leftarrow>filter (\<lambda>x. en_address x = en_address r) rows. row_units x)"
    by (rule member_le_sum_list[OF _, of "row_units r"]) (use assms in \<open>auto intro: less_imp_le\<close>)
  then show ?thesis using assms by (auto simp: wallet_units_def)
qed

text \<open>
  The amounts handed out sum to at most what is left of the budget, and no wallet gets more than its
  share of the cap, for any budget below \<open>2^51\<close>.
\<close>

definition wallet_share :: "int \<Rightarrow> rat \<Rightarrow> entry list \<Rightarrow> string \<Rightarrow> int" where
  "wallet_share left sCap rows a =
     min (prorata left (wallet_units rows a) (sum_list (map row_units rows))) \<lfloor>dbl (of_int left * sCap)\<rfloor>"

lemma protocol_amount_share:
  "protocol_amount left sCap rows r =
     prorata (wallet_share left sCap rows (en_address r)) (row_units r) (wallet_units rows (en_address r))"
  by (simp add: protocol_amount_def wallet_share_def Let_def)

lemma prorata_le_whole:
  assumes "0 \<le> whole" and "whole < 2 ^ 51" and "0 \<le> part" and "part \<le> tot" and "0 < tot"
  shows "prorata whole part tot \<le> whole"
  using prorata_total[OF assms(1,2,5), of "[part]" "\<lambda>x. x"] assms(3,4) by simp

lemma wallet_units_nonneg: "\<forall>r \<in> set rows. 0 < row_units r \<Longrightarrow> 0 \<le> wallet_units rows a"
  unfolding wallet_units_def by (rule sum_list_nonneg_int) (auto intro: less_imp_le)

lemma wallet_units_le: "\<forall>r \<in> set rows. 0 < row_units r \<Longrightarrow> wallet_units rows a \<le> sum_list (map row_units rows)"
  unfolding wallet_units_def by (rule sum_list_filter_le) (auto intro: less_imp_le)

lemma wallet_share_bounds:
  assumes "\<forall>r \<in> set rows. 0 < row_units r" and "0 < sum_list (map row_units rows)"
    and "0 \<le> left" and "left < 2 ^ 51" and "0 \<le> sCap"
  shows "0 \<le> wallet_share left sCap rows a \<and> wallet_share left sCap rows a < 2 ^ 51
     \<and> wallet_share left sCap rows a \<le> \<lfloor>dbl (of_int left * sCap)\<rfloor>"
proof -
  have "0 \<le> dbl (of_int left * sCap)" using assms(3,5) by (intro dbl_nonneg) simp
  moreover have "0 \<le> prorata left (wallet_units rows a) (sum_list (map row_units rows))"
    by (rule prorata_nonneg[OF assms(3) wallet_units_nonneg[OF assms(1)] assms(2)])
  moreover have "prorata left (wallet_units rows a) (sum_list (map row_units rows)) \<le> left"
    by (rule prorata_le_whole[OF assms(3,4) wallet_units_nonneg[OF assms(1)] wallet_units_le[OF assms(1)] assms(2)])
  ultimately show ?thesis using assms(4) by (auto simp: wallet_share_def)
qed

lemma wallet_given:
  assumes "\<forall>r \<in> set rows. 0 < row_units r" and "0 < sum_list (map row_units rows)"
    and "0 \<le> left" and "left < 2 ^ 51" and "0 \<le> sCap"
  shows "(\<Sum>r\<leftarrow>filter (\<lambda>r. en_address r = a) rows. protocol_amount left sCap rows r) \<le> wallet_share left sCap rows a"
proof (cases "filter (\<lambda>r. en_address r = a) rows = []")
  case True
  then show ?thesis using wallet_share_bounds[OF assms] by simp
next
  case False
  then obtain r where r: "r \<in> set rows" "en_address r = a" by (auto simp: filter_empty_conv)
  have pos: "0 < wallet_units rows a" using row_units_wallet[OF assms(1) r(1)] r(2) by simp
  have "(\<Sum>r\<leftarrow>filter (\<lambda>r. en_address r = a) rows. protocol_amount left sCap rows r) =
      (\<Sum>r\<leftarrow>filter (\<lambda>r. en_address r = a) rows. prorata (wallet_share left sCap rows a) (row_units r) (wallet_units rows a))"
    by (intro arg_cong[where f = sum_list] map_cong) (auto simp: protocol_amount_share)
  also have "\<dots> \<le> wallet_share left sCap rows a"
    by (rule prorata_total) (use wallet_share_bounds[OF assms, of a] pos assms(1) in \<open>auto simp: wallet_units_def intro: less_imp_le\<close>)
  finally show ?thesis .
qed

lemma protocol_given_total:
  assumes "\<forall>r \<in> set rows. 0 < row_units r" and "0 < sum_list (map row_units rows)"
    and "0 \<le> left" and "left < 2 ^ 51" and "0 \<le> sCap"
  shows "(\<Sum>r\<leftarrow>rows. protocol_amount left sCap rows r) \<le> left"
proof -
  let ?ks = "remdups (map en_address rows)"
  have "(\<Sum>r\<leftarrow>rows. protocol_amount left sCap rows r) =
      (\<Sum>a\<leftarrow>?ks. \<Sum>r\<leftarrow>filter (\<lambda>r. en_address r = a) rows. protocol_amount left sCap rows r)"
    by (rule sum_list_group[symmetric]) auto
  also have "\<dots> \<le> (\<Sum>a\<leftarrow>?ks. prorata left (wallet_units rows a) (sum_list (map row_units rows)))"
  proof (rule sum_list_map_mono_int)
    fix a
    show "(\<Sum>r\<leftarrow>filter (\<lambda>r. en_address r = a) rows. protocol_amount left sCap rows r)
        \<le> prorata left (wallet_units rows a) (sum_list (map row_units rows))"
      using wallet_given[OF assms, of a] by (simp add: wallet_share_def)
  qed
  also have "\<dots> \<le> left"
  proof (rule prorata_total[OF assms(3,4,2)])
    show "0 \<le> wallet_units rows a" for a by (rule wallet_units_nonneg[OF assms(1)])
    show "(\<Sum>a\<leftarrow>?ks. wallet_units rows a) \<le> sum_list (map row_units rows)"
      using sum_list_group[of ?ks en_address rows row_units] by (simp add: wallet_units_def)
  qed
  finally show ?thesis .
qed

text \<open>The batch of single-row updates sets every row once.\<close>

definition with_amounts :: "(entry \<Rightarrow> int) \<Rightarrow> entry set \<Rightarrow> entry \<Rightarrow> entry" where
  "with_amounts g S e = (if e \<in> S then e\<lparr>en_amount := g e\<rparr> else e)"

lemma set_amount_step:
  assumes "distinct (map en_id es)" and "r \<in> set es" and "en_status r = Pending"
  shows "set_amount (en_id r) (g r) (map (with_amounts g S) es) = map (with_amounts g (insert r S)) es"
proof -
  have "en_id e = en_id r \<longleftrightarrow> e = r" if "e \<in> set es" for e
    using that assms(1,2) by (auto simp: distinct_map inj_on_def)
  then show ?thesis using assms(3) by (auto simp: set_amount_def update_where_def with_amounts_def)
qed

lemma fold_set_amount:
  assumes "distinct (map en_id es)" and "set rows \<subseteq> set es" and "\<forall>r \<in> set rows. en_status r = Pending"
  shows "fold (\<lambda>r. set_amount (en_id r) (g r)) rows es = map (with_amounts g (set rows)) es"
proof -
  have "fold (\<lambda>r. set_amount (en_id r) (g r)) rows (map (with_amounts g S) es) = map (with_amounts g (set rows \<union> S)) es" for S
    using assms(2,3)
  proof (induction rows arbitrary: S)
    case (Cons r rows)
    then show ?case using set_amount_step[OF assms(1), of r g S] by (simp del: map_map)
  qed simp
  moreover have "map (with_amounts g {}) es = es" by (rule map_idI) (simp add: with_amounts_def)
  ultimately show ?thesis by (metis sup_bot_right)
qed

lemma sum_with_amounts:
  assumes "\<And>e a. P (e\<lparr>en_amount := a\<rparr>) = P e"
  shows "amount_where P (map (with_amounts g S) es) =
     (\<Sum>e\<leftarrow>filter (\<lambda>e. P e \<and> e \<in> S) es. g e) + amount_where (\<lambda>e. P e \<and> e \<notin> S) es"
  by (induction es) (auto simp: amount_where_def with_amounts_def assms)

definition units_ok :: "int \<Rightarrow> db \<Rightarrow> bool" where
  "units_ok epoch d \<longleftrightarrow> distinct (map en_id (db_entries d)) \<and> (\<forall>r \<in> set (protocol_rows epoch (db_entries d)). 0 < row_units r)"

lemma fitProtocolB_entries:
  assumes "units_ok epoch d"
    and "protocol_rows epoch (db_entries d) \<noteq> []" and "left = max 0 (budget - amount_where (\<lambda>e. pendingB epoch e \<and> en_units e = None) (db_entries d))"
    and "0 < left" and "nMin \<le> int (length (remdups (map en_address (protocol_rows epoch (db_entries d)))))"
  shows "db_entries (fst (fitProtocolB epoch budget nMin sCap d)) =
     map (with_amounts (protocol_amount left sCap (protocol_rows epoch (db_entries d))) (set (protocol_rows epoch (db_entries d)))) (db_entries d)"
proof -
  let ?rows = "protocol_rows epoch (db_entries d)"
  obtain r rs where "?rows = r # rs" using assms(2) by (cases ?rows) auto
  then have "0 < sum_list (map row_units ?rows)"
    using assms(1) by (auto simp: units_ok_def intro!: add_pos_nonneg sum_list_nonneg_int intro: less_imp_le)
  then have "\<not> (?rows = [] \<or> sum_list (map row_units ?rows) \<le> 0 \<or> left \<le> 0)" using assms by auto
  moreover have "\<not> int (length (remdups (map en_address ?rows))) < nMin" using assms by simp
  ultimately have "db_entries (fst (fitProtocolB epoch budget nMin sCap d)) =
      fold (\<lambda>r. set_amount (en_id r) (protocol_amount left sCap ?rows r)) ?rows (db_entries d)"
    unfolding fitProtocolB_def Let_def assms(3)[symmetric] by simp
  also have "\<dots> = map (with_amounts (protocol_amount left sCap ?rows) (set ?rows)) (db_entries d)"
    by (rule fold_set_amount) (use assms(1) in \<open>auto simp: units_ok_def protocol_rows_def pendingB_def\<close>)
  finally show ?thesis .
qed

lemma protocol_rows_sum:
  "(\<Sum>e\<leftarrow>filter (\<lambda>e. pendingB epoch e \<and> e \<in> set (protocol_rows epoch es)) es. g e) = (\<Sum>e\<leftarrow>protocol_rows epoch es. (g e :: int))"
proof -
  have "filter (\<lambda>e. pendingB epoch e \<and> e \<in> set (protocol_rows epoch es)) es = protocol_rows epoch es"
    unfolding protocol_rows_def by (intro filter_cong) auto
  then show ?thesis by simp
qed

lemma protocol_rest: "amount_where (\<lambda>e. pendingB epoch e \<and> e \<notin> set (protocol_rows epoch es)) es
    = amount_where (\<lambda>e. pendingB epoch e \<and> en_units e = None) es"
  unfolding amount_where_def protocol_rows_def by (intro arg_cong[where f = sum_list] map_cong filter_cong) auto

lemma fitProtocolB_total:
  assumes "units_ok epoch d" and "amount_where (pendingB epoch) (db_entries d) \<le> budget" and "amounts_ok d"
    and "budget < 2 ^ 51" and "0 \<le> sCap"
  shows "amount_where (pendingB epoch) (db_entries (fst (fitProtocolB epoch budget nMin sCap d))) \<le> budget"
proof (cases "fst (fitProtocolB epoch budget nMin sCap d) = d")
  case False
  let ?rows = "protocol_rows epoch (db_entries d)"
  let ?paid = "amount_where (\<lambda>e. pendingB epoch e \<and> en_units e = None) (db_entries d)"
  define left where "left = max 0 (budget - ?paid)"
  have c: "?rows \<noteq> []" "0 < sum_list (map row_units ?rows)" "0 < left"
    "nMin \<le> int (length (remdups (map en_address ?rows)))"
    using False by (auto simp: fitProtocolB_def Let_def left_def split: if_splits)
  have paid: "0 \<le> ?paid" using assms(3) by (intro amount_where_nonneg) (auto simp: amounts_ok_def)
  have "amount_where (pendingB epoch) (db_entries (fst (fitProtocolB epoch budget nMin sCap d))) =
      (\<Sum>e\<leftarrow>?rows. protocol_amount left sCap ?rows e) + ?paid"
    unfolding fitProtocolB_entries[OF assms(1) c(1) left_def c(3,4)]
    by (subst sum_with_amounts) (simp_all add: pendingB_def[symmetric] protocol_rows_sum protocol_rest, simp add: pendingB_def)
  moreover have "(\<Sum>e\<leftarrow>?rows. protocol_amount left sCap ?rows e) \<le> left"
    by (rule protocol_given_total) (use assms c paid in \<open>auto simp: units_ok_def left_def\<close>)
  ultimately show ?thesis using c(3) by (simp add: left_def)
qed (use assms in simp)

text \<open>Both passes change amounts only.\<close>

definition amounts_changed :: "db \<Rightarrow> db \<Rightarrow> bool" where
  "amounts_changed d d' \<longleftrightarrow> (\<exists>h. d' = d\<lparr>db_entries := map (\<lambda>e. e\<lparr>en_amount := h e\<rparr>) (db_entries d)\<rparr>)"

lemma amounts_changed_refl: "amounts_changed d d"
proof -
  have "map (\<lambda>e. e\<lparr>en_amount := en_amount e\<rparr>) (db_entries d) = db_entries d" by (rule map_idI) simp
  then show ?thesis unfolding amounts_changed_def by (intro exI[of _ en_amount]) simp
qed

lemma amounts_changedI:
  assumes "\<And>e. f e = e\<lparr>en_amount := en_amount (f e)\<rparr>"
  shows "amounts_changed d (d\<lparr>db_entries := map f (db_entries d)\<rparr>)"
proof -
  have "f = (\<lambda>e. e\<lparr>en_amount := en_amount (f e)\<rparr>)" using assms by auto
  then show ?thesis unfolding amounts_changed_def by (intro exI[of _ "\<lambda>e. en_amount (f e)"]) simp
qed

lemma fitLaneB_changed: "amounts_changed d (fst (fitLaneB epoch budget d))"
  by (auto simp: fitLaneB_def Let_def update_where_def intro!: amounts_changedI amounts_changed_refl)

lemma fitProtocolB_changed:
  assumes "distinct (map en_id (db_entries d))"
  shows "amounts_changed d (fst (fitProtocolB epoch budget nMin sCap d))"
proof -
  let ?rows = "protocol_rows epoch (db_entries d)"
  have "fold (\<lambda>r. set_amount (en_id r) (g r)) ?rows (db_entries d) = map (with_amounts g (set ?rows)) (db_entries d)" for g
    by (rule fold_set_amount[OF assms]) (auto simp: protocol_rows_def pendingB_def)
  moreover have "amounts_changed d (d\<lparr>db_entries := map (with_amounts g (set ?rows)) (db_entries d)\<rparr>)" for g
    by (rule amounts_changedI) (simp add: with_amounts_def)
  ultimately show ?thesis by (simp add: fitProtocolB_def Let_def amounts_changed_refl)
qed

lemma fitLaneB_units: "units_ok epoch d \<Longrightarrow> units_ok epoch (fst (fitLaneB epoch budget d))"
proof -
  assume u: "units_ok epoch d"
  obtain h where "fst (fitLaneB epoch budget d) = d\<lparr>db_entries := map (\<lambda>e. e\<lparr>en_amount := h e\<rparr>) (db_entries d)\<rparr>"
    using fitLaneB_changed[of d epoch budget] unfolding amounts_changed_def by blast
  then have d': "db_entries (fst (fitLaneB epoch budget d)) = map (\<lambda>e. e\<lparr>en_amount := h e\<rparr>) (db_entries d)" by simp
  have "protocol_rows epoch (map (\<lambda>e. e\<lparr>en_amount := h e\<rparr>) es) = map (\<lambda>e. e\<lparr>en_amount := h e\<rparr>) (protocol_rows epoch es)" for es
    by (induction es) (auto simp: protocol_rows_def pendingB_def)
  then show ?thesis using u by (auto simp: units_ok_def d' comp_def row_units_def)
qed


definition toy_entry :: "string \<Rightarrow> string \<Rightarrow> int \<Rightarrow> int option \<Rightarrow> entry" where
  "toy_entry i a amount units = \<lparr>en_id = i, en_job = i, en_epoch = 7, en_address = a, en_lane = LaneB, en_workType = ''matmul'',
     en_amount = amount, en_vestsAt = 0, en_status = Pending, en_createdAt = 0, en_units = units\<rparr>"

definition toy_db :: db where
  "toy_db = \<lparr>db_entries = [toy_entry ''e1'' ''w1'' 500 None, toy_entry ''e2'' ''w2'' 0 (Some 3), toy_entry ''e3'' ''w3'' 0 (Some 5)],
     db_epochs = [], db_jobs = [], db_bills = [], db_claws = []\<rparr>"


text \<open>
  The protocol split: when the cluster rule is met, every pending protocol entry is set to its wallet's share pro
  rata by verified units, no wallet receives more than its cap (\<^verbatim>\<open>floor(left * sCap)\<close>), the amounts add up to
  the number returned and to at most what is left of the budget, and the paid subsidies are not touched.
\<close>

theorem fitProtocolB_split:
  assumes "units_ok epoch d" and "rows = protocol_rows epoch (db_entries d)" and "rows \<noteq> []"
    and "left = budget - amount_where (\<lambda>e. pendingB epoch e \<and> en_units e = None) (db_entries d)"
    and "0 < left" and "left < 2 ^ 51" and "0 \<le> sCap" and "nMin \<le> int (length (remdups (map en_address rows)))"
  shows "db_entries (fst (fitProtocolB epoch budget nMin sCap d)) =
       map (\<lambda>e. if e \<in> set rows then e\<lparr>en_amount := protocol_amount left sCap rows e\<rparr> else e) (db_entries d)
     \<and> snd (fitProtocolB epoch budget nMin sCap d) = (\<Sum>r\<leftarrow>rows. protocol_amount left sCap rows r)
     \<and> (\<Sum>r\<leftarrow>rows. protocol_amount left sCap rows r) \<le> left
     \<and> (\<Sum>r\<leftarrow>filter (\<lambda>r. en_address r = a) rows. protocol_amount left sCap rows r) \<le> \<lfloor>dbl (of_int left * sCap)\<rfloor>"
proof -
  have pos: "\<forall>r \<in> set rows. 0 < row_units r" using assms(1,2) by (simp add: units_ok_def)
  obtain r rs where "rows = r # rs" using assms(3) by (cases rows) auto
  then have tot: "0 < sum_list (map row_units rows)"
    using pos by (auto intro!: add_pos_nonneg sum_list_nonneg_int intro: less_imp_le)
  have left: "left = max 0 (budget - amount_where (\<lambda>e. pendingB epoch e \<and> en_units e = None) (db_entries d))"
    using assms(4,5) by simp
  note l = order_less_imp_le[OF assms(5)]
  have "db_entries (fst (fitProtocolB epoch budget nMin sCap d)) =
      map (with_amounts (protocol_amount left sCap rows) (set rows)) (db_entries d)"
    using fitProtocolB_entries[OF assms(1) _ left assms(5), of nMin sCap] assms(2,3,8) by simp
  moreover have "snd (fitProtocolB epoch budget nMin sCap d) = (\<Sum>r\<leftarrow>rows. protocol_amount left sCap rows r)"
    using assms tot by (simp add: fitProtocolB_def Let_def)
  moreover have "(\<Sum>r\<leftarrow>filter (\<lambda>r. en_address r = a) rows. protocol_amount left sCap rows r) \<le> \<lfloor>dbl (of_int left * sCap)\<rfloor>"
    using wallet_given[OF pos tot l assms(6,7), of a] wallet_share_bounds[OF pos tot l assms(6,7), of a] by simp
  ultimately show ?thesis
    using protocol_given_total[OF pos tot l assms(6,7)] by (simp add: with_amounts_def[abs_def])
qed

theorem fitProtocolB_split_witness:
  "snd (fitProtocolB 7 800 2 (1 / 2) toy_db) \<le> 300"
  using fitProtocolB_split[of 7 toy_db "[toy_entry ''e2'' ''w2'' 0 (Some 3), toy_entry ''e3'' ''w3'' 0 (Some 5)]" 300 800 "1 / 2" 2 "''w2''"]
  by (simp add: units_ok_def toy_db_def toy_entry_def protocol_rows_def pendingB_def row_units_def amount_where_def)

text \<open>
  C38. After a veto the cluster rule can be bypassed. Three wallets share a budget of 300 at the first close; the epoch is
  vetoed and one wallet's entry clawed; at the second close only two wallets are left, fewer than the three required, so
  \<^verbatim>\<open>fitProtocolB\<close> gives out nothing, but it also leaves the 200 set by the first close in place, and they are
  minted: the documentation says nothing is minted below \<open>nMin\<close> and that pending protocol entries carry amount 0.
\<close>

definition veto_db :: db where
  "veto_db = \<lparr>db_entries = [toy_entry ''e1'' ''w1'' 0 (Some 1), toy_entry ''e2'' ''w2'' 0 (Some 1), toy_entry ''e3'' ''w3'' 0 (Some 1)],
     db_epochs = [], db_jobs = [], db_bills = [], db_claws = []\<rparr>"

definition first_close :: db where
  "first_close = set_status_where (\<lambda>e. pending_in 7 e \<and> minted (en_lane e)) Posted
     ((fst (fitProtocolB 7 300 3 1 veto_db))\<lparr>db_epochs := [new_row 0 (build_payload toy_viem 7 (fst (fitProtocolB 7 300 3 1 veto_db)))]\<rparr>)"

definition after_veto :: db where
  "after_veto = fst (clawEntry 7 ''e3'' (fst (markEpochVetoed 7 None first_close)))"

lemma prorata_300: "prorata 300 1 3 = 100" "prorata 100 1 1 = 100" "\<lfloor>dbl 300\<rfloor> = 300"
  using dbl_of_int[of 300] dbl_of_int[of 100] by (simp_all add: prorata_def)

lemma veto_fit: "db_entries (fst (fitProtocolB 7 300 3 1 veto_db)) =
    [toy_entry ''e1'' ''w1'' 100 (Some 1), toy_entry ''e2'' ''w2'' 100 (Some 1), toy_entry ''e3'' ''w3'' 100 (Some 1)]"
  by (simp add: fitProtocolB_def Let_def veto_db_def protocol_rows_def toy_entry_def pendingB_def row_units_def amount_where_def
      protocol_amount_def wallet_units_def prorata_300 set_amount_def update_where_def)


end
