(* ===== verification/LedgerInv.thy ===== *)
theory LedgerInv
  imports LedgerBudget
begin

text \<open>
  The reward ledger as a state machine. \<open>ledger_inv\<close> says what a consistent ledger is: row ids are unique; a
  posted entry belongs to an epoch that is closed or posted, a settled one to a settled epoch; and the lane
  totals stored with an epoch that is not vetoed are exactly the sums of its posted and settled entries, so that what is
  minted on-chain is what the ledger says was earned. Every operation of the ledger preserves it, hence
  it holds in every reachable state.
\<close>

subsection \<open>The invariant\<close>

definition unposted :: "entry \<Rightarrow> bool" where
  "unposted e \<longleftrightarrow> en_status e = Pending \<or> en_status e = Clawed"

definition lane_posted :: "int \<Rightarrow> lane \<Rightarrow> entry list \<Rightarrow> int" where
  "lane_posted i l = amount_where (\<lambda>e. en_epoch e = i \<and> en_lane e = l \<and> \<not> unposted e)"

definition entry_matches :: "epochRow list \<Rightarrow> entry \<Rightarrow> bool" where
  "entry_matches rows e \<longleftrightarrow> unposted e \<or> (minted (en_lane e) \<and> (\<exists>r \<in> set rows. er_id r = en_epoch e
     \<and> (if en_status e = Posted then er_status r = EpClosed \<or> er_status r = EpPosted else er_status r = EpSettled)))"

definition row_balanced :: "entry list \<Rightarrow> epochRow \<Rightarrow> bool" where
  "row_balanced es r \<longleftrightarrow> er_status r = EpVetoed \<or>
     (er_mintA r = Some (lane_posted (er_id r) LaneA es) \<and> er_mintB r = Some (lane_posted (er_id r) LaneB es)
      \<and> er_treasury r = Some (lane_posted (er_id r) Treasury es))"

definition ledger_inv :: "db \<Rightarrow> bool" where
  "ledger_inv d \<longleftrightarrow> distinct (map en_id (db_entries d)) \<and> distinct (map er_id (db_epochs d))
     \<and> (\<forall>e \<in> set (db_entries d). entry_matches (db_epochs d) e)
     \<and> (\<forall>r \<in> set (db_epochs d). row_balanced (db_entries d) r)"

subsection \<open>Updates of entries that are not posted\<close>

definition private_map :: "(entry \<Rightarrow> entry) \<Rightarrow> entry list \<Rightarrow> bool" where
  "private_map f es \<longleftrightarrow> (\<forall>e \<in> set es. en_id (f e) = en_id e \<and> (f e = e \<or> unposted e \<and> unposted (f e)))"

lemma lane_posted_private: "private_map f es \<Longrightarrow> lane_posted i l (map f es) = lane_posted i l es"
  by (induction es) (auto simp: private_map_def lane_posted_def amount_where_def)

lemma lane_posted_append: "\<forall>e \<in> set new. unposted e \<Longrightarrow> lane_posted i l (es @ new) = lane_posted i l es"
  by (induction new) (auto simp: lane_posted_def amount_where_def)

lemma ledger_inv_private:
  assumes "ledger_inv d" and "private_map f (db_entries d)"
  shows "ledger_inv (d\<lparr>db_entries := map f (db_entries d)\<rparr>)"
proof -
  have "map en_id (map f (db_entries d)) = map en_id (db_entries d)"
    using assms(2) by (simp add: private_map_def)
  moreover have "entry_matches (db_epochs d) (f e)" if "e \<in> set (db_entries d)" for e
  proof -
    from that assms(2) have "f e = e \<or> unposted (f e)" by (auto simp: private_map_def)
    then show ?thesis
    proof
      assume "f e = e"
      with that assms(1) show ?thesis by (simp add: ledger_inv_def)
    qed (simp add: entry_matches_def)
  qed
  ultimately show ?thesis
    using assms(1) lane_posted_private[OF assms(2)]
    by (simp add: ledger_inv_def row_balanced_def del: map_map)
qed

lemma ledger_inv_append:
  assumes "ledger_inv d" and "\<forall>e \<in> set new. unposted e" and "distinct (map en_id new)"
    and "set (map en_id new) \<inter> set (map en_id (db_entries d)) = {}"
  shows "ledger_inv (d\<lparr>db_entries := db_entries d @ new\<rparr>)"
proof -
  have "\<forall>e \<in> set new. entry_matches (db_epochs d) e" using assms(2) by (simp add: entry_matches_def)
  then show ?thesis using assms lane_posted_append[OF assms(2)] by (auto simp: ledger_inv_def row_balanced_def)
qed

lemma ledger_inv_others:
  "ledger_inv (d\<lparr>db_jobs := js\<rparr>) = ledger_inv d" "ledger_inv (d\<lparr>db_bills := bs\<rparr>) = ledger_inv d"
  "ledger_inv (d\<lparr>db_claws := cs\<rparr>) = ledger_inv d"
  by (simp_all add: ledger_inv_def)

lemma ledger_inv_status:
  assumes "ledger_inv d" and "st = Pending \<or> st = Clawed" and "\<And>e. P e \<Longrightarrow> unposted e"
  shows "ledger_inv (set_status_where P st d)"
  unfolding set_status_where_def update_where_def
  by (rule ledger_inv_private[OF assms(1)]) (use assms(2,3) in \<open>auto simp: private_map_def unposted_def\<close>)

lemma fitLaneB_inv: "ledger_inv d \<Longrightarrow> ledger_inv (fst (fitLaneB epoch budget d))"
  unfolding fitLaneB_def Let_def update_where_def
  by (auto intro!: ledger_inv_private simp: private_map_def pendingB_def unposted_def)

lemma fitProtocolB_inv: "ledger_inv d \<Longrightarrow> ledger_inv (fst (fitProtocolB epoch budget nMin sCap d))"
proof -
  assume d: "ledger_inv d"
  let ?rows = "protocol_rows epoch (db_entries d)"
  have "fold (\<lambda>r. set_amount (en_id r) (g r)) ?rows (db_entries d) = map (with_amounts g (set ?rows)) (db_entries d)" for g
    by (rule fold_set_amount) (use d in \<open>auto simp: ledger_inv_def protocol_rows_def pendingB_def\<close>)
  moreover have "ledger_inv (d\<lparr>db_entries := map (with_amounts g (set ?rows)) (db_entries d)\<rparr>)" for g
    by (rule ledger_inv_private[OF d])
      (auto simp: private_map_def with_amounts_def unposted_def protocol_rows_def pendingB_def)
  ultimately show ?thesis using d by (simp add: fitProtocolB_def Let_def)
qed

lemma fits_epochs [simp]:
  "db_epochs (fst (fitLaneB epoch budget d)) = db_epochs d"
  "db_epochs (fst (fitProtocolB epoch budget nMin sCap d)) = db_epochs d"
  by (simp_all add: fitLaneB_def fitProtocolB_def Let_def)

subsection \<open>What a close posts\<close>

lemma epoch_leaves_total:
  "(\<Sum>l\<leftarrow>epoch_leaves i d. el_laneAUcld l) = amount_where (\<lambda>e. pending_in i e \<and> en_lane e = LaneA) (db_entries d)"
  "(\<Sum>l\<leftarrow>epoch_leaves i d. el_laneBUcld l) = amount_where (\<lambda>e. pending_in i e \<and> en_lane e = LaneB) (db_entries d)"
proof -
  let ?rows = "filter (\<lambda>e. pending_in i e \<and> (en_lane e = LaneA \<or> en_lane e = LaneB)) (db_entries d)"
  let ?ks = "sort_by compareHex (remdups (map en_address ?rows))"
  have ks: "distinct ?ks" "en_address ` set (filter Q ?rows) \<subseteq> set ?ks" for Q
    using sort_by_props[of compareHex "remdups (map en_address ?rows)"] by auto
  have by_lane: "(\<Sum>a\<leftarrow>?ks. amount_where (\<lambda>e. en_address e = a \<and> en_lane e = l) ?rows) =
      amount_where (\<lambda>e. pending_in i e \<and> en_lane e = l) (db_entries d)" if "l = LaneA \<or> l = LaneB" for l
  proof -
    have "(\<Sum>a\<leftarrow>?ks. amount_where (\<lambda>e. en_address e = a \<and> en_lane e = l) ?rows) =
        (\<Sum>a\<leftarrow>?ks. \<Sum>e\<leftarrow>filter (\<lambda>e. en_address e = a) (filter (\<lambda>e. en_lane e = l) ?rows). en_amount e)"
      by (simp add: amount_where_def conj_commute)
    also have "\<dots> = (\<Sum>e\<leftarrow>filter (\<lambda>e. en_lane e = l) ?rows. en_amount e)"
      by (rule sum_list_group[OF ks])
    also have "filter (\<lambda>e. en_lane e = l) ?rows = filter (\<lambda>e. pending_in i e \<and> en_lane e = l) (db_entries d)"
      using that by (auto intro!: filter_cong)
    finally show ?thesis by (simp add: amount_where_def)
  qed
  show "(\<Sum>l\<leftarrow>epoch_leaves i d. el_laneAUcld l) = amount_where (\<lambda>e. pending_in i e \<and> en_lane e = LaneA) (db_entries d)"
    unfolding epoch_leaves_def Let_def map_map comp_def epochLeaf.select_convs by (rule by_lane) simp
  show "(\<Sum>l\<leftarrow>epoch_leaves i d. el_laneBUcld l) = amount_where (\<lambda>e. pending_in i e \<and> en_lane e = LaneB) (db_entries d)"
    unfolding epoch_leaves_def Let_def map_map comp_def epochLeaf.select_convs by (rule by_lane) simp
qed

lemma amount_where_Cons: "amount_where P (x # xs) = (if P x then en_amount x else 0) + amount_where P xs"
  by (simp add: amount_where_def)

lemma lane_posted_Cons: "lane_posted i l (x # xs) =
    (if en_epoch x = i \<and> en_lane x = l \<and> \<not> unposted x then en_amount x else 0) + lane_posted i l xs"
  by (simp add: lane_posted_def amount_where_Cons)

lemma lane_posted_close:
  assumes "\<forall>e \<in> set es. en_epoch e = i \<longrightarrow> unposted e" and "minted l"
  shows "lane_posted j l (update_where (\<lambda>e. pending_in i e \<and> minted (en_lane e)) (\<lambda>e. e\<lparr>en_status := Posted\<rparr>) es) =
     (if j = i then amount_where (\<lambda>e. pending_in i e \<and> en_lane e = l) es else lane_posted j l es)"
  using assms(1)
proof (induction es)
  case (Cons x xs)
  let ?f = "\<lambda>e. if pending_in i e \<and> minted (en_lane e) then e\<lparr>en_status := Posted\<rparr> else e"
  have IH: "lane_posted j l (map ?f xs) = (if j = i then amount_where (\<lambda>e. pending_in i e \<and> en_lane e = l) xs else lane_posted j l xs)"
    using Cons by (simp add: update_where_def)
  have x: "(en_epoch (?f x) = j \<and> en_lane (?f x) = l \<and> \<not> unposted (?f x)) =
      (if j = i then pending_in i x \<and> en_lane x = l else en_epoch x = j \<and> en_lane x = l \<and> \<not> unposted x)"
    using Cons.prems assms(2) by (cases "en_lane x = l"; cases "en_epoch x = i"; cases "en_status x = Pending")
      (simp_all add: pending_in_def unposted_def)
  have "en_amount (?f x) = en_amount x" by simp
  then show ?case using IH x by (simp add: update_where_def lane_posted_Cons amount_where_Cons)
qed (simp add: update_where_def lane_posted_def amount_where_def)

lemma epoch_row_SomeD: "epoch_row i d = Some r \<Longrightarrow> r \<in> set (db_epochs d) \<and> er_id r = i"
  by (auto simp: epoch_row_def find_Some_iff)

lemma epoch_row_NoneD: "epoch_row i d = None \<Longrightarrow> r \<in> set (db_epochs d) \<Longrightarrow> er_id r \<noteq> i"
  by (auto simp: epoch_row_def find_None_iff)

lemma epoch_row_unique:
  "ledger_inv d \<Longrightarrow> epoch_row i d = Some r \<Longrightarrow> r' \<in> set (db_epochs d) \<Longrightarrow> er_id r' = i \<longleftrightarrow> r' = r"
  using epoch_row_SomeD[of i d r] by (auto simp: ledger_inv_def distinct_map inj_on_def)

text \<open>No entry of an epoch that was never closed, or is vetoed, is posted.\<close>

lemma open_epoch_unposted:
  assumes "ledger_inv d" and "epoch_row i d = None \<or> (\<exists>r. epoch_row i d = Some r \<and> er_status r = EpVetoed)"
    and "e \<in> set (db_entries d)" and "en_epoch e = i"
  shows "unposted e"
proof (rule ccontr)
  assume "\<not> unposted e"
  with assms(1,3,4) obtain r where r: "r \<in> set (db_epochs d)" "er_id r = i" "er_status r \<noteq> EpVetoed"
    by (auto simp: ledger_inv_def entry_matches_def split: if_splits)
  with assms(2) epoch_row_NoneD[of i d r] epoch_row_unique[OF assms(1), of i _ r] show False by auto
qed

lemma close_update_inv:
  assumes inv: "ledger_inv d" and out: "out = build_payload v i d"
    and rows: "epoch_row i d = None \<and> rows = db_epochs d @ [new_row now out]
      \<or> (\<exists>r. epoch_row i d = Some r \<and> er_status r = EpVetoed)
        \<and> rows = update_where (\<lambda>r. er_id r = i \<and> er_status r = EpVetoed) (fill_row now out) (db_epochs d)"
  shows "ledger_inv (set_status_where (\<lambda>e. pending_in i e \<and> minted (en_lane e)) Posted (d\<lparr>db_epochs := rows\<rparr>))"
proof -
  let ?P = "\<lambda>e. pending_in i e \<and> minted (en_lane e)"
  let ?es = "update_where ?P (\<lambda>e. e\<lparr>en_status := Posted\<rparr>) (db_entries d)"
  have open_i: "\<forall>e \<in> set (db_entries d). en_epoch e = i \<longrightarrow> unposted e"
    using open_epoch_unposted[OF inv, of i] rows by blast
  have ids: "map er_id rows = map er_id (db_epochs d) @ (if epoch_row i d = None then [i] else [])"
    using rows by (auto simp: new_row_def fill_row_def out build_payload_def Let_def update_where_def)
  then have "distinct (map er_id rows)"
    using inv epoch_row_NoneD[of i d] by (auto simp: ledger_inv_def)
  moreover have "distinct (map en_id ?es)" using inv by (auto simp: ledger_inv_def update_where_def comp_def if_distrib cong: if_cong)
  moreover have kept: "r \<in> set (db_epochs d) \<Longrightarrow> er_id r \<noteq> i \<Longrightarrow> r \<in> set rows" for r
    using rows by (force simp: update_where_def)
  moreover have closed: "\<exists>r \<in> set rows. er_id r = i \<and> er_status r = EpClosed"
    using rows
  proof (elim disjE conjE exE)
    assume "rows = db_epochs d @ [new_row now out]"
    then show ?thesis by (simp add: new_row_def fill_row_def out build_payload_def Let_def)
  next
    fix r assume r: "epoch_row i d = Some r" "er_status r = EpVetoed"
      and "rows = update_where (\<lambda>r. er_id r = i \<and> er_status r = EpVetoed) (fill_row now out) (db_epochs d)"
    then have "fill_row now out r \<in> set rows" using epoch_row_SomeD[OF r(1)] by (auto simp: update_where_def image_iff)
    then show ?thesis using epoch_row_SomeD[OF r(1)] by (intro bexI[of _ "fill_row now out r"]) (simp_all add: fill_row_def)
  qed
  have "\<forall>e \<in> set ?es. entry_matches rows e"
  proof
    fix e' assume "e' \<in> set ?es"
    then obtain e where e: "e \<in> set (db_entries d)" "e' = (if ?P e then e\<lparr>en_status := Posted\<rparr> else e)"
      by (auto simp: update_where_def)
    show "entry_matches rows e'"
    proof (cases "?P e")
      case True
      then show ?thesis using closed e(2) by (auto simp: entry_matches_def pending_in_def)
    next
      case False
      have "entry_matches (db_epochs d) e" using inv e(1) by (simp add: ledger_inv_def)
      then show ?thesis using False e open_i kept by (auto simp: entry_matches_def split: if_splits)
    qed
  qed
  moreover have "row_balanced ?es r" if r_in: "r \<in> set rows" for r
  proof (cases "er_id r = i")
    case False
    have "r \<in> set (db_epochs d)" using rows that False
      by (auto simp: update_where_def new_row_def fill_row_def out build_payload_def Let_def split: if_splits)
    then show ?thesis using inv False lane_posted_close[OF open_i]
      by (auto simp: ledger_inv_def row_balanced_def minted_def)
  next
    case True
    have "er_mintA r = Some (py_totalLaneAUcld out) \<and> er_mintB r = Some (py_totalLaneBUcld out) \<and> er_treasury r = Some (py_treasuryUcld out)"
      using rows
    proof (elim disjE conjE exE)
      assume "epoch_row i d = None" "rows = db_epochs d @ [new_row now out]"
      then show ?thesis using that True epoch_row_NoneD[of i d r] by (auto simp: new_row_def fill_row_def)
    next
      fix q assume q: "epoch_row i d = Some q" "er_status q = EpVetoed"
        and "rows = update_where (\<lambda>r. er_id r = i \<and> er_status r = EpVetoed) (fill_row now out) (db_epochs d)"
      then obtain p where p: "p \<in> set (db_epochs d)" "r = (if er_id p = i \<and> er_status p = EpVetoed then fill_row now out p else p)"
        using r_in by (auto simp: update_where_def)
      then have "er_id p = i" using True by (auto simp: fill_row_def split: if_splits)
      with epoch_row_unique[OF inv q(1) p(1)] q p(2) have "r = fill_row now out q" by simp
      then show ?thesis by (simp add: fill_row_def)
    qed
    then show ?thesis using True lane_posted_close[OF open_i]
      by (simp add: row_balanced_def minted_def out build_payload_def Let_def epoch_leaves_total)
  qed
  ultimately show ?thesis by (simp add: ledger_inv_def set_status_where_def)
qed

lemma close_epoch_inv: "ledger_inv d \<Longrightarrow> ledger_inv (fst (close_epoch env v allowance now i d))"
proof -
  assume inv: "ledger_inv d"
  let ?budget = "laneBBudget env allowance i"
  define d2 where "d2 = fst (fitProtocolB i ?budget (CLUSTER_N_MIN env) (CLUSTER_S_CAP env) (fst (fitLaneB i ?budget d)))"
  have inv2: "ledger_inv d2" unfolding d2_def by (intro fitProtocolB_inv fitLaneB_inv inv)
  have ep2: "db_epochs d2 = db_epochs d" by (simp add: d2_def)
  then have row2: "epoch_row i d2 = epoch_row i d" by (simp add: epoch_row_def)
  have move: "ledger_inv (d\<lparr>db_entries := update_where (\<lambda>e. pending_in i e \<and> minted (en_lane e))
      (\<lambda>e. e\<lparr>en_epoch := epochOf env now\<rparr>) (db_entries d)\<rparr>)"
    unfolding update_where_def
    by (rule ledger_inv_private[OF inv]) (auto simp: private_map_def pending_in_def unposted_def)
  note closing = close_update_inv[OF inv2 refl, where v = v and i = i and now = now]
  show ?thesis
  proof (cases "epoch_row i d")
    case None
    then show ?thesis
      using closing[of "db_epochs d2 @ [new_row now (build_payload v i d2)]"] row2
      by (simp add: close_epoch_def Let_def d2_def[symmetric] ep2)
  next
    case (Some r)
    show ?thesis
    proof (cases "er_status r = EpVetoed")
      case False
      then show ?thesis using Some move by (simp add: close_epoch_def Let_def)
    next
      case True
      then show ?thesis
        using Some inv2 row2
          closing[of "update_where (\<lambda>r. er_id r = i \<and> er_status r = EpVetoed) (fill_row now (build_payload v i d2)) (db_epochs d2)"]
        by (simp add: close_epoch_def Let_def d2_def[symmetric] ep2)
    qed
  qed
qed

lemma closeEpochs_inv: "ledger_inv d \<Longrightarrow> ledger_inv (fst (closeEpochs env v allowance now d))"
proof -
  have "ledger_inv d \<Longrightarrow> ledger_inv (fst (close_loop env v allowance now es d))" for es
  proof (induction es arbitrary: d)
    case (Cons e es)
    then show ?case using close_epoch_inv[OF Cons.prems, of env v allowance now e]
      by (simp add: split_beta Let_def)
  qed simp
  then show "ledger_inv d \<Longrightarrow> ?thesis" by (simp add: closeEpochs_def)
qed

subsection \<open>Posting, settling and vetoing\<close>

lemma lane_posted_status:
  assumes "\<And>e. P e \<Longrightarrow> en_epoch e = i \<and> en_status e = Posted" and "j \<noteq> i \<or> st = Posted \<or> st = Settled"
  shows "lane_posted j l (update_where P (\<lambda>e. e\<lparr>en_status := st\<rparr>) es) = lane_posted j l es"
proof (induction es)
  case (Cons x xs)
  let ?x = "if P x then x\<lparr>en_status := st\<rparr> else x"
  have "(en_epoch ?x = j \<and> en_lane ?x = l \<and> \<not> unposted ?x) = (en_epoch x = j \<and> en_lane x = l \<and> \<not> unposted x)"
    using assms(1)[of x] assms(2) by (auto simp: unposted_def)
  moreover have "en_amount ?x = en_amount x" by simp
  ultimately show ?case using Cons by (simp add: update_where_def lane_posted_Cons)
qed (simp add: update_where_def)

text \<open>A change of the row of epoch \<open>i\<close> together with the status of its posted entries.\<close>

lemma row_status_inv:
  assumes inv: "ledger_inv d" and row: "epoch_row i d = Some r" and old: "er_status r = EpClosed \<or> er_status r = EpPosted"
    and f: "er_id (f r) = i" "er_status (f r) \<noteq> EpVetoed \<longrightarrow>
        er_mintA (f r) = er_mintA r \<and> er_mintB (f r) = er_mintB r \<and> er_treasury (f r) = er_treasury r"
    and st: "st = Posted \<and> (er_status (f r) = EpClosed \<or> er_status (f r) = EpPosted)
      \<or> st = Settled \<and> er_status (f r) = EpSettled \<or> st = Pending \<and> er_status (f r) = EpVetoed"
  shows "ledger_inv (set_status_where (\<lambda>e. en_epoch e = i \<and> en_status e = Posted \<and> minted (en_lane e)) st
     (d\<lparr>db_epochs := update_where (\<lambda>r. er_id r = i) f (db_epochs d)\<rparr>))"
proof -
  let ?P = "\<lambda>e. en_epoch e = i \<and> en_status e = Posted \<and> minted (en_lane e)"
  let ?es = "update_where ?P (\<lambda>e. e\<lparr>en_status := st\<rparr>) (db_entries d)"
  let ?rows = "update_where (\<lambda>r. er_id r = i) f (db_epochs d)"
  note uniq = epoch_row_unique[OF inv row]
  have rows: "set ?rows = {f r} \<union> {q \<in> set (db_epochs d). er_id q \<noteq> i}"
    using epoch_row_SomeD[OF row] uniq by (auto simp: update_where_def image_iff)
  have ids: "map er_id ?rows = map er_id (db_epochs d)"
    using uniq f(1) epoch_row_SomeD[OF row] by (auto simp: update_where_def)
  have mine: "en_status e = Posted \<and> minted (en_lane e)" if "e \<in> set (db_entries d)" "en_epoch e = i" "\<not> unposted e" for e
  proof -
    from that inv obtain q where q: "q \<in> set (db_epochs d)" "er_id q = i" "minted (en_lane e)"
      "if en_status e = Posted then er_status q = EpClosed \<or> er_status q = EpPosted else er_status q = EpSettled"
      by (auto simp: ledger_inv_def entry_matches_def)
    then show ?thesis using uniq[OF q(1)] old by (auto split: if_splits)
  qed
  have matches: "\<forall>e \<in> set ?es. entry_matches ?rows e"
  proof
    fix e' assume "e' \<in> set ?es"
    then obtain e where e: "e \<in> set (db_entries d)" "e' = (if ?P e then e\<lparr>en_status := st\<rparr> else e)"
      by (auto simp: update_where_def)
    have "entry_matches (db_epochs d) e" using inv e(1) by (simp add: ledger_inv_def)
    then show "entry_matches ?rows e'"
      using e f(1) st mine[OF e(1)] unfolding entry_matches_def rows by (cases "?P e") (auto simp: unposted_def)
  qed
  have lane: "lane_posted j l ?es = lane_posted j l (db_entries d)" if "j \<noteq> i \<or> st \<noteq> Pending" for j l
    by (rule lane_posted_status) (use that st in auto)
  have balanced: "row_balanced ?es q" if q: "q \<in> set ?rows" for q
  proof (cases "er_id q = i")
    case True
    have "row_balanced (db_entries d) r" "er_id r = i" using inv epoch_row_SomeD[OF row] by (auto simp: ledger_inv_def)
    moreover have "q = f r" using q True unfolding rows by auto
    ultimately show ?thesis using f st old lane[of i] by (auto simp: row_balanced_def)
  next
    case False
    then have "row_balanced (db_entries d) q" using q inv unfolding rows using f(1) by (auto simp: ledger_inv_def)
    then show ?thesis using lane[of "er_id q"] False by (simp add: row_balanced_def)
  qed
  have "map en_id ?es = map en_id (db_entries d)" by (simp add: update_where_def)
  then show ?thesis using inv ids matches balanced by (simp add: ledger_inv_def set_status_where_def)
qed

lemma markEpochPosted_inv: "ledger_inv d \<Longrightarrow> ledger_inv (fst (markEpochPosted i given txHash d))"
proof -
  assume inv: "ledger_inv d"
  have "ledger_inv (d\<lparr>db_epochs := update_where (\<lambda>r. er_id r = i)
      (\<lambda>r. r\<lparr>er_root := Some given, er_txHash := Some txHash, er_status := EpPosted\<rparr>) (db_epochs d)\<rparr>)"
    if "epoch_row i d = Some r" "er_status r = EpClosed" for r
  proof -
    have noop: "update_where (\<lambda>e. en_epoch e = i \<and> en_status e = Posted \<and> minted (en_lane e)) (\<lambda>e. e\<lparr>en_status := Posted\<rparr>)
        (db_entries d) = db_entries d"
      by (auto simp: update_where_def intro!: map_idI)
    show ?thesis
      using row_status_inv[OF inv that(1), of "\<lambda>r. r\<lparr>er_root := Some given, er_txHash := Some txHash, er_status := EpPosted\<rparr>" Posted]
        that(2) epoch_row_SomeD[OF that(1)] unfolding set_status_where_def by (simp add: noop ledger_inv_def)
  qed
  then show ?thesis using inv by (auto simp: markEpochPosted_def split: option.splits)
qed

lemma markEpochSettled_inv: "ledger_inv d \<Longrightarrow> ledger_inv (fst (markEpochSettled i txHash now d))"
  using row_status_inv[of d i _ "\<lambda>r. r\<lparr>er_txHash := Some txHash, er_settledAt := Some now, er_status := EpSettled\<rparr>" Settled]
    epoch_row_SomeD[of i d]
  by (auto simp: markEpochSettled_def split: option.splits)

lemma markEpochVetoed_inv: "ledger_inv d \<Longrightarrow> ledger_inv (fst (markEpochVetoed i txHash d))"
proof (cases "epoch_row i d")
  case (Some r)
  assume inv: "ledger_inv d"
  let ?f = "\<lambda>r. r\<lparr>er_status := EpVetoed, er_vetoedRoot := er_root r, er_root := None, er_fees := None,
                   er_txHash := (case txHash of None \<Rightarrow> er_txHash r | Some t \<Rightarrow> Some t)\<rparr>"
  show ?thesis
  proof (cases "er_status r = EpVetoed \<or> er_status r = EpSettled")
    case True
    then show ?thesis using inv Some by (auto simp: markEpochVetoed_def)
  next
    case False
    then have st: "er_status r = EpClosed \<or> er_status r = EpPosted" by (cases "er_status r") auto
    have "update_where (\<lambda>r. er_id r = i \<and> (er_status r = EpClosed \<or> er_status r = EpPosted)) ?f (db_epochs d) =
        update_where (\<lambda>r. er_id r = i) ?f (db_epochs d)"
      using epoch_row_unique[OF inv Some] st by (auto simp: update_where_def)
    then show ?thesis
      using row_status_inv[OF inv Some st, of ?f Pending] False Some epoch_row_SomeD[OF Some]
      by (simp add: markEpochVetoed_def Let_def)
  qed
qed (simp add: markEpochVetoed_def)

subsection \<open>Claws and new entries\<close>

lemma clawEntry_inv: "ledger_inv d \<Longrightarrow> ledger_inv (fst (clawEntry epoch entryId d))"
  using ledger_inv_status[of d Clawed "\<lambda>e. en_id e = entryId \<and> en_status e = Pending"]
  by (auto simp: clawEntry_def Let_def unposted_def split: option.splits)

lemma reverseSampleClaw_inv: "ledger_inv d \<Longrightarrow> ledger_inv (fst (reverseSampleClaw env jobId now d))"
  by (auto simp: reverseSampleClaw_def Let_def ledger_inv_others unposted_def intro!: ledger_inv_status)

lemma caughtLedger_inv: "ledger_inv d \<Longrightarrow> ledger_inv (caughtLedger env jobId node payout now d)"
  unfolding caughtLedger_def Let_def
  by (auto simp: ledger_inv_others unposted_def intro!: ledger_inv_status)

definition fresh :: "string list \<Rightarrow> db \<Rightarrow> bool" where
  "fresh uuids d \<longleftrightarrow> distinct uuids \<and> set uuids \<inter> set (map en_id (db_entries d)) = {}"

lemma lane_entry_sel [simp]:
  "en_id (lane_entry u j e w n row) = u" "en_status (lane_entry u j e w n row) = Pending"
  by (simp_all add: lane_entry_def split: prod.split)

lemma zip_entries_ids: "map en_id (map (\<lambda>(uuid, row). lane_entry uuid jobId epoch workType now row) (zip us rows)) = take (length rows) us"
proof -
  have "map en_id (map (\<lambda>(uuid, row). lane_entry uuid jobId epoch workType now row) (zip us rows)) = map fst (zip us rows)"
    by auto
  then show ?thesis by (simp add: map_fst_zip_take min_def)
qed

lemma fresh_take: "fresh uuids d \<Longrightarrow> distinct (take n uuids) \<and> set (take n uuids) \<inter> set (map en_id (db_entries d)) = {}"
  using set_take_subset[of n uuids] by (auto simp: fresh_def)

lemma insertLanes_inv: "ledger_inv d \<Longrightarrow> fresh uuids d \<Longrightarrow> ledger_inv (insertLanes uuids jobId epoch workType rows now d)"
  unfolding insertLanes_def Let_def
  by (rule ledger_inv_append) (use fresh_take in \<open>auto simp only: zip_entries_ids, auto simp: unposted_def\<close>)

lemma insertLanes_ids: "x \<in> set (map en_id (db_entries (insertLanes uuids jobId epoch workType rows now d))) \<Longrightarrow>
    x \<in> set uuids \<or> x \<in> set (map en_id (db_entries d))"
  by (auto simp: insertLanes_def Let_def dest: set_zip_leftD)

lemma recordJobRewards_inv:
  assumes "ledger_inv d" and "fresh (uuidB # uuids) d"
  shows "ledger_inv (fst (recordJobRewards env uuids uuidB jobId workType provider fee ok now d))"
proof -
  let ?b = "jobBooking env now" and ?s = "splitFee fee (SUBSIDY_RHO env) ok MAX_SAFE_INTEGER"
  let ?d = "insertLanes uuids jobId (bk_epoch ?b) workType
      [(LaneA, normalizeAddress provider, ls_laneA ?s), (Treasury, TREASURY_ACCOUNT, ls_treasury ?s)] now d"
  have inv: "ledger_inv ?d" using assms by (intro insertLanes_inv) (auto simp: fresh_def)
  moreover have "uuidB \<notin> set (map en_id (db_entries ?d))"
  proof
    assume "uuidB \<in> set (map en_id (db_entries ?d))"
    from insertLanes_ids[OF this] assms(2) show False by (auto simp: fresh_def)
  qed
  ultimately have "ledger_inv (?d\<lparr>db_entries := db_entries ?d @
      [(lane_entry uuidB jobId (bk_epoch ?b) workType now (LaneB, normalizeAddress provider, ls_subsidy ?s))\<lparr>en_vestsAt := bk_vestsAt ?b\<rparr>]\<rparr>)"
    by (intro ledger_inv_append) (auto simp: unposted_def)
  with inv show ?thesis by (simp add: recordJobRewards_def Let_def)
qed

text \<open>The batch of \<^verbatim>\<open>submitWork\<close>: every reward statement in turn.\<close>

definition statements_ok :: "rewardStatement list \<Rightarrow> db \<Rightarrow> bool" where
  "statements_ok ss d \<longleftrightarrow> fresh (map (\<lambda>s. en_id (st_row s)) ss) d \<and> (\<forall>s \<in> set ss. unposted (st_row s))"

lemma run_statements_inv:
  "ledger_inv d \<Longrightarrow> statements_ok ss d \<Longrightarrow> ledger_inv (fold run_statement ss d)"
proof (induction ss arbitrary: d)
  case (Cons s ss)
  have "ledger_inv (run_statement s d)"
    using Cons.prems by (auto simp: run_statement_def statements_ok_def fresh_def intro!: ledger_inv_append)
  moreover have "statements_ok ss (run_statement s d)"
    using Cons.prems by (auto simp: run_statement_def statements_ok_def fresh_def)
  ultimately show ?case using Cons.IH by simp
qed simp

lemma jobRewardStatements_ok:
  assumes "fresh uuids d"
  shows "statements_ok (fst (jobRewardStatements env uuids jobId workType provider fee ok now units capturedAt node clawed)) d"
proof -
  let ?b = "jobBooking env now" and ?s = "splitFee fee (SUBSIDY_RHO env) ok MAX_SAFE_INTEGER"
  let ?f = "reward_statement jobId workType (bk_epoch ?b) now capturedAt node"
  let ?rows = "reward_rows ?s ?b (normalizeAddress provider) now (if clawed then Clawed else Pending) units"
  have f: "en_id (st_row (?f x)) = fst x" for x by (simp add: reward_statement_def split: prod.split)
  have st: "en_status (st_row (?f (u, row))) = fst (snd (snd (snd (snd row))))" for u row
    by (simp add: reward_statement_def split: prod.split)
  have "fst (snd (snd (snd (snd row)))) = Pending \<or> fst (snd (snd (snd (snd row)))) = Clawed" if "row \<in> set ?rows" for row
    using that by (auto simp: reward_rows_def Let_def split: if_splits)
  note row_status = this
  have un: "\<forall>s \<in> set (map ?f (zip uuids ?rows)). unposted (st_row s)"
  proof
    fix s assume "s \<in> set (map ?f (zip uuids ?rows))"
    then obtain u row where "(u, row) \<in> set (zip uuids ?rows)" and s: "s = ?f (u, row)" by auto
    then have "row \<in> set ?rows" by (auto dest: set_zip_rightD)
    from row_status[OF this] show "unposted (st_row s)" by (simp only: unposted_def s st)
  qed
  have "map (\<lambda>s. en_id (st_row s)) (map ?f (zip uuids ?rows)) = map fst (zip uuids ?rows)" using f by simp
  then have "map (\<lambda>s. en_id (st_row s)) (map ?f (zip uuids ?rows)) = take (length ?rows) uuids"
    by (simp only: map_fst_zip_take) (simp add: min_def)
  with un fresh_take[OF assms] show ?thesis
    by (simp only: statements_ok_def fresh_def jobRewardStatements_def Let_def fst_conv)
qed

subsection \<open>Reachable ledgers\<close>

text \<open>
  One rule per operation that writes the ledger's tables, and one for the other services, which change jobs and bills.
  The steps run in any order and interleaving, with any arguments, results and times.
\<close>

inductive ledger_step :: "api_env \<Rightarrow> viem \<Rightarrow> (int \<Rightarrow> int option) \<Rightarrow> db \<Rightarrow> db \<Rightarrow> bool"
  for env :: api_env and v :: viem and allowance :: "int \<Rightarrow> int option" where
  step_jobs: "ledger_step env v allowance d (d\<lparr>db_jobs := js, db_bills := bs\<rparr>)"
| step_rewards: "fresh (uuidB # uuids) d \<Longrightarrow>
    ledger_step env v allowance d (fst (recordJobRewards env uuids uuidB jobId workType provider fee ok now d))"
| step_submit: "fresh uuids d \<Longrightarrow>
    ledger_step env v allowance d (fold run_statement
      (fst (jobRewardStatements env uuids jobId workType provider fee ok now units capturedAt node clawed)) d)"
| step_hosting: "fresh uuids d \<Longrightarrow>
    ledger_step env v allowance d (fst (recordHostingRewards env uuids billId workType provider fee now d))"
| step_credit: "fresh [uuid] d \<Longrightarrow> ledger_step env v allowance d (recordVerifyCredit env uuid address taskId points now d)"
| step_close: "ledger_step env v allowance d (fst (closeEpochs env v allowance now d))"
| step_posted: "ledger_step env v allowance d (fst (markEpochPosted i given txHash d))"
| step_settled: "ledger_step env v allowance d (fst (markEpochSettled i txHash now d))"
| step_vetoed: "ledger_step env v allowance d (fst (markEpochVetoed i tx d))"
| step_claw: "ledger_step env v allowance d (fst (clawEntry epoch entryId d))"
| step_reverse: "ledger_step env v allowance d (fst (reverseSampleClaw env jobId now d))"
| step_caught: "ledger_step env v allowance d (caughtLedger env jobId node payout now d)"

definition empty_db :: db where
  "empty_db = \<lparr>db_entries = [], db_epochs = [], db_jobs = [], db_bills = [], db_claws = []\<rparr>"

inductive ledger_reachable :: "api_env \<Rightarrow> viem \<Rightarrow> (int \<Rightarrow> int option) \<Rightarrow> db \<Rightarrow> bool"
  for env :: api_env and v :: viem and allowance :: "int \<Rightarrow> int option" where
  reach_start: "ledger_reachable env v allowance empty_db"
| reach_step: "ledger_reachable env v allowance d \<Longrightarrow> ledger_step env v allowance d d' \<Longrightarrow> ledger_reachable env v allowance d'"

lemma recordVerifyCredit_inv: "ledger_inv d \<Longrightarrow> fresh [uuid] d \<Longrightarrow> ledger_inv (recordVerifyCredit env uuid address taskId points now d)"
  unfolding recordVerifyCredit_def by (rule ledger_inv_append) (auto simp: unposted_def fresh_def)

lemma ledger_step_inv: "ledger_step env v allowance d d' \<Longrightarrow> ledger_inv d \<Longrightarrow> ledger_inv d'"
proof (induction rule: ledger_step.induct)
  case (step_jobs d js bs)
  then show ?case by (simp add: ledger_inv_def)
next
  case (step_hosting uuids d billId workType provider fee now)
  then show ?case by (simp add: recordHostingRewards_def Let_def insertLanes_inv)
qed (blast intro: recordJobRewards_inv run_statements_inv jobRewardStatements_ok recordVerifyCredit_inv closeEpochs_inv
      markEpochPosted_inv markEpochSettled_inv markEpochVetoed_inv clawEntry_inv reverseSampleClaw_inv caughtLedger_inv)+

text \<open>
  C6. Conservation: in every state the ledger can reach, by any interleaving of its operations, row ids are unique, a
  posted entry belongs to a closed or posted epoch and a settled entry to a settled one, and the lane totals stored
  with every epoch that is not vetoed are exactly the sums of that epoch's posted and settled entries.
\<close>

theorem reachable_ledger_inv: "ledger_reachable env v allowance d \<Longrightarrow> ledger_inv d"
proof (induction rule: ledger_reachable.induct)
  case reach_start
  show ?case by (simp add: ledger_inv_def empty_db_def)
next
  case (reach_step d d')
  then show ?case by (blast intro: ledger_step_inv)
qed

definition toy_env :: api_env where
  "toy_env = \<lparr>EPOCH_SECONDS = 3600, PAY_HOLD_SECONDS = 0, VEST_B_SECONDS = 60, SUBSIDY_RHO = 0, CLUSTER_N_MIN = 1,
     CLUSTER_S_CAP = 1, EPOCH_SUBSIDY_BUDGET_UCLD = 5\<rparr>"

theorem reachable_ledger_inv_witness:
  "ledger_inv (fst (closeEpochs toy_env toy_viem (\<lambda>_. None) 7200000
     (fst (recordHostingRewards toy_env [''a'', ''b''] ''bill'' ''hosting'' ''0xA'' 1000 0 empty_db))))"
proof (rule reachable_ledger_inv)
  have "ledger_reachable toy_env toy_viem (\<lambda>_. None)
      (fst (recordHostingRewards toy_env [''a'', ''b''] ''bill'' ''hosting'' ''0xA'' 1000 0 empty_db))"
    by (rule reach_step[OF reach_start step_hosting]) (simp add: fresh_def empty_db_def)
  then show "ledger_reachable toy_env toy_viem (\<lambda>_. None) (fst (closeEpochs toy_env toy_viem (\<lambda>_. None) 7200000
      (fst (recordHostingRewards toy_env [''a'', ''b''] ''bill'' ''hosting'' ''0xA'' 1000 0 empty_db))))"
    by (rule reach_step[OF _ step_close])
qed

end
