(* ===== verification/Settlement.thy ===== *)
theory Settlement
  imports KeeperTree
begin

unbundle bit_operations_syntax

text \<open>
  The settlement contract as the keeper sees it (\<^verbatim>\<open>contract/contracts/v2/CloudanaSettlementV2.sol\<close> through the
  interface of \<^verbatim>\<open>keeper/src/chain.ts\<close>): the epoch records, the per-account lane flags, the escrow, and the
  writes \<^verbatim>\<open>depositFor\<close>, \<^verbatim>\<open>postEpoch\<close>, \<^verbatim>\<open>veto\<close>, \<^verbatim>\<open>finalize\<close>, \<^verbatim>\<open>claimFor\<close> and \<^verbatim>\<open>clawLaneB\<close> with every revert as a
  value, and the subsidy schedule. The token enters by its total supply; roles (who may call) and the constructor are left
  out. Amounts are unbounded integers: every total is bounded by the token supply, far below \<open>2^256\<close>.
\<close>

subsection \<open>State\<close>

datatype chain_status = NoEpoch | OnPosted | OnVetoed | OnFinalized

record onChainEpoch =
  oc_root :: string
  oc_totalLaneA :: int
  oc_totalLaneB :: int
  oc_treasuryAmount :: int
  oc_feesBurned :: int
  oc_mintedA :: int
  oc_mintedB :: int
  oc_postedAt :: int
  oc_finalizedAt :: int
  oc_status :: chain_status

record chain_params =
  cp_epochSeconds :: int
  cp_vetoDelaySeconds :: int
  cp_vestBSeconds :: int
  cp_genesisEpoch :: int
  cp_genesisTimestamp :: int

record contract =
  sc_epochs :: "int \<Rightarrow> onChainEpoch"
  sc_laneFlags :: "int \<Rightarrow> string \<Rightarrow> 8 word"
  sc_totalEscrow :: int
  sc_pendingBurn :: int
  sc_subsidyByYear :: "int \<Rightarrow> int"
  sc_totalSubsidy :: int
  sc_supply :: int
  sc_params :: chain_params
  sc_time :: int
  sc_txs :: nat

datatype revert = AlreadyPosted | EpochBeforeGenesis | EpochNotElapsed | TreasuryBelowMin | LaneAExceedsFees
  | LaneBExceedsAllowance | FeesExceedEscrow | NotPosted | VetoWindowOpen | VetoWindowClosed | NotFinalized | InvalidProof
  | NothingToClaim | MintCapExceeded | LaneBVested | LaneBAlreadySettled | ZeroAmount

definition FLAG_A_CLAIMED :: "8 word" where "FLAG_A_CLAIMED = 1"

definition FLAG_B_CLAIMED :: "8 word" where "FLAG_B_CLAIMED = 2"

definition FLAG_B_VOID :: "8 word" where "FLAG_B_VOID = 4"

record postArgs =
  pa_epoch :: int
  pa_root :: string
  pa_totalLaneA :: int
  pa_totalLaneB :: int
  pa_treasuryAmount :: int
  pa_feesBurned :: int

record claimEntry =
  ce_account :: string
  ce_laneA :: int
  ce_laneB :: int
  ce_proof :: "string list"

subsection \<open>Schedule\<close>

definition YEAR :: int where "YEAR = 31536000"

definition INITIAL_RATE_BPS :: int where "INITIAL_RATE_BPS = 800"

definition TERMINAL_RATE_BPS :: int where "TERMINAL_RATE_BPS = 150"

fun rate_loop :: "nat \<Rightarrow> int \<Rightarrow> int" where
  "rate_loop 0 rate = rate"
| "rate_loop (Suc n) rate = (let r = (rate * 85) div 100 in if r \<le> TERMINAL_RATE_BPS then TERMINAL_RATE_BPS else rate_loop n r)"

definition years_since :: "int \<Rightarrow> chain_params \<Rightarrow> int" where
  "years_since t p = (if t > cp_genesisTimestamp p then (t - cp_genesisTimestamp p) div YEAR else 0)"

definition rateBpsAt :: "int \<Rightarrow> chain_params \<Rightarrow> int" where
  "rateBpsAt t p = rate_loop (nat (years_since t p)) INITIAL_RATE_BPS"

definition yearOf :: "int \<Rightarrow> chain_params \<Rightarrow> int" where
  "yearOf epoch p = years_since (epoch * cp_epochSeconds p) p"

definition annualSubsidyCap :: "int \<Rightarrow> contract \<Rightarrow> int" where
  "annualSubsidyCap epoch c = (sc_supply c * rateBpsAt (epoch * cp_epochSeconds (sc_params c)) (sc_params c)) div 10000"

definition allowance :: "contract \<Rightarrow> int \<Rightarrow> int" where
  "allowance c epoch =
     (let annual = annualSubsidyCap epoch c; perEpoch = (annual * cp_epochSeconds (sc_params c)) div YEAR;
          used = sc_subsidyByYear c (yearOf epoch (sc_params c)); left = (if annual > used then annual - used else 0)
      in if perEpoch < left then perEpoch else left)"

subsection \<open>Writes\<close>

definition depositFor :: "int \<Rightarrow> contract \<Rightarrow> revert + contract" where
  "depositFor amount c = (if amount = 0 then Inl ZeroAmount
     else Inr (c\<lparr>sc_totalEscrow := sc_totalEscrow c + amount, sc_txs := Suc (sc_txs c)\<rparr>))"

definition postEpoch :: "postArgs \<Rightarrow> contract \<Rightarrow> revert + contract" where
  "postEpoch a c =
     (let e = sc_epochs c (pa_epoch a); p = sc_params c in
      if oc_status e \<noteq> NoEpoch \<and> oc_status e \<noteq> OnVetoed then Inl AlreadyPosted
      else if pa_epoch a < cp_genesisEpoch p then Inl EpochBeforeGenesis
      else if (pa_epoch a + 1) * cp_epochSeconds p > sc_time c then Inl EpochNotElapsed
      else if pa_treasuryAmount a * 10000 < pa_feesBurned a * 300 then Inl TreasuryBelowMin
      else if (pa_totalLaneA a + pa_treasuryAmount a) * 10000 > pa_feesBurned a * 9800 then Inl LaneAExceedsFees
      else if pa_totalLaneB a > allowance c (pa_epoch a) then Inl LaneBExceedsAllowance
      else if pa_feesBurned a > sc_totalEscrow c - sc_pendingBurn c then Inl FeesExceedEscrow
      else Inr (c\<lparr>sc_pendingBurn := sc_pendingBurn c + pa_feesBurned a, sc_txs := Suc (sc_txs c),
                  sc_subsidyByYear := (sc_subsidyByYear c)(yearOf (pa_epoch a) p := sc_subsidyByYear c (yearOf (pa_epoch a) p) + pa_totalLaneB a),
                  sc_totalSubsidy := sc_totalSubsidy c + pa_totalLaneB a,
                  sc_epochs := (sc_epochs c)(pa_epoch a := e\<lparr>oc_root := pa_root a, oc_totalLaneA := pa_totalLaneA a,
                     oc_totalLaneB := pa_totalLaneB a, oc_treasuryAmount := pa_treasuryAmount a, oc_feesBurned := pa_feesBurned a,
                     oc_postedAt := sc_time c, oc_status := OnPosted\<rparr>)\<rparr>))"

definition veto :: "int \<Rightarrow> contract \<Rightarrow> revert + contract" where
  "veto epoch c =
     (let e = sc_epochs c epoch in
      if oc_status e \<noteq> OnPosted then Inl NotPosted
      else if sc_time c \<ge> oc_postedAt e + cp_vetoDelaySeconds (sc_params c) then Inl VetoWindowClosed
      else Inr (c\<lparr>sc_pendingBurn := sc_pendingBurn c - oc_feesBurned e, sc_txs := Suc (sc_txs c),
                  sc_subsidyByYear := (sc_subsidyByYear c)(yearOf epoch (sc_params c) := sc_subsidyByYear c (yearOf epoch (sc_params c)) - oc_totalLaneB e),
                  sc_totalSubsidy := sc_totalSubsidy c - oc_totalLaneB e,
                  sc_epochs := (sc_epochs c)(epoch := e\<lparr>oc_status := OnVetoed\<rparr>)\<rparr>))"

definition finalize :: "int \<Rightarrow> contract \<Rightarrow> revert + contract" where
  "finalize epoch c =
     (let e = sc_epochs c epoch in
      if oc_status e \<noteq> OnPosted then Inl NotPosted
      else if sc_time c < oc_postedAt e + cp_vetoDelaySeconds (sc_params c) then Inl VetoWindowOpen
      else Inr (c\<lparr>sc_pendingBurn := sc_pendingBurn c - oc_feesBurned e, sc_totalEscrow := sc_totalEscrow c - oc_feesBurned e,
                  sc_supply := sc_supply c - oc_feesBurned e + oc_treasuryAmount e,
                  sc_txs := Suc (sc_txs c),
                  sc_epochs := (sc_epochs c)(epoch := e\<lparr>oc_finalizedAt := sc_time c, oc_status := OnFinalized\<rparr>)\<rparr>))"

text \<open>\<^verbatim>\<open>flags & FLAG_A_CLAIMED != 0\<close> and \<^verbatim>\<open>flags & (FLAG_B_CLAIMED | FLAG_B_VOID) != 0\<close>.\<close>

definition paidA :: "8 word \<Rightarrow> bool" where
  "paidA f \<longleftrightarrow> f AND FLAG_A_CLAIMED \<noteq> 0"

definition closedB :: "8 word \<Rightarrow> bool" where
  "closedB f \<longleftrightarrow> f AND (FLAG_B_CLAIMED OR FLAG_B_VOID) \<noteq> 0"

definition claim_one :: "viem \<Rightarrow> int \<Rightarrow> contract \<Rightarrow> claimEntry \<Rightarrow> revert + contract" where
  "claim_one v epoch c x =
     (let e = sc_epochs c epoch; account = ce_account x; laneA = ce_laneA x; laneB = ce_laneB x in
      if oc_status e \<noteq> OnFinalized then Inl NotFinalized
      else if processProof v (leafOf v epoch account laneA laneB) (ce_proof x) \<noteq> oc_root e then Inl InvalidProof
      else
        (let f0 = sc_laneFlags c epoch account;
             takeA = (laneA > 0 \<and> \<not> paidA f0);
             payA = (if takeA then laneA else 0);
             f1 = (if takeA then f0 OR FLAG_A_CLAIMED else f0);
             takeB = (laneB > 0 \<and> \<not> closedB f1
                      \<and> sc_time c \<ge> oc_finalizedAt e + cp_vestBSeconds (sc_params c));
             payB = (if takeB then laneB else 0);
             f2 = (if takeB then f1 OR FLAG_B_CLAIMED else f1);
             e1 = e\<lparr>oc_mintedA := oc_mintedA e + payA, oc_mintedB := oc_mintedB e + payB\<rparr>
         in if payA = 0 \<and> payB = 0 then Inl NothingToClaim
            else if payA > 0 \<and> oc_mintedA e1 > oc_totalLaneA e then Inl MintCapExceeded
            else if payB > 0 \<and> oc_mintedB e1 > oc_totalLaneB e then Inl MintCapExceeded
            else Inr (c\<lparr>sc_laneFlags := (sc_laneFlags c)(epoch := (sc_laneFlags c epoch)(account := f2)),
                        sc_epochs := (sc_epochs c)(epoch := e1), sc_supply := sc_supply c + (payA + payB)\<rparr>)))"

fun claim_all :: "viem \<Rightarrow> int \<Rightarrow> contract \<Rightarrow> claimEntry list \<Rightarrow> revert + contract" where
  "claim_all v epoch c [] = Inr c"
| "claim_all v epoch c (x # xs) = (case claim_one v epoch c x of Inl r \<Rightarrow> Inl r | Inr c' \<Rightarrow> claim_all v epoch c' xs)"

text \<open>One transaction: a revert of any entry undoes the batch.\<close>

definition claimFor :: "viem \<Rightarrow> int \<Rightarrow> claimEntry list \<Rightarrow> contract \<Rightarrow> revert + contract" where
  "claimFor v epoch entries c =
     (case claim_all v epoch c entries of Inl r \<Rightarrow> Inl r | Inr c' \<Rightarrow> Inr (c'\<lparr>sc_txs := Suc (sc_txs c')\<rparr>))"

text \<open>The guardian's claw of an account's lane B before it vests.\<close>

definition clawLaneB :: "viem \<Rightarrow> int \<Rightarrow> claimEntry \<Rightarrow> contract \<Rightarrow> revert + contract" where
  "clawLaneB v epoch x c =
     (let e = sc_epochs c epoch; account = ce_account x; flags = sc_laneFlags c epoch account in
      if oc_status e \<noteq> OnFinalized then Inl NotFinalized
      else if sc_time c \<ge> oc_finalizedAt e + cp_vestBSeconds (sc_params c) then Inl LaneBVested
      else if processProof v (leafOf v epoch account (ce_laneA x) (ce_laneB x)) (ce_proof x) \<noteq> oc_root e then Inl InvalidProof
      else if closedB flags then Inl LaneBAlreadySettled
      else Inr (c\<lparr>sc_laneFlags := (sc_laneFlags c)(epoch := (sc_laneFlags c epoch)(account := flags OR FLAG_B_VOID)), sc_txs := Suc (sc_txs c)\<rparr>))"

subsection \<open>Lane flags\<close>

lemma flag_A [simp]: "paidA (f OR FLAG_A_CLAIMED)" "closedB (f OR FLAG_A_CLAIMED) = closedB f"
proof -
  have "(f OR 1) AND 1 = (1 :: 8 word)" by (rule bit_eqI) (auto simp: bit_simps)
  then show "paidA (f OR FLAG_A_CLAIMED)" by (simp add: paidA_def FLAG_A_CLAIMED_def)
  have "(f OR 1) AND 6 = f AND (6 :: 8 word)" by (simp add: bit.conj_disj_distrib2)
  then show "closedB (f OR FLAG_A_CLAIMED) = closedB f"
    by (simp add: closedB_def FLAG_A_CLAIMED_def FLAG_B_CLAIMED_def FLAG_B_VOID_def)
qed

lemma flag_B [simp]: "closedB (f OR FLAG_B_CLAIMED)" "paidA (f OR FLAG_B_CLAIMED) = paidA f"
proof -
  have "bit ((f OR 2) AND 6 :: 8 word) 1" by (simp add: bit_simps) 
  then have "(f OR 2) AND 6 \<noteq> (0 :: 8 word)" by (metis bit_0_eq bot_apply bot_bool_def)
  then show "closedB (f OR FLAG_B_CLAIMED)" by (simp add: closedB_def FLAG_B_CLAIMED_def FLAG_B_VOID_def)
  have "(f OR 2) AND 1 = f AND (1 :: 8 word)" by (simp add: bit.conj_disj_distrib2)
  then show "paidA (f OR FLAG_B_CLAIMED) = paidA f" by (simp add: paidA_def FLAG_A_CLAIMED_def FLAG_B_CLAIMED_def)
qed

definition takenB :: "8 word \<Rightarrow> bool" where
  "takenB f \<longleftrightarrow> f AND FLAG_B_CLAIMED \<noteq> 0"

lemma taken_flags [simp]: "takenB (f OR FLAG_A_CLAIMED) = takenB f" "takenB (f OR FLAG_B_CLAIMED)"
proof -
  have "(f OR 1) AND 2 = f AND (2 :: 8 word)" by (simp add: bit.conj_disj_distrib2)
  then show "takenB (f OR FLAG_A_CLAIMED) = takenB f" by (simp add: takenB_def FLAG_A_CLAIMED_def FLAG_B_CLAIMED_def)
  have "(f OR 2) AND 2 = (2 :: 8 word)" by (rule bit_eqI) (auto simp: bit_simps)
  then show "takenB (f OR FLAG_B_CLAIMED)" by (simp add: takenB_def FLAG_B_CLAIMED_def)
qed

lemma taken_closed: "takenB f \<Longrightarrow> closedB f"
proof -
  have "(f AND 6) AND 2 = f AND (2 :: 8 word)" by (simp add: ac_simps)
  then show "takenB f \<Longrightarrow> closedB f" by (auto simp: takenB_def closedB_def FLAG_B_CLAIMED_def FLAG_B_VOID_def)
qed

subsection \<open>What is minted is what is flagged\<close>

text \<open>
  For an epoch whose leaves are \<open>ws\<close>: one leaf per account, the posted totals are the sums of the leaves, and the
  minted amounts are the sums of the leaves whose lane is flagged as claimed.
\<close>

definition mint_ok :: "int \<Rightarrow> weiLeaf list \<Rightarrow> contract \<Rightarrow> bool" where
  "mint_ok epoch ws c \<longleftrightarrow> distinct (map wl_account ws) \<and> (\<forall>w \<in> set ws. 0 \<le> wl_laneA w \<and> 0 \<le> wl_laneB w)
     \<and> oc_totalLaneA (sc_epochs c epoch) = (\<Sum>w\<leftarrow>ws. wl_laneA w) \<and> oc_totalLaneB (sc_epochs c epoch) = (\<Sum>w\<leftarrow>ws. wl_laneB w)
     \<and> oc_mintedA (sc_epochs c epoch) = (\<Sum>w\<leftarrow>ws. if paidA (sc_laneFlags c epoch (wl_account w)) then wl_laneA w else 0)
     \<and> oc_mintedB (sc_epochs c epoch) = (\<Sum>w\<leftarrow>ws. if takenB (sc_laneFlags c epoch (wl_account w)) then wl_laneB w else 0)"

lemma sum_flag_update:
  assumes "distinct (map k ws)" and "w \<in> set ws" and "P (f (k w)) \<Longrightarrow> P g"
  shows "(\<Sum>x\<leftarrow>ws. if P ((f(k w := g)) (k x)) then a x else 0) =
     (\<Sum>x\<leftarrow>ws. if P (f (k x)) then a x else 0) + (if P g \<and> \<not> P (f (k w)) then a w else (0::int))"
  using assms(1,2)
proof (induction ws)
  case (Cons x xs)
  show ?case
  proof (cases "k x = k w")
    case True
    then have other: "k y \<noteq> k w" if "y \<in> set xs" for y using that Cons.prems(1) by (auto simp: image_iff)
    then have same: "(\<Sum>y\<leftarrow>xs. if P ((f(k w := g)) (k y)) then a y else 0) = (\<Sum>y\<leftarrow>xs. if P (f (k y)) then a y else 0)"
      by (intro arg_cong[where f = sum_list] map_cong) auto
    have "x = w" using True Cons.prems(2) other by auto
    then show ?thesis unfolding list.map sum_list.Cons same using assms(3) by auto
  next
    case False
    with Cons show ?thesis by auto
  qed
qed simp

lemma sum_flag_le:
  assumes "w \<in> set ws" and "\<not> P w" and "\<forall>x \<in> set ws. 0 \<le> a x"
  shows "(\<Sum>x\<leftarrow>ws. if P x then a x else 0) + a w \<le> (\<Sum>x\<leftarrow>ws. (a x::int))"
  using assms
proof (induction ws)
  case (Cons x xs)
  have "(\<Sum>x\<leftarrow>xs. if P x then a x else 0) \<le> (\<Sum>x\<leftarrow>xs. a x)"
    using Cons.prems(3) by (intro sum_list_map_mono_int) auto
  with Cons show ?case by (cases "x = w") auto
qed simp

definition entry_of :: "weiLeaf \<Rightarrow> string list \<Rightarrow> claimEntry" where
  "entry_of w pth = \<lparr>ce_account = wl_account w, ce_laneA = wl_laneA w, ce_laneB = wl_laneB w, ce_proof = pth\<rparr>"

definition vestedB :: "int \<Rightarrow> contract \<Rightarrow> bool" where
  "vestedB epoch c \<longleftrightarrow> sc_time c \<ge> oc_finalizedAt (sc_epochs c epoch) + cp_vestBSeconds (sc_params c)"

definition claimable :: "int \<Rightarrow> contract \<Rightarrow> weiLeaf \<Rightarrow> bool" where
  "claimable epoch c w \<longleftrightarrow> (wl_laneA w > 0 \<and> \<not> paidA (sc_laneFlags c epoch (wl_account w)))
     \<or> (wl_laneB w > 0 \<and> \<not> closedB (sc_laneFlags c epoch (wl_account w)) \<and> vestedB epoch c)"

text \<open>What a claim leaves alone.\<close>

definition claim_frame :: "int \<Rightarrow> contract \<Rightarrow> contract \<Rightarrow> bool" where
  "claim_frame epoch c c' \<longleftrightarrow> sc_time c' = sc_time c \<and> sc_params c' = sc_params c
     \<and> oc_status (sc_epochs c' epoch) = oc_status (sc_epochs c epoch) \<and> oc_root (sc_epochs c' epoch) = oc_root (sc_epochs c epoch)
     \<and> oc_finalizedAt (sc_epochs c' epoch) = oc_finalizedAt (sc_epochs c epoch)
     \<and> (\<forall>a. (paidA (sc_laneFlags c epoch a) \<longrightarrow> paidA (sc_laneFlags c' epoch a))
          \<and> (closedB (sc_laneFlags c epoch a) \<longrightarrow> closedB (sc_laneFlags c' epoch a)))"

lemma claim_frame_trans: "claim_frame e c1 c2 \<Longrightarrow> claim_frame e c2 c3 \<Longrightarrow> claim_frame e c1 c3"
  by (auto simp: claim_frame_def)

lemma claim_one_ok:
  assumes ok: "mint_ok epoch ws c" and w: "w \<in> set ws" and fin: "oc_status (sc_epochs c epoch) = OnFinalized"
    and prv: "processProof v (leafOf v epoch (wl_account w) (wl_laneA w) (wl_laneB w)) pth = oc_root (sc_epochs c epoch)"
    and cl: "claimable epoch c w"
  shows "\<exists>c'. claim_one v epoch c (entry_of w pth) = Inr c' \<and> mint_ok epoch ws c' \<and> claim_frame epoch c c'
     \<and> (wl_laneA w > 0 \<longrightarrow> paidA (sc_laneFlags c' epoch (wl_account w)))
     \<and> (wl_laneB w > 0 \<longrightarrow> vestedB epoch c \<longrightarrow> closedB (sc_laneFlags c' epoch (wl_account w)))
     \<and> (\<forall>a. a \<noteq> wl_account w \<longrightarrow> sc_laneFlags c' epoch a = sc_laneFlags c epoch a)"
proof -
  let ?e = "sc_epochs c epoch" and ?f = "sc_laneFlags c epoch" and ?a = "wl_account w"
  define ta where "ta = (wl_laneA w > 0 \<and> \<not> paidA (?f ?a))"
  define tb where "tb = (wl_laneB w > 0 \<and> \<not> closedB (?f ?a) \<and> vestedB epoch c)"
  define f1 where "f1 = (if ta then ?f ?a OR FLAG_A_CLAIMED else ?f ?a)"
  define f2 where "f2 = (if tb then f1 OR FLAG_B_CLAIMED else f1)"
  define e1 where "e1 = ?e\<lparr>oc_mintedA := oc_mintedA ?e + (if ta then wl_laneA w else 0),
     oc_mintedB := oc_mintedB ?e + (if tb then wl_laneB w else 0)\<rparr>"
  define c' where "c' = c\<lparr>sc_laneFlags := (sc_laneFlags c)(epoch := ?f(?a := f2)), sc_epochs := (sc_epochs c)(epoch := e1),
     sc_supply := sc_supply c + ((if ta then wl_laneA w else 0) + (if tb then wl_laneB w else 0))\<rparr>"
  have f1B: "closedB f1 = closedB (?f ?a)" by (simp add: f1_def)
  have tab: "ta \<or> tb" using cl by (simp add: claimable_def ta_def tb_def)
  have capA: "ta \<longrightarrow> oc_mintedA ?e + wl_laneA w \<le> oc_totalLaneA ?e"
    using ok sum_flag_le[OF w, of "\<lambda>x. paidA (?f (wl_account x))" wl_laneA] by (auto simp: mint_ok_def ta_def)
  have ntb: "tb \<longrightarrow> \<not> takenB (?f ?a)" using taken_closed by (auto simp: tb_def)
  have capB: "tb \<longrightarrow> oc_mintedB ?e + wl_laneB w \<le> oc_totalLaneB ?e"
    using ok ntb sum_flag_le[OF w, of "\<lambda>x. takenB (?f (wl_account x))" wl_laneB] by (auto simp: mint_ok_def)
  have fold_ta: "(0 < wl_laneA w \<and> \<not> paidA (?f ?a)) = ta" by (simp add: ta_def)
  have fold_tb: "(0 < wl_laneB w \<and> \<not> closedB f1 \<and> oc_finalizedAt ?e + cp_vestBSeconds (sc_params c) \<le> sc_time c) = tb"
    by (simp add: tb_def f1B vestedB_def)
  have pos: "ta \<longrightarrow> 0 < wl_laneA w" "tb \<longrightarrow> 0 < wl_laneB w" by (simp_all add: ta_def tb_def)
  have "claim_one v epoch c (entry_of w pth) = Inr c'"
    using fin prv tab capA capB pos
    unfolding claim_one_def entry_of_def Let_def claimEntry.select_convs fold_ta f1_def[symmetric] fold_tb f2_def[symmetric]
    by (auto simp: c'_def e1_def)
  moreover have pA: "paidA f2 = (paidA (?f ?a) \<or> ta)" "closedB f2 = (closedB (?f ?a) \<or> tb)" "takenB f2 = (takenB (?f ?a) \<or> tb)"
    by (auto simp: f2_def f1_def)
  moreover have "mint_ok epoch ws c'"
  proof -
    have d: "distinct (map wl_account ws)" using ok by (simp add: mint_ok_def)
    note A = sum_flag_update[OF d w, of paidA ?f f2 wl_laneA] and B = sum_flag_update[OF d w, of takenB ?f f2 wl_laneB]
    show ?thesis using ok A B pA ntb by (auto simp: mint_ok_def c'_def e1_def ta_def)
  qed
  ultimately show ?thesis
    by (intro exI[of _ c']) (auto simp: claim_frame_def c'_def e1_def ta_def tb_def)
qed

text \<open>A batch over different accounts: every entry is paid.\<close>

definition paid_now :: "int \<Rightarrow> contract \<Rightarrow> weiLeaf \<Rightarrow> bool" where
  "paid_now epoch c w \<longleftrightarrow> (wl_laneA w > 0 \<longrightarrow> paidA (sc_laneFlags c epoch (wl_account w)))
     \<and> (wl_laneB w > 0 \<longrightarrow> vestedB epoch c \<longrightarrow> closedB (sc_laneFlags c epoch (wl_account w)))"

definition proves :: "viem \<Rightarrow> int \<Rightarrow> string \<Rightarrow> weiLeaf \<times> string list \<Rightarrow> bool" where
  "proves v epoch rt x \<longleftrightarrow> (case x of (w, pth) \<Rightarrow>
     processProof v (leafOf v epoch (wl_account w) (wl_laneA w) (wl_laneB w)) pth = rt)"

lemma paid_now_frame: "claim_frame epoch c c' \<Longrightarrow> paid_now epoch c w \<Longrightarrow> paid_now epoch c' w"
  by (auto simp: claim_frame_def paid_now_def vestedB_def)

lemma claim_all_ok:
  assumes "mint_ok epoch ws c" and "oc_status (sc_epochs c epoch) = OnFinalized"
    and "\<forall>x \<in> set xs. fst x \<in> set ws \<and> proves v epoch (oc_root (sc_epochs c epoch)) x \<and> claimable epoch c (fst x)"
    and "distinct (map (wl_account \<circ> fst) xs)"
  shows "\<exists>c'. claim_all v epoch c (map (\<lambda>(w, pth). entry_of w pth) xs) = Inr c' \<and> mint_ok epoch ws c' \<and> claim_frame epoch c c'
     \<and> (\<forall>x \<in> set xs. paid_now epoch c' (fst x))
     \<and> (\<forall>a. a \<notin> (wl_account \<circ> fst) ` set xs \<longrightarrow> sc_laneFlags c' epoch a = sc_laneFlags c epoch a)"
  using assms
proof (induction xs arbitrary: c)
  case Nil
  then show ?case by (auto simp: claim_frame_def)
next
  case (Cons x xs)
  obtain w pth where x: "x = (w, pth)" by (cases x)
  have "\<exists>c1. claim_one v epoch c (entry_of w pth) = Inr c1 \<and> mint_ok epoch ws c1 \<and> claim_frame epoch c c1
     \<and> (wl_laneA w > 0 \<longrightarrow> paidA (sc_laneFlags c1 epoch (wl_account w)))
     \<and> (wl_laneB w > 0 \<longrightarrow> vestedB epoch c \<longrightarrow> closedB (sc_laneFlags c1 epoch (wl_account w)))
     \<and> (\<forall>a. a \<noteq> wl_account w \<longrightarrow> sc_laneFlags c1 epoch a = sc_laneFlags c epoch a)"
    by (rule claim_one_ok) (use Cons.prems x in \<open>auto simp: proves_def\<close>)
  then obtain c1 where c1: "claim_one v epoch c (entry_of w pth) = Inr c1" "mint_ok epoch ws c1" "claim_frame epoch c c1"
    and pay: "wl_laneA w > 0 \<longrightarrow> paidA (sc_laneFlags c1 epoch (wl_account w))"
      "wl_laneB w > 0 \<longrightarrow> vestedB epoch c \<longrightarrow> closedB (sc_laneFlags c1 epoch (wl_account w))"
    and rest: "\<forall>a. a \<noteq> wl_account w \<longrightarrow> sc_laneFlags c1 epoch a = sc_laneFlags c epoch a"
    by blast
  have v1: "vestedB epoch c1 = vestedB epoch c" using c1(3) by (simp add: claim_frame_def vestedB_def)
  have "claimable epoch c1 (fst y)" if "y \<in> set xs" for y
  proof -
    have "wl_account (fst y) \<noteq> wl_account w" using that Cons.prems(4) x by (auto simp: image_iff)
    then show ?thesis using that Cons.prems(3) rest v1 by (auto simp: claimable_def)
  qed
  then have "\<exists>c'. claim_all v epoch c1 (map (\<lambda>(w, pth). entry_of w pth) xs) = Inr c' \<and> mint_ok epoch ws c' \<and> claim_frame epoch c1 c'
     \<and> (\<forall>x \<in> set xs. paid_now epoch c' (fst x))
     \<and> (\<forall>a. a \<notin> (wl_account \<circ> fst) ` set xs \<longrightarrow> sc_laneFlags c' epoch a = sc_laneFlags c1 epoch a)"
    by (intro Cons.IH) (use Cons.prems c1 in \<open>auto simp: claim_frame_def\<close>)
  then obtain c' where c': "claim_all v epoch c1 (map (\<lambda>(w, pth). entry_of w pth) xs) = Inr c'" "mint_ok epoch ws c'"
    "claim_frame epoch c1 c'" "\<forall>x \<in> set xs. paid_now epoch c' (fst x)"
    "\<forall>a. a \<notin> (wl_account \<circ> fst) ` set xs \<longrightarrow> sc_laneFlags c' epoch a = sc_laneFlags c1 epoch a"
    by blast
  have "paid_now epoch c' w" by (rule paid_now_frame[OF c'(3)]) (use pay v1 in \<open>simp add: paid_now_def\<close>)
  then show ?case using c1(1,3) c' rest x claim_frame_trans[OF c1(3) c'(3)] by auto
qed

end
