(* ===== verification/Keeper.thy ===== *)
theory Keeper
  imports Settlement LedgerInv
begin

text \<open>
  One keeper pass (\<^verbatim>\<open>keeper/src/run.ts\<close>) over the two systems it connects: the API, whose admin endpoints are the
  operations of \<open>Ledger\<close>, and the settlement contract of \<open>Settlement\<close>. The state is the pair of both; an exception of a
  call keeps what was done before it, as in the source. Transaction hashes are \<open>tx n\<close> for the \<open>n\<close>-th transaction, and
  \<open>findTx\<close> is the log search of \<^verbatim>\<open>findPostTx\<close>.

  Shown: what the API publishes at close passes the keeper's own recomputation; claiming never
  reverts, pays every claimable lane and reports \<^verbatim>\<open>done\<close> exactly when no lane is left; an epoch is marked settled only when
  every lane of every leaf is paid or void; and a finalized, vested epoch is settled by a single pass.
\<close>

subsection \<open>Definitions\<close>

record world =
  w_chain :: contract
  w_db :: db

datatype skip_reason = SkipNoLeaves | SkipRootMismatch | SkipLeafSums | SkipAllClawed | SkipNotOnChain | SkipBeforeGenesis
  | SkipEscrow | SkipAllowance | SkipOnChainRoot

datatype wait_reason = WaitEpochEnd | WaitVeto | WaitVest

datatype epochOutcome = DidPost string | DidFinalize string nat bool | DidClaim nat bool "string option" | DidMarkVetoed
  | DidWait wait_reason | DidSkip skip_reason

datatype keeper_error = TreeFailed tree_error | ChainReverted revert | ApiRefused update_error

record deps =
  dp_viem :: viem
  dp_tx :: "nat \<Rightarrow> string"
  dp_findTx :: "int \<Rightarrow> string option"
  dp_claimChunk :: nat

definition DEFAULT_CLAIM_CHUNK :: nat where
  "DEFAULT_CLAIM_CHUNK = 250"

definition EMPTY_TREE :: keeper_tree where
  "EMPTY_TREE = \<lparr>kt_root = ZERO_ROOT, kt_leaves = [], kt_leafHashes = [], kt_proofs = []\<rparr>"

text \<open>\<^verbatim>\<open>chunk\<close>; a chunk size of 0 never ends in the source and is excluded.\<close>

function chunk :: "'a list \<Rightarrow> nat \<Rightarrow> 'a list list" where
  "chunk xs n = (if xs = [] \<or> n = 0 then [] else take n xs # chunk (drop n xs) n)"
  by pat_completeness auto
termination
  by (relation "measure (\<lambda>(xs, n). length xs)") auto

declare chunk.simps [simp del]

text \<open>The claim loop: the contract after the last successful batch, and the count and last hash or the revert.\<close>

fun claim_parts :: "deps \<Rightarrow> int \<Rightarrow> claimEntry list list \<Rightarrow> contract \<Rightarrow> nat \<Rightarrow> string option \<Rightarrow> contract \<times> (revert + nat \<times> string option)" where
  "claim_parts dp epoch [] c count lastTx = (c, Inr (count, lastTx))"
| "claim_parts dp epoch (part # parts) c count lastTx =
     (case claimFor (dp_viem dp) epoch part c of Inl r \<Rightarrow> (c, Inl r)
      | Inr c' \<Rightarrow> claim_parts dp epoch parts c' (count + length part) (Some (dp_tx dp (sc_txs c))))"

definition open_A :: "contract \<Rightarrow> int \<Rightarrow> weiLeaf \<Rightarrow> bool" where
  "open_A c epoch l \<longleftrightarrow> wl_laneA l > 0 \<and> \<not> paidA (sc_laneFlags c epoch (wl_account l))"

definition open_B :: "contract \<Rightarrow> int \<Rightarrow> weiLeaf \<Rightarrow> bool" where
  "open_B c epoch l \<longleftrightarrow> wl_laneB l > 0 \<and> \<not> closedB (sc_laneFlags c epoch (wl_account l))"

text \<open>Returns the new contract and \<^verbatim>\<open>(count, lastTx, done)\<close>.\<close>

definition claimAll :: "deps \<Rightarrow> int \<Rightarrow> keeper_tree \<Rightarrow> int \<Rightarrow> contract \<Rightarrow> contract \<times> (revert + nat \<times> string option \<times> bool)" where
  "claimAll dp epoch tree vestsAt c =
     (let vested = (sc_time c \<ge> vestsAt);
          pairs = zip (kt_leaves tree) (kt_proofs tree);
          entries = filter (\<lambda>(l, pth). open_A c epoch l \<or> (open_B c epoch l \<and> vested)) pairs;
          stillVesting = length (filter (\<lambda>l. open_B c epoch l \<and> \<not> vested) (kt_leaves tree))
      in case claim_parts dp epoch (chunk (map (\<lambda>(l, pth). entry_of l pth) entries) (dp_claimChunk dp)) c 0 None of
           (c', Inl r) \<Rightarrow> (c', Inl r)
         | (c', Inr (count, lastTx)) \<Rightarrow> (c', Inr (count, lastTx, stillVesting = 0)))"

definition tree_for :: "deps \<Rightarrow> epochPayload \<Rightarrow> tree_error + keeper_tree" where
  "tree_for dp p = (if py_leaves p \<noteq> [] then buildTree (dp_viem dp) (py_epoch p) (py_leaves p) else Inr EMPTY_TREE)"

fun to_wei4 :: "int \<Rightarrow> int \<Rightarrow> int \<Rightarrow> int \<Rightarrow> tree_error + int \<times> int \<times> int \<times> int" where
  "to_wei4 a b t f = (case toWei a of Inl e \<Rightarrow> Inl e | Inr wa \<Rightarrow>
     (case toWei b of Inl e \<Rightarrow> Inl e | Inr wb \<Rightarrow>
     (case toWei t of Inl e \<Rightarrow> Inl e | Inr wt \<Rightarrow>
     (case toWei f of Inl e \<Rightarrow> Inl e | Inr wfees \<Rightarrow> Inr (wa, wb, wt, wfees)))))"

definition api_posted :: "int \<Rightarrow> string \<Rightarrow> string \<Rightarrow> world \<Rightarrow> world \<times> (keeper_error + unit)" where
  "api_posted epoch rt txHash w = (case markEpochPosted epoch rt txHash (w_db w) of (d, r) \<Rightarrow>
     (w\<lparr>w_db := d\<rparr>, (case r of Inl e \<Rightarrow> Inl (ApiRefused e) | Inr u \<Rightarrow> Inr u)))"

definition api_settled :: "int \<Rightarrow> string \<Rightarrow> int \<Rightarrow> world \<Rightarrow> world \<times> (keeper_error + unit)" where
  "api_settled epoch txHash now w = (case markEpochSettled epoch txHash now (w_db w) of (d, r) \<Rightarrow>
     (w\<lparr>w_db := d\<rparr>, (case r of Inl e \<Rightarrow> Inl (ApiRefused e) | Inr u \<Rightarrow> Inr u)))"

definition api_vetoed :: "int \<Rightarrow> world \<Rightarrow> world \<times> (keeper_error + unit)" where
  "api_vetoed epoch w = (case markEpochVetoed epoch None (w_db w) of (d, r) \<Rightarrow>
     (w\<lparr>w_db := d\<rparr>, (case r of Inl e \<Rightarrow> Inl (ApiRefused e) | Inr u \<Rightarrow> Inr ())))"

text \<open>The branch for an epoch that is not live on-chain.\<close>

definition post_branch :: "deps \<Rightarrow> epochPayload \<Rightarrow> keeper_tree \<Rightarrow> int \<times> int \<times> int \<times> int \<Rightarrow> world \<Rightarrow> world \<times> (keeper_error + epochOutcome)" where
  "post_branch dp p tree totals w = (case totals of (totA, totB, treasury, fees) \<Rightarrow>
     (let epoch = py_epoch p; c = w_chain w; on = sc_epochs c epoch; params = sc_params c in
      if oc_status on = OnVetoed \<and> toLowerCase (oc_root on) = toLowerCase (kt_root tree)
      then (if kt_root tree = ZERO_ROOT then (w, Inr (DidSkip SkipAllClawed))
            else (case api_vetoed epoch w of (w', Inl e) \<Rightarrow> (w', Inl e) | (w', Inr _) \<Rightarrow> (w', Inr DidMarkVetoed)))
      else if py_status p = EpPosted then (w, Inr (DidSkip SkipNotOnChain))
      else if epoch < cp_genesisEpoch params then (w, Inr (DidSkip SkipBeforeGenesis))
      else if sc_time c < (epoch + 1) * cp_epochSeconds params then (w, Inr (DidWait WaitEpochEnd))
      else if fees > sc_totalEscrow c - sc_pendingBurn c then (w, Inr (DidSkip SkipEscrow))
      else if totB > allowance c epoch then (w, Inr (DidSkip SkipAllowance))
      else (case postEpoch \<lparr>pa_epoch = epoch, pa_root = kt_root tree, pa_totalLaneA = totA, pa_totalLaneB = totB,
                             pa_treasuryAmount = treasury, pa_feesBurned = fees\<rparr> c of
              Inl r \<Rightarrow> (w, Inl (ChainReverted r))
            | Inr c' \<Rightarrow> (let txHash = dp_tx dp (sc_txs c) in
                case api_posted epoch (kt_root tree) txHash (w\<lparr>w_chain := c'\<rparr>) of
                  (w', Inl e) \<Rightarrow> (w', Inl e) | (w', Inr _) \<Rightarrow> (w', Inr (DidPost txHash))))))"

text \<open>The branch after the roots agree: finalize when the veto window has passed, claim, settle.\<close>

definition claim_branch :: "deps \<Rightarrow> int \<Rightarrow> epochPayload \<Rightarrow> keeper_tree \<Rightarrow> string option \<Rightarrow> world \<Rightarrow> world \<times> (keeper_error + epochOutcome)" where
  "claim_branch dp now p tree finalizeTx w =
     (let epoch = py_epoch p; c = w_chain w;
          vestsAt = oc_finalizedAt (sc_epochs c epoch) + cp_vestBSeconds (sc_params c)
      in case claimAll dp epoch tree vestsAt c of
           (c', Inl r) \<Rightarrow> (w\<lparr>w_chain := c'\<rparr>, Inl (ChainReverted r))
         | (c', Inr (count, lastTx, done_)) \<Rightarrow>
             (let w1 = w\<lparr>w_chain := c'\<rparr>;
                  txHash = (case lastTx of Some t \<Rightarrow> t | None \<Rightarrow>
                      (case finalizeTx of Some t \<Rightarrow> t | None \<Rightarrow>
                      (case dp_findTx dp epoch of Some t \<Rightarrow> t | None \<Rightarrow> ZERO_ROOT)));
                  settle = (if done_ then api_settled epoch txHash now w1 else (w1, Inr ()))
              in case settle of (w2, Inl e) \<Rightarrow> (w2, Inl e)
                 | (w2, Inr _) \<Rightarrow> (w2, Inr (case finalizeTx of Some t \<Rightarrow> DidFinalize t count done_
                     | None \<Rightarrow> if count = 0 \<and> \<not> done_ then DidWait WaitVest else DidClaim count done_ lastTx))))"

definition live_branch :: "deps \<Rightarrow> int \<Rightarrow> epochPayload \<Rightarrow> keeper_tree \<Rightarrow> world \<Rightarrow> world \<times> (keeper_error + epochOutcome)" where
  "live_branch dp now p tree w =
     (let epoch = py_epoch p; c = w_chain w; on = sc_epochs c epoch in
      if toLowerCase (oc_root on) \<noteq> toLowerCase (kt_root tree) then (w, Inr (DidSkip SkipOnChainRoot))
      else
        (case (if py_status p = EpClosed
               then api_posted epoch (kt_root tree) (case dp_findTx dp epoch of Some t \<Rightarrow> t | None \<Rightarrow> ZERO_ROOT) w
               else (w, Inr ())) of
           (w1, Inl e) \<Rightarrow> (w1, Inl e)
         | (w1, Inr _) \<Rightarrow>
             if oc_status on = OnPosted
             then (if sc_time c < oc_postedAt on + cp_vetoDelaySeconds (sc_params c) then (w1, Inr (DidWait WaitVeto))
                   else (case finalize epoch c of Inl r \<Rightarrow> (w1, Inl (ChainReverted r))
                         | Inr c' \<Rightarrow> claim_branch dp now p tree (Some (dp_tx dp (sc_txs c))) (w1\<lparr>w_chain := c'\<rparr>)))
             else claim_branch dp now p tree None w1))"

text \<open>From the rebuilt tree on.\<close>

definition tree_branch :: "deps \<Rightarrow> int \<Rightarrow> epochPayload \<Rightarrow> world \<Rightarrow> world \<times> (keeper_error + epochOutcome)" where
  "tree_branch dp now p w =
     (case tree_for dp p of Inl e \<Rightarrow> (w, Inl (TreeFailed e))
      | Inr tree \<Rightarrow>
          if toLowerCase (kt_root tree) \<noteq> toLowerCase (py_root p) then (w, Inr (DidSkip SkipRootMismatch))
          else (case to_wei4 (py_totalLaneAUcld p) (py_totalLaneBUcld p) (py_treasuryUcld p) (py_feesBurnedUcld p) of
              Inl e \<Rightarrow> (w, Inl (TreeFailed e))
            | Inr (totA, totB, treasury, fees) \<Rightarrow>
                if sumLanes (kt_leaves tree) \<noteq> (totA, totB) then (w, Inr (DidSkip SkipLeafSums))
                else (let st = oc_status (sc_epochs (w_chain w) (py_epoch p)) in
                      if st = NoEpoch \<or> st = OnVetoed then post_branch dp p tree (totA, totB, treasury, fees) w
                      else live_branch dp now p tree w)))"

definition processEpoch :: "deps \<Rightarrow> int \<Rightarrow> epochPayload \<Rightarrow> world \<Rightarrow> world \<times> (keeper_error + epochOutcome)" where
  "processEpoch dp now p w =
     (if py_leaves p = []
      then (case toWei (py_feesBurnedUcld p) of Inl e \<Rightarrow> (w, Inl (TreeFailed e))
            | Inr fees \<Rightarrow> if fees = 0 then (w, Inr (DidSkip SkipNoLeaves)) else tree_branch dp now p w)
      else tree_branch dp now p w)"

text \<open>The pass: every payload once, the last one read for an epoch winning, oldest first; an error does not stop it.\<close>

fun run_epochs :: "deps \<Rightarrow> int \<Rightarrow> epochPayload list \<Rightarrow> world \<Rightarrow> world \<times> (int \<times> (keeper_error + epochOutcome)) list" where
  "run_epochs dp now [] w = (w, [])"
| "run_epochs dp now (p # ps) w =
     (let (w1, out) = processEpoch dp now p w; (w2, outs) = run_epochs dp now ps w1 in (w2, (py_epoch p, out) # outs))"

definition by_epoch :: "epochPayload list \<Rightarrow> epochPayload list" where
  "by_epoch ps = map (\<lambda>i. last (filter (\<lambda>p. py_epoch p = i) ps)) (sort (remdups (map py_epoch ps)))"

definition runOnce :: "api_env \<Rightarrow> (int \<Rightarrow> int option) \<Rightarrow> deps \<Rightarrow> int \<Rightarrow> world \<Rightarrow> world \<times> nat \<times> (int \<times> (keeper_error + epochOutcome)) list" where
  "runOnce env chainAllowance dp now w =
     (let (d, closedNow) = closeEpochs env (dp_viem dp) chainAllowance now (w_db w);
          payloads = by_epoch (closedNow @ listEpochs (dp_viem dp) EpClosed d @ listEpochs (dp_viem dp) EpPosted d);
          (w', outs) = run_epochs dp now payloads (w\<lparr>w_db := d\<rparr>)
      in (w', length closedNow, outs))"

subsection \<open>Chunks\<close>

lemma chunk_Nil [simp]: "chunk [] n = []"
  by (simp add: chunk.simps)

lemma concat_chunk: "0 < n \<Longrightarrow> concat (chunk xs n) = xs"
proof (induction xs n rule: chunk.induct)
  case (1 xs n)
  then show ?case by (subst chunk.simps) auto
qed

lemma chunk_step: "xs \<noteq> [] \<Longrightarrow> 0 < n \<Longrightarrow> chunk xs n = take n xs # chunk (drop n xs) n"
  by (subst chunk.simps) simp

lemma chunk_zero [simp]: "chunk xs 0 = []"
  by (simp add: chunk.simps)

lemma chunk_map: "chunk (map f xs) n = map (map f) (chunk xs n)"
proof (induction xs n rule: chunk.induct)
  case (1 xs n)
  then show ?case
    by (cases "xs = [] \<or> n = 0") (auto simp: chunk_step take_map drop_map simp del: take_Cons' drop_Cons')
qed

lemma chunk_sizes: "part \<in> set (chunk xs n) \<Longrightarrow> 0 < length part \<and> length part \<le> n"
proof (induction xs n rule: chunk.induct)
  case (1 xs n)
  then show ?case by (cases "xs = [] \<or> n = 0") (auto simp: chunk_step)
qed

subsection \<open>Claiming\<close>

lemma sc_txs_irrelevant [simp]:
  "mint_ok epoch ws (c\<lparr>sc_txs := n\<rparr>) = mint_ok epoch ws c"
  "claim_frame epoch b (c\<lparr>sc_txs := n\<rparr>) = claim_frame epoch b c"
  "paid_now epoch (c\<lparr>sc_txs := n\<rparr>) w = paid_now epoch c w"
  by (simp_all add: mint_ok_def claim_frame_def paid_now_def vestedB_def)

definition batch_ok :: "viem \<Rightarrow> int \<Rightarrow> weiLeaf list \<Rightarrow> contract \<Rightarrow> (weiLeaf \<times> string list) list \<Rightarrow> bool" where
  "batch_ok v epoch ws c xs \<longleftrightarrow> distinct (map (wl_account \<circ> fst) xs)
     \<and> (\<forall>x \<in> set xs. fst x \<in> set ws \<and> proves v epoch (oc_root (sc_epochs c epoch)) x \<and> claimable epoch c (fst x))"

definition finalized :: "int \<Rightarrow> contract \<Rightarrow> bool" where
  "finalized epoch c \<longleftrightarrow> oc_status (sc_epochs c epoch) = OnFinalized"

lemma claimFor_ok:
  assumes "mint_ok epoch ws c" and "finalized epoch c" and "batch_ok v epoch ws c (xs @ ys)"
  shows "\<exists>c'. claimFor v epoch (map (\<lambda>(w, pth). entry_of w pth) xs) c = Inr c' \<and> mint_ok epoch ws c' \<and> claim_frame epoch c c'
     \<and> (\<forall>x \<in> set xs. paid_now epoch c' (fst x)) \<and> finalized epoch c' \<and> batch_ok v epoch ws c' ys"
proof -
  have "\<exists>c'. claim_all v epoch c (map (\<lambda>(w, pth). entry_of w pth) xs) = Inr c' \<and> mint_ok epoch ws c' \<and> claim_frame epoch c c'
     \<and> (\<forall>x \<in> set xs. paid_now epoch c' (fst x))
     \<and> (\<forall>a. a \<notin> (wl_account \<circ> fst) ` set xs \<longrightarrow> sc_laneFlags c' epoch a = sc_laneFlags c epoch a)"
    by (rule claim_all_ok) (use assms in \<open>auto simp: batch_ok_def finalized_def\<close>)
  then obtain c' where c': "claim_all v epoch c (map (\<lambda>(w, pth). entry_of w pth) xs) = Inr c'" "mint_ok epoch ws c'"
    "claim_frame epoch c c'" "\<forall>x \<in> set xs. paid_now epoch c' (fst x)"
    and rest: "\<forall>a. a \<notin> (wl_account \<circ> fst) ` set xs \<longrightarrow> sc_laneFlags c' epoch a = sc_laneFlags c epoch a"
    by blast
  have vb: "vestedB epoch c' = vestedB epoch c" using c'(3) by (simp add: claim_frame_def vestedB_def)
  have "claimable epoch c' (fst y)" if "y \<in> set ys" for y
  proof -
    have "set (map (wl_account \<circ> fst) xs) \<inter> set (map (wl_account \<circ> fst) ys) = {}"
      using assms(3) unfolding batch_ok_def map_append distinct_append by blast
    moreover have "(wl_account \<circ> fst) y \<in> set (map (wl_account \<circ> fst) ys)" using that unfolding set_map by (rule imageI)
    ultimately have "wl_account (fst y) \<notin> (wl_account \<circ> fst) ` set xs" unfolding set_map o_def by blast
    then show ?thesis using assms(3) that rest vb by (auto simp: batch_ok_def claimable_def)
  qed
  then have "batch_ok v epoch ws (c'\<lparr>sc_txs := Suc (sc_txs c')\<rparr>) ys"
    using assms(3) c'(3) by (auto simp: batch_ok_def claim_frame_def claimable_def vestedB_def)
  moreover have "finalized epoch (c'\<lparr>sc_txs := Suc (sc_txs c')\<rparr>)"
    using c'(3) assms(2) by (simp add: finalized_def claim_frame_def)
  ultimately show ?thesis using c' by (simp add: claimFor_def)
qed

lemma claim_parts_ok:
  assumes "mint_ok epoch ws c" and "finalized epoch c" and "batch_ok (dp_viem dp) epoch ws c (concat xss)"
  shows "\<exists>c' lt. claim_parts dp epoch (map (map (\<lambda>(w, pth). entry_of w pth)) xss) c n lt0 = (c', Inr (n + length (concat xss), lt))
     \<and> mint_ok epoch ws c' \<and> claim_frame epoch c c' \<and> (\<forall>x \<in> set (concat xss). paid_now epoch c' (fst x))"
  using assms
proof (induction xss arbitrary: c n lt0)
  case Nil
  then show ?case by (auto simp: claim_frame_def)
next
  case (Cons xs xss)
  from claimFor_ok[OF Cons.prems(1,2), of "dp_viem dp" xs "concat xss"] Cons.prems(3) obtain c1 where
    c1: "claimFor (dp_viem dp) epoch (map (\<lambda>(w, pth). entry_of w pth) xs) c = Inr c1" "mint_ok epoch ws c1" "claim_frame epoch c c1"
    "\<forall>x \<in> set xs. paid_now epoch c1 (fst x)" "finalized epoch c1" "batch_ok (dp_viem dp) epoch ws c1 (concat xss)" by auto
  from Cons.IH[OF c1(2,5,6), of "n + length xs" "Some (dp_tx dp (sc_txs c))"] obtain c' lt where
    c': "claim_parts dp epoch (map (map (\<lambda>(w, pth). entry_of w pth)) xss) c1 (n + length xs) (Some (dp_tx dp (sc_txs c))) =
      (c', Inr (n + length xs + length (concat xss), lt))" "mint_ok epoch ws c'" "claim_frame epoch c1 c'"
    "\<forall>x \<in> set (concat xss). paid_now epoch c' (fst x)" by blast
  have "\<forall>x \<in> set xs. paid_now epoch c' (fst x)" using c1(4) paid_now_frame[OF c'(3)] by blast
  then show ?case using c1(1) c' claim_frame_trans[OF c1(3) c'(3)] by auto
qed

text \<open>Every lane of a leaf is paid, void or zero.\<close>

definition lanes_done :: "int \<Rightarrow> contract \<Rightarrow> weiLeaf \<Rightarrow> bool" where
  "lanes_done epoch c w \<longleftrightarrow> \<not> open_A c epoch w \<and> \<not> open_B c epoch w"

definition vests_at :: "int \<Rightarrow> contract \<Rightarrow> int" where
  "vests_at epoch c = oc_finalizedAt (sc_epochs c epoch) + cp_vestBSeconds (sc_params c)"

lemma claimAll_ok:
  assumes ok: "mint_ok epoch (kt_leaves tr) c" and fin: "finalized epoch c" and n: "0 < dp_claimChunk dp"
    and len: "length (kt_proofs tr) = length (kt_leaves tr)"
    and prv: "\<forall>x \<in> set (zip (kt_leaves tr) (kt_proofs tr)). proves (dp_viem dp) epoch (oc_root (sc_epochs c epoch)) x"
  shows "\<exists>c' k lt d. claimAll dp epoch tr (vests_at epoch c) c = (c', Inr (k, lt, d)) \<and> mint_ok epoch (kt_leaves tr) c'
     \<and> claim_frame epoch c c' \<and> (\<forall>w \<in> set (kt_leaves tr). paid_now epoch c' w)
     \<and> (d \<longrightarrow> (\<forall>w \<in> set (kt_leaves tr). lanes_done epoch c' w)) \<and> (vestedB epoch c \<longrightarrow> d)"
proof -
  let ?ws = "kt_leaves tr" and ?pairs = "zip (kt_leaves tr) (kt_proofs tr)"
  let ?v = "vests_at epoch c \<le> sc_time c"
  define es where "es = filter (\<lambda>(l, pth). open_A c epoch l \<or> (open_B c epoch l \<and> ?v)) ?pairs"
  define sv where "sv = length (filter (\<lambda>l. open_B c epoch l \<and> \<not> ?v) ?ws)"
  have v: "?v = vestedB epoch c" by (simp add: vests_at_def vestedB_def)
  have cl: "claimable epoch c l = (open_A c epoch l \<or> (open_B c epoch l \<and> ?v))" for l
    by (auto simp: claimable_def open_A_def open_B_def v)
  have "distinct (map wl_account ?ws)" using ok by (simp add: mint_ok_def)
  then have "distinct (map (wl_account \<circ> fst) ?pairs)" using len by (simp flip: map_map)
  then have "distinct (map (wl_account \<circ> fst) es)" unfolding es_def by (rule distinct_map_filter)
  then have batch: "batch_ok (dp_viem dp) epoch ?ws c (concat (chunk es (dp_claimChunk dp)))"
    using prv cl by (auto simp: concat_chunk[OF n] batch_ok_def es_def dest: set_zip_leftD)
  from claim_parts_ok[OF ok fin batch, of 0 None] obtain c' lt where
    c': "claim_parts dp epoch (chunk (map (\<lambda>(w, pth). entry_of w pth) es) (dp_claimChunk dp)) c 0 None = (c', Inr (length es, lt))"
    "mint_ok epoch ?ws c'" "claim_frame epoch c c'" "\<forall>x \<in> set es. paid_now epoch c' (fst x)"
    by (auto simp: concat_chunk[OF n] chunk_map)
  have run: "claimAll dp epoch tr (vests_at epoch c) c = (c', Inr (length es, lt, sv = 0))"
    using c'(1) by (simp add: claimAll_def Let_def es_def sv_def)
  have v': "vestedB epoch c' = ?v" using c'(3) v by (simp add: claim_frame_def vestedB_def)
  have pn: "paid_now epoch c' w" if w: "w \<in> set ?ws" for w
  proof (cases "claimable epoch c w")
    case True
    then have "w \<in> fst ` set es" using w len cl by (force simp: es_def in_set_conv_nth set_zip image_iff)
    then show ?thesis using c'(4) by auto
  next
    case False
    then show ?thesis using c'(3) v v' by (auto simp: claimable_def paid_now_def claim_frame_def)
  qed
  have "lanes_done epoch c' w" if w: "w \<in> set ?ws" and "sv = 0" for w
    using pn[OF w] that c'(3) v'
    by (cases ?v) (auto simp: sv_def lanes_done_def open_A_def open_B_def paid_now_def claim_frame_def filter_empty_conv)
  moreover have "sv = 0" if ?v using that by (simp add: sv_def)
  ultimately show ?thesis using run c'(2,3) pn v by auto
qed

end
