(* ===== verification/KeeperLife.thy ===== *)
theory KeeperLife
  imports Keeper
begin

text \<open>
  The life of an epoch under the keeper. \<open>payload_ok\<close> is the contract between the API and the keeper: what
  \<^verbatim>\<open>closeEpochs\<close> publishes has it (\<open>build_payload_ok\<close>), and on a payload that has it the keeper's own
  recomputation succeeds. From there every pass does what the chain state asks for: it posts, then finalizes and pays
  lane A, then pays lane B and settles; the API's row and the contract move together.
\<close>

subsection \<open>What the API publishes\<close>

definition payload_ok :: "viem \<Rightarrow> epochPayload \<Rightarrow> bool" where
  "payload_ok v p \<longleftrightarrow> list_all (good_leaf v) (py_leaves p) \<and> py_root p = root_of v (py_epoch p) (py_leaves p)
     \<and> py_totalLaneAUcld p = sum_list (map el_laneAUcld (py_leaves p)) \<and> py_totalLaneBUcld p = sum_list (map el_laneBUcld (py_leaves p))
     \<and> 0 \<le> py_treasuryUcld p \<and> 0 \<le> py_feesBurnedUcld p"

text \<open>The leaves in wei.\<close>

definition payload_wei :: "viem \<Rightarrow> epochPayload \<Rightarrow> weiLeaf list" where
  "payload_wei v p = (case weiLeaves v (py_leaves p) of Inl _ \<Rightarrow> [] | Inr ws \<Rightarrow> ws)"

lemma build_payload_ok:
  "list_all (good_leaf v) (epoch_leaves i d) \<Longrightarrow> 0 \<le> py_treasuryUcld (build_payload v i d) \<Longrightarrow> 0 \<le> epoch_fees i d \<Longrightarrow>
     payload_ok v (build_payload v i d)"
  by (simp add: payload_ok_def build_payload_def Let_def)

lemma toPayload_fill:
  "er_id r = py_epoch p \<Longrightarrow> py_status p = EpClosed \<Longrightarrow> toPayload v (fill_row now p r) = p"
  by (simp add: toPayload_def fill_row_def Let_def or_zero_def comp_def)

lemma sumLanes_eq: "sumLanes ws = (\<Sum>w\<leftarrow>ws. wl_laneA w, \<Sum>w\<leftarrow>ws. wl_laneB w)"
proof -
  have "foldl (\<lambda>(a, b) l. (a + wl_laneA l, b + wl_laneB l)) (x, y) ws = (x + (\<Sum>w\<leftarrow>ws. wl_laneA w), y + (\<Sum>w\<leftarrow>ws. wl_laneB w))" for x y
    by (induction ws arbitrary: x y) auto
  then show ?thesis by (simp add: sumLanes_def)
qed

lemma weiLeaves_sums:
  assumes "weiLeaves v ls = Inr ws"
  shows "(\<Sum>w\<leftarrow>ws. wl_laneA w) = sum_list (map el_laneAUcld ls) * UCLD_TO_WEI \<and> (\<Sum>w\<leftarrow>ws. wl_laneB w) = sum_list (map el_laneBUcld ls) * UCLD_TO_WEI
     \<and> (\<forall>w \<in> set ws. 0 \<le> wl_laneA w \<and> 0 \<le> wl_laneB w)"
  using weiLeaves_InrD[OF assms]
proof (induction rule: list_all2_induct)
  case (Cons l ls w ws)
  have "0 \<le> UCLD_TO_WEI" by (simp add: UCLD_TO_WEI_def)
  then show ?case using Cons weiLeaf_of_InrD[of v l w] by (auto simp: distrib_right)
qed simp

lemma zero_root_word: "is_word ZERO_ROOT"
  by (simp add: is_word_def is_hex_def ZERO_ROOT_def list_all_length lower_hex_def)

lemma tree_root_word:
  assumes "viem_ok v" and "buildTree v epoch ls = Inr tr"
  shows "is_word (kt_root tr)"
proof -
  from buildTree_InrE[OF assms] obtain ws t where t: "ls \<noteq> []" "weiLeaves v ls = Inr ws"
    "keeper_array v (leaf_hashes v epoch ws) = Some t" "kt_root tr = t ! 0" by force
  have "leaf_hashes v epoch ws \<noteq> []" using t(1) weiLeaves_length[OF t(2)] by (auto simp: leaf_hashes_def)
  from keeper_array_valid[OF assms(1) _ this] leaf_hashes_words[OF assms(1)] t(3)
  have "is_word (t ! 0)" by (auto intro: nth_mem)
  then show ?thesis using t(4) by simp
qed

lemma buildTree_pairs:
  assumes "viem_ok v" and "buildTree v epoch ls = Inr tr"
  shows "weiLeaves v ls = Inr (kt_leaves tr) \<and> length (kt_proofs tr) = length (kt_leaves tr)
    \<and> (\<forall>x \<in> set (zip (kt_leaves tr) (kt_proofs tr)). proves v epoch (kt_root tr) x)"
proof -
  from buildTree_InrE[OF assms] obtain ws t where ws: "weiLeaves v ls = Inr ws" "kt_leaves tr = ws"
    "kt_leafHashes tr = leaf_hashes v epoch ws" "length (kt_proofs tr) = length ws" by force
  have "proves v epoch (kt_root tr) (ws ! i, kt_proofs tr ! i)" if "i < length ws" for i
    using buildTree_proof[OF assms, of i] that ws weiLeaves_length[OF ws(1)] by (simp add: proves_def leaf_hashes_def)
  then show ?thesis using ws by (auto simp: set_zip)
qed

lemma payload_tree:
  assumes v: "viem_ok v" and p: "payload_ok v p" and dp: "dp_viem dp = v"
  obtains tr where "tree_for dp p = Inr tr" and "kt_root tr = py_root p" and "is_word (kt_root tr)"
    and "kt_leaves tr = payload_wei v p" and "length (kt_proofs tr) = length (kt_leaves tr)"
    and "\<forall>x \<in> set (zip (kt_leaves tr) (kt_proofs tr)). proves v (py_epoch p) (kt_root tr) x"
    and "weiLeaves v (py_leaves p) = Inr (kt_leaves tr)"
proof (cases "py_leaves p = []")
  case True
  then have "py_root p = ZERO_ROOT" using p by (simp add: payload_ok_def root_of_def epochRoot_def epoch_merkleRoot_def)
  then show ?thesis
    by (intro that[of EMPTY_TREE]) (simp_all add: tree_for_def True EMPTY_TREE_def payload_wei_def zero_root_word)
next
  case False
  have g: "list_all (good_leaf v) (py_leaves p)" using p by (simp add: payload_ok_def)
  from buildTree_ex[OF v False g] obtain tr where tr: "buildTree v (py_epoch p) (py_leaves p) = Inr tr" by blast
  note b = buildTree_pairs[OF v tr]
  show ?thesis
  proof (rule that[of tr])
    show "kt_root tr = py_root p" using p buildTree_root[OF v tr] by (simp add: payload_ok_def root_of_def)
    show "kt_leaves tr = payload_wei v p" using b by (simp add: payload_wei_def)
  qed (use b tr False dp tree_root_word[OF v tr] in \<open>simp_all add: tree_for_def\<close>)
qed

subsection \<open>The keeper's checks pass\<close>

definition wei4 :: "epochPayload \<Rightarrow> int \<times> int \<times> int \<times> int" where
  "wei4 p = (py_totalLaneAUcld p * UCLD_TO_WEI, py_totalLaneBUcld p * UCLD_TO_WEI, py_treasuryUcld p * UCLD_TO_WEI,
     py_feesBurnedUcld p * UCLD_TO_WEI)"

lemma sum_list_good: "list_all (good_leaf v) ls \<Longrightarrow> 0 \<le> sum_list (map el_laneAUcld ls) \<and> 0 \<le> sum_list (map el_laneBUcld ls)"
  by (induction ls) (auto simp: good_leaf_def)

lemma tree_branch_ok:
  assumes p: "payload_ok v p" and tr: "tree_for dp p = Inr tr" "kt_root tr = py_root p" "weiLeaves v (py_leaves p) = Inr (kt_leaves tr)"
  shows "tree_branch dp now p w =
    (let st = oc_status (sc_epochs (w_chain w) (py_epoch p)) in
     if st = NoEpoch \<or> st = OnVetoed then post_branch dp p tr (wei4 p) w else live_branch dp now p tr w)"
proof -
  have t: "to_wei4 (py_totalLaneAUcld p) (py_totalLaneBUcld p) (py_treasuryUcld p) (py_feesBurnedUcld p) = Inr (wei4 p)"
    using p sum_list_good[of v "py_leaves p"] by (simp add: payload_ok_def toWei_def wei4_def)
  have sm: "sumLanes (kt_leaves tr) = (py_totalLaneAUcld p * UCLD_TO_WEI, py_totalLaneBUcld p * UCLD_TO_WEI)"
    using p weiLeaves_sums[OF tr(3)] by (simp add: sumLanes_eq payload_ok_def)
  show ?thesis
    unfolding tree_branch_def t tr(1) sum.case tr(2) wei4_def prod.case sm Let_def by simp
qed

lemma process_payload:
  assumes p: "payload_ok v p" and dp: "dp_viem dp = v" and tr: "tree_for dp p = Inr tr" "kt_root tr = py_root p" "weiLeaves v (py_leaves p) = Inr (kt_leaves tr)"
    and some: "py_leaves p \<noteq> [] \<or> py_feesBurnedUcld p \<noteq> 0"
  shows "processEpoch dp now p w =
    (let st = oc_status (sc_epochs (w_chain w) (py_epoch p)) in
     if st = NoEpoch \<or> st = OnVetoed then post_branch dp p tr (wei4 p) w else live_branch dp now p tr w)"
proof -
  have "toWei (py_feesBurnedUcld p) = Inr (py_feesBurnedUcld p * UCLD_TO_WEI)" using p by (simp add: payload_ok_def toWei_def)
  then show ?thesis using some unfolding processEpoch_def tree_branch_ok[OF p tr] by (auto simp: UCLD_TO_WEI_def)
qed

subsection \<open>The API's row\<close>

definition row_is :: "epoch_status \<Rightarrow> epochPayload \<Rightarrow> db \<Rightarrow> bool" where
  "row_is st p d \<longleftrightarrow> (\<exists>r. epoch_row (py_epoch p) d = Some r \<and> er_status r = st \<and> same_root (er_root r) (py_root p))"

lemma find_map_keep: "(\<And>r. P (f r) = P r) \<Longrightarrow> find P (map f xs) = map_option f (find P xs)"
  by (induction xs) auto

lemma epoch_row_update:
  assumes "\<And>r. er_id (f r) = er_id r"
  shows "epoch_row i (d\<lparr>db_epochs := update_where (\<lambda>r. er_id r = i) f (db_epochs d)\<rparr>) = map_option f (epoch_row i d)"
proof -
  have "find (\<lambda>r. er_id r = i) (update_where (\<lambda>r. er_id r = i) f xs) = map_option f (find (\<lambda>r. er_id r = i) xs)" for xs
    using assms by (induction xs) (auto simp: update_where_def)
  then show ?thesis by (simp add: epoch_row_def)
qed

lemma epoch_row_set_status [simp]: "epoch_row i (set_status_where P st d) = epoch_row i d"
  by (simp add: epoch_row_def set_status_where_def)

lemma api_posted_ok:
  assumes "row_is EpClosed p (w_db w)"
  shows "\<exists>d. api_posted (py_epoch p) (py_root p) tx w = (w\<lparr>w_db := d\<rparr>, Inr ()) \<and> row_is EpPosted p d"
proof -
  from assms obtain r where r: "epoch_row (py_epoch p) (w_db w) = Some r" "er_status r = EpClosed" "same_root (er_root r) (py_root p)"
    by (auto simp: row_is_def)
  show ?thesis
    using r by (auto simp: api_posted_def markEpochPosted_def row_is_def epoch_row_update same_root_def)
qed

lemma api_settled_ok:
  assumes "row_is EpPosted p (w_db w)"
  shows "\<exists>d. api_settled (py_epoch p) tx now w = (w\<lparr>w_db := d\<rparr>, Inr ()) \<and> row_is EpSettled p d"
proof -
  from assms obtain r where r: "epoch_row (py_epoch p) (w_db w) = Some r" "er_status r = EpPosted" "same_root (er_root r) (py_root p)"
    by (auto simp: row_is_def)
  show ?thesis
    using r by (auto simp: api_settled_def markEpochSettled_def row_is_def epoch_row_update)
qed

subsection \<open>The three passes\<close>

definition in_step :: "viem \<Rightarrow> epochPayload \<Rightarrow> chain_status \<Rightarrow> epoch_status \<Rightarrow> world \<Rightarrow> bool" where
  "in_step v p st rst w \<longleftrightarrow> oc_status (sc_epochs (w_chain w) (py_epoch p)) = st \<and> oc_root (sc_epochs (w_chain w) (py_epoch p)) = py_root p
     \<and> mint_ok (py_epoch p) (payload_wei v p) (w_chain w) \<and> row_is rst p (w_db w)"

definition fresh_epoch :: "int \<Rightarrow> contract \<Rightarrow> bool" where
  "fresh_epoch i c \<longleftrightarrow> oc_status (sc_epochs c i) = NoEpoch \<and> oc_mintedA (sc_epochs c i) = 0 \<and> oc_mintedB (sc_epochs c i) = 0
     \<and> sc_laneFlags c i = (\<lambda>_. 0)"

text \<open>The contract's conditions for a post.\<close>

definition postable :: "epochPayload \<Rightarrow> contract \<Rightarrow> bool" where
  "postable p c \<longleftrightarrow> cp_genesisEpoch (sc_params c) \<le> py_epoch p \<and> (py_epoch p + 1) * cp_epochSeconds (sc_params c) \<le> sc_time c
     \<and> py_feesBurnedUcld p * UCLD_TO_WEI \<le> sc_totalEscrow c - sc_pendingBurn c
     \<and> py_totalLaneBUcld p * UCLD_TO_WEI \<le> allowance c (py_epoch p)
     \<and> py_feesBurnedUcld p * 300 \<le> py_treasuryUcld p * 10000
     \<and> (py_totalLaneAUcld p + py_treasuryUcld p) * 10000 \<le> py_feesBurnedUcld p * 9800"

lemma flags_zero [simp]: "\<not> paidA 0" "\<not> takenB 0" "\<not> closedB 0"
  by (simp_all add: paidA_def takenB_def closedB_def)

lemma postEpoch_ok:
  assumes "postable p c" and "fresh_epoch (py_epoch p) c"
  shows "\<exists>c'. postEpoch \<lparr>pa_epoch = py_epoch p, pa_root = rt, pa_totalLaneA = py_totalLaneAUcld p * UCLD_TO_WEI,
        pa_totalLaneB = py_totalLaneBUcld p * UCLD_TO_WEI, pa_treasuryAmount = py_treasuryUcld p * UCLD_TO_WEI,
        pa_feesBurned = py_feesBurnedUcld p * UCLD_TO_WEI\<rparr> c = Inr c'
     \<and> sc_laneFlags c' = sc_laneFlags c \<and> sc_params c' = sc_params c \<and> sc_time c' = sc_time c
     \<and> sc_epochs c' (py_epoch p) = (sc_epochs c (py_epoch p))\<lparr>oc_root := rt, oc_totalLaneA := py_totalLaneAUcld p * UCLD_TO_WEI,
          oc_totalLaneB := py_totalLaneBUcld p * UCLD_TO_WEI, oc_treasuryAmount := py_treasuryUcld p * UCLD_TO_WEI,
          oc_feesBurned := py_feesBurnedUcld p * UCLD_TO_WEI, oc_postedAt := sc_time c, oc_status := OnPosted\<rparr>"
  using assms unfolding postEpoch_def Let_def postArgs.select_convs
  by (simp add: postable_def fresh_epoch_def UCLD_TO_WEI_def)

lemma post_pass:
  assumes v: "viem_ok v" and p: "payload_ok v p" and dp: "dp_viem dp = v"
    and some: "py_leaves p \<noteq> [] \<or> py_feesBurnedUcld p \<noteq> 0" and d: "distinct (map wl_account (payload_wei v p))"
    and st: "py_status p = EpClosed" and row: "row_is EpClosed p (w_db w)"
    and f: "fresh_epoch (py_epoch p) (w_chain w)" and ok: "postable p (w_chain w)"
  shows "\<exists>w1 tx. processEpoch dp now p w = (w1, Inr (DidPost tx)) \<and> in_step v p OnPosted EpPosted w1
     \<and> oc_postedAt (sc_epochs (w_chain w1) (py_epoch p)) = sc_time (w_chain w) \<and> sc_params (w_chain w1) = sc_params (w_chain w)"
proof -
  from payload_tree[OF v p dp] obtain tr where tr: "tree_for dp p = Inr tr" "kt_root tr = py_root p" "is_word (kt_root tr)"
    "kt_leaves tr = payload_wei v p" "weiLeaves v (py_leaves p) = Inr (kt_leaves tr)" by metis
  from postEpoch_ok[OF ok f, of "py_root p"] obtain c' where
    c': "postEpoch \<lparr>pa_epoch = py_epoch p, pa_root = py_root p, pa_totalLaneA = py_totalLaneAUcld p * UCLD_TO_WEI,
        pa_totalLaneB = py_totalLaneBUcld p * UCLD_TO_WEI, pa_treasuryAmount = py_treasuryUcld p * UCLD_TO_WEI,
        pa_feesBurned = py_feesBurnedUcld p * UCLD_TO_WEI\<rparr> (w_chain w) = Inr c'"
    and eff: "sc_laneFlags c' = sc_laneFlags (w_chain w)" "sc_params c' = sc_params (w_chain w)"
      "sc_epochs c' (py_epoch p) = (sc_epochs (w_chain w) (py_epoch p))\<lparr>oc_root := py_root p, oc_totalLaneA := py_totalLaneAUcld p * UCLD_TO_WEI,
          oc_totalLaneB := py_totalLaneBUcld p * UCLD_TO_WEI, oc_treasuryAmount := py_treasuryUcld p * UCLD_TO_WEI,
          oc_feesBurned := py_feesBurnedUcld p * UCLD_TO_WEI, oc_postedAt := sc_time (w_chain w), oc_status := OnPosted\<rparr>"
    by metis
  define tx where "tx = dp_tx dp (sc_txs (w_chain w))"
  from api_posted_ok[of p "w\<lparr>w_chain := c'\<rparr>" tx] row obtain e where
    e: "api_posted (py_epoch p) (py_root p) tx (w\<lparr>w_chain := c'\<rparr>) = (w\<lparr>w_chain := c', w_db := e\<rparr>, Inr ())" "row_is EpPosted p e"
    by auto
  have "processEpoch dp now p w = post_branch dp p tr (wei4 p) w"
    using process_payload[OF p dp tr(1,2,5) some] f by (simp add: fresh_epoch_def)
  also have "\<dots> = (w\<lparr>w_chain := c', w_db := e\<rparr>, Inr (DidPost tx))"
    using f ok st c' e(1) unfolding post_branch_def wei4_def prod.case Let_def tr(2) fresh_epoch_def postable_def tx_def[symmetric] by simp
  moreover have "mint_ok (py_epoch p) (payload_wei v p) c'"
    using d f eff weiLeaves_sums[OF tr(5)] p tr(4) by (simp add: mint_ok_def fresh_epoch_def payload_ok_def)
  ultimately show ?thesis using e(2) eff by (auto simp: in_step_def)
qed

lemma in_step_tree:
  assumes v: "viem_ok v" and p: "payload_ok v p" and dp: "dp_viem dp = v"
    and tr: "tree_for dp p = Inr tr" and st: "oc_root (sc_epochs c (py_epoch p)) = py_root p"
  shows "kt_leaves tr = payload_wei v p \<and> length (kt_proofs tr) = length (kt_leaves tr)
    \<and> (\<forall>x \<in> set (zip (kt_leaves tr) (kt_proofs tr)). proves (dp_viem dp) (py_epoch p) (oc_root (sc_epochs c (py_epoch p))) x)"
  using payload_tree[OF v p dp] tr st dp by (metis (no_types, lifting) sum.inject(2))

lemma claim_branch_ok:
  assumes v: "viem_ok v" and p: "payload_ok v p" and dp: "dp_viem dp = v" and n: "0 < dp_claimChunk dp"
    and tr: "tree_for dp p = Inr tr" and st: "in_step v p OnFinalized EpPosted w"
  shows "\<exists>w' k lt d. claim_branch dp now p tr ft w = (w', Inr (case ft of Some t \<Rightarrow> DidFinalize t k d
         | None \<Rightarrow> if k = 0 \<and> \<not> d then DidWait WaitVest else DidClaim k d lt))
     \<and> in_step v p OnFinalized (if d then EpSettled else EpPosted) w' \<and> claim_frame (py_epoch p) (w_chain w) (w_chain w')
     \<and> (\<forall>x \<in> set (payload_wei v p). paid_now (py_epoch p) (w_chain w') x)
     \<and> (d \<longrightarrow> (\<forall>x \<in> set (payload_wei v p). lanes_done (py_epoch p) (w_chain w') x)) \<and> (vestedB (py_epoch p) (w_chain w) \<longrightarrow> d)"
proof -
  let ?c = "w_chain w" and ?i = "py_epoch p"
  have st': "finalized ?i ?c" "mint_ok ?i (payload_wei v p) ?c" "oc_root (sc_epochs ?c ?i) = py_root p" "row_is EpPosted p (w_db w)"
    using st by (simp_all add: in_step_def finalized_def)
  note t = in_step_tree[OF v p dp tr st'(3)]
  have "\<exists>c' k lt d. claimAll dp ?i tr (vests_at ?i ?c) ?c = (c', Inr (k, lt, d)) \<and> mint_ok ?i (kt_leaves tr) c'
     \<and> claim_frame ?i ?c c' \<and> (\<forall>w \<in> set (kt_leaves tr). paid_now ?i c' w)
     \<and> (d \<longrightarrow> (\<forall>w \<in> set (kt_leaves tr). lanes_done ?i c' w)) \<and> (vestedB ?i ?c \<longrightarrow> d)"
    by (rule claimAll_ok) (use st' t n in auto)
  then obtain c' k lt d where c': "claimAll dp ?i tr (vests_at ?i ?c) ?c = (c', Inr (k, lt, d))" "mint_ok ?i (payload_wei v p) c'"
    "claim_frame ?i ?c c'" "\<forall>x \<in> set (payload_wei v p). paid_now ?i c' x"
    "d \<longrightarrow> (\<forall>x \<in> set (payload_wei v p). lanes_done ?i c' x)" "vestedB ?i ?c \<longrightarrow> d"
    using t by metis
  define out where "out = (case ft of Some t \<Rightarrow> DidFinalize t k d
         | None \<Rightarrow> if k = 0 \<and> \<not> d then DidWait WaitVest else DidClaim k d lt)"
  have fr: "oc_status (sc_epochs c' ?i) = OnFinalized" "oc_root (sc_epochs c' ?i) = py_root p"
    using c'(3) st' by (simp_all add: claim_frame_def finalized_def)
  have "\<exists>w'. claim_branch dp now p tr ft w = (w', Inr out) \<and> w_chain w' = c' \<and> row_is (if d then EpSettled else EpPosted) p (w_db w')"
  proof (cases d)
    case True
    define tx where "tx = (case lt of Some t \<Rightarrow> t | None \<Rightarrow> (case ft of Some t \<Rightarrow> t | None \<Rightarrow>
      (case dp_findTx dp ?i of Some t \<Rightarrow> t | None \<Rightarrow> ZERO_ROOT)))"
    from api_settled_ok[of p "w\<lparr>w_chain := c'\<rparr>" tx now] st'(4) obtain e where
      "api_settled ?i tx now (w\<lparr>w_chain := c'\<rparr>) = (w\<lparr>w_chain := c', w_db := e\<rparr>, Inr ())" "row_is EpSettled p e" by auto
    then show ?thesis using c'(1) True
      by (auto simp: claim_branch_def Let_def vests_at_def[symmetric] tx_def[symmetric] out_def split: option.split)
  next
    case False
    then show ?thesis using c'(1) st'(4) by (auto simp: claim_branch_def Let_def vests_at_def[symmetric] out_def split: option.split)
  qed
  then obtain w' where w': "claim_branch dp now p tr ft w = (w', Inr out)" "w_chain w' = c'" "row_is (if d then EpSettled else EpPosted) p (w_db w')"
    by blast
  have "in_step v p OnFinalized (if d then EpSettled else EpPosted) w'" using w'(2,3) c'(2) fr by (simp add: in_step_def)
  then show ?thesis using w'(1,2) c' unfolding out_def by blast
qed

definition out_settled :: "epochOutcome \<Rightarrow> bool" where
  "out_settled out = (case out of DidFinalize _ _ d \<Rightarrow> d | DidClaim _ d _ \<Rightarrow> d | _ \<Rightarrow> False)"

lemma finalize_ok:
  assumes "in_step v p OnPosted rst w" and "oc_postedAt (sc_epochs (w_chain w) (py_epoch p)) + cp_vetoDelaySeconds (sc_params (w_chain w)) \<le> sc_time (w_chain w)"
  shows "\<exists>c'. finalize (py_epoch p) (w_chain w) = Inr c' \<and> in_step v p OnFinalized rst (w\<lparr>w_chain := c'\<rparr>) \<and> sc_params c' = sc_params (w_chain w)
     \<and> oc_finalizedAt (sc_epochs c' (py_epoch p)) = sc_time (w_chain w)"
  using assms by (simp add: finalize_def Let_def in_step_def mint_ok_def)

lemma finalize_pass:
  assumes v: "viem_ok v" and p: "payload_ok v p" and dp: "dp_viem dp = v" and n: "0 < dp_claimChunk dp"
    and some: "py_leaves p \<noteq> [] \<or> py_feesBurnedUcld p \<noteq> 0" and ps: "py_status p = EpPosted"
    and st: "in_step v p OnPosted EpPosted w"
    and tm: "oc_postedAt (sc_epochs (w_chain w) (py_epoch p)) + cp_vetoDelaySeconds (sc_params (w_chain w)) \<le> sc_time (w_chain w)"
  shows "\<exists>w' tx k d. processEpoch dp now p w = (w', Inr (DidFinalize tx k d)) \<and> in_step v p OnFinalized (if d then EpSettled else EpPosted) w'
     \<and> oc_finalizedAt (sc_epochs (w_chain w') (py_epoch p)) = sc_time (w_chain w) \<and> sc_params (w_chain w') = sc_params (w_chain w)
     \<and> (\<forall>x \<in> set (payload_wei v p). paid_now (py_epoch p) (w_chain w') x)
     \<and> (d \<longrightarrow> (\<forall>x \<in> set (payload_wei v p). lanes_done (py_epoch p) (w_chain w') x))"
proof -
  from payload_tree[OF v p dp] obtain tr where tr: "tree_for dp p = Inr tr" "kt_root tr = py_root p" "weiLeaves v (py_leaves p) = Inr (kt_leaves tr)" by metis
  from finalize_ok[OF st tm] obtain c' where c': "finalize (py_epoch p) (w_chain w) = Inr c'" "in_step v p OnFinalized EpPosted (w\<lparr>w_chain := c'\<rparr>)"
    "sc_params c' = sc_params (w_chain w)" "oc_finalizedAt (sc_epochs c' (py_epoch p)) = sc_time (w_chain w)" by blast
  define tx where "tx = dp_tx dp (sc_txs (w_chain w))"
  have "processEpoch dp now p w = claim_branch dp now p tr (Some tx) (w\<lparr>w_chain := c'\<rparr>)"
    using process_payload[OF p dp tr some, of now w] st ps c'(1) tm tr(2)
    by (simp add: in_step_def live_branch_def Let_def tx_def)
  then show ?thesis using claim_branch_ok[OF v p dp n tr(1) c'(2), of now "Some tx"] c'(3,4)
    by (fastforce simp: claim_frame_def)
qed

lemma settle_pass:
  assumes v: "viem_ok v" and p: "payload_ok v p" and dp: "dp_viem dp = v" and n: "0 < dp_claimChunk dp"
    and some: "py_leaves p \<noteq> [] \<or> py_feesBurnedUcld p \<noteq> 0" and ps: "py_status p = EpPosted"
    and st: "in_step v p OnFinalized EpPosted w" and vs: "vestedB (py_epoch p) (w_chain w)"
  shows "\<exists>w' k lt. processEpoch dp now p w = (w', Inr (DidClaim k True lt)) \<and> in_step v p OnFinalized EpSettled w'
     \<and> (\<forall>x \<in> set (payload_wei v p). lanes_done (py_epoch p) (w_chain w') x)"
proof -
  from payload_tree[OF v p dp] obtain tr where tr: "tree_for dp p = Inr tr" "kt_root tr = py_root p" "weiLeaves v (py_leaves p) = Inr (kt_leaves tr)" by metis
  have "processEpoch dp now p w = claim_branch dp now p tr None w"
    using process_payload[OF p dp tr some, of now w] st ps tr(2) by (simp add: in_step_def live_branch_def Let_def)
  then show ?thesis using claim_branch_ok[OF v p dp n tr(1) st, of now None] vs by (auto split: if_splits)
qed

subsection \<open>Safety\<close>

lemma api_calls_chain:
  "api_posted i rt tx w = (w', r) \<Longrightarrow> w_chain w' = w_chain w"
  "api_settled i tx now w = (w', r) \<Longrightarrow> w_chain w' = w_chain w"
  "api_vetoed i w = (w', r2) \<Longrightarrow> w_chain w' = w_chain w"
  by (auto simp: api_posted_def api_settled_def api_vetoed_def split: prod.splits)

lemma claim_branch_settled:
  assumes v: "viem_ok v" and p: "payload_ok v p" and dp: "dp_viem dp = v" and n: "0 < dp_claimChunk dp"
    and tr: "tree_for dp p = Inr tr" and fin: "finalized (py_epoch p) (w_chain w)" and ok: "mint_ok (py_epoch p) (payload_wei v p) (w_chain w)"
    and rt: "oc_root (sc_epochs (w_chain w) (py_epoch p)) = py_root p"
    and run: "claim_branch dp now p tr ft w = (w', Inr out)" and s: "out_settled out"
  shows "\<forall>x \<in> set (payload_wei v p). lanes_done (py_epoch p) (w_chain w') x"
proof -
  let ?c = "w_chain w" and ?i = "py_epoch p"
  note t = in_step_tree[OF v p dp tr rt]
  have "\<exists>c' k lt d. claimAll dp ?i tr (vests_at ?i ?c) ?c = (c', Inr (k, lt, d)) \<and> mint_ok ?i (kt_leaves tr) c'
     \<and> claim_frame ?i ?c c' \<and> (\<forall>w \<in> set (kt_leaves tr). paid_now ?i c' w)
     \<and> (d \<longrightarrow> (\<forall>w \<in> set (kt_leaves tr). lanes_done ?i c' w)) \<and> (vestedB ?i ?c \<longrightarrow> d)"
    by (rule claimAll_ok) (use fin ok t n in auto)
  then obtain c' k lt d where c': "claimAll dp ?i tr (vests_at ?i ?c) ?c = (c', Inr (k, lt, d))"
    "d \<longrightarrow> (\<forall>x \<in> set (payload_wei v p). lanes_done ?i c' x)"
    using t by metis
  have "w_chain w' = c' \<and> d"
    using run s c'(1) unfolding claim_branch_def Let_def vests_at_def[symmetric]
    by (cases ft; cases d) (auto simp: out_settled_def dest!: api_calls_chain split: prod.splits sum.splits if_splits)
  then show ?thesis using c'(2) by simp
qed

lemma post_branch_not_settled: "post_branch dp p tr tots w = (w', Inr out) \<Longrightarrow> \<not> out_settled out"
  unfolding post_branch_def Let_def
  by (auto simp: out_settled_def split: prod.splits if_splits sum.splits)

lemma live_branch_settled:
  assumes v: "viem_ok v" and p: "payload_ok v p" and dp: "dp_viem dp = v" and n: "0 < dp_claimChunk dp"
    and tr: "tree_for dp p = Inr tr" "kt_root tr = py_root p" "is_word (kt_root tr)" and ok: "mint_ok (py_epoch p) (payload_wei v p) (w_chain w)"
    and rt: "is_word (oc_root (sc_epochs (w_chain w) (py_epoch p)))" and live: "oc_status (sc_epochs (w_chain w) (py_epoch p)) \<in> {OnPosted, OnFinalized}"
    and run: "live_branch dp now p tr w = (w', Inr out)" and s: "out_settled out"
  shows "\<forall>x \<in> set (payload_wei v p). lanes_done (py_epoch p) (w_chain w') x"
proof -
  let ?i = "py_epoch p" and ?c = "w_chain w"
  let ?first = "if py_status p = EpClosed
     then api_posted ?i (kt_root tr) (case dp_findTx dp ?i of Some t \<Rightarrow> t | None \<Rightarrow> ZERO_ROOT) w else (w, Inr ())"
  have eq: "oc_root (sc_epochs ?c ?i) = py_root p"
    using run s tr(2,3) rt by (auto simp: live_branch_def Let_def out_settled_def split: if_splits)
  obtain w1 r where w1: "?first = (w1, r)" by (cases ?first)
  have ch: "w_chain w1 = ?c" using w1 by (auto split: if_splits dest: api_calls_chain)
  have r: "r = Inr ()" using run w1 eq tr(2) by (auto simp: live_branch_def Let_def split: sum.splits)
  show ?thesis
  proof (cases "oc_status (sc_epochs ?c ?i) = OnPosted")
    case True
    then obtain c' where fin: "finalize ?i ?c = Inr c'"
      and br: "claim_branch dp now p tr (Some (dp_tx dp (sc_txs ?c))) (w1\<lparr>w_chain := c'\<rparr>) = (w', Inr out)"
      using run s w1 r eq tr(2) by (auto simp: live_branch_def Let_def out_settled_def split: if_splits sum.splits)
    have "finalized ?i c'" "oc_root (sc_epochs c' ?i) = py_root p" "mint_ok ?i (payload_wei v p) c'"
      using fin eq ok by (auto simp: finalize_def Let_def finalized_def mint_ok_def split: if_splits)
    then show ?thesis using claim_branch_settled[OF v p dp n tr(1) _ _ _ br s] by simp
  next
    case False
    then have "finalized ?i (w_chain w1)" using live ch by (simp add: finalized_def)
    moreover have "claim_branch dp now p tr None w1 = (w', Inr out)"
      using run w1 r eq tr(2) False by (simp add: live_branch_def Let_def)
    ultimately show ?thesis using claim_branch_settled[OF v p dp n tr(1) _ _ _ _ s] ok eq ch by metis
  qed
qed

lemma skip_not_settled:
  "py_leaves p = [] \<Longrightarrow> py_feesBurnedUcld p = 0 \<Longrightarrow> processEpoch dp now p w = (w, Inr (DidSkip SkipNoLeaves))"
  by (simp add: processEpoch_def toWei_def)

text \<open>
  C25. A pass reports an epoch as settled only when nothing is left to pay: whatever the state of the chain and of the
  API, if \<^verbatim>\<open>processEpoch\<close> returns a \<^verbatim>\<open>finalized\<close> or \<^verbatim>\<open>claimed\<close> outcome with \<^verbatim>\<open>settled: true\<close>, then on the
  resulting chain every lane of every leaf is zero, paid or void.
\<close>

theorem settled_only_when_paid:
  assumes "viem_ok v" and "payload_ok v p" and "dp_viem dp = v" and "0 < dp_claimChunk dp"
    and "mint_ok (py_epoch p) (payload_wei v p) (w_chain w)" and "is_word (oc_root (sc_epochs (w_chain w) (py_epoch p)))"
    and "processEpoch dp now p w = (w', Inr out)" and "out_settled out"
  shows "list_all (lanes_done (py_epoch p) (w_chain w')) (payload_wei v p)"
proof -
  from payload_tree[OF assms(1-3)] obtain tr where tr: "tree_for dp p = Inr tr" "kt_root tr = py_root p" "is_word (kt_root tr)"
    "weiLeaves v (py_leaves p) = Inr (kt_leaves tr)" by metis
  have some: "py_leaves p \<noteq> [] \<or> py_feesBurnedUcld p \<noteq> 0"
    using assms(7,8) skip_not_settled[of p dp now w] by (auto simp: out_settled_def)
  let ?st = "oc_status (sc_epochs (w_chain w) (py_epoch p))"
  have run: "(if ?st = NoEpoch \<or> ?st = OnVetoed then post_branch dp p tr (wei4 p) w else live_branch dp now p tr w) = (w', Inr out)"
    using process_payload[OF assms(2,3) tr(1,2,4) some, of now w] assms(7) by (simp add: Let_def)
  have live: "?st \<noteq> NoEpoch \<and> ?st \<noteq> OnVetoed" using run post_branch_not_settled assms(8) by (auto split: if_splits)
  have "?st \<in> {OnPosted, OnFinalized}" using live by (cases ?st) auto
  from live_branch_settled[OF assms(1-4) tr(1-3) assms(5,6) this _ assms(8)] run live
  show ?thesis by (simp add: list_all_iff)
qed

subsection \<open>Liveness\<close>

text \<open>Time passes on the chain.\<close>

definition at_time :: "int \<Rightarrow> world \<Rightarrow> world" where
  "at_time t w = w\<lparr>w_chain := (w_chain w)\<lparr>sc_time := t\<rparr>\<rparr>"

definition relisted :: "epochPayload \<Rightarrow> epochPayload" where
  "relisted p = p\<lparr>py_status := EpPosted\<rparr>"

lemma relisted_same [simp]:
  "payload_ok v (relisted p) = payload_ok v p" "payload_wei v (relisted p) = payload_wei v p" "py_epoch (relisted p) = py_epoch p"
  "in_step v (relisted p) st rst w = in_step v p st rst w" "py_status (relisted p) = EpPosted"
  "py_leaves (relisted p) = py_leaves p" "py_feesBurnedUcld (relisted p) = py_feesBurnedUcld p"
  by (simp_all add: relisted_def payload_ok_def payload_wei_def in_step_def row_is_def)

lemma relisted_row [simp]: "row_is st (relisted p) d = row_is st p d"
  by (simp add: relisted_def row_is_def)

lemma at_time_same [simp]:
  "in_step v p st rst (at_time t w) = in_step v p st rst w" "sc_time (w_chain (at_time t w)) = t"
  "sc_params (w_chain (at_time t w)) = sc_params (w_chain w)" "sc_epochs (w_chain (at_time t w)) = sc_epochs (w_chain w)"
  by (simp_all add: at_time_def in_step_def mint_ok_def)


text \<open>
  C36. What \<^verbatim>\<open>closeEpochs\<close> publishes passes the keeper's recomputation: for the payload of an epoch whose accounts are
  addresses and whose amounts are not negative, \<^verbatim>\<open>processEpoch\<close> neither fails in \<^verbatim>\<open>buildTree\<close> nor skips because of the root
  or the leaf sums; it reaches the branch that the epoch's on-chain status selects, with the API's totals in wei.
\<close>

theorem closed_payload_accepted:
  assumes "viem_ok v" and "dp_viem dp = v" and "list_all (good_leaf v) (epoch_leaves i d)"
    and "0 \<le> py_treasuryUcld (build_payload v i d)" and "0 \<le> epoch_fees i d" and "epoch_leaves i d \<noteq> [] \<or> epoch_fees i d \<noteq> 0"
  shows "\<exists>tr. tree_for dp (build_payload v i d) = Inr tr \<and> kt_root tr = py_root (build_payload v i d)
    \<and> processEpoch dp now (build_payload v i d) w =
      (if oc_status (sc_epochs (w_chain w) i) \<in> {NoEpoch, OnVetoed} then post_branch dp (build_payload v i d) tr (wei4 (build_payload v i d)) w
       else live_branch dp now (build_payload v i d) tr w)"
proof -
  let ?p = "build_payload v i d"
  have p: "payload_ok v ?p" by (rule build_payload_ok) (use assms in simp_all)
  have some: "py_leaves ?p \<noteq> [] \<or> py_feesBurnedUcld ?p \<noteq> 0" and e: "py_epoch ?p = i"
    using assms(6) by (simp_all add: build_payload_def Let_def)
  from payload_tree[OF assms(1) p assms(2)] obtain tr where tr: "tree_for dp ?p = Inr tr" "kt_root tr = py_root ?p"
    "weiLeaves v (py_leaves ?p) = Inr (kt_leaves tr)" by metis
  show ?thesis using process_payload[OF p assms(2) tr some, of now w] tr by (simp add: e Let_def)
qed

lemma claim_branch_not_post: "claim_branch dp now p tr ft w \<noteq> (w', Inr (DidPost tx))"
  unfolding claim_branch_def Let_def by (cases ft) (simp_all split: sum.split prod.split)

lemma live_branch_not_post: "live_branch dp now p tr w \<noteq> (w', Inr (DidPost tx))"
  unfolding live_branch_def Let_def using claim_branch_not_post by (simp split: sum.split prod.split)

lemma postEpoch_effect:
  assumes "postEpoch a c = Inr c'"
  shows "oc_status (sc_epochs c' (pa_epoch a)) = OnPosted \<and> oc_root (sc_epochs c' (pa_epoch a)) = pa_root a
    \<and> oc_totalLaneA (sc_epochs c' (pa_epoch a)) = pa_totalLaneA a \<and> oc_totalLaneB (sc_epochs c' (pa_epoch a)) = pa_totalLaneB a
    \<and> oc_treasuryAmount (sc_epochs c' (pa_epoch a)) = pa_treasuryAmount a \<and> oc_feesBurned (sc_epochs c' (pa_epoch a)) = pa_feesBurned a
    \<and> sc_pendingBurn c' = sc_pendingBurn c + pa_feesBurned a"
proof -
  have "c' = c\<lparr>sc_pendingBurn := sc_pendingBurn c + pa_feesBurned a, sc_txs := Suc (sc_txs c),
     sc_subsidyByYear := (sc_subsidyByYear c)(yearOf (pa_epoch a) (sc_params c) := sc_subsidyByYear c (yearOf (pa_epoch a) (sc_params c)) + pa_totalLaneB a),
     sc_totalSubsidy := sc_totalSubsidy c + pa_totalLaneB a,
     sc_epochs := (sc_epochs c)(pa_epoch a := (sc_epochs c (pa_epoch a))\<lparr>oc_root := pa_root a, oc_totalLaneA := pa_totalLaneA a,
       oc_totalLaneB := pa_totalLaneB a, oc_treasuryAmount := pa_treasuryAmount a, oc_feesBurned := pa_feesBurned a,
       oc_postedAt := sc_time c, oc_status := OnPosted\<rparr>)\<rparr>"
    using assms unfolding postEpoch_def Let_def by (simp split: if_splits)
  then show ?thesis by simp
qed

lemma post_branch_postD:
  assumes "post_branch dp p tr (a, b, t, f) w = (w', Inr (DidPost tx))"
  shows "\<not> (oc_status (sc_epochs (w_chain w) (py_epoch p)) = OnVetoed
         \<and> toLowerCase (oc_root (sc_epochs (w_chain w) (py_epoch p))) = toLowerCase (kt_root tr))
    \<and> b \<le> allowance (w_chain w) (py_epoch p) \<and> f \<le> sc_totalEscrow (w_chain w) - sc_pendingBurn (w_chain w)
    \<and> postEpoch \<lparr>pa_epoch = py_epoch p, pa_root = kt_root tr, pa_totalLaneA = a, pa_totalLaneB = b,
                  pa_treasuryAmount = t, pa_feesBurned = f\<rparr> (w_chain w) = Inr (w_chain w')
    \<and> (\<exists>w1. api_posted (py_epoch p) (kt_root tr) tx w1 = (w', Inr ()))"
  using assms unfolding post_branch_def Let_def prod.case
  by (auto split: if_splits sum.splits prod.splits dest: api_calls_chain)

text \<open>
  A vetoed root is never posted again, and what is posted is what the API closed: after a \<^verbatim>\<open>posted\<close> outcome the
  epoch on the chain has the API's root and totals (lane B within the allowance, fees within the free escrow), a veto
  that was standing was of a different root, and the API's row is marked posted.
\<close>

theorem posted_is_the_closed_epoch:
  assumes "viem_ok v" and "payload_ok v p" and "dp_viem dp = v"
    and "processEpoch dp now p w = (w', Inr (DidPost tx))"
  shows "let old = sc_epochs (w_chain w) (py_epoch p); new = sc_epochs (w_chain w') (py_epoch p) in
    oc_status new = OnPosted \<and> oc_root new = py_root p \<and> (oc_status old = NoEpoch \<or> (oc_status old = OnVetoed \<and> oc_root old \<noteq> py_root p))
    \<and> (oc_totalLaneA new, oc_totalLaneB new, oc_treasuryAmount new, oc_feesBurned new) = wei4 p
    \<and> oc_totalLaneB new \<le> allowance (w_chain w) (py_epoch p) \<and> oc_feesBurned new \<le> sc_totalEscrow (w_chain w) - sc_pendingBurn (w_chain w)
    \<and> sc_pendingBurn (w_chain w') = sc_pendingBurn (w_chain w) + oc_feesBurned new \<and> row_is EpPosted p (w_db w')"
proof -
  from payload_tree[OF assms(1-3)] obtain tr where tr: "tree_for dp p = Inr tr" "kt_root tr = py_root p" "is_word (kt_root tr)"
    "weiLeaves v (py_leaves p) = Inr (kt_leaves tr)" by metis
  have some: "py_leaves p \<noteq> [] \<or> py_feesBurnedUcld p \<noteq> 0" using assms(4) skip_not_settled[of p dp now w] by auto
  let ?st = "oc_status (sc_epochs (w_chain w) (py_epoch p))"
  have run: "(if ?st = NoEpoch \<or> ?st = OnVetoed then post_branch dp p tr (wei4 p) w else live_branch dp now p tr w) = (w', Inr (DidPost tx))"
    using process_payload[OF assms(2,3) tr(1,2,4) some, of now w] assms(4) by (simp add: Let_def)
  then have st: "?st = NoEpoch \<or> ?st = OnVetoed" and br: "post_branch dp p tr (wei4 p) w = (w', Inr (DidPost tx))"
    using live_branch_not_post by (auto split: if_splits)
  note D = post_branch_postD[OF br[unfolded wei4_def]]
  have row: "row_is EpPosted p (w_db w')"
    using D tr(2) by (auto simp: api_posted_def markEpochPosted_def row_is_def epoch_row_update same_root_def
        split: prod.splits option.splits if_splits)
  have veto: "?st = NoEpoch \<or> ?st = OnVetoed \<and> oc_root (sc_epochs (w_chain w) (py_epoch p)) \<noteq> py_root p" using D tr(2) st by auto
  have "postEpoch \<lparr>pa_epoch = py_epoch p, pa_root = kt_root tr, pa_totalLaneA = py_totalLaneAUcld p * UCLD_TO_WEI,
     pa_totalLaneB = py_totalLaneBUcld p * UCLD_TO_WEI, pa_treasuryAmount = py_treasuryUcld p * UCLD_TO_WEI,
     pa_feesBurned = py_feesBurnedUcld p * UCLD_TO_WEI\<rparr> (w_chain w) = Inr (w_chain w')" using D by blast
  from postEpoch_effect[OF this] show ?thesis using D tr(2) veto row by (simp add: Let_def wei4_def)
qed

subsection \<open>Witnesses\<close>

definition toy_payload :: epochPayload where
  "toy_payload = \<lparr>py_epoch = 4, py_root = root_of toy_viem 4 toy_leaves, py_feesBurnedUcld = 100, py_totalLaneAUcld = 12,
     py_totalLaneBUcld = 3, py_treasuryUcld = 3, py_leaves = toy_leaves, py_status = EpClosed\<rparr>"

definition toy_epoch :: onChainEpoch where
  "toy_epoch = \<lparr>oc_root = ZERO_ROOT, oc_totalLaneA = 0, oc_totalLaneB = 0, oc_treasuryAmount = 0, oc_feesBurned = 0, oc_mintedA = 0,
     oc_mintedB = 0, oc_postedAt = 0, oc_finalizedAt = 0, oc_status = NoEpoch\<rparr>"

definition toy_contract :: contract where
  "toy_contract = \<lparr>sc_epochs = (\<lambda>_. toy_epoch), sc_laneFlags = (\<lambda>_ _. 0), sc_totalEscrow = 10 ^ 18, sc_pendingBurn = 0,
     sc_subsidyByYear = (\<lambda>_. 0), sc_totalSubsidy = 0, sc_supply = 10 ^ 27, sc_params = \<lparr>cp_epochSeconds = 3600, cp_vetoDelaySeconds = 60, cp_vestBSeconds = 3600, cp_genesisEpoch = 1, cp_genesisTimestamp = 3600\<rparr>,
     sc_time = 20000, sc_txs = 0\<rparr>"

definition toy_row :: epochRow where
  "toy_row = new_row 0 toy_payload"

definition toy_world :: world where
  "toy_world = \<lparr>w_chain = toy_contract, w_db = empty_db\<lparr>db_epochs := [toy_row]\<rparr>\<rparr>"

definition toy_deps :: deps where
  "toy_deps = \<lparr>dp_viem = toy_viem, dp_tx = (\<lambda>n. ''0x'' @ replicate n (CHR ''1'')), dp_findTx = (\<lambda>_. None), dp_claimChunk = DEFAULT_CLAIM_CHUNK\<rparr>"

lemma toy_payload_ok: "payload_ok toy_viem toy_payload"
  using toy_good by (simp add: payload_ok_def toy_payload_def) (simp add: toy_leaves_def)

lemma toy_accounts: "map wl_account (payload_wei toy_viem toy_payload) = [''0xA'', ''0xBC'', ''0xDEF'']"
  by (simp add: payload_wei_def toy_payload_def toy_leaves_def weiLeaf_of_def toy_viem_def toWei_def)

lemma toy_row_is: "row_is EpClosed toy_payload (w_db toy_world)"
  by (simp add: row_is_def toy_world_def toy_row_def epoch_row_def new_row_def fill_row_def toy_payload_def same_root_def)

lemma toy_postable: "postable toy_payload (w_chain toy_world)" "fresh_epoch 4 (w_chain toy_world)"
  by (simp_all add: postable_def toy_payload_def toy_world_def toy_contract_def UCLD_TO_WEI_def fresh_epoch_def toy_epoch_def
      allowance_def annualSubsidyCap_def rateBpsAt_def years_since_def YEAR_def INITIAL_RATE_BPS_def)

lemma toy_deps_ok [simp]: "dp_viem toy_deps = toy_viem" "0 < dp_claimChunk toy_deps"
  by (simp_all add: toy_deps_def DEFAULT_CLAIM_CHUNK_def)

lemma toy_payload_sel [simp]: "py_epoch toy_payload = 4" "py_status toy_payload = EpClosed" "py_feesBurnedUcld toy_payload = 100"
  by (simp_all add: toy_payload_def)


lemma toy_db_leaves: "epoch_leaves 7 toy_db = [\<lparr>el_account = ''w1'', el_laneAUcld = 0, el_laneBUcld = 500\<rparr>,
    \<lparr>el_account = ''w2'', el_laneAUcld = 0, el_laneBUcld = 0\<rparr>, \<lparr>el_account = ''w3'', el_laneAUcld = 0, el_laneBUcld = 0\<rparr>]"
  by code_simp

theorem closed_payload_accepted_witness:
  "\<exists>tr. tree_for toy_deps (build_payload toy_viem 7 toy_db) = Inr tr \<and> kt_root tr = py_root (build_payload toy_viem 7 toy_db)"
proof -
  have "list_all (good_leaf toy_viem) (epoch_leaves 7 toy_db)" by (simp add: toy_db_leaves good_leaf_def toy_viem_def)
  moreover have "0 \<le> py_treasuryUcld (build_payload toy_viem 7 toy_db)"
    by (simp add: build_payload_def Let_def toy_db_def toy_entry_def amount_where_def)
  moreover have "0 \<le> epoch_fees 7 toy_db" by code_simp
  ultimately show ?thesis
    using closed_payload_accepted[OF toy_viem_ok toy_deps_ok(1), of 7 toy_db] by (auto simp: toy_db_leaves)
qed

lemma toy_posted: "\<exists>w1 tx. processEpoch toy_deps 0 toy_payload toy_world = (w1, Inr (DidPost tx)) \<and> in_step toy_viem toy_payload OnPosted EpPosted w1
     \<and> oc_postedAt (sc_epochs (w_chain w1) (py_epoch toy_payload)) = sc_time (w_chain toy_world) \<and> sc_params (w_chain w1) = sc_params (w_chain toy_world)"
  by (rule post_pass[OF toy_viem_ok toy_payload_ok toy_deps_ok(1) _ _ _ toy_row_is _ toy_postable(1)])
    (use toy_postable(2) toy_accounts in simp_all)

lemma toy_settled:
  "\<exists>w w' out. processEpoch toy_deps 2 (relisted toy_payload) w = (w', Inr out) \<and> out_settled out
     \<and> mint_ok 4 (payload_wei toy_viem toy_payload) (w_chain w) \<and> is_word (oc_root (sc_epochs (w_chain w) 4))"
proof -
  from toy_posted obtain w1 where w1: "in_step toy_viem toy_payload OnPosted EpPosted w1"
    "oc_postedAt (sc_epochs (w_chain w1) 4) = sc_time (w_chain toy_world)" "sc_params (w_chain w1) = sc_params (w_chain toy_world)" by auto
  let ?w = "at_time 30000 w1"
  have "is_word (py_root toy_payload)" using payload_tree[OF toy_viem_ok toy_payload_ok toy_deps_ok(1)] by metis
  have "\<exists>c'. finalize (py_epoch toy_payload) (w_chain ?w) = Inr c' \<and> in_step toy_viem toy_payload OnFinalized EpPosted (?w\<lparr>w_chain := c'\<rparr>)
     \<and> sc_params c' = sc_params (w_chain ?w) \<and> oc_finalizedAt (sc_epochs c' (py_epoch toy_payload)) = sc_time (w_chain ?w)"
    by (rule finalize_ok) (use w1 in \<open>simp_all add: toy_world_def toy_contract_def\<close>)
  then obtain c' where c': "in_step toy_viem toy_payload OnFinalized EpPosted (?w\<lparr>w_chain := c'\<rparr>)"
    "oc_finalizedAt (sc_epochs c' 4) = 30000" "sc_params c' = sc_params (w_chain toy_world)" using w1(3) by auto
  let ?u = "at_time 40000 (?w\<lparr>w_chain := c'\<rparr>)"
  have "\<exists>w' k lt. processEpoch toy_deps 2 (relisted toy_payload) ?u = (w', Inr (DidClaim k True lt)) \<and> in_step toy_viem (relisted toy_payload) OnFinalized EpSettled w'
     \<and> (\<forall>x \<in> set (payload_wei toy_viem (relisted toy_payload)). lanes_done (py_epoch (relisted toy_payload)) (w_chain w') x)"
    by (rule settle_pass[OF toy_viem_ok _ toy_deps_ok])
      (use toy_payload_ok c' in \<open>simp_all add: vestedB_def toy_world_def toy_contract_def\<close>)
  then obtain w' k lt where "processEpoch toy_deps 2 (relisted toy_payload) ?u = (w', Inr (DidClaim k True lt))" by blast
  moreover have "in_step toy_viem toy_payload OnFinalized EpPosted ?u" using c'(1) by simp
  ultimately show ?thesis using \<open>is_word (py_root toy_payload)\<close>
    by (intro exI[of _ ?u] exI[of _ w'] exI[of _ "DidClaim k True lt"]) (auto simp: in_step_def out_settled_def)
qed

theorem settled_only_when_paid_witness:
  "\<exists>w w' out. processEpoch toy_deps 2 (relisted toy_payload) w = (w', Inr out) \<and> out_settled out
     \<and> list_all (lanes_done 4 (w_chain w')) (payload_wei toy_viem toy_payload)"
proof -
  from toy_settled obtain w w' out where w: "processEpoch toy_deps 2 (relisted toy_payload) w = (w', Inr out)" "out_settled out"
    "mint_ok 4 (payload_wei toy_viem toy_payload) (w_chain w)" "is_word (oc_root (sc_epochs (w_chain w) 4))" by blast
  show ?thesis
    using settled_only_when_paid[OF toy_viem_ok _ toy_deps_ok _ _ w(1,2)] toy_payload_ok w by auto
qed

theorem posted_is_the_closed_epoch_witness:
  "\<exists>w1 tx1. processEpoch toy_deps 0 toy_payload toy_world = (w1, Inr (DidPost tx1))
     \<and> oc_totalLaneB (sc_epochs (w_chain w1) 4) = 3 * UCLD_TO_WEI"
proof -
  from toy_posted obtain w1 tx where w1: "processEpoch toy_deps 0 toy_payload toy_world = (w1, Inr (DidPost tx))" by blast
  from posted_is_the_closed_epoch[OF toy_viem_ok toy_payload_ok toy_deps_ok(1) w1] w1
  show ?thesis by (auto simp: Let_def wei4_def toy_payload_def)
qed

end
