(* ===== verification/Balance.thy ===== *)
theory Balance
  imports Ledger
begin

text \<open>
  User balances (\<^verbatim>\<open>client/api/src/services/balance.service.ts\<close>). The table \<^verbatim>\<open>balances\<close> is a list of rows and the table
  \<^verbatim>\<open>transactions\<close> another; an \<open>UPDATE ... WHERE address = ? AND balance_ucld >= ?\<close> rewrites the matching row in place, and
  \<open>INSERT ... ON CONFLICT(address)\<close> adds to it or appends. Amounts are integer \<open>\<mu>\<close>CLD; the functions that still speak CLD
  convert with one rounded multiplication or division (\<open>dbl\<close>). A thrown error is \<open>Inl\<close>, and \<open>None\<close> is the returned
  \<^verbatim>\<open>null\<close>. Ids and times are arguments.
\<close>

subsection \<open>Tables\<close>

record balanceRow =
  bl_address :: string
  bl_balance :: int
  bl_held :: int
  bl_updatedAt :: int

datatype txSource = Stripe | Crypto | Promo

datatype txType = CreditTx | DebitTx

record transaction =
  tx_id :: string
  tx_address :: string
  tx_type :: txType
  tx_amount :: rat
  tx_source :: "txSource option"
  tx_workload :: "string option"
  tx_timestamp :: int

record bank =
  bnk_rows :: "balanceRow list"
  bnk_txs :: "transaction list"

datatype balance_error = NotPositive | BadUcld int | InsufficientCld rat rat | InsufficientRace

definition bal_normalizeAddress :: "string \<Rightarrow> string" where
  "bal_normalizeAddress a = trim (toLowerCase a)"

definition UCLD_PER_CLD :: int where
  "UCLD_PER_CLD = 1000000"

definition cldToUcld :: "rat \<Rightarrow> int" where
  "cldToUcld cld = js_round (dbl (cld * of_int UCLD_PER_CLD))"

definition ucldToCld :: "int \<Rightarrow> rat" where
  "ucldToCld ucld = dbl (of_int ucld / of_int UCLD_PER_CLD)"

definition assertUcld :: "int \<Rightarrow> bool" where
  "assertUcld ucld \<longleftrightarrow> \<bar>ucld\<bar> \<le> MAX_SAFE_INTEGER \<and> 0 < ucld"

subsection \<open>Reading and the statements on the balances table\<close>

definition balance_row :: "string \<Rightarrow> balanceRow list \<Rightarrow> balanceRow option" where
  "balance_row key rows = find (\<lambda>r. bl_address r = key) rows"

definition getBalanceUcld :: "string \<Rightarrow> balanceRow list \<Rightarrow> int \<times> int" where
  "getBalanceUcld address rows = (case balance_row (bal_normalizeAddress address) rows of
     None \<Rightarrow> (0, 0) | Some r \<Rightarrow> (bl_balance r, bl_held r))"

definition getUserBalance :: "string \<Rightarrow> int \<Rightarrow> balanceRow list \<Rightarrow> string \<times> rat \<times> int" where
  "getUserBalance address now rows =
     (let key = bal_normalizeAddress address in
      case balance_row key rows of Some r \<Rightarrow> (bl_address r, ucldToCld (bl_balance r), bl_updatedAt r) | None \<Rightarrow> (key, 0, now))"

definition upsert_credit :: "string \<Rightarrow> int \<Rightarrow> int \<Rightarrow> balanceRow list \<Rightarrow> balanceRow list" where
  "upsert_credit key ucld now rows =
     (if balance_row key rows = None
      then rows @ [\<lparr>bl_address = key, bl_balance = ucld, bl_held = 0, bl_updatedAt = now\<rparr>]
      else update_where (\<lambda>r. bl_address r = key) (\<lambda>r. r\<lparr>bl_balance := bl_balance r + ucld, bl_updatedAt := now\<rparr>) rows)"

definition creditUcld :: "string \<Rightarrow> int \<Rightarrow> int \<Rightarrow> balanceRow list \<Rightarrow> balance_error + balanceRow list \<times> int" where
  "creditUcld address ucld now rows =
     (if \<not> assertUcld ucld then Inl (BadUcld ucld)
      else (let rows' = upsert_credit (bal_normalizeAddress address) ucld now rows in
        Inr (rows', case balance_row (bal_normalizeAddress address) rows' of Some r \<Rightarrow> bl_balance r | None \<Rightarrow> ucld)))"

text \<open>
  The three conditional updates. The row the statement matches is the address with enough spendable (for \<open>hold\<close>) or held
  (for \<open>capture\<close> and \<open>release\<close>) funds.
\<close>

definition spendable :: "string \<Rightarrow> int \<Rightarrow> balanceRow \<Rightarrow> bool" where
  "spendable key ucld r \<longleftrightarrow> bl_address r = key \<and> ucld \<le> bl_balance r"

definition covers_hold :: "string \<Rightarrow> int \<Rightarrow> balanceRow \<Rightarrow> bool" where
  "covers_hold key ucld r \<longleftrightarrow> bl_address r = key \<and> ucld \<le> bl_held r"

definition hold_row :: "int \<Rightarrow> int \<Rightarrow> balanceRow \<Rightarrow> balanceRow" where
  "hold_row ucld now r = r\<lparr>bl_balance := bl_balance r - ucld, bl_held := bl_held r + ucld, bl_updatedAt := now\<rparr>"

definition capture_row :: "int \<Rightarrow> int \<Rightarrow> balanceRow \<Rightarrow> balanceRow" where
  "capture_row ucld now r = r\<lparr>bl_held := bl_held r - ucld, bl_updatedAt := now\<rparr>"

definition release_row :: "int \<Rightarrow> int \<Rightarrow> balanceRow \<Rightarrow> balanceRow" where
  "release_row ucld now r = r\<lparr>bl_held := bl_held r - ucld, bl_balance := bl_balance r + ucld, bl_updatedAt := now\<rparr>"

definition hold :: "string \<Rightarrow> int \<Rightarrow> int \<Rightarrow> balanceRow list \<Rightarrow> balance_error + balanceRow list \<times> (int \<times> int) option" where
  "hold address ucld now rows =
     (if \<not> assertUcld ucld then Inl (BadUcld ucld)
      else (let P = spendable (bal_normalizeAddress address) ucld in
        Inr (update_where P (hold_row ucld now) rows,
             map_option (\<lambda>r. (bl_balance (hold_row ucld now r), bl_held (hold_row ucld now r))) (find P rows))))"

definition capture :: "string \<Rightarrow> int \<Rightarrow> int \<Rightarrow> balanceRow list \<Rightarrow> balance_error + balanceRow list \<times> bool" where
  "capture address ucld now rows =
     (if \<not> assertUcld ucld then Inl (BadUcld ucld)
      else (let P = covers_hold (bal_normalizeAddress address) ucld in
        Inr (update_where P (capture_row ucld now) rows, changes P rows > 0)))"

definition release :: "string \<Rightarrow> int \<Rightarrow> int \<Rightarrow> balanceRow list \<Rightarrow> balance_error + balanceRow list \<times> bool" where
  "release address ucld now rows =
     (if \<not> assertUcld ucld then Inl (BadUcld ucld)
      else (let P = covers_hold (bal_normalizeAddress address) ucld in
        Inr (update_where P (release_row ucld now) rows, changes P rows > 0)))"

subsection \<open>The functions that speak CLD\<close>

definition credit_tx :: "string \<Rightarrow> string \<Rightarrow> rat \<Rightarrow> txSource \<Rightarrow> int \<Rightarrow> transaction" where
  "credit_tx txId key amount source now = \<lparr>tx_id = txId, tx_address = key, tx_type = CreditTx, tx_amount = amount,
     tx_source = Some source, tx_workload = None, tx_timestamp = now\<rparr>"

text \<open>The two statements, applied together as the batch the callers run.\<close>

definition creditBalanceStatements :: "string \<Rightarrow> string \<Rightarrow> rat \<Rightarrow> txSource \<Rightarrow> int \<Rightarrow> balance_error + transaction \<times> (bank \<Rightarrow> bank)" where
  "creditBalanceStatements txId address amount source now =
     (if amount \<le> 0 then Inl NotPositive
      else (let key = bal_normalizeAddress address; ucld = cldToUcld amount; tx = credit_tx txId key amount source now in
        if \<not> assertUcld ucld then Inl (BadUcld ucld)
        else Inr (tx, \<lambda>b. \<lparr>bnk_rows = upsert_credit key ucld now (bnk_rows b), bnk_txs = bnk_txs b @ [tx]\<rparr>)))"

definition creditBalance :: "string \<Rightarrow> string \<Rightarrow> rat \<Rightarrow> txSource \<Rightarrow> int \<Rightarrow> bank \<Rightarrow> balance_error + bank \<times> rat \<times> transaction" where
  "creditBalance txId address amount source now b =
     (if amount \<le> 0 then Inl NotPositive
      else (let key = bal_normalizeAddress address in
        case creditBalanceStatements txId key amount source now of Inl e \<Rightarrow> Inl e
        | Inr (tx, stmts) \<Rightarrow> (let b' = stmts b in Inr (b', ucldToCld (fst (getBalanceUcld key (bnk_rows b'))), tx))))"

definition debitBalance :: "string \<Rightarrow> string \<Rightarrow> rat \<Rightarrow> string \<Rightarrow> int \<Rightarrow> bank \<Rightarrow> balance_error + bank \<times> rat \<times> transaction" where
  "debitBalance txId address amount workloadId now b =
     (if amount \<le> 0 then Inl NotPositive
      else (let key = bal_normalizeAddress address; ucld = cldToUcld amount;
                current = fst (getBalanceUcld key (bnk_rows b)); P = spendable key ucld in
        if current < ucld then Inl (InsufficientCld amount (ucldToCld current))
        else (case find P (bnk_rows b) of None \<Rightarrow> Inl InsufficientRace
          | Some r \<Rightarrow>
              (let tx = \<lparr>tx_id = txId, tx_address = key, tx_type = DebitTx, tx_amount = amount, tx_source = None,
                         tx_workload = Some workloadId, tx_timestamp = now\<rparr> in
               Inr (\<lparr>bnk_rows = update_where P (\<lambda>r. r\<lparr>bl_balance := bl_balance r - ucld, bl_updatedAt := now\<rparr>) (bnk_rows b),
                     bnk_txs = bnk_txs b @ [tx]\<rparr>,
                    ucldToCld (bl_balance r - ucld), tx)))))"

text \<open>The newest first; SQL leaves the order of equal timestamps open, the model keeps insertion order.\<close>

definition getTransactionHistory :: "string \<Rightarrow> nat \<Rightarrow> nat \<Rightarrow> transaction list \<Rightarrow> transaction list \<times> nat" where
  "getTransactionHistory address limit offset txs =
     (let mine = filter (\<lambda>t. tx_address t = bal_normalizeAddress address) txs in
      (take limit (drop offset (sort_by (\<lambda>a b. tx_timestamp b - tx_timestamp a) mine)), length mine))"

subsection \<open>Keyed tables\<close>

text \<open>An update whose condition fixes the key of a row rewrites at most one row of a table with unique keys.\<close>

lemma map_update_where: "(\<And>r. k (f r) = k r) \<Longrightarrow> map k (update_where P f rows) = map k rows"
  by (induction rows) (auto simp: update_where_def)

lemma update_where_none: "find P rows = None \<Longrightarrow> update_where P f rows = rows"
  by (induction rows) (auto simp: update_where_def split: if_splits)

lemma sum_update_keyed:
  fixes g :: "'a \<Rightarrow> int"
  assumes "distinct (map k rows)" and "\<And>r. P r \<Longrightarrow> k r = key"
  shows "sum_list (map g (update_where P f rows))
    = sum_list (map g rows) + (case find P rows of None \<Rightarrow> 0 | Some r \<Rightarrow> g (f r) - g r)"
  using assms(1)
proof (induction rows)
  case (Cons r rows)
  then have IH: "sum_list (map g (update_where P f rows)) = sum_list (map g rows) + (case find P rows of None \<Rightarrow> 0 | Some r \<Rightarrow> g (f r) - g r)"
    by simp
  have "find P rows = None" if "P r" using that Cons.prems assms(2) by (auto simp: find_None_iff)
  then show ?case using IH by (cases "P r") (simp_all add: update_where_def)
qed (simp add: update_where_def)

lemma changes_find: "changes P rows > 0 \<longleftrightarrow> find P rows \<noteq> None"
  by (induction rows) (auto simp: changes_def)

lemma find_SomeD: "find P rows = Some r \<Longrightarrow> r \<in> set rows \<and> P r"
  by (induction rows) (auto split: if_splits)

subsection \<open>Balances are never negative and always account for what went in and out\<close>

definition bal_inv :: "balanceRow list \<Rightarrow> bool" where
  "bal_inv rows \<longleftrightarrow> distinct (map bl_address rows) \<and> (\<forall>r \<in> set rows. 0 \<le> bl_balance r \<and> 0 \<le> bl_held r)"

definition bal_total :: "balanceRow list \<Rightarrow> int" where
  "bal_total rows = sum_list (map (\<lambda>r. bl_balance r + bl_held r) rows)"

lemma row_sel [simp]: "bl_address (hold_row u t r) = bl_address r" "bl_address (capture_row u t r) = bl_address r"
  "bl_address (release_row u t r) = bl_address r"
  "bl_balance (hold_row u t r) = bl_balance r - u" "bl_held (hold_row u t r) = bl_held r + u"
  "bl_balance (capture_row u t r) = bl_balance r" "bl_held (capture_row u t r) = bl_held r - u"
  "bl_balance (release_row u t r) = bl_balance r + u" "bl_held (release_row u t r) = bl_held r - u"
  by (simp_all add: hold_row_def capture_row_def release_row_def)

lemma keyed_conds: "spendable key u r \<Longrightarrow> bl_address r = key" "covers_hold key u r \<Longrightarrow> bl_address r = key"
  by (simp_all add: spendable_def covers_hold_def)

text \<open>A row update that keeps the address and does not go below zero where it applies.\<close>

lemma bal_inv_update:
  assumes "bal_inv rows" and "\<And>r. bl_address (f r) = bl_address r"
    and "\<And>r. P r \<Longrightarrow> 0 \<le> bl_balance r \<Longrightarrow> 0 \<le> bl_held r \<Longrightarrow> 0 \<le> bl_balance (f r) \<and> 0 \<le> bl_held (f r)"
  shows "bal_inv (update_where P f rows)"
  using assms by (auto simp: bal_inv_def map_update_where) (auto simp: update_where_def)

lemma upsert_credit_ok:
  assumes "bal_inv rows" and "0 \<le> u"
  shows "bal_inv (upsert_credit key u now rows)" and "bal_total (upsert_credit key u now rows) = bal_total rows + u"
proof -
  have d: "distinct (map bl_address rows)" using assms(1) by (simp add: bal_inv_def)
  show "bal_inv (upsert_credit key u now rows)"
    using assms by (auto simp: upsert_credit_def intro!: bal_inv_update)
      (auto simp: bal_inv_def balance_row_def find_None_iff)
  show "bal_total (upsert_credit key u now rows) = bal_total rows + u"
    using d by (auto simp: upsert_credit_def bal_total_def balance_row_def sum_update_keyed[where k = bl_address and key = key] split: option.splits)
qed

lemma bal_total_update:
  assumes "bal_inv rows" and "\<And>r. P r \<Longrightarrow> bl_address r = key"
  shows "bal_total (update_where P f rows) = bal_total rows
    + (case find P rows of None \<Rightarrow> 0 | Some r \<Rightarrow> bl_balance (f r) + bl_held (f r) - (bl_balance r + bl_held r))"
proof -
  have "distinct (map bl_address rows)" using assms(1) by (simp add: bal_inv_def)
  from sum_update_keyed[OF this, of P key "\<lambda>r. bl_balance r + bl_held r" f] assms(2) show ?thesis by (simp add: bal_total_def)
qed

lemmas bal_total_hold = bal_total_update[where P = "spendable key u" and key = key for key u, OF _ keyed_conds(1)]
lemmas bal_total_held = bal_total_update[where P = "covers_hold key u" and key = key for key u, OF _ keyed_conds(2)]

lemma hold_ok:
  assumes "bal_inv rows" and "hold a u now rows = Inr (rows', res)"
  shows "bal_inv rows' \<and> bal_total rows' = bal_total rows"
proof -
  let ?P = "spendable (bal_normalizeAddress a) u"
  have u: "0 < u" and rows': "rows' = update_where ?P (hold_row u now) rows"
    using assms(2) by (auto simp: hold_def Let_def assertUcld_def split: if_splits)
  have "bal_inv rows'" unfolding rows' by (rule bal_inv_update[OF assms(1)]) (use u in \<open>auto simp: spendable_def\<close>)
  then show ?thesis using bal_total_hold[OF assms(1)] by (simp add: rows' split: option.splits)
qed

lemma release_ok:
  assumes "bal_inv rows" and "release a u now rows = Inr (rows', ok)"
  shows "bal_inv rows' \<and> bal_total rows' = bal_total rows"
proof -
  let ?P = "covers_hold (bal_normalizeAddress a) u"
  have u: "0 < u" and rows': "rows' = update_where ?P (release_row u now) rows"
    using assms(2) by (auto simp: release_def Let_def assertUcld_def split: if_splits)
  have "bal_inv rows'" unfolding rows' by (rule bal_inv_update[OF assms(1)]) (use u in \<open>auto simp: covers_hold_def\<close>)
  then show ?thesis using bal_total_held[OF assms(1)] by (simp add: rows' split: option.splits)
qed

lemma capture_ok:
  assumes "bal_inv rows" and "capture a u now rows = Inr (rows', ok)"
  shows "bal_inv rows' \<and> bal_total rows' = bal_total rows - (if ok then u else 0)"
proof -
  let ?P = "covers_hold (bal_normalizeAddress a) u"
  have u: "0 < u" and rows': "rows' = update_where ?P (capture_row u now) rows" and ok: "ok \<longleftrightarrow> find ?P rows \<noteq> None"
    using assms(2) by (auto simp: capture_def Let_def assertUcld_def changes_find split: if_splits)
  have "bal_inv rows'" unfolding rows' by (rule bal_inv_update[OF assms(1)]) (use u in \<open>auto simp: covers_hold_def\<close>)
  then show ?thesis using bal_total_held[OF assms(1)] ok by (auto simp: rows' split: option.splits)
qed

lemma cldToUcld_nonneg: "0 \<le> amount \<Longrightarrow> 0 \<le> cldToUcld amount"
  unfolding cldToUcld_def by (simp add: js_round_def dbl_nonneg UCLD_PER_CLD_def)

lemma debit_ok:
  assumes "bal_inv (bnk_rows b)" and "debitBalance i a amount w now b = Inr (b', r)"
  shows "bal_inv (bnk_rows b') \<and> bal_total (bnk_rows b') = bal_total (bnk_rows b) - cldToUcld amount"
proof -
  let ?u = "cldToUcld amount"
  let ?P = "spendable (bal_normalizeAddress a) ?u" and ?f = "\<lambda>r. r\<lparr>bl_balance := bl_balance r - cldToUcld amount, bl_updatedAt := now\<rparr>"
  have b': "bnk_rows b' = update_where ?P ?f (bnk_rows b)" and hit: "find ?P (bnk_rows b) \<noteq> None"
    using assms(2) by (auto simp: debitBalance_def Let_def split: if_splits option.splits)
  have "bal_inv (bnk_rows b')" unfolding b' by (rule bal_inv_update[OF assms(1)]) (auto simp: spendable_def)
  then show ?thesis using bal_total_hold[OF assms(1)] hit by (auto simp: b' split: option.splits)
qed

lemma creditBalance_ok:
  assumes "bal_inv (bnk_rows b)" and "creditBalance i a amount src now b = Inr (b', r)"
  shows "bal_inv (bnk_rows b') \<and> bal_total (bnk_rows b') = bal_total (bnk_rows b) + cldToUcld amount"
proof -
  obtain key where key: "bnk_rows b' = upsert_credit key (cldToUcld amount) now (bnk_rows b)" and u: "0 < cldToUcld amount"
    using assms(2) by (auto simp: creditBalance_def creditBalanceStatements_def Let_def assertUcld_def split: if_splits sum.splits)
  show ?thesis unfolding key using upsert_credit_ok[OF assms(1)] u by simp
qed

text \<open>
  Every sequence of balance operations, with what it credited (\<open>paid_in\<close>) and what it captured or debited (\<open>spent\<close>).
  An operation that throws or reports insufficient funds leaves the tables as they were.
\<close>

inductive bank_run :: "bank \<Rightarrow> int \<Rightarrow> int \<Rightarrow> bool" where
  bank_start: "bank_run \<lparr>bnk_rows = [], bnk_txs = []\<rparr> 0 0"
| bank_credit: "bank_run b i p \<Longrightarrow> creditUcld a u now (bnk_rows b) = Inr (rows', n) \<Longrightarrow> bank_run (b\<lparr>bnk_rows := rows'\<rparr>) (i + u) p"
| bank_deposit: "bank_run b i p \<Longrightarrow> creditBalance t a amount src now b = Inr (b', r) \<Longrightarrow> bank_run b' (i + cldToUcld amount) p"
| bank_hold: "bank_run b i p \<Longrightarrow> hold a u now (bnk_rows b) = Inr (rows', res) \<Longrightarrow> bank_run (b\<lparr>bnk_rows := rows'\<rparr>) i p"
| bank_release: "bank_run b i p \<Longrightarrow> release a u now (bnk_rows b) = Inr (rows', ok) \<Longrightarrow> bank_run (b\<lparr>bnk_rows := rows'\<rparr>) i p"
| bank_capture: "bank_run b i p \<Longrightarrow> capture a u now (bnk_rows b) = Inr (rows', ok)
    \<Longrightarrow> bank_run (b\<lparr>bnk_rows := rows'\<rparr>) i (p + (if ok then u else 0))"
| bank_debit: "bank_run b i p \<Longrightarrow> debitBalance t a amount w now b = Inr (b', r) \<Longrightarrow> bank_run b' i (p + cldToUcld amount)"

text \<open>
  C32. Money is conserved: after any sequence of balance operations every address has one row, no spendable or held amount
  is negative, and the sum over all rows is what was credited less what was captured or debited; holding and releasing
  only move it.
\<close>

theorem balances_account:
  assumes "bank_run b paid_in spent"
  shows "bal_inv (bnk_rows b) \<and> bal_total (bnk_rows b) = paid_in - spent"
  using assms
proof induction
  case bank_start
  show ?case by (simp add: bal_inv_def bal_total_def)
next
  case (bank_credit b i p a u now rows' n)
  then have u: "0 \<le> u" "rows' = upsert_credit (bal_normalizeAddress a) u now (bnk_rows b)"
    by (auto simp: creditUcld_def Let_def assertUcld_def split: if_splits)
  then show ?case using upsert_credit_ok[of "bnk_rows b" u] bank_credit.IH by simp
next
  case (bank_deposit b i p t a amount src now b' r)
  then show ?case using creditBalance_ok[of b t a amount src now b' r] by simp
next
  case (bank_hold b i p a u now rows' res)
  then show ?case using hold_ok[of "bnk_rows b" a u now rows' res] by simp
next
  case (bank_release b i p a u now rows' ok)
  then show ?case using release_ok[of "bnk_rows b" a u now rows' ok] by simp
next
  case (bank_capture b i p a u now rows' ok)
  then show ?case using capture_ok[of "bnk_rows b" a u now rows' ok] by simp
next
  case (bank_debit b i p t a amount w now b' r)
  then show ?case using debit_ok[of b t a amount w now b' r] by simp
qed

theorem balances_account_witness:
  "bal_total [\<lparr>bl_address = ''0xa'', bl_balance = 3, bl_held = 4, bl_updatedAt = 2\<rparr>] = 7 - 0"
proof -
  have "bank_run (\<lparr>bnk_rows = [], bnk_txs = []\<rparr>\<lparr>bnk_rows := [\<lparr>bl_address = ''0xa'', bl_balance = 7, bl_held = 0, bl_updatedAt = 1\<rparr>]\<rparr>) (0 + 7) 0"
    by (rule bank_credit[OF bank_start, where a = "''0xA''" and now = 1]) code_simp
  then have "bank_run (\<lparr>bnk_rows = [\<lparr>bl_address = ''0xa'', bl_balance = 7, bl_held = 0, bl_updatedAt = 1\<rparr>], bnk_txs = []\<rparr>
      \<lparr>bnk_rows := [\<lparr>bl_address = ''0xa'', bl_balance = 3, bl_held = 4, bl_updatedAt = 2\<rparr>]\<rparr>) 7 0"
    by (intro bank_hold[where a = "''0xa ''" and u = 4 and now = 2 and res = "Some (3, 4)"]) (simp, code_simp)
  from balances_account[OF this] show ?thesis by simp
qed

subsection \<open>CLD and \<mu>CLD\<close>

lemma dbl_close: "0 \<le> x \<Longrightarrow> \<bar>dbl x - x\<bar> \<le> x / 2 ^ 53"
proof (cases "x = 0")
  case False
  assume "0 \<le> x"
  with False have x: "0 < x" by simp
  have "\<bar>dbl x - x\<bar> \<le> 2 powi (ilog2 x - 52) / 2" by (rule dbl_error[OF x])
  also have "\<dots> \<le> x / 2 ^ 52 / 2" by (intro divide_right_mono ulp_le x) simp
  finally show ?thesis by simp
qed simp

lemma js_round_close: "\<bar>x - of_int k\<bar> < 1 / 2 \<Longrightarrow> js_round x = k"
  unfolding js_round_def by (rule floor_unique) linarith+

text \<open>
  Amounts survive the detour through CLD: any amount of \<open>\<mu>\<close>CLD below \<open>2^50\<close> (more than the whole supply of
  \<open>10^15\<close>) that is divided by a million for an API response and multiplied and rounded back is the same integer, although
  both conversions round to doubles.
\<close>

theorem cld_roundtrip:
  assumes "0 \<le> u" and "u < 2 ^ 50"
  shows "cldToUcld (ucldToCld u) = u"
proof -
  let ?x = "rat_of_int u" and ?M = "10 ^ 6 :: rat"
  have x: "0 \<le> ?x" "?x < 2 ^ 50" using assms by (simp_all add: of_int_less_iff[of u "2 ^ 50", symmetric] del: of_int_less_iff)
  let ?q = "dbl (?x / ?M)"
  have q0: "0 \<le> ?q" using x(1) by (intro dbl_nonneg) simp
  have q: "\<bar>?q - ?x / ?M\<bar> \<le> ?x / ?M / 2 ^ 53" using x(1) by (intro dbl_close) simp
  have "\<bar>?q - ?x / ?M\<bar> * ?M \<le> ?x / ?M / 2 ^ 53 * ?M" by (rule mult_right_mono[OF q]) simp
  moreover have "\<bar>?q - ?x / ?M\<bar> * ?M = \<bar>(?q - ?x / ?M) * ?M\<bar>" by (simp only: abs_mult) simp
  moreover have "(?q - ?x / ?M) * ?M = ?q * ?M - ?x" by (simp add: left_diff_distrib)
  ultimately have y: "\<bar>?q * ?M - ?x\<bar> \<le> ?x / 2 ^ 53" by simp
  have "\<bar>dbl (?q * ?M) - ?q * ?M\<bar> \<le> ?q * ?M / 2 ^ 53" using q0 by (intro dbl_close) simp
  moreover have "?q * ?M \<le> 2 * ?x"
  proof -
    have "?q * ?M - ?x \<le> ?x / 2 ^ 53" using y by (rule abs_le_D1)
    moreover have "?x / 2 ^ 53 \<le> ?x" using x(1) by simp
    ultimately show ?thesis by linarith
  qed
  then have "?q * ?M / 2 ^ 53 \<le> 2 * ?x / 2 ^ 53" by (rule divide_right_mono) simp
  ultimately have "\<bar>dbl (?q * ?M) - ?q * ?M\<bar> + \<bar>?q * ?M - ?x\<bar> \<le> 2 * ?x / 2 ^ 53 + ?x / 2 ^ 53" using y by linarith
  then have "\<bar>dbl (?q * ?M) - ?x\<bar> \<le> 3 * ?x / 2 ^ 53" by linarith
  also have "\<dots> < 1 / 2" using x(2) by (simp add: field_simps)
  finally show ?thesis by (simp add: cldToUcld_def ucldToCld_def UCLD_PER_CLD_def js_round_close)
qed

theorem cld_roundtrip_witness: "cldToUcld (ucldToCld 123456789012345) = 123456789012345"
  by (rule cld_roundtrip) simp_all

end
