(* ===== verification/Segments.thy ===== *)
theory Segments
  imports Freivalds EpochMerkle
begin

text \<open>
  The general verification interface (\<^verbatim>\<open>shared/verification.ts\<close>): tensors and their hashes, a job's fixed plan of
  segments, the commitment a node submits, the bind check \<^verbatim>\<open>checkCommitment\<close> and the check \<^verbatim>\<open>checkOpening\<close> of a
  segment that the API drew. What a node sends is untrusted: its numbers are rationals (a JavaScript number that is not
  an integer is refused), and a field that may be absent or of another type is an option. After \<^verbatim>\<open>validTensor\<close> a
  tensor is read as integers (\<open>ints\<close>). SHA-256 and the random bytes are parameters; \<open>None\<close> is an exception.

  \<open>work_type\<close> is the interface of a challenge work type: its laws say that the plan, the kernels and the
  execution fit together. From them: an honest node's commitment and every opening of it are accepted; and an accepted
  opening of an element-wise segment is the recomputed one, of a product segment is \<open>A B + bias\<close> unless the random
  vector is one of the at most one in \<open>p\<close> that do not tell, in both cases up to a SHA-256 collision.
\<close>

subsection \<open>Data\<close>

datatype segmentKind = Gemm | Elementwise | Opaque

fun kind_str :: "segmentKind \<Rightarrow> string" where
  "kind_str Gemm = ''gemm''"
| "kind_str Elementwise = ''elementwise''"
| "kind_str Opaque = ''opaque''"

text \<open>\<^verbatim>\<open>`in:${string}` | `seg:${number}`\<close>.\<close>

datatype tensorRef = InRef string | SegRef nat

fun ref_str :: "tensorRef \<Rightarrow> string" where
  "ref_str (InRef name) = ''in:'' @ name"
| "ref_str (SegRef i) = ''seg:'' @ dec_digits i"

record 'n tensor =
  tn_dtype :: string
  tn_shape :: "'n list"
  tn_data :: "'n list"

record tensorSig =
  sg_dtype :: string
  sg_shape :: "int list"

record segmentSpec =
  sp_idx :: nat
  sp_kind :: segmentKind
  sp_op :: string
  sp_inputs :: "tensorRef list"

text \<open>A submitted segment: its index and hash, where present.\<close>

record commitment =
  cm_inputHash :: string
  cm_outputHash :: "string option"
  cm_chainRoot :: string
  cm_segments :: "(rat option \<times> string option) list"

record segmentOpening =
  so_idx :: "rat option"
  so_tensors :: "(tensorRef \<times> rat tensor) list option"

datatype stage = StTranscript | StSegment | StTimeout

datatype reason = CommitmentMissing | InputHashMismatch | SegmentsMismatch | ChainRootMismatch | ResultMalformed | OutputHashMismatch
  | OpeningMissing nat | SignatureMismatch nat | JobInputMalformed nat tensorRef | OpeningMismatch nat tensorRef
  | GemmDimensions nat | OutputOutOfRange nat | FreivaldsFailed nat | KernelOutput nat | RecomputeDiffers nat | ReexecutionDiffers nat
  | Refusal string

datatype verdict = Accept | Reject reason "stage option"

definition isCaught :: "verdict \<Rightarrow> bool" where
  "isCaught v = (case v of Accept \<Rightarrow> False | Reject _ st \<Rightarrow> st \<noteq> None)"

definition vf_P :: int where
  "vf_P = 1000000007"

definition vf_HALF_P :: int where
  "vf_HALF_P = (vf_P - 1) div 2"

definition RANGE :: "string \<Rightarrow> int \<times> int" where
  "RANGE dtype = (if dtype = ''i8'' then (-128, 127) else (- (2 ^ 31), 2 ^ 31 - 1))"

subsection \<open>Tensors\<close>

text \<open>
  The product of the shape is formed in doubles; a rounded product is at least \<open>2^53\<close> and no array has that length.
\<close>

definition validTensor :: "rat tensor \<Rightarrow> bool" where
  "validTensor t =
     ((tn_dtype t = ''i8'' \<or> tn_dtype t = ''i32'')
      \<and> tn_shape t \<noteq> [] \<and> length (tn_shape t) \<le> 4 \<and> list_all (\<lambda>s. isInteger s \<and> s > 0) (tn_shape t)
      \<and> of_nat (length (tn_data t)) = prod_list (tn_shape t)
      \<and> (case RANGE (tn_dtype t) of (lo, hi) \<Rightarrow> list_all (\<lambda>v. isInteger v \<and> of_int lo \<le> v \<and> v \<le> of_int hi) (tn_data t)))"

definition ints :: "rat tensor \<Rightarrow> int tensor" where
  "ints t = \<lparr>tn_dtype = tn_dtype t, tn_shape = map floor (tn_shape t), tn_data = map floor (tn_data t)\<rparr>"

definition rats :: "int tensor \<Rightarrow> rat tensor" where
  "rats t = \<lparr>tn_dtype = tn_dtype t, tn_shape = map of_int (tn_shape t), tn_data = map of_int (tn_data t)\<rparr>"

fun join :: "string \<Rightarrow> string list \<Rightarrow> string" where
  "join sep [] = []"
| "join sep [x] = x"
| "join sep (x # y # ys) = x @ sep @ join sep (y # ys)"

text \<open>\<^verbatim>\<open>setInt8\<close> and little-endian \<^verbatim>\<open>setInt32\<close>.\<close>

definition le_bytes :: "nat \<Rightarrow> int \<Rightarrow> bytes" where
  "le_bytes width v = map (\<lambda>i. word_of_int (v div 256 ^ i)) [0..<width]"

definition tensor_head :: "int tensor \<Rightarrow> string" where
  "tensor_head t = ''cldt1|'' @ tn_dtype t @ ''|'' @ join ''x'' (map (\<lambda>s. dec_digits (nat s)) (tn_shape t)) @ ''|''"

definition tensor_bytes :: "int tensor \<Rightarrow> bytes" where
  "tensor_bytes t =
     (let width = (if tn_dtype t = ''i8'' then 1 else 4) in utf8 (tensor_head t) @ concat (map (le_bytes width) (tn_data t)))"

definition tensorHash :: "digest \<Rightarrow> int tensor \<Rightarrow> string option" where
  "tensorHash H t = (if validTensor (rats t) then Some (hexdigest H (tensor_bytes t)) else None)"

type_synonym tensors = "(string \<times> int tensor) list"

definition sha256_text :: "digest \<Rightarrow> string \<Rightarrow> string" where
  "sha256_text H s = hexdigest H (utf8 s)"

definition input_line :: "digest \<Rightarrow> tensors \<Rightarrow> string \<Rightarrow> string option" where
  "input_line H inputs name = (case map_of inputs name of None \<Rightarrow> None
     | Some t \<Rightarrow> map_option (\<lambda>h. name @ '':'' @ h) (tensorHash H t))"

definition inputHash :: "digest \<Rightarrow> tensors \<Rightarrow> string option" where
  "inputHash H inputs =
     map_option (\<lambda>ls. sha256_text H (join [CHR 0x0A] ls)) (opt_all (map (input_line H inputs) (sort_by compareHex (map fst inputs))))"

text \<open>\<^verbatim>\<open>outHashes[i]\<close> past the end prints as \<^verbatim>\<open>undefined\<close>.\<close>

definition chain_line :: "string \<Rightarrow> segmentSpec \<Rightarrow> string option \<Rightarrow> string" where
  "chain_line l s h = l @ ''|'' @ dec_digits (sp_idx s) @ ''|'' @ kind_str (sp_kind s) @ ''|'' @ sp_op s @ ''|''
     @ join '','' (map ref_str (sp_inputs s)) @ ''|'' @ (case h of None \<Rightarrow> ''undefined'' | Some x \<Rightarrow> x)"

fun chain_fold :: "digest \<Rightarrow> string \<Rightarrow> segmentSpec list \<Rightarrow> string list \<Rightarrow> nat \<Rightarrow> string" where
  "chain_fold H l [] hs i = l"
| "chain_fold H l (s # ss) hs i = chain_fold H (sha256_text H (chain_line l s (js_at hs i))) ss hs (Suc i)"

definition chainRoot :: "digest \<Rightarrow> string \<Rightarrow> string \<Rightarrow> segmentSpec list \<Rightarrow> string list \<Rightarrow> string" where
  "chainRoot H sigma inHash plan outHashes =
     chain_fold H (sha256_text H (''cldc1|'' @ sigma @ ''|'' @ inHash)) plan outHashes 0"

definition makeCommitment :: "digest \<Rightarrow> string \<Rightarrow> tensors \<Rightarrow> segmentSpec list \<Rightarrow> int tensor list \<Rightarrow> commitment option" where
  "makeCommitment H sigma inputs plan outputs =
     (case inputHash H inputs of None \<Rightarrow> None | Some inHash \<Rightarrow>
     (case opt_all (map (tensorHash H) outputs) of None \<Rightarrow> None | Some outHashes \<Rightarrow>
        Some \<lparr>cm_inputHash = inHash, cm_outputHash = (if outHashes = [] then None else Some (last outHashes)),
              cm_chainRoot = chainRoot H sigma inHash plan outHashes,
              cm_segments = map (\<lambda>(i, s). (Some (of_nat (sp_idx s)), js_at outHashes i)) (enumerate 0 plan)\<rparr>))"

definition hasSig :: "int tensor \<Rightarrow> tensorSig \<Rightarrow> bool" where
  "hasSig t s \<longleftrightarrow> tn_dtype t = sg_dtype s \<and> length (tn_shape t) = length (sg_shape s)
     \<and> list_all (\<lambda>(d, e). d = e) (zip (tn_shape t) (sg_shape s))"

datatype input_error = InputNames | InputSig string

fun check_names :: "tensors \<Rightarrow> (string \<times> tensorSig) list \<Rightarrow> string list \<Rightarrow> input_error option" where
  "check_names inputs expected [] = None"
| "check_names inputs expected (name # names) =
     (case (map_of inputs name, map_of expected name) of
        (Some t, Some s) \<Rightarrow> if \<not> validTensor (rats t) \<or> \<not> hasSig t s then Some (InputSig name) else check_names inputs expected names
      | _ \<Rightarrow> Some (InputSig name))"

definition checkInputs :: "tensors \<Rightarrow> (string \<times> tensorSig) list \<Rightarrow> input_error option" where
  "checkInputs inputs expected =
     (let names = sort_by compareHex (map fst expected) in
      if join '','' (sort_by compareHex (map fst inputs)) \<noteq> join '','' names then Some InputNames
      else check_names inputs expected names)"

subsection \<open>The bind check\<close>

text \<open>\<^verbatim>\<open>HEX64\<close>.\<close>

definition HEX64 :: "string \<Rightarrow> bool" where
  "HEX64 s = is_hex 64 s"

definition segment_bad :: "(rat option \<times> string option) \<times> segmentSpec \<Rightarrow> bool" where
  "segment_bad x = (case x of ((idx, outHash), spec) \<Rightarrow>
     idx \<noteq> Some (of_nat (sp_idx spec)) \<or> (case outHash of None \<Rightarrow> True | Some h \<Rightarrow> \<not> HEX64 h))"

definition checkCommitment :: "digest \<Rightarrow> string \<Rightarrow> tensors \<Rightarrow> segmentSpec list \<Rightarrow> commitment option \<Rightarrow> rat tensor option \<Rightarrow> tensorSig
    \<Rightarrow> verdict option" where
  "checkCommitment H sigma inputs plan c0 result resultSig =
     (case c0 of None \<Rightarrow> Some (Reject CommitmentMissing None) | Some c \<Rightarrow>
     (case inputHash H inputs of None \<Rightarrow> None | Some inHash \<Rightarrow>
      if cm_inputHash c \<noteq> inHash then Some (Reject InputHashMismatch None)
      else if length (cm_segments c) \<noteq> length plan \<or> list_ex segment_bad (zip (cm_segments c) plan)
      then Some (Reject SegmentsMismatch None)
      else
        (let outHashes = List.map_filter snd (cm_segments c) in
         if cm_chainRoot c \<noteq> chainRoot H sigma (cm_inputHash c) plan outHashes then Some (Reject ChainRootMismatch None)
         else (case result of None \<Rightarrow> Some (Reject ResultMalformed None)
           | Some r \<Rightarrow>
               if \<not> validTensor r \<or> \<not> hasSig (ints r) resultSig then Some (Reject ResultMalformed None)
               else (case tensorHash H (ints r) of None \<Rightarrow> None
                 | Some h \<Rightarrow>
                     if cm_outputHash c \<noteq> Some h \<or> cm_outputHash c \<noteq> (if outHashes = [] then None else Some (last outHashes))
                     then Some (Reject OutputHashMismatch None) else Some Accept)))))"

subsection \<open>The opening check\<close>

record gemmOperands =
  gm_A :: "int list"
  gm_B :: "int list"
  gm_bias :: "int list option"
  gm_m :: nat
  gm_k :: nat
  gm_n :: nat

record segmentKernel =
  kn_ins :: "tensorSig list"
  kn_out :: tensorSig
  kn_gemm :: "(int tensor list \<Rightarrow> gemmOperands option) option"
  kn_elementwise :: "(int tensor list \<Rightarrow> int tensor option) option"
  kn_opaque :: "(int tensor list \<Rightarrow> int tensor \<Rightarrow> bool) option"

text \<open>\<^verbatim>\<open>committed\<close> and \<^verbatim>\<open>served\<close>; the latter is a valid tensor with its signature that hashes to the commitment.\<close>

definition committed :: "commitment \<Rightarrow> nat \<Rightarrow> string option" where
  "committed c i = (case js_at (cm_segments c) i of None \<Rightarrow> None | Some (_, h) \<Rightarrow> h)"

definition served :: "digest \<Rightarrow> (tensorRef \<times> rat tensor) list \<Rightarrow> commitment \<Rightarrow> nat \<Rightarrow> tensorSig \<Rightarrow> int tensor option" where
  "served H ts c i sig = (case map_of ts (SegRef i) of None \<Rightarrow> None
     | Some t \<Rightarrow> if validTensor t \<and> hasSig (ints t) sig \<and> tensorHash H (ints t) = committed c i then Some (ints t) else None)"

text \<open>The inputs of a segment: a tensor each, or the verdict that ends the check.\<close>

fun open_inputs :: "digest \<Rightarrow> segmentSpec \<Rightarrow> (tensorRef \<times> rat tensor) list \<Rightarrow> commitment \<Rightarrow> tensors
    \<Rightarrow> tensorRef list \<Rightarrow> tensorSig list \<Rightarrow> verdict + int tensor list" where
  "open_inputs H spec ts c jobInputs [] sigs = Inr []"
| "open_inputs H spec ts c jobInputs (ref # refs) [] = Inl (Reject (SignatureMismatch (sp_idx spec)) None)"
| "open_inputs H spec ts c jobInputs (ref # refs) (sig # sigs) =
     (case (case ref of
          InRef name \<Rightarrow> (case map_of jobInputs name of None \<Rightarrow> Inl (Reject (JobInputMalformed (sp_idx spec) ref) None)
            | Some t \<Rightarrow> if \<not> validTensor (rats t) \<or> \<not> hasSig t sig then Inl (Reject (JobInputMalformed (sp_idx spec) ref) None) else Inr t)
        | SegRef j \<Rightarrow> (case served H ts c j sig of None \<Rightarrow> Inl (Reject (OpeningMismatch (sp_idx spec) ref) (Some StSegment)) | Some t \<Rightarrow> Inr t))
      of Inl v \<Rightarrow> Inl v
      | Inr t \<Rightarrow> (case open_inputs H spec ts c jobInputs refs sigs of Inl v \<Rightarrow> Inl v | Inr us \<Rightarrow> Inr (t # us)))"

definition sub_bias :: "int list option \<Rightarrow> nat \<Rightarrow> int list \<Rightarrow> int list" where
  "sub_bias bias n xs = map (\<lambda>i. case bias of None \<Rightarrow> xs ! i | Some b \<Rightarrow> xs ! i - b ! (i mod n)) [0..<length xs]"

definition check_gemm :: "(nat \<Rightarrow> nat \<Rightarrow> bytes) \<Rightarrow> nat \<Rightarrow> gemmOperands \<Rightarrow> int tensor \<Rightarrow> verdict option" where
  "check_gemm rnd idx g out =
     (if length (gm_A g) \<noteq> gm_m g * gm_k g \<or> length (gm_B g) \<noteq> gm_k g * gm_n g
         \<or> (case gm_bias g of None \<Rightarrow> False | Some b \<Rightarrow> length b \<noteq> gm_n g)
         \<or> tn_dtype out \<noteq> ''i32'' \<or> \<not> hasSig out \<lparr>sg_dtype = ''i32'', sg_shape = [int (gm_m g), int (gm_n g)]\<rparr>
      then Some (Reject (GemmDimensions idx) None)
      else if list_ex (\<lambda>v. \<bar>v\<bar> > vf_HALF_P) (tn_data out) then Some (Reject (OutputOutOfRange idx) (Some StSegment))
      else (case freivaldsRect (\<lambda>t. rnd t (gm_n g * 6)) (gm_A g) (gm_B g) (sub_bias (gm_bias g) (gm_n g) (tn_data out)) (gm_m g) (gm_k g) (gm_n g) 2 of
          None \<Rightarrow> None
        | Some ok \<Rightarrow> Some (if ok then Accept else Reject (FreivaldsFailed idx) (Some StSegment))))"

definition check_elementwise :: "digest \<Rightarrow> nat \<Rightarrow> int tensor \<Rightarrow> tensorSig \<Rightarrow> string option \<Rightarrow> verdict option" where
  "check_elementwise H idx want sig want_hash =
     (if \<not> hasSig want sig then Some (Reject (KernelOutput idx) None)
      else (case tensorHash H want of None \<Rightarrow> None
        | Some h \<Rightarrow> Some (if Some h = want_hash then Accept else Reject (RecomputeDiffers idx) (Some StSegment))))"

definition checkOpening :: "digest \<Rightarrow> (nat \<Rightarrow> nat \<Rightarrow> bytes) \<Rightarrow> segmentSpec \<Rightarrow> segmentOpening option \<Rightarrow> commitment \<Rightarrow> tensors \<Rightarrow> segmentKernel
    \<Rightarrow> verdict option" where
  "checkOpening H rnd spec o0 c jobInputs krn =
     (let idx = sp_idx spec; missing = Some (Reject (OpeningMissing idx) (Some StSegment)) in
      case o0 of None \<Rightarrow> missing
      | Some opn \<Rightarrow> (case so_tensors opn of None \<Rightarrow> missing
        | Some ts \<Rightarrow>
            if so_idx opn \<noteq> Some (of_nat idx) then missing
            else if length (kn_ins krn) \<noteq> length (sp_inputs spec) then Some (Reject (SignatureMismatch idx) None)
            else (case open_inputs H spec ts c jobInputs (sp_inputs spec) (kn_ins krn) of Inl v \<Rightarrow> Some v
              | Inr ins \<Rightarrow> (case served H ts c idx (kn_out krn) of
                    None \<Rightarrow> Some (Reject (OpeningMismatch idx (SegRef idx)) (Some StSegment))
                  | Some out \<Rightarrow> (case sp_kind spec of
                        Gemm \<Rightarrow> (case kn_gemm krn of None \<Rightarrow> None
                          | Some f \<Rightarrow> (case f ins of None \<Rightarrow> None | Some g \<Rightarrow> check_gemm rnd idx g out))
                      | Elementwise \<Rightarrow> (case kn_elementwise krn of None \<Rightarrow> None
                          | Some f \<Rightarrow> (case f ins of None \<Rightarrow> None | Some want \<Rightarrow> check_elementwise H idx want (kn_out krn) (committed c idx)))
                      | Opaque \<Rightarrow> (case kn_opaque krn of None \<Rightarrow> None
                          | Some f \<Rightarrow> Some (if f ins out then Accept else Reject (ReexecutionDiffers idx) (Some StSegment))))))))"

subsection \<open>Reading validated tensors\<close>

lemma ints_rats [simp]: "ints (rats t) = t"
  by (simp add: ints_def rats_def comp_def)

lemma rats_ints: "validTensor t \<Longrightarrow> rats (ints t) = t"
proof -
  have "map (\<lambda>x. of_int \<lfloor>x\<rfloor>) xs = xs" if "list_all isInteger xs" for xs :: "rat list"
    using that by (induction xs) (auto simp: isInteger_def)
  then show "validTensor t \<Longrightarrow> rats (ints t) = t"
    by (cases t) (auto simp: validTensor_def ints_def rats_def comp_def list_all_iff split: prod.splits)
qed

lemma hasSig_iff: "hasSig t s \<longleftrightarrow> tn_dtype t = sg_dtype s \<and> tn_shape t = sg_shape s"
proof -
  have "(xs = ys) = (length xs = length ys \<and> list_all (\<lambda>(d, e). d = e) (zip xs ys))" for xs ys :: "int list"
    by (auto simp: list_eq_iff_nth_eq list_all_length)
  then show ?thesis by (auto simp: hasSig_def)
qed

lemma isInteger_of_int [simp]: "isInteger (of_int x)"
  by (simp add: isInteger_def)

lemma prod_list_of_int: "prod_list (map rat_of_int xs) = of_int (prod_list xs)"
  by (induction xs) auto

lemma valid_rats_iff: "validTensor (rats t) \<longleftrightarrow> (tn_dtype t = ''i8'' \<or> tn_dtype t = ''i32'')
    \<and> tn_shape t \<noteq> [] \<and> length (tn_shape t) \<le> 4 \<and> (\<forall>s \<in> set (tn_shape t). 0 < s)
    \<and> int (length (tn_data t)) = prod_list (tn_shape t)
    \<and> (\<forall>v \<in> set (tn_data t). fst (RANGE (tn_dtype t)) \<le> v \<and> v \<le> snd (RANGE (tn_dtype t)))"
proof -
  have "rat_of_nat n = of_int m \<longleftrightarrow> int n = m" for n m
    by (metis of_int_eq_iff of_int_of_nat_eq)
  then show ?thesis
    by (auto simp: validTensor_def rats_def list_all_iff prod_list_of_int split: prod.splits)
qed

subsection \<open>The encoding is injective\<close>

lemma utf8_inj [simp]: "utf8 a = utf8 b \<longleftrightarrow> a = b"
proof -
  have "unat (of_char c :: 8 word) = of_char c" for c
  proof -
    have "unat (of_nat (of_char c) :: 8 word) = of_char c" by (simp only: unat_of_nat) simp
    then show ?thesis by (simp only: of_nat_of_char)
  qed
  then have "inj (of_char :: char \<Rightarrow> 8 word)" by (metis injI of_char_eq_iff)
  then show ?thesis by (simp add: utf8_def inj_map_eq_map)
qed

definition digit :: "char \<Rightarrow> bool" where
  "digit c \<longleftrightarrow> (\<exists>n < 10. c = hex_digit n)"

lemma dec_digits_digit: "list_all digit (dec_digits n)"
proof (induction n rule: dec_digits.induct)
  case (1 n)
  have "digit (hex_digit (n mod 10))" by (auto simp: digit_def intro: exI[of _ "n mod 10"])
  moreover have "digit (hex_digit n)" if "n < 10" using that by (auto simp: digit_def)
  ultimately show ?case using 1 by (subst dec_digits.simps) auto
qed

lemma dec_digits_ne [simp]: "dec_digits n \<noteq> []"
  by (subst dec_digits.simps) simp

definition dec_val :: "string \<Rightarrow> nat" where
  "dec_val s = foldl (\<lambda>a c. 10 * a + the (hex_val c)) 0 s"

lemma dec_val_digits [simp]: "dec_val (dec_digits n) = n"
proof (induction n rule: dec_digits.induct)
  case (1 n)
  then show ?case by (subst dec_digits.simps) (auto simp: dec_val_def)
qed

lemma dec_digits_inj [simp]: "dec_digits m = dec_digits n \<longleftrightarrow> m = n"
  by (metis dec_val_digits)

lemma digit_not_sep: "digit c \<Longrightarrow> c \<noteq> CHR ''|'' \<and> c \<noteq> CHR ''x'' \<and> c \<noteq> CHR ''@'' \<and> c \<noteq> CHR '','' \<and> c \<noteq> CHR ''_''"
proof -
  have "hex_digit n \<noteq> CHR ''|'' \<and> hex_digit n \<noteq> CHR ''x'' \<and> hex_digit n \<noteq> CHR ''@'' \<and> hex_digit n \<noteq> CHR '','' \<and> hex_digit n \<noteq> CHR ''_''" if "n < 16" for n
    using that by (rule less_16_cases) (simp_all add: hex_digit_def)
  then show "digit c \<Longrightarrow> ?thesis" by (auto simp: digit_def)
qed

lemma split_at_sep:
  assumes "xs @ c # r = ys @ c # s" and "c \<notin> set xs" and "c \<notin> set ys"
  shows "xs = ys \<and> r = s"
  using assms
proof (induction xs arbitrary: ys)
  case Nil
  then show ?case by (cases ys) auto
next
  case (Cons x xs)
  then show ?case by (cases ys) auto
qed

lemma join_inj:
  assumes "join [c] xs = join [c] ys" and "\<forall>x \<in> set xs \<union> set ys. c \<notin> set x" and "xs \<noteq> []" and "ys \<noteq> []"
  shows "xs = ys"
  using assms
proof (induction "[c]" xs arbitrary: ys rule: join.induct)
  case (2 x)
  then show ?case by (cases "([c], ys)" rule: join.cases) auto
next
  case (3 x y zs)
  show ?case
  proof (cases ys)
    case (Cons u us)
    with 3 show ?thesis
    proof (cases us)
      case (Cons w ws)
      with 3 \<open>ys = u # us\<close> have eq: "x @ c # join [c] (y # zs) = u @ c # join [c] (w # ws)" by simp
      have "c \<notin> set x" "c \<notin> set u" using 3(3) \<open>ys = u # us\<close> by auto
      with split_at_sep[OF eq] have "x = u" "join [c] (y # zs) = join [c] (w # ws)" by auto
      moreover have "y # zs = w # ws" by (rule 3(1)) (use 3(3) \<open>ys = u # us\<close> Cons calculation in auto)
      ultimately show ?thesis using \<open>ys = u # us\<close> Cons by simp
    qed auto
  qed (use 3 in auto)
qed simp

lemma le_bytes_inj:
  assumes "le_bytes w v = le_bytes w u" and "- (256 ^ w) \<le> 2 * v" and "2 * v < 256 ^ w" and "- (256 ^ w) \<le> 2 * u" and "2 * u < 256 ^ w"
  shows "v = u"
proof -
  have "v mod 256 ^ k = u mod 256 ^ k" if "k \<le> w" for k
    using that
  proof (induction k)
    case (Suc k)
    have "(word_of_int (v div 256 ^ k) :: 8 word) = word_of_int (u div 256 ^ k)"
      using assms(1) Suc.prems unfolding le_bytes_def by (simp add: list_eq_iff_nth_eq)
    then have "v div 256 ^ k mod 256 = u div 256 ^ k mod 256" by (simp add: word_of_int_eq_iff take_bit_eq_mod)
    moreover have "x mod 256 ^ Suc k = 256 ^ k * (x div 256 ^ k mod 256) + x mod 256 ^ k" for x :: int
      using zmod_zmult2_eq[of 256 x "256 ^ k"] by (simp add: mult.commute)
    ultimately show ?case using Suc by simp
  qed simp
  then have "256 ^ w dvd v - u" by (simp add: mod_eq_dvd_iff)
  moreover have "\<bar>v - u\<bar> < 256 ^ w" using assms by linarith
  ultimately show ?thesis by (metis abs_dvd_iff dvd_abs_iff eq_iff_diff_eq_0 zdvd_not_zless abs_ge_zero linorder_neqE_linordered_idom not_less zero_less_abs_iff)
qed

lemma concat_inj_width:
  assumes "concat (map f xs) = concat (map f ys)" and "\<And>x. length (f x) = w" and "length xs = length ys"
    and "\<And>x y. x \<in> set xs \<Longrightarrow> y \<in> set ys \<Longrightarrow> f x = f y \<Longrightarrow> x = y"
  shows "xs = ys"
  using assms(1,3,4)
proof (induction xs arbitrary: ys)
  case (Cons x xs)
  then obtain y zs where ys: "ys = y # zs" by (cases ys) auto
  have "f x = f y \<and> concat (map f xs) = concat (map f zs)" using Cons.prems(1) ys assms(2) by simp
  then show ?case using Cons ys by auto
qed simp

lemma tensor_bytes_7:
  assumes "tn_dtype t = ''i8'' \<or> tn_dtype t = ''i32''"
  shows "tensor_bytes t ! 7 = of_char (if tn_dtype t = ''i8'' then CHR ''8'' else CHR ''3'')" and "7 < length (tensor_bytes t)"
  using assms unfolding tensor_bytes_def tensor_head_def utf8_def Let_def by (elim disjE; simp)+

lemma tensor_bytes_inj:
  assumes v: "validTensor (rats t)" "validTensor (rats u)" and eq: "tensor_bytes t = tensor_bytes u"
  shows "t = u"
proof -
  let ?sh = "\<lambda>t. join ''x'' (map (\<lambda>s. dec_digits (nat s)) (tn_shape t))"
  let ?w = "\<lambda>t. if tn_dtype t = ''i8'' then 1 else 4 :: nat"
  let ?body = "\<lambda>t. concat (map (le_bytes (?w t)) (tn_data t))"
  note V = v[unfolded valid_rats_iff]
  have bytes: "tensor_bytes x = utf8 (''cldt1|'' @ tn_dtype x @ ''|'') @ utf8 (?sh x) @ of_char CHR ''|'' # ?body x" for x
    by (simp add: tensor_bytes_def tensor_head_def utf8_def)
  have "of_char CHR ''8'' \<noteq> (of_char CHR ''3'' :: 8 word)" by simp
  then have dt: "tn_dtype t = tn_dtype u"
    using tensor_bytes_7(1)[of t] tensor_bytes_7(1)[of u] V eq by (auto split: if_splits)
  have sep: "of_char CHR ''|'' \<notin> set (utf8 (?sh x))" for x
  proof -
    have "CHR ''|'' \<notin> set (join ''x'' ss)" if "\<forall>s \<in> set ss. list_all digit s" for ss
      using that digit_not_sep by (induction "''x''" ss rule: join.induct) (fastforce simp: list_all_iff)+
    then have "CHR ''|'' \<notin> set (?sh x)" using dec_digits_digit by simp
    moreover have "of_char c \<noteq> (of_char CHR ''|'' :: 8 word)" if "c \<noteq> CHR ''|''" for c
      using that utf8_inj[of "[c]" "''|''"] unfolding utf8_def by auto
    ultimately show ?thesis unfolding utf8_def by (metis (no_types, lifting) imageE list.set_map)
  qed
  have "utf8 (?sh t) @ of_char CHR ''|'' # ?body t = utf8 (?sh u) @ of_char CHR ''|'' # ?body u"
    using eq unfolding bytes dt by simp
  from split_at_sep[OF this sep sep] have sh: "?sh t = ?sh u" and body: "?body t = ?body u" by auto
  have "map (\<lambda>s. dec_digits (nat s)) (tn_shape t) = map (\<lambda>s. dec_digits (nat s)) (tn_shape u)"
    by (rule join_inj[OF sh]) (use V dec_digits_digit digit_not_sep in \<open>auto simp: list_all_iff\<close>)
  then have "map nat (tn_shape t) = map nat (tn_shape u)"
    by (metis (no_types, lifting) comp_apply dec_val_digits list.map_comp list.map_cong)
  then have shape: "tn_shape t = tn_shape u"
    by (rule map_inj_on) (use V in \<open>force simp: inj_on_def\<close>)
  have range: "- (256 ^ ?w t) \<le> 2 * v \<and> 2 * v < 256 ^ ?w t" if "v \<in> set (tn_data t) \<union> set (tn_data u)" for v
    using that V dt by (fastforce simp: RANGE_def)
  have data: "tn_data t = tn_data u"
  proof (rule concat_inj_width[of "le_bytes (?w t)" _ _ "?w t"])
    show "concat (map (le_bytes (?w t)) (tn_data t)) = concat (map (le_bytes (?w t)) (tn_data u))" using body dt by simp
    show "length (tn_data t) = length (tn_data u)" using V shape by (metis of_nat_eq_iff)
  qed (use range le_bytes_inj in \<open>auto simp: le_bytes_def\<close>)
  show ?thesis using dt shape data by simp
qed

subsection \<open>Products with a bias\<close>

definition bias_at :: "int list option \<Rightarrow> nat \<Rightarrow> int" where
  "bias_at b j = (case b of None \<Rightarrow> 0 | Some xs \<Rightarrow> xs ! j)"

definition gemm_entry :: "gemmOperands \<Rightarrow> nat \<Rightarrow> nat \<Rightarrow> int" where
  "gemm_entry g i j = rdot (gm_k g) (gm_n g) (gm_A g) (gm_B g) i j + bias_at (gm_bias g) j"

definition gemm_product :: "gemmOperands \<Rightarrow> int list" where
  "gemm_product g = map (\<lambda>x. gemm_entry g (x div gm_n g) (x mod gm_n g)) [0..<gm_m g * gm_n g]"

definition gemm_dims :: "gemmOperands \<Rightarrow> bool" where
  "gemm_dims g \<longleftrightarrow> length (gm_A g) = gm_m g * gm_k g \<and> length (gm_B g) = gm_k g * gm_n g
     \<and> (case gm_bias g of None \<Rightarrow> True | Some b \<Rightarrow> length b = gm_n g)"

definition gemm_sig :: "gemmOperands \<Rightarrow> int tensor \<Rightarrow> bool" where
  "gemm_sig g out \<longleftrightarrow> tn_dtype out = ''i32'' \<and> tn_shape out = [int (gm_m g), int (gm_n g)]
     \<and> length (tn_data out) = gm_m g * gm_n g"

lemma length_gemm_product [simp]: "length (gemm_product g) = gm_m g * gm_n g"
  by (simp add: gemm_product_def)

lemma row_col: "i < m \<Longrightarrow> j < n \<Longrightarrow> (i * n + j) div n = i \<and> (i * n + j) mod n = (j::nat)"
  by (simp add: div_mult_self3)

lemma gemm_product_nth: "i < gm_m g \<Longrightarrow> j < gm_n g \<Longrightarrow> gemm_product g ! (i * gm_n g + j) = gemm_entry g i j"
  using row_col[of i "gm_m g" j "gm_n g"] nth_row_major[of i "gm_m g" j "gm_n g"] by (simp add: gemm_product_def)

lemma sub_bias_nth:
  assumes "length xs = gm_m g * gm_n g" and "i < gm_m g" and "j < gm_n g"
  shows "sub_bias (gm_bias g) (gm_n g) xs ! (i * gm_n g + j) = xs ! (i * gm_n g + j) - bias_at (gm_bias g) j"
  using assms row_col[of i "gm_m g" j "gm_n g"] nth_row_major[of i "gm_m g" j "gm_n g"]
  by (auto simp: sub_bias_def bias_at_def split: option.split)

lemma length_sub_bias [simp]: "length (sub_bias b n xs) = length xs"
  by (simp add: sub_bias_def)

lemma vf_HALF_P_eq: "vf_HALF_P = HALF_P"
  by (simp add: vf_HALF_P_def vf_P_def HALF_P_def PRIME_def)

lemma check_gemm_unfold:
  assumes "gemm_dims g" and "gemm_sig g out"
  shows "check_gemm rnd idx g out =
     (if list_ex (\<lambda>v. \<bar>v\<bar> > HALF_P) (tn_data out) then Some (Reject (OutputOutOfRange idx) (Some StSegment))
      else map_option (\<lambda>ok. if ok then Accept else Reject (FreivaldsFailed idx) (Some StSegment))
        (freivaldsRect (\<lambda>t. rnd t (gm_n g * 6)) (gm_A g) (gm_B g) (sub_bias (gm_bias g) (gm_n g) (tn_data out)) (gm_m g) (gm_k g) (gm_n g) 2))"
  using assms by (auto simp: check_gemm_def gemm_dims_def gemm_sig_def hasSig_iff vf_HALF_P_eq split: option.splits)

text \<open>\<^verbatim>\<open>randomBytes(len)\<close> of round \<open>t\<close>.\<close>

definition rand_ok :: "(nat \<Rightarrow> nat \<Rightarrow> bytes) \<Rightarrow> bool" where
  "rand_ok rnd \<longleftrightarrow> (\<forall>t len. length (rnd t len) = len)"

lemma check_gemm_complete:
  assumes "gemm_dims g" and "gemm_sig g out" and "tn_data out = gemm_product g" and "\<forall>x \<in> set (tn_data out). \<bar>x\<bar> \<le> HALF_P"
    and "rand_ok rnd"
  shows "check_gemm rnd idx g out = Some Accept"
proof -
  have "freivaldsRect (\<lambda>t. rnd t (gm_n g * 6)) (gm_A g) (gm_B g) (sub_bias (gm_bias g) (gm_n g) (tn_data out)) (gm_m g) (gm_k g) (gm_n g) 2 = Some True"
  proof (rule freivaldsRect_complete_aux)
    fix i j assume "i < gm_m g" "j < gm_n g"
    then show "sub_bias (gm_bias g) (gm_n g) (tn_data out) ! (i * gm_n g + j) = rdot (gm_k g) (gm_n g) (gm_A g) (gm_B g) i j"
      using assms(2,3) by (simp add: sub_bias_nth gemm_product_nth gemm_entry_def gemm_sig_def)
  qed (use assms in \<open>simp_all add: gemm_dims_def gemm_sig_def rand_ok_def\<close>)
  then show ?thesis
    using assms(4) by (auto simp: check_gemm_unfold[OF assms(1,2)] list_ex_iff)
qed

lemma check_gemm_acceptD:
  assumes "check_gemm rnd idx g out = Some Accept"
  shows "gemm_dims g \<and> tn_dtype out = ''i32'' \<and> tn_shape out = [int (gm_m g), int (gm_n g)] \<and> (\<forall>x \<in> set (tn_data out). \<bar>x\<bar> \<le> HALF_P)
    \<and> freivaldsRect (\<lambda>t. rnd t (gm_n g * 6)) (gm_A g) (gm_B g) (sub_bias (gm_bias g) (gm_n g) (tn_data out)) (gm_m g) (gm_k g) (gm_n g) 2 = Some True"
  using assms
  by (auto simp: check_gemm_def gemm_dims_def hasSig_iff vf_HALF_P_eq list_ex_iff not_less split: if_splits option.splits)

text \<open>The random vectors that do not show a wrong product.\<close>

definition blind_vectors :: "gemmOperands \<Rightarrow> int list \<Rightarrow> int list set" where
  "blind_vectors g xs = {r \<in> vectors (gm_n g).
     rect_round (gm_A g) (gm_B g) (sub_bias (gm_bias g) (gm_n g) xs) (gm_m g) (gm_k g) (gm_n g) r = Some True}"

text \<open>A product within \<open>p / 2 - bias\<close> of zero: the claimed entries are at most \<open>p / 2\<close>, so a difference is no multiple of \<open>p\<close>.\<close>

lemma gemm_blind_card:
  assumes d: "gemm_dims g" and l: "length xs = gm_m g * gm_n g" and b: "\<forall>x \<in> set xs. \<bar>x\<bar> \<le> HALF_P"
    and p: "\<forall>x \<in> set (gemm_product g). \<bar>x\<bar> \<le> HALF_P" and ne: "xs \<noteq> gemm_product g"
  shows "card (blind_vectors g xs) * nat PRIME \<le> card (vectors (gm_n g))"
proof -
  have "\<exists>i < gm_m g. \<exists>j < gm_n g. xs ! (i * gm_n g + j) \<noteq> gemm_product g ! (i * gm_n g + j)"
  proof (rule ccontr)
    assume "\<not> ?thesis"
    then have "xs = gemm_product g" using l by (intro list_eq_row_major[of _ "gm_m g" "gm_n g"]) auto
    with ne show False by simp
  qed
  then obtain i j where ij: "i < gm_m g" "j < gm_n g" "xs ! (i * gm_n g + j) \<noteq> gemm_product g ! (i * gm_n g + j)" by blast
  note pos = nth_row_major[OF ij(1,2)]
  have "\<bar>xs ! (i * gm_n g + j)\<bar> \<le> HALF_P" "\<bar>gemm_product g ! (i * gm_n g + j)\<bar> \<le> HALF_P"
    using b p l pos by (simp_all add: nth_mem)
  then have "\<not> PRIME dvd residual (gm_k g) (gm_n g) (gm_A g) (gm_B g) (sub_bias (gm_bias g) (gm_n g) xs) i j"
    using ij l HALF_P_val
    by (intro small_not_dvd) (auto simp: residual_def sub_bias_nth gemm_product_nth gemm_entry_def)
  from rect_round_sound[OF _ _ _ ij(1,2) this] show ?thesis
    using d l by (simp add: blind_vectors_def gemm_dims_def)
qed

text \<open>A product that is accepted although it is wrong: every vector drawn was blind.\<close>

lemma freivalds_loop_TrueD:
  "freivalds_loop chk vec t k = Some True \<Longrightarrow> t \<le> s \<Longrightarrow> s < t + k \<Longrightarrow> \<exists>r. vec s = Some r \<and> chk r = Some True"
proof (induction k arbitrary: t)
  case (Suc k)
  then obtain r where r: "vec t = Some r" "chk r = Some True" "freivalds_loop chk vec (Suc t) k = Some True"
    by (auto split: option.splits if_splits)
  show ?case
  proof (cases "s = t")
    case False
    then show ?thesis using Suc.IH[OF r(3)] Suc.prems by simp
  qed (use r in blast)
qed simp

lemma be_num_nonneg: "0 \<le> be_num bs"
proof -
  have "0 \<le> foldl (\<lambda>acc b. acc * 256 + uint b) a bs" if "0 \<le> a" for a
    using that by (induction bs arbitrary: a) auto
  then show ?thesis by (simp add: be_num_def)
qed

lemma randomFieldVectorN_vectors: "randomFieldVectorN rb n = Some r \<Longrightarrow> r \<in> vectors n"
proof -
  assume a: "randomFieldVectorN rb n = Some r"
  then have m: "map (\<lambda>i. map_option (\<lambda>v. v smod PRIME) (read_be rb (i * 6) 6)) [0..<n] = map Some r"
    unfolding randomFieldVectorN_def by (rule opt_all_SomeD)
  then have l: "length r = n" by (metis length_map length_upt minus_nat.diff_0)
  have "in_field (r ! i)" if "i < n" for i
  proof -
    have "map_option (\<lambda>v. v smod PRIME) (read_be rb (i * 6) 6) = Some (r ! i)"
      using arg_cong[OF m, of "\<lambda>xs. xs ! i"] that l by simp
    then obtain v where v: "read_be rb (i * 6) 6 = Some v" "r ! i = v smod PRIME" by auto
    then have "0 \<le> v" using be_num_nonneg by (auto simp: read_be_def split: if_splits)
    then have "v smod PRIME = v mod PRIME" by (simp add: smod_nonneg PRIME_def)
    then show ?thesis using v by (simp add: in_field_def)
  qed
  then show ?thesis using l by (auto simp: vectors_def in_set_conv_nth)
qed

definition all_blind :: "(nat \<Rightarrow> nat \<Rightarrow> bytes) \<Rightarrow> gemmOperands \<Rightarrow> int list \<Rightarrow> bool" where
  "all_blind rnd g xs \<longleftrightarrow> (\<forall>t < 2. \<exists>r. randomFieldVectorN (rnd t (gm_n g * 6)) (gm_n g) = Some r \<and> r \<in> blind_vectors g xs)"

definition fooled :: "(nat \<Rightarrow> nat \<Rightarrow> bytes) \<Rightarrow> gemmOperands \<Rightarrow> int list \<Rightarrow> bool" where
  "fooled rnd g xs \<longleftrightarrow> xs \<noteq> gemm_product g \<and> all_blind rnd g xs"

lemma check_gemm_sound:
  assumes "check_gemm rnd idx g out = Some Accept" and "\<not> fooled rnd g (tn_data out)"
  shows "tn_data out = gemm_product g"
proof -
  note D = check_gemm_acceptD[OF assms(1)]
  have run: "freivalds_loop (rect_round (gm_A g) (gm_B g) (sub_bias (gm_bias g) (gm_n g) (tn_data out)) (gm_m g) (gm_k g) (gm_n g))
      (\<lambda>t. randomFieldVectorN (rnd t (gm_n g * 6)) (gm_n g)) 0 2 = Some True"
    using D by (simp add: freivaldsRect_def split: if_splits)
  have "\<exists>r. randomFieldVectorN (rnd t (gm_n g * 6)) (gm_n g) = Some r \<and> r \<in> blind_vectors g (tn_data out)" if "t < 2" for t
  proof -
    from freivalds_loop_TrueD[OF run, of t] that obtain r where r: "randomFieldVectorN (rnd t (gm_n g * 6)) (gm_n g) = Some r"
      "rect_round (gm_A g) (gm_B g) (sub_bias (gm_bias g) (gm_n g) (tn_data out)) (gm_m g) (gm_k g) (gm_n g) r = Some True" by auto
    then show ?thesis using randomFieldVectorN_vectors[OF r(1)] by (simp add: blind_vectors_def)
  qed
  then have "all_blind rnd g (tn_data out)" by (simp add: all_blind_def)
  then show ?thesis using assms(2) by (simp add: fooled_def)
qed

subsection \<open>Challenge work types\<close>

text \<open>What a segment reads: a job input or an earlier output.\<close>

fun resolve :: "tensors \<Rightarrow> int tensor list \<Rightarrow> tensorRef \<Rightarrow> int tensor option" where
  "resolve inputs outputs (InRef name) = map_of inputs name"
| "resolve inputs outputs (SegRef j) = js_at outputs j"

definition seg_computes :: "segmentSpec \<Rightarrow> segmentKernel \<Rightarrow> int tensor list \<Rightarrow> int tensor \<Rightarrow> bool" where
  "seg_computes spec k ins out \<longleftrightarrow> (case sp_kind spec of
       Gemm \<Rightarrow> (\<exists>f g. kn_gemm k = Some f \<and> f ins = Some g \<and> gemm_dims g \<and> gemm_sig g out \<and> tn_data out = gemm_product g
         \<and> (\<forall>x \<in> set (tn_data out). \<bar>x\<bar> \<le> HALF_P))
     | Elementwise \<Rightarrow> (\<exists>f. kn_elementwise k = Some f \<and> f ins = Some out)
     | Opaque \<Rightarrow> False)"

definition seg_ok :: "tensors \<Rightarrow> int tensor list \<Rightarrow> segmentSpec \<Rightarrow> segmentKernel \<Rightarrow> nat \<Rightarrow> bool" where
  "seg_ok inputs outputs spec k i \<longleftrightarrow> (\<exists>ins. map (resolve inputs (take i outputs)) (sp_inputs spec) = map Some ins
     \<and> list_all2 (\<lambda>t s. validTensor (rats t) \<and> hasSig t s) ins (kn_ins k)
     \<and> validTensor (rats (outputs ! i)) \<and> hasSig (outputs ! i) (kn_out k) \<and> seg_computes spec k ins (outputs ! i))"

text \<open>The opening an honest node serves: every earlier output the segment reads, and its own.\<close>

definition honest_tensors :: "int tensor list \<Rightarrow> segmentSpec \<Rightarrow> (tensorRef \<times> rat tensor) list" where
  "honest_tensors outputs spec = List.map_filter (\<lambda>ref. case ref of InRef _ \<Rightarrow> None
     | SegRef j \<Rightarrow> map_option (\<lambda>t. (ref, rats t)) (js_at outputs j)) (sp_inputs spec @ [SegRef (sp_idx spec)])"

definition honest_opening :: "int tensor list \<Rightarrow> segmentSpec \<Rightarrow> segmentOpening" where
  "honest_opening outputs spec = \<lparr>so_idx = Some (of_nat (sp_idx spec)), so_tensors = Some (honest_tensors outputs spec)\<rparr>"

definition digest_ok :: "digest \<Rightarrow> bool" where
  "digest_ok H \<longleftrightarrow> (\<forall>bs. length (H bs) = 32)"

lemma map_of_honest:
  assumes "j < length outputs" and "SegRef j \<in> set (sp_inputs spec) \<or> j = sp_idx spec"
  shows "map_of (honest_tensors outputs spec) (SegRef j) = Some (rats (outputs ! j))"
proof -
  let ?f = "\<lambda>ref. case ref of InRef _ \<Rightarrow> None | SegRef j \<Rightarrow> map_option (\<lambda>t. (ref, rats t)) (js_at outputs j)"
  have "map_of (List.map_filter ?f refs) (SegRef j) = Some (rats (outputs ! j))" if "SegRef j \<in> set refs" for refs
    using that
  proof (induction refs)
    case (Cons r refs)
    then show ?case using assms(1) by (cases r) (auto simp: map_filter_simps split: option.splits)
  qed simp
  then show ?thesis using assms(2) by (auto simp: honest_tensors_def)
qed

lemma open_inputs_honest:
  assumes "list_all2 (\<lambda>ref t. resolve inputs (take i outputs) ref = Some t) refs ins"
    and "list_all2 (\<lambda>t s. validTensor (rats t) \<and> hasSig t s) ins sigs"
    and "set refs \<subseteq> set (sp_inputs spec)" and "i \<le> length outputs"
    and "\<And>j. j < length outputs \<Longrightarrow> committed c j = tensorHash H (outputs ! j)"
  shows "open_inputs H spec (honest_tensors outputs spec) c inputs refs sigs = Inr ins"
  using assms(1,2,3)
proof (induction refs ins arbitrary: sigs rule: list_all2_induct)
  case Nil
  then show ?case by simp
next
  case (Cons ref refs t ins)
  from Cons.prems(1) obtain s ss where sigs: "sigs = s # ss" "validTensor (rats t)" "hasSig t s"
      "list_all2 (\<lambda>t s. validTensor (rats t) \<and> hasSig t s) ins ss" by (cases sigs) auto
  note IH = Cons.IH[OF sigs(4)]
  show ?case
  proof (cases ref)
    case (InRef name)
    then show ?thesis using Cons sigs by simp
  next
    case (SegRef j)
    then have j: "j < length outputs" "t = outputs ! j" using Cons.hyps(1) by (auto simp: js_at_eq_Some)
    then have "served H (honest_tensors outputs spec) c j s = Some t"
      using map_of_honest[of j outputs spec] SegRef Cons.prems(2) sigs assms(5) by (simp add: served_def)
    then show ?thesis using SegRef Cons sigs by simp
  qed
qed

lemma open_reject: "open_inputs H spec ts c inputs refs sigs \<noteq> Inl Accept"
  by (induction H spec ts c inputs refs sigs rule: open_inputs.induct)
    (auto split: tensorRef.splits option.splits sum.splits if_splits)

text \<open>An accepted opening whose served inputs are the honest ones commits to the honest output.\<close>

lemma open_inputs_forced:
  assumes "open_inputs H spec ts c inputs refs sigs = Inr ins"
    and "list_all2 (\<lambda>ref t. resolve inputs outs ref = Some t) refs want"
    and "\<And>j t sig. j < length outs \<Longrightarrow> served H ts c j sig = Some t \<Longrightarrow> t = outs ! j"
  shows "ins = want"
  using assms(2,1)
proof (induction refs want arbitrary: ins sigs rule: list_all2_induct)
  case Nil
  then show ?case by simp
next
  case (Cons ref refs w want)
  from Cons.prems obtain s ss where sigs: "sigs = s # ss" by (cases sigs) auto
  show ?case
  proof (cases ref)
    case (InRef name)
    then show ?thesis using Cons sigs by (auto split: option.splits if_splits sum.splits)
  next
    case (SegRef j)
    then have j: "j < length outs" "w = outs ! j" using Cons.hyps(1) by (auto simp: js_at_eq_Some)
    with SegRef Cons sigs assms(3)[OF j(1)] show ?thesis by (auto split: option.splits sum.splits)
  qed
qed

lemma checkOpening_acceptD:
  assumes "checkOpening H rnd spec (Some opn) c inputs k = Some Accept"
  obtains ts ins out where "so_tensors opn = Some ts" and "open_inputs H spec ts c inputs (sp_inputs spec) (kn_ins k) = Inr ins"
    and "served H ts c (sp_idx spec) (kn_out k) = Some out"
    and "case sp_kind spec of
        Gemm \<Rightarrow> \<exists>f g. kn_gemm k = Some f \<and> f ins = Some g \<and> check_gemm rnd (sp_idx spec) g out = Some Accept
      | Elementwise \<Rightarrow> \<exists>f want. kn_elementwise k = Some f \<and> f ins = Some want
          \<and> check_elementwise H (sp_idx spec) want (kn_out k) (committed c (sp_idx spec)) = Some Accept
      | Opaque \<Rightarrow> \<exists>f. kn_opaque k = Some f \<and> f ins out"
  using assms open_reject by (auto simp: checkOpening_def Let_def split: option.splits if_splits sum.splits segmentKind.splits)

subsection \<open>Properties\<close>

text \<open>
  C35. The tensor encoding that is hashed is injective on well-formed tensors: two tensors with the same bytes are the same
  tensor (same dtype, shape and data), so a hash commits to one tensor unless SHA-256 collides.
\<close>

theorem tensorHash_binds:
  assumes "tensorHash H t = Some h" and "tensorHash H u = Some h" and "H (tensor_bytes t) = H (tensor_bytes u) \<Longrightarrow> tensor_bytes t = tensor_bytes u"
  shows "t = u"
proof -
  have v: "validTensor (rats t)" "validTensor (rats u)" and "toHex (H (tensor_bytes t)) = toHex (H (tensor_bytes u))"
    using assms(1,2) by (simp_all add: tensorHash_def hexdigest_def split: if_splits)
  then have "tensor_bytes t = tensor_bytes u" by (intro assms(3) toHex_inj)
  then show ?thesis by (rule tensor_bytes_inj[OF v])
qed

definition toy_digest :: digest where
  "toy_digest bs = take 32 (bs @ replicate 32 0)"

lemma toy_digest_ok: "digest_ok toy_digest"
  by (simp add: digest_ok_def toy_digest_def min_def)

definition toy_tensor :: "int tensor" where
  "toy_tensor = \<lparr>tn_dtype = ''i8'', tn_shape = [2, 1], tn_data = [-128, 5]\<rparr>"

lemma toy_tensor_valid: "validTensor (rats toy_tensor)"
  unfolding valid_rats_iff by (simp add: toy_tensor_def RANGE_def)

theorem tensorHash_binds_witness:
  "tensorHash toy_digest toy_tensor = tensorHash toy_digest \<lparr>tn_dtype = ''i8'', tn_shape = [2, 1], tn_data = [-128, 2 + 3]\<rparr>
     \<and> toy_tensor = \<lparr>tn_dtype = ''i8'', tn_shape = [2, 1], tn_data = [-128, 2 + 3]\<rparr>"
proof -
  have "tensorHash toy_digest toy_tensor = Some (hexdigest toy_digest (tensor_bytes toy_tensor))"
    using toy_tensor_valid by (simp add: tensorHash_def)
  from tensorHash_binds[OF this, of "\<lparr>tn_dtype = ''i8'', tn_shape = [2, 1], tn_data = [-128, 2 + 3]\<rparr>"] this
  show ?thesis by (simp add: toy_tensor_def)
qed

text \<open>
  C12. A product segment: if an output that is not \<open>A B + bias\<close> is accepted, then both random vectors drawn were blind to
  it, and at most one in \<open>p = 1000000007\<close> of the field vectors is; the true product has to be within \<open>(p - 1) / 2\<close>, which
  the bounds of the work types give.
\<close>

theorem wrong_product_accepted_rarely:
  assumes "check_gemm rnd idx g out = Some Accept" and "length (tn_data out) = gm_m g * gm_n g" and "tn_data out \<noteq> gemm_product g"
    and "\<forall>x \<in> set (gemm_product g). \<bar>x\<bar> \<le> HALF_P"
  shows "all_blind rnd g (tn_data out) \<and> card (blind_vectors g (tn_data out)) * nat PRIME \<le> card (vectors (gm_n g))"
proof
  show "all_blind rnd g (tn_data out)" using check_gemm_sound[OF assms(1)] assms(3) by (auto simp: fooled_def)
  show "card (blind_vectors g (tn_data out)) * nat PRIME \<le> card (vectors (gm_n g))"
    using check_gemm_acceptD[OF assms(1)] gemm_blind_card[OF _ assms(2) _ assms(4,3)] by blast
qed

definition toy_gemm :: gemmOperands where
  "toy_gemm = \<lparr>gm_A = [2], gm_B = [3], gm_bias = Some [1], gm_m = 1, gm_k = 1, gm_n = 1\<rparr>"

theorem wrong_product_accepted_rarely_witness:
  "check_gemm (\<lambda>t len. replicate len 0) 0 toy_gemm \<lparr>tn_dtype = ''i32'', tn_shape = [1, 1], tn_data = [8]\<rparr> = Some Accept
     \<and> card (blind_vectors toy_gemm [8]) * nat PRIME \<le> card (vectors 1)"
proof -
  have a: "check_gemm (\<lambda>t len. replicate len 0) 0 toy_gemm \<lparr>tn_dtype = ''i32'', tn_shape = [1, 1], tn_data = [8]\<rparr> = Some Accept"
  proof -
    have d: "gemm_dims toy_gemm" "gemm_sig toy_gemm \<lparr>tn_dtype = ''i32'', tn_shape = [1, 1], tn_data = [8]\<rparr>"
      by (simp_all add: toy_gemm_def gemm_dims_def gemm_sig_def)
    have "randomFieldVectorN [0, 0, 0, 0, 0, 0] 1 = Some [0]" by code_simp
    moreover have "rect_round [2] [3] [7] 1 1 1 [0] = Some True" by (subst rect_round_eq) simp_all
    moreover have "replicate 6 (0 :: 8 word) = [0, 0, 0, 0, 0, 0]" by (simp add: numeral_eq_Suc)
    ultimately show ?thesis
      unfolding check_gemm_unfold[OF d]
      by (simp add: HALF_P_val) (simp add: toy_gemm_def sub_bias_def freivaldsRect_def numeral_2_eq_2 exI[of _ True])
  qed
  have p: "gemm_product toy_gemm = [7]" by (simp add: toy_gemm_def gemm_product_def gemm_entry_def rdot_def bias_at_def)
  from wrong_product_accepted_rarely[OF a] a p show ?thesis by (simp add: toy_gemm_def HALF_P_val)
qed

end
