(* ===== verification/ChallengeWork.thy ===== *)
theory ChallengeWork
  imports Segments
begin

text \<open>
  The interface of a challenge work type (\<^verbatim>\<open>WorkType\<close> with \<^verbatim>\<open>mode: "challenge"\<close> in
  \<^verbatim>\<open>client/api/src/services/work-types.ts\<close>) as a locale: which jobs are valid, their input tensors, plan, kernels
  and result signature, and the execution of the agent. The laws say that these fit together; the lemmas say what the
  API's two checks then mean. \<open>Int8Mlp\<close> and \<open>Int8Model\<close> interpret it.
\<close>

definition opened :: "segmentOpening \<Rightarrow> int tensor list" where
  "opened opn = (case so_tensors opn of None \<Rightarrow> [] | Some ts \<Rightarrow> map ints (filter validTensor (map snd ts)))"

text \<open>No tensor that was served has the hash of an honest output without being it.\<close>

definition no_collision :: "digest \<Rightarrow> int tensor list \<Rightarrow> int tensor list \<Rightarrow> bool" where
  "no_collision H ts us \<longleftrightarrow> (\<forall>t \<in> set ts. \<forall>u \<in> set us. H (tensor_bytes t) = H (tensor_bytes u) \<longrightarrow> tensor_bytes t = tensor_bytes u)"

lemma served_forced:
  assumes "so_tensors opn = Some ts" and "served H ts c j sig = Some t" and "committed c j = tensorHash H u" and "validTensor (rats u)"
    and "no_collision H (opened opn) us" and "u \<in> set us"
  shows "t = u"
proof -
  obtain r where r: "map_of ts (SegRef j) = Some r" "validTensor r" "t = ints r" "tensorHash H t = committed c j"
    using assms(2) by (auto simp: served_def split: option.splits if_splits)
  have vt: "validTensor (rats t)" using r(2,3) by (simp add: rats_ints)
  have "t \<in> set (opened opn)" using assms(1) r(1,2,3) by (force simp: opened_def dest: map_of_SomeD)
  moreover have "H (tensor_bytes t) = H (tensor_bytes u)"
    using r(4) assms(3,4) vt by (simp add: tensorHash_def hexdigest_def toHex_inj)
  ultimately have "tensor_bytes t = tensor_bytes u" using assms(5,6) by (auto simp: no_collision_def)
  then show ?thesis using tensor_bytes_inj vt assms(4) by blast
qed

text \<open>
  The operands of a product segment of an honest execution, and the output that was served for it: the chance of a wrong
  one being accepted is over these.
\<close>

definition honest_operands :: "tensors \<Rightarrow> int tensor list \<Rightarrow> segmentSpec \<Rightarrow> segmentKernel \<Rightarrow> gemmOperands \<Rightarrow> bool" where
  "honest_operands inputs outputs spec k g \<longleftrightarrow> (\<exists>f ins. kn_gemm k = Some f
     \<and> map (resolve inputs (take (sp_idx spec) outputs)) (sp_inputs spec) = map Some ins \<and> f ins = Some g)"

definition own_output :: "segmentOpening \<Rightarrow> nat \<Rightarrow> int tensor option" where
  "own_output opn i = (case so_tensors opn of None \<Rightarrow> None | Some ts \<Rightarrow> map_option ints (map_of ts (SegRef i)))"

lemma map_filter_Some: "map f xs = map Some ys \<Longrightarrow> List.map_filter f xs = ys"
  by (induction xs arbitrary: ys) (auto simp: map_filter_simps)

lemma in_map_filterD: "y \<in> set (List.map_filter f xs) \<Longrightarrow> \<exists>x \<in> set xs. f x = Some y"
  by (induction xs) (auto simp: map_filter_simps split: option.splits)

lemma map_Some_list_all2: "map f xs = map Some ys \<Longrightarrow> list_all2 (\<lambda>x y. f x = Some y) xs ys"
  by (induction xs arbitrary: ys) auto

lemma opt_all_ex: "\<forall>x \<in> set xs. \<exists>y. f x = Some y \<Longrightarrow> \<exists>ys. opt_all (map f xs) = Some ys"
  by (induction xs) auto

lemma seg_accepted:
  assumes run: "checkOpening H rnd spec (Some opn) c inputs k = Some Accept"
    and ok: "seg_ok inputs outputs spec k i" and i: "sp_idx spec = i" "i < length outputs"
    and before: "\<And>j. j < i \<Longrightarrow> committed c j = tensorHash H (outputs ! j)"
    and valid: "\<And>j. j < length outputs \<Longrightarrow> validTensor (rats (outputs ! j))"
    and nc: "no_collision H (opened opn) outputs"
    and nf: "\<And>g out. honest_operands inputs outputs spec k g \<Longrightarrow> own_output opn i = Some out \<Longrightarrow> \<not> fooled rnd g (tn_data out)"
  shows "committed c i = tensorHash H (outputs ! i)"
proof -
  from run obtain ts ins out where ts: "so_tensors opn = Some ts"
    and op: "open_inputs H spec ts c inputs (sp_inputs spec) (kn_ins k) = Inr ins"
    and out: "served H ts c (sp_idx spec) (kn_out k) = Some out"
    and chk: "case sp_kind spec of
        Gemm \<Rightarrow> \<exists>f g. kn_gemm k = Some f \<and> f ins = Some g \<and> check_gemm rnd (sp_idx spec) g out = Some Accept
      | Elementwise \<Rightarrow> \<exists>f want. kn_elementwise k = Some f \<and> f ins = Some want
          \<and> check_elementwise H (sp_idx spec) want (kn_out k) (committed c (sp_idx spec)) = Some Accept
      | Opaque \<Rightarrow> \<exists>f. kn_opaque k = Some f \<and> f ins out"
    by (rule checkOpening_acceptD)
  from ok obtain want where want: "map (resolve inputs (take i outputs)) (sp_inputs spec) = map Some want"
    "hasSig (outputs ! i) (kn_out k)" "seg_computes spec k want (outputs ! i)" by (auto simp: seg_ok_def)
  have "list_all2 (\<lambda>ref t. resolve inputs (take i outputs) ref = Some t) (sp_inputs spec) want"
    by (rule map_Some_list_all2[OF want(1)])
  then have ins: "ins = want"
  proof (rule open_inputs_forced[OF op])
    fix j t sig assume "j < length (take i outputs)" "served H ts c j sig = Some t"
    then show "t = take i outputs ! j"
      using served_forced[OF ts _ before valid nc] i by simp
  qed
  have o_in: "own_output opn i = Some out" and o_sig: "hasSig out (kn_out k)" and o_hash: "tensorHash H out = committed c i"
    using out ts i by (auto simp: served_def own_output_def split: option.splits if_splits)
  show ?thesis
  proof (cases "sp_kind spec")
    case Gemm
    then obtain f g where f: "kn_gemm k = Some f" "f ins = Some g" "check_gemm rnd i g out = Some Accept"
      and hon: "tn_data (outputs ! i) = gemm_product g" using chk want(3) ins i by (auto simp: seg_computes_def)
    have "tn_data out = gemm_product g" by (rule check_gemm_sound[OF f(3)]) (use nf[of g out] f(1,2) ins want(1) i o_in in \<open>auto simp: honest_operands_def\<close>)
    then have "out = outputs ! i" using hon o_sig want(2) by (simp add: hasSig_iff)
    then show ?thesis using o_hash by simp
  next
    case Elementwise
    then have "check_elementwise H i (outputs ! i) (kn_out k) (committed c i) = Some Accept"
      using chk want(3) ins i by (auto simp: seg_computes_def)
    then show ?thesis by (auto simp: check_elementwise_def split: if_splits option.splits)
  next
    case Opaque
    then show ?thesis using want(3) by (simp add: seg_computes_def)
  qed
qed

lemma checkCommitment_bindD:
  assumes "checkCommitment H sigma inputs plan (Some c) (Some r) sig = Some Accept"
  shows "validTensor r \<and> hasSig (ints r) sig \<and> inputHash H inputs = Some (cm_inputHash c) \<and> length (cm_segments c) = length plan
    \<and> cm_chainRoot c = chainRoot H sigma (cm_inputHash c) plan (List.map_filter snd (cm_segments c))
    \<and> list_all (\<lambda>s. \<exists>h. snd s = Some h \<and> HEX64 h) (cm_segments c)
    \<and> (plan \<noteq> [] \<longrightarrow> tensorHash H (ints r) = committed c (length plan - 1))"
proof -
  let ?hs = "List.map_filter snd (cm_segments c)"
  have b: "inputHash H inputs = Some (cm_inputHash c)" "length (cm_segments c) = length plan"
    "\<not> list_ex segment_bad (zip (cm_segments c) plan)" "cm_chainRoot c = chainRoot H sigma (cm_inputHash c) plan ?hs"
    "validTensor r" "hasSig (ints r) sig" "\<exists>h. tensorHash H (ints r) = Some h \<and> cm_outputHash c = Some h
       \<and> cm_outputHash c = (if ?hs = [] then None else Some (last ?hs))"
    using assms by (auto simp: checkCommitment_def Let_def split: option.splits if_splits)
  have hs: "\<exists>h. snd (cm_segments c ! i) = Some h \<and> HEX64 h" if "i < length plan" for i
  proof -
    have "(cm_segments c ! i, plan ! i) \<in> set (zip (cm_segments c) plan)" using b(2) that by (force simp: set_zip)
    then have "\<not> segment_bad (cm_segments c ! i, plan ! i)" using b(3) unfolding list_ex_iff by blast
    then show ?thesis by (cases "cm_segments c ! i") (auto simp: segment_bad_def split: option.splits)
  qed
  then have all: "list_all (\<lambda>s. \<exists>h. snd s = Some h \<and> HEX64 h) (cm_segments c)" using b(2) by (simp add: list_all_length)
  then have "map snd (cm_segments c) = map Some (map (the \<circ> snd) (cm_segments c))" by (auto simp: list_all_iff)
  then have f: "?hs = map (the \<circ> snd) (cm_segments c)" by (rule map_filter_Some)
  have "tensorHash H (ints r) = committed c (length plan - 1)" if "plan \<noteq> []"
  proof -
    have "cm_segments c \<noteq> []" using b(2) that by auto
    then have "last ?hs = the (snd (last (cm_segments c)))" unfolding f by (simp add: last_map)
    then have "last ?hs = the (snd (cm_segments c ! (length plan - 1)))" using \<open>cm_segments c \<noteq> []\<close> b(2) by (simp add: last_conv_nth)
    moreover have "length plan - 1 < length plan" using that by (cases plan) auto
    ultimately show ?thesis using b(7) hs[of "length plan - 1"] b(2) \<open>cm_segments c \<noteq> []\<close> f
      by (cases "cm_segments c ! (length plan - 1)") (auto simp: committed_def split: if_splits)
  qed
  then show ?thesis using b all by auto
qed

locale challenge_work =
  fixes valid :: "'x \<Rightarrow> bool"
    and inputs :: "'x \<Rightarrow> tensors"
    and plan :: "'x \<Rightarrow> segmentSpec list"
    and resultSig :: "'x \<Rightarrow> tensorSig"
    and krn :: "'x \<Rightarrow> string \<Rightarrow> segmentKernel option"
    and outputs :: "'x \<Rightarrow> int tensor list"
  assumes plan_idx: "valid x \<Longrightarrow> plan x \<noteq> [] \<and> map sp_idx (plan x) = [0..<length (plan x)]"
    and outputs_length: "valid x \<Longrightarrow> length (outputs x) = length (plan x)"
    and inputs_valid: "valid x \<Longrightarrow> (name, t) \<in> set (inputs x) \<Longrightarrow> validTensor (rats t)"
    and segments: "valid x \<Longrightarrow> i < length (plan x) \<Longrightarrow>
      \<exists>k. krn x (sp_op (plan x ! i)) = Some k \<and> seg_ok (inputs x) (outputs x) (plan x ! i) k i"
    and result_sig: "valid x \<Longrightarrow> hasSig (last (outputs x)) (resultSig x)"
begin

lemma idx_nth: "valid x \<Longrightarrow> i < length (plan x) \<Longrightarrow> sp_idx (plan x ! i) = i"
  using plan_idx[of x] by (metis add_cancel_left_left length_map map_nth nth_map nth_upt)

lemma outputs_valid: "valid x \<Longrightarrow> i < length (plan x) \<Longrightarrow> validTensor (rats (outputs x ! i))"
  using segments[of x i] by (auto simp: seg_ok_def)

lemma outputs_ne: "valid x \<Longrightarrow> outputs x \<noteq> []"
  using plan_idx[of x] outputs_length[of x] by auto

lemma inputHash_ex: "valid x \<Longrightarrow> \<exists>h. inputHash H (inputs x) = Some h"
proof -
  assume v: "valid x"
  have "\<exists>l. input_line H (inputs x) n = Some l" if n: "n \<in> set (map fst (inputs x))" for n
  proof -
    from n obtain t where "map_of (inputs x) n = Some t" by (metis map_of_eq_None_iff not_Some_eq set_map)
    then show ?thesis using inputs_valid[OF v] by (auto simp: input_line_def tensorHash_def dest: map_of_SomeD)
  qed
  then have "\<forall>n \<in> set (sort_by compareHex (map fst (inputs x))). \<exists>l. input_line H (inputs x) n = Some l"
    using sort_by_props[of compareHex "map fst (inputs x)"] by simp
  from opt_all_ex[OF this] show ?thesis by (auto simp: inputHash_def)
qed

lemma output_hashes: "valid x \<Longrightarrow>
    opt_all (map (tensorHash H) (outputs x)) = Some (map (\<lambda>t. hexdigest H (tensor_bytes t)) (outputs x))"
proof (rule opt_all_cong_Some)
  fix t assume "valid x" and "t \<in> set (outputs x)"
  then obtain i where "i < length (plan x)" "t = outputs x ! i" using outputs_length[of x] by (auto simp: in_set_conv_nth)
  with outputs_valid[OF \<open>valid x\<close>] show "tensorHash H t = Some (hexdigest H (tensor_bytes t))" by (simp add: tensorHash_def)
qed

text \<open>What an honest node commits to binds, and each segment of it is committed.\<close>

lemma honest_commitment:
  assumes v: "valid x" and H: "digest_ok H"
  shows "\<exists>c. makeCommitment H sigma (inputs x) (plan x) (outputs x) = Some c
    \<and> checkCommitment H sigma (inputs x) (plan x) (Some c) (Some (rats (last (outputs x)))) (resultSig x) = Some Accept
    \<and> (\<forall>i < length (plan x). committed c i = tensorHash H (outputs x ! i))"
proof -
  let ?hs = "map (\<lambda>t. hexdigest H (tensor_bytes t)) (outputs x)"
  obtain h where h: "inputHash H (inputs x) = Some h" using inputHash_ex[OF v] by blast
  define c where "c = \<lparr>cm_inputHash = h, cm_outputHash = Some (last ?hs), cm_chainRoot = chainRoot H sigma h (plan x) ?hs,
    cm_segments = map (\<lambda>(i, s). (Some (of_nat (sp_idx s)), js_at ?hs i)) (enumerate 0 (plan x))\<rparr>"
  have mk: "makeCommitment H sigma (inputs x) (plan x) (outputs x) = Some c"
    using h output_hashes[OF v] outputs_ne[OF v] by (simp add: makeCommitment_def c_def)
  have seg: "cm_segments c ! i = (Some (of_nat i), Some (?hs ! i))" if "i < length (plan x)" for i
    using that outputs_length[OF v] idx_nth[OF v that] by (simp add: c_def nth_enumerate_eq)
  have len: "length (cm_segments c) = length (plan x)" by (simp add: c_def)
  have "cm_segments c = map (\<lambda>i. (Some (of_nat i), Some (?hs ! i))) [0..<length (plan x)]"
    using seg len by (intro nth_equalityI) auto
  then have "map snd (cm_segments c) = map Some (map ((!) ?hs) [0..<length ?hs])"
    using outputs_length[OF v] by (simp add: comp_def)
  then have snds: "List.map_filter snd (cm_segments c) = ?hs"
    unfolding map_nth by (rule map_filter_Some)
  have "\<not> segment_bad (cm_segments c ! i, plan x ! i)" if "i < length (plan x)" for i
    using that seg[OF that] idx_nth[OF v that] H outputs_length[OF v]
    by (simp add: segment_bad_def HEX64_def hexdigest_def digest_ok_def)
  then have good: "\<not> list_ex segment_bad (zip (cm_segments c) (plan x))"
    using len by (auto simp: list_ex_iff set_zip)
  have last_ok: "validTensor (rats (last (outputs x)))"
    using outputs_valid[OF v, of "length (plan x) - 1"] outputs_ne[OF v] outputs_length[OF v] plan_idx[OF v] by (simp add: last_conv_nth)
  have "tensorHash H (last (outputs x)) = Some (last ?hs)"
    using last_ok outputs_ne[OF v] by (simp add: tensorHash_def last_map)
  then have "checkCommitment H sigma (inputs x) (plan x) (Some c) (Some (rats (last (outputs x)))) (resultSig x) = Some Accept"
    using h good len snds last_ok result_sig[OF v] outputs_ne[OF v] by (simp add: checkCommitment_def) (simp add: c_def)
  moreover have "committed c i = tensorHash H (outputs x ! i)" if "i < length (plan x)" for i
    using that seg[OF that] len outputs_valid[OF v that] outputs_length[OF v] by (simp add: committed_def tensorHash_def)
  ultimately show ?thesis using mk by blast
qed

text \<open>Every segment of it, when drawn, opens: whatever the random bytes.\<close>

lemma honest_opening_accepted:
  assumes v: "valid x" and i: "i < length (plan x)" and rnd: "rand_ok rnd"
    and c: "\<And>j. j < length (plan x) \<Longrightarrow> committed c j = tensorHash H (outputs x ! j)"
  shows "\<exists>k. krn x (sp_op (plan x ! i)) = Some k
    \<and> checkOpening H rnd (plan x ! i) (Some (honest_opening (outputs x) (plan x ! i))) c (inputs x) k = Some Accept"
proof -
  let ?s = "plan x ! i" and ?out = "outputs x ! i"
  obtain k where k: "krn x (sp_op ?s) = Some k" "seg_ok (inputs x) (outputs x) ?s k i" using segments[OF v i] by blast
  from k(2) obtain ins where ins: "map (resolve (inputs x) (take i (outputs x))) (sp_inputs ?s) = map Some ins"
    "list_all2 (\<lambda>t s. validTensor (rats t) \<and> hasSig t s) ins (kn_ins k)"
    "validTensor (rats ?out)" "hasSig ?out (kn_out k)" "seg_computes ?s k ins ?out" by (auto simp: seg_ok_def)
  have res: "list_all2 (\<lambda>ref t. resolve (inputs x) (take i (outputs x)) ref = Some t) (sp_inputs ?s) ins"
    by (rule map_Some_list_all2[OF ins(1)])
  have op: "open_inputs H ?s (honest_tensors (outputs x) ?s) c (inputs x) (sp_inputs ?s) (kn_ins k) = Inr ins"
    by (rule open_inputs_honest[OF res ins(2)]) (use i c outputs_length[OF v] in auto)
  have sv: "served H (honest_tensors (outputs x) ?s) c i (kn_out k) = Some ?out"
    using map_of_honest[of i "outputs x" ?s] i ins(3,4) c[OF i] idx_nth[OF v i] outputs_length[OF v] by (simp add: served_def)
  have len: "length (kn_ins k) = length (sp_inputs ?s)"
    using list_all2_lengthD[OF ins(2)] list_all2_lengthD[OF res] by simp
  have "checkOpening H rnd ?s (Some (honest_opening (outputs x) ?s)) c (inputs x) k = Some Accept"
  proof (cases "sp_kind ?s")
    case Gemm
    then obtain f g where g: "kn_gemm k = Some f" "f ins = Some g" "gemm_dims g" "gemm_sig g ?out" "tn_data ?out = gemm_product g"
      "\<forall>y \<in> set (tn_data ?out). \<bar>y\<bar> \<le> HALF_P" using ins(5) by (auto simp: seg_computes_def)
    have "check_gemm rnd i g ?out = Some Accept" by (rule check_gemm_complete[OF g(3-6) rnd])
    then show ?thesis using op sv len Gemm g(1,2) idx_nth[OF v i]
      by (simp add: checkOpening_def honest_opening_def Let_def)
  next
    case Elementwise
    then obtain f where f: "kn_elementwise k = Some f" "f ins = Some ?out" using ins(5) by (auto simp: seg_computes_def)
    have "check_elementwise H i ?out (kn_out k) (committed c i) = Some Accept"
      using ins(3,4) c[OF i] by (simp add: check_elementwise_def tensorHash_def)
    then show ?thesis using op sv len Elementwise f idx_nth[OF v i]
      by (simp add: checkOpening_def honest_opening_def Let_def)
  next
    case Opaque
    then show ?thesis using ins(5) by (simp add: seg_computes_def)
  qed
  then show ?thesis using k(1) by blast
qed

text \<open>All segments accepted: the commitment is the honest one, so the result is the job's.\<close>

lemma all_opened_honest:
  assumes v: "valid x"
    and acc: "\<And>i. i < length (plan x) \<Longrightarrow>
      \<exists>k. krn x (sp_op (plan x ! i)) = Some k \<and> checkOpening H (rnd i) (plan x ! i) (Some (opn i)) c (inputs x) k = Some Accept"
    and nc: "\<And>i. i < length (plan x) \<Longrightarrow> no_collision H (opened (opn i)) (outputs x)"
    and nf: "\<And>i k g out. i < length (plan x) \<Longrightarrow> krn x (sp_op (plan x ! i)) = Some k
      \<Longrightarrow> honest_operands (inputs x) (outputs x) (plan x ! i) k g \<Longrightarrow> own_output (opn i) i = Some out \<Longrightarrow> \<not> fooled (rnd i) g (tn_data out)"
    and i: "i < length (plan x)"
  shows "committed c i = tensorHash H (outputs x ! i)"
  using i
proof (induction i rule: less_induct)
  case (less i)
  obtain k where k: "krn x (sp_op (plan x ! i)) = Some k" "seg_ok (inputs x) (outputs x) (plan x ! i) k i"
    using segments[OF v less.prems] by blast
  obtain k' where "krn x (sp_op (plan x ! i)) = Some k'"
    "checkOpening H (rnd i) (plan x ! i) (Some (opn i)) c (inputs x) k' = Some Accept" using acc[OF less.prems] by blast
  then have run: "checkOpening H (rnd i) (plan x ! i) (Some (opn i)) c (inputs x) k = Some Accept" using k(1) by simp
  show ?case
    by (rule seg_accepted[OF run k(2)])
      (use less idx_nth[OF v] outputs_length[OF v] outputs_valid[OF v] nc[OF less.prems] nf[OF less.prems k(1)] in auto)
qed

lemma all_opened_result:
  assumes v: "valid x" and bind: "checkCommitment H sigma (inputs x) (plan x) (Some c) (Some r) (resultSig x) = Some Accept"
    and acc: "\<And>i. i < length (plan x) \<Longrightarrow>
      \<exists>k. krn x (sp_op (plan x ! i)) = Some k \<and> checkOpening H (rnd i) (plan x ! i) (Some (opn i)) c (inputs x) k = Some Accept"
    and nc: "\<And>i. i < length (plan x) \<Longrightarrow> no_collision H (ints r # opened (opn i)) (outputs x)"
    and nf: "\<And>i k g out. i < length (plan x) \<Longrightarrow> krn x (sp_op (plan x ! i)) = Some k
      \<Longrightarrow> honest_operands (inputs x) (outputs x) (plan x ! i) k g \<Longrightarrow> own_output (opn i) i = Some out \<Longrightarrow> \<not> fooled (rnd i) g (tn_data out)"
  shows "r = rats (last (outputs x))"
proof -
  let ?n = "length (plan x) - 1"
  have n: "?n < length (plan x)" using plan_idx[OF v] by (cases "plan x") auto
  have nc': "no_collision H (opened (opn i)) (outputs x)" if "i < length (plan x)" for i
    using nc[OF that] by (simp add: no_collision_def)
  have com: "committed c ?n = tensorHash H (outputs x ! ?n)" by (rule all_opened_honest[OF v acc nc' nf n])
  have last: "last (outputs x) = outputs x ! ?n" using outputs_ne[OF v] outputs_length[OF v] by (simp add: last_conv_nth)
  note bound = checkCommitment_bindD[OF bind]
  have vr: "validTensor r" and hash: "tensorHash H (ints r) = committed c ?n" using bound n by auto
  have vu: "validTensor (rats (outputs x ! ?n))" by (rule outputs_valid[OF v n])
  have eq: "H (tensor_bytes (ints r)) = H (tensor_bytes (outputs x ! ?n))"
    using hash com vr vu by (simp add: tensorHash_def rats_ints hexdigest_def toHex_inj)
  have "tensor_bytes (ints r) = tensor_bytes (outputs x ! ?n)"
    using nc[OF n] eq n outputs_length[OF v] by (auto simp: no_collision_def)
  then have "ints r = outputs x ! ?n" by (intro tensor_bytes_inj) (use vr vu in \<open>simp_all add: rats_ints\<close>)
  then show ?thesis using last rats_ints[OF vr] by simp
qed

text \<open>An honest submission meets the conditions of \<open>all_opened_result\<close> when the hash separates the outputs.\<close>

lemma honest_opened: "set (opened (honest_opening outs spec)) \<subseteq> set outs"
proof
  fix t assume "t \<in> set (opened (honest_opening outs spec))"
  then obtain ref u where u: "(ref, u) \<in> set (honest_tensors outs spec)" "t = ints u"
    by (auto simp: opened_def honest_opening_def)
  from u(1) obtain j y where "js_at outs j = Some y" "u = rats y"
    unfolding honest_tensors_def by (auto dest!: in_map_filterD split: tensorRef.splits)
  then show "t \<in> set outs" using u(2) by (auto simp: js_at_eq_Some)
qed

lemma honest_no_collision:
  assumes "no_collision H (outputs x) (outputs x)" and "valid x"
  shows "no_collision H (ints (rats (last (outputs x))) # opened (honest_opening (outputs x) spec)) (outputs x)"
  using assms honest_opened[of "outputs x" spec] outputs_ne[of x] unfolding no_collision_def by auto

lemma honest_not_fooled:
  assumes v: "valid x" and i: "i < length (plan x)" and k: "krn x (sp_op (plan x ! i)) = Some k"
    and g: "honest_operands (inputs x) (outputs x) (plan x ! i) k g" "sp_kind (plan x ! i) = Gemm"
    and out: "own_output (honest_opening (outputs x) (plan x ! i)) i = Some out"
  shows "\<not> fooled rnd g (tn_data out)"
proof -
  have "seg_ok (inputs x) (outputs x) (plan x ! i) k i" using segments[OF v i] k by auto
  then have "tn_data (outputs x ! i) = gemm_product g"
    using g idx_nth[OF v i] by (auto simp: seg_ok_def seg_computes_def honest_operands_def inj_map_eq_map)
  moreover have "out = outputs x ! i"
    using out map_of_honest[of i "outputs x" "plan x ! i"] i idx_nth[OF v i] outputs_length[OF v]
    by (simp add: own_output_def honest_opening_def)
  ultimately show ?thesis by (simp add: fooled_def)
qed

end

end
