(* ===== verification/Int8Mlp.thy ===== *)
theory Int8Mlp
  imports ChallengeWork
begin

text \<open>
  The work type \<^verbatim>\<open>int8-mlp\<close> (\<^verbatim>\<open>shared/work-int8-mlp.ts\<close>): one quantized MLP block on the user's weights. The
  input at intake is a record of JavaScript numbers (rationals), which \<^verbatim>\<open>validateInt8Mlp\<close> checks; an accepted one is read
  as integers. A value that may be absent from an array is an option; \<open>None\<close> is a missing number or an exception.

  Shown: an accepted input is integral and within its bounds; every number that the execution and the re-quantization
  form is an exactly represented integer; every output tensor is well formed; and the block is a challenge work type, so
  that honest commitments and openings are accepted and a fully opened wrong result is not.
\<close>

subsection \<open>Input\<close>

record 'n int8MlpInput =
  mi_b :: 'n
  mi_d :: 'n
  mi_h :: 'n
  mi_X :: "'n list"
  mi_W1 :: "'n list"
  mi_b1 :: "'n list"
  mi_W2 :: "'n list"
  mi_b2 :: "'n list"
  mi_m1 :: 'n
  mi_s1 :: 'n
  mi_m2 :: 'n
  mi_s2 :: 'n
  mi_lut :: "'n list option"

record int8_limits =
  B_MAX :: int
  DIM_MIN :: int
  DIM_MAX :: int
  BIAS_MAX :: int
  M_MAX :: int
  S_MAX :: int

definition INT8_MLP :: int8_limits where
  "INT8_MLP = \<lparr>B_MAX = 64, DIM_MIN = 8, DIM_MAX = 256, BIAS_MAX = 2 ^ 20, M_MAX = 2 ^ 15 - 1, S_MAX = 31\<rparr>"

definition isInt :: "rat \<Rightarrow> int \<Rightarrow> int \<Rightarrow> bool" where
  "isInt v lo hi \<longleftrightarrow> isInteger v \<and> of_int lo \<le> v \<and> v \<le> of_int hi"

datatype mlp_error = BadB | BadDims | BadLength string rat | BadEntry string nat | BadScale string

fun check_entries :: "string \<Rightarrow> int \<Rightarrow> int \<Rightarrow> nat \<Rightarrow> rat list \<Rightarrow> mlp_error option" where
  "check_entries name lo hi i [] = None"
| "check_entries name lo hi i (v # vs) = (if isInt v lo hi then check_entries name lo hi (Suc i) vs else Some (BadEntry name i))"

fun check_arrays :: "(string \<times> rat list \<times> rat \<times> int \<times> int) list \<Rightarrow> mlp_error option" where
  "check_arrays [] = None"
| "check_arrays ((name, arr, len, lo, hi) # rest) =
     (if of_nat (length arr) \<noteq> len then Some (BadLength name len)
      else (case check_entries name lo hi 0 arr of Some e \<Rightarrow> Some e | None \<Rightarrow> check_arrays rest))"

definition mlp_arrays :: "rat int8MlpInput \<Rightarrow> (string \<times> rat list \<times> rat \<times> int \<times> int) list" where
  "mlp_arrays x =
     [(''X'', mi_X x, mi_b x * mi_d x, -128, 127),
      (''W1'', mi_W1 x, mi_d x * mi_h x, -128, 127),
      (''b1'', mi_b1 x, mi_h x, - BIAS_MAX INT8_MLP, BIAS_MAX INT8_MLP),
      (''W2'', mi_W2 x, mi_h x * mi_d x, -128, 127),
      (''b2'', mi_b2 x, mi_d x, - BIAS_MAX INT8_MLP, BIAS_MAX INT8_MLP)]
     @ (case mi_lut x of None \<Rightarrow> [] | Some lut \<Rightarrow> [(''lut'', lut, 256, -128, 127)])"

text \<open>\<open>None\<close> is acceptance, as \<^verbatim>\<open>null\<close> in the source.\<close>

definition validateInt8Mlp :: "rat int8MlpInput \<Rightarrow> mlp_error option" where
  "validateInt8Mlp x =
     (if \<not> isInt (mi_b x) 1 (B_MAX INT8_MLP) then Some BadB
      else if \<not> isInt (mi_d x) (DIM_MIN INT8_MLP) (DIM_MAX INT8_MLP) \<or> \<not> isInt (mi_h x) (DIM_MIN INT8_MLP) (DIM_MAX INT8_MLP) then Some BadDims
      else (case check_arrays (mlp_arrays x) of Some e \<Rightarrow> Some e
        | None \<Rightarrow>
            if \<not> isInt (mi_m1 x) 1 (M_MAX INT8_MLP) then Some (BadScale ''m1'')
            else if \<not> isInt (mi_m2 x) 1 (M_MAX INT8_MLP) then Some (BadScale ''m2'')
            else if \<not> isInt (mi_s1 x) 1 (S_MAX INT8_MLP) then Some (BadScale ''s1'')
            else if \<not> isInt (mi_s2 x) 1 (S_MAX INT8_MLP) then Some (BadScale ''s2'')
            else None))"

definition mlp_map :: "('a \<Rightarrow> 'b) \<Rightarrow> 'a int8MlpInput \<Rightarrow> 'b int8MlpInput" where
  "mlp_map f x = \<lparr>mi_b = f (mi_b x), mi_d = f (mi_d x), mi_h = f (mi_h x), mi_X = map f (mi_X x), mi_W1 = map f (mi_W1 x),
     mi_b1 = map f (mi_b1 x), mi_W2 = map f (mi_W2 x), mi_b2 = map f (mi_b2 x), mi_m1 = f (mi_m1 x), mi_s1 = f (mi_s1 x),
     mi_m2 = f (mi_m2 x), mi_s2 = f (mi_s2 x), mi_lut = map_option (map f) (mi_lut x)\<rparr>"

definition meterInt8Mlp :: "int int8MlpInput \<Rightarrow> int" where
  "meterInt8Mlp x = 2 * mi_b x * mi_d x * mi_h x"

subsection \<open>Tensors and plan\<close>

definition sig_i8 :: "int list \<Rightarrow> tensorSig" where
  "sig_i8 shape = \<lparr>sg_dtype = ''i8'', sg_shape = shape\<rparr>"

definition sig_i32 :: "int list \<Rightarrow> tensorSig" where
  "sig_i32 shape = \<lparr>sg_dtype = ''i32'', sg_shape = shape\<rparr>"

definition int8MlpInputSigs :: "int int8MlpInput \<Rightarrow> (string \<times> tensorSig) list" where
  "int8MlpInputSigs x = (let b = mi_b x; d = mi_d x; h = mi_h x in
     [(''X'', sig_i8 [b, d]), (''W1'', sig_i8 [d, h]), (''b1'', sig_i32 [h]), (''W2'', sig_i8 [h, d]), (''b2'', sig_i32 [d]),
      (''q'', sig_i32 [4]), (''lut'', sig_i8 [256])])"

definition reluLut :: "int list" where
  "reluLut = map (\<lambda>i. max (int i - 128) 0) [0..<256]"

definition lut_of :: "int int8MlpInput \<Rightarrow> int list" where
  "lut_of x = (case mi_lut x of Some l \<Rightarrow> l | None \<Rightarrow> reluLut)"

definition tensor_of :: "tensorSig \<Rightarrow> int list \<Rightarrow> int tensor" where
  "tensor_of s d = \<lparr>tn_dtype = sg_dtype s, tn_shape = sg_shape s, tn_data = d\<rparr>"

definition mlp_data :: "int int8MlpInput \<Rightarrow> (string \<times> int list) list" where
  "mlp_data x = [(''X'', mi_X x), (''W1'', mi_W1 x), (''b1'', mi_b1 x), (''W2'', mi_W2 x), (''b2'', mi_b2 x),
     (''q'', [mi_m1 x, mi_s1 x, mi_m2 x, mi_s2 x]), (''lut'', lut_of x)]"

definition int8MlpInputs :: "int int8MlpInput \<Rightarrow> tensors" where
  "int8MlpInputs x = map (\<lambda>(name, s). (name, tensor_of s (the (map_of (mlp_data x) name)))) (int8MlpInputSigs x)"

definition int8MlpResultSig :: "int int8MlpInput \<Rightarrow> tensorSig" where
  "int8MlpResultSig x = sig_i8 [mi_b x, mi_d x]"

definition PLAN :: "segmentSpec list" where
  "PLAN =
     [\<lparr>sp_idx = 0, sp_kind = Gemm, sp_op = ''xw1'', sp_inputs = [InRef ''X'', InRef ''W1'', InRef ''b1'']\<rparr>,
      \<lparr>sp_idx = 1, sp_kind = Elementwise, sp_op = ''rq1_lut'', sp_inputs = [SegRef 0]\<rparr>,
      \<lparr>sp_idx = 2, sp_kind = Gemm, sp_op = ''aw2'', sp_inputs = [SegRef 1, InRef ''W2'', InRef ''b2'']\<rparr>,
      \<lparr>sp_idx = 3, sp_kind = Elementwise, sp_op = ''rq2_res'', sp_inputs = [SegRef 2, InRef ''X'']\<rparr>]"

definition int8MlpPlan :: "int int8MlpInput \<Rightarrow> segmentSpec list" where
  "int8MlpPlan x = PLAN"

subsection \<open>Arithmetic\<close>

definition clamp8 :: "int \<Rightarrow> int" where
  "clamp8 v = (if v < -128 then -128 else if v > 127 then 127 else v)"

definition requant :: "int \<Rightarrow> int \<Rightarrow> int \<Rightarrow> int" where
  "requant v m s = clamp8 \<lfloor>(of_int (v * m + 2 ^ nat (s - 1)) / 2 ^ nat s :: rat)\<rfloor>"

definition gemm_init :: "int list \<Rightarrow> nat \<Rightarrow> nat \<Rightarrow> int list option" where
  "gemm_init bias m n = for_range 0 m (\<lambda>i C. for_range 0 n (\<lambda>j C. case js_at bias j of None \<Rightarrow> None
     | Some x \<Rightarrow> js_set C (i * n + j) x) C) (replicate (m * n) 0)"

definition gemm_j :: "int \<Rightarrow> int list \<Rightarrow> nat \<Rightarrow> nat \<Rightarrow> nat \<Rightarrow> int list \<Rightarrow> int list option" where
  "gemm_j a B row n i C = for_range 0 n (\<lambda>j C. case js_at C (i * n + j) of None \<Rightarrow> None
     | Some c \<Rightarrow> (case js_at B (row + j) of None \<Rightarrow> None | Some b \<Rightarrow> js_set C (i * n + j) (c + a * b))) C"

definition gemm_t :: "int list \<Rightarrow> int list \<Rightarrow> nat \<Rightarrow> nat \<Rightarrow> nat \<Rightarrow> int list \<Rightarrow> int list option" where
  "gemm_t A B k n i C = for_range 0 k (\<lambda>t C. case js_at A (i * k + t) of None \<Rightarrow> None
     | Some a \<Rightarrow> if a = 0 then Some C else gemm_j a B (t * n) n i C) C"

definition gemmBias :: "int list \<Rightarrow> int list \<Rightarrow> int list \<Rightarrow> nat \<Rightarrow> nat \<Rightarrow> nat \<Rightarrow> int list option" where
  "gemmBias A B bias m k n =
     (case gemm_init bias m n of None \<Rightarrow> None | Some C \<Rightarrow> for_range 0 m (gemm_t A B k n) C)"

subsection \<open>Kernels and execution\<close>

definition gemm3 :: "nat \<Rightarrow> nat \<Rightarrow> nat \<Rightarrow> int tensor list \<Rightarrow> gemmOperands option" where
  "gemm3 m k n ins = (case ins of [a, w, bs] \<Rightarrow>
       Some \<lparr>gm_A = tn_data a, gm_B = tn_data w, gm_bias = Some (tn_data bs), gm_m = m, gm_k = k, gm_n = n\<rparr>
     | _ \<Rightarrow> None)"

definition rq1_lut :: "int int8MlpInput \<Rightarrow> int tensor list \<Rightarrow> int tensor option" where
  "rq1_lut x ins = (case ins of [acc] \<Rightarrow>
       map_option (tensor_of (sig_i8 [mi_b x, mi_h x]))
         (opt_all (map (\<lambda>v. js_at (lut_of x) (nat (requant v (mi_m1 x) (mi_s1 x) + 128))) (tn_data acc)))
     | _ \<Rightarrow> None)"

definition rq2_res :: "int int8MlpInput \<Rightarrow> int tensor list \<Rightarrow> int tensor option" where
  "rq2_res x ins = (case ins of [acc, xs] \<Rightarrow>
       map_option (tensor_of (sig_i8 [mi_b x, mi_d x]))
         (opt_all (map (\<lambda>(i, v). map_option (\<lambda>u. clamp8 (requant v (mi_m2 x) (mi_s2 x) + u)) (js_at (tn_data xs) i))
            (enumerate 0 (tn_data acc))))
     | _ \<Rightarrow> None)"

definition int8MlpKernel :: "int int8MlpInput \<Rightarrow> string \<Rightarrow> segmentKernel option" where
  "int8MlpKernel x op =
     (let b = mi_b x; d = mi_d x; h = mi_h x in
      if op = ''xw1'' then Some \<lparr>kn_ins = [sig_i8 [b, d], sig_i8 [d, h], sig_i32 [h]], kn_out = sig_i32 [b, h],
        kn_gemm = Some (gemm3 (nat b) (nat d) (nat h)), kn_elementwise = None, kn_opaque = None\<rparr>
      else if op = ''rq1_lut'' then Some \<lparr>kn_ins = [sig_i32 [b, h]], kn_out = sig_i8 [b, h],
        kn_gemm = None, kn_elementwise = Some (rq1_lut x), kn_opaque = None\<rparr>
      else if op = ''aw2'' then Some \<lparr>kn_ins = [sig_i8 [b, h], sig_i8 [h, d], sig_i32 [d]], kn_out = sig_i32 [b, d],
        kn_gemm = Some (gemm3 (nat b) (nat h) (nat d)), kn_elementwise = None, kn_opaque = None\<rparr>
      else if op = ''rq2_res'' then Some \<lparr>kn_ins = [sig_i32 [b, d], sig_i8 [b, d]], kn_out = sig_i8 [b, d],
        kn_gemm = None, kn_elementwise = Some (rq2_res x), kn_opaque = None\<rparr>
      else None)"

text \<open>One segment of the execution: the product when the kernel has one, else the recomputation.\<close>

definition run_segment :: "segmentKernel \<Rightarrow> int tensor list \<Rightarrow> int tensor option" where
  "run_segment k args = (case kn_gemm k of
       Some f \<Rightarrow> (case f args of None \<Rightarrow> None
         | Some g \<Rightarrow> map_option (tensor_of (kn_out k))
             (gemmBias (gm_A g) (gm_B g) (case gm_bias g of Some b \<Rightarrow> b | None \<Rightarrow> replicate (gm_n g) 0) (gm_m g) (gm_k g) (gm_n g)))
     | None \<Rightarrow> (case kn_elementwise k of None \<Rightarrow> None | Some f \<Rightarrow> f args))"

fun run_plan :: "(string \<Rightarrow> segmentKernel option) \<Rightarrow> tensors \<Rightarrow> segmentSpec list \<Rightarrow> int tensor list \<Rightarrow> int tensor list option" where
  "run_plan krn ins [] outputs = Some outputs"
| "run_plan krn ins (spec # specs) outputs =
     (case krn (sp_op spec) of None \<Rightarrow> None | Some k \<Rightarrow>
     (case opt_all (map (resolve ins outputs) (sp_inputs spec)) of None \<Rightarrow> None | Some args \<Rightarrow>
     (case run_segment k args of None \<Rightarrow> None | Some out \<Rightarrow> run_plan krn ins specs (outputs @ [out]))))"

definition executeInt8Mlp :: "int int8MlpInput \<Rightarrow> (int tensor list \<times> int tensor) option" where
  "executeInt8Mlp x = (case run_plan (int8MlpKernel x) (int8MlpInputs x) PLAN [] of
       Some outputs \<Rightarrow> if outputs = [] then None else Some (outputs, last outputs)
     | None \<Rightarrow> None)"

subsection \<open>What validation means\<close>

definition in_range :: "int \<Rightarrow> int \<Rightarrow> int list \<Rightarrow> bool" where
  "in_range lo hi xs \<longleftrightarrow> (\<forall>v \<in> set xs. lo \<le> v \<and> v \<le> hi)"

definition mlp_ok :: "int int8MlpInput \<Rightarrow> bool" where
  "mlp_ok x \<longleftrightarrow> validateInt8Mlp (mlp_map of_int x) = None"

lemma isInt_of_int [simp]: "isInt (of_int v) lo hi \<longleftrightarrow> lo \<le> v \<and> v \<le> hi"
  by (simp add: isInt_def)

lemma check_entries_None: "check_entries name lo hi i vs = None \<longleftrightarrow> list_all (\<lambda>v. isInt v lo hi) vs"
  by (induction vs arbitrary: i) auto

lemma check_arrays_None: "check_arrays xs = None \<longleftrightarrow>
    list_all (\<lambda>(name, arr, len, lo, hi). of_nat (length arr) = len \<and> list_all (\<lambda>v. isInt v lo hi) arr) xs"
proof (induction xs rule: check_arrays.induct)
  case (2 name arr len lo hi rest)
  then show ?case using check_entries_None[of name lo hi 0 arr] by (cases "check_entries name lo hi 0 arr") auto
qed simp

lemma length_of_int_mult: "rat_of_nat (length xs) = of_int m * of_int n \<longleftrightarrow> int (length xs) = m * n"
  by (metis of_int_eq_iff of_int_mult of_int_of_nat_eq)

lemma length_of_int: "rat_of_nat (length xs) = of_int m \<longleftrightarrow> int (length xs) = m"
  by (metis of_int_eq_iff of_int_of_nat_eq)

lemma list_all_isInt: "list_all (\<lambda>v. isInt v lo hi) (map of_int xs) \<longleftrightarrow> in_range lo hi xs"
  by (auto simp: list_all_iff in_range_def)

lemma mlp_ok_iff:
  "mlp_ok x \<longleftrightarrow> (1 \<le> mi_b x \<and> mi_b x \<le> 64) \<and> (8 \<le> mi_d x \<and> mi_d x \<le> 256) \<and> (8 \<le> mi_h x \<and> mi_h x \<le> 256)
     \<and> int (length (mi_X x)) = mi_b x * mi_d x \<and> in_range (-128) 127 (mi_X x)
     \<and> int (length (mi_W1 x)) = mi_d x * mi_h x \<and> in_range (-128) 127 (mi_W1 x)
     \<and> int (length (mi_b1 x)) = mi_h x \<and> in_range (- (2 ^ 20)) (2 ^ 20) (mi_b1 x)
     \<and> int (length (mi_W2 x)) = mi_h x * mi_d x \<and> in_range (-128) 127 (mi_W2 x)
     \<and> int (length (mi_b2 x)) = mi_d x \<and> in_range (- (2 ^ 20)) (2 ^ 20) (mi_b2 x)
     \<and> (case mi_lut x of None \<Rightarrow> True | Some l \<Rightarrow> length l = 256 \<and> in_range (-128) 127 l)
     \<and> (1 \<le> mi_m1 x \<and> mi_m1 x \<le> 2 ^ 15 - 1) \<and> (1 \<le> mi_m2 x \<and> mi_m2 x \<le> 2 ^ 15 - 1)
     \<and> (1 \<le> mi_s1 x \<and> mi_s1 x \<le> 31) \<and> (1 \<le> mi_s2 x \<and> mi_s2 x \<le> 31)"
proof -
  have l: "rat_of_nat (length xs) = 256 \<longleftrightarrow> length xs = 256" for xs :: "int list"
    by (metis of_nat_eq_iff of_nat_numeral)
  have arr: "check_arrays (mlp_arrays (mlp_map of_int x)) = None \<longleftrightarrow>
       int (length (mi_X x)) = mi_b x * mi_d x \<and> in_range (-128) 127 (mi_X x)
     \<and> int (length (mi_W1 x)) = mi_d x * mi_h x \<and> in_range (-128) 127 (mi_W1 x)
     \<and> int (length (mi_b1 x)) = mi_h x \<and> in_range (- (2 ^ 20)) (2 ^ 20) (mi_b1 x)
     \<and> int (length (mi_W2 x)) = mi_h x * mi_d x \<and> in_range (-128) 127 (mi_W2 x)
     \<and> int (length (mi_b2 x)) = mi_d x \<and> in_range (- (2 ^ 20)) (2 ^ 20) (mi_b2 x)
     \<and> (case mi_lut x of None \<Rightarrow> True | Some l \<Rightarrow> length l = 256 \<and> in_range (-128) 127 l)"
    unfolding check_arrays_None mlp_arrays_def mlp_map_def INT8_MLP_def
    by (simp add: length_of_int_mult length_of_int list_all_isInt l split: option.split)
  show ?thesis
    unfolding mlp_ok_def validateInt8Mlp_def
    using arr by (auto simp: mlp_map_def INT8_MLP_def split: option.splits if_splits)
qed

text \<open>An accepted input is a list of integers: reading it as such loses nothing.\<close>

lemma map_floor_int: "list_all (\<lambda>v. isInt v lo hi) xs \<Longrightarrow> map of_int (map floor xs) = xs"
  by (induction xs) (auto simp: isInt_def isInteger_def)

lemma validate_reads:
  assumes "validateInt8Mlp r = None"
  shows "mlp_map of_int (mlp_map floor r) = r" and "mlp_ok (mlp_map floor r)"
proof -
  have i: "isInt (mi_b r) 1 (B_MAX INT8_MLP)" "isInt (mi_d r) (DIM_MIN INT8_MLP) (DIM_MAX INT8_MLP)"
    "isInt (mi_h r) (DIM_MIN INT8_MLP) (DIM_MAX INT8_MLP)" "check_arrays (mlp_arrays r) = None"
    "isInt (mi_m1 r) 1 (M_MAX INT8_MLP)" "isInt (mi_m2 r) 1 (M_MAX INT8_MLP)" "isInt (mi_s1 r) 1 (S_MAX INT8_MLP)" "isInt (mi_s2 r) 1 (S_MAX INT8_MLP)"
    using assms by (auto simp: validateInt8Mlp_def split: if_splits option.splits)
  have fl: "of_int \<lfloor>v\<rfloor> = v" if "isInt v lo hi" for v lo hi using that by (simp add: isInt_def isInteger_def)
  have arr: "list_all (\<lambda>v. isInt v (-128) 127) (mi_X r)" "list_all (\<lambda>v. isInt v (-128) 127) (mi_W1 r)"
    "list_all (\<lambda>v. isInt v (-128) 127) (mi_W2 r)"
    "list_all (\<lambda>v. isInt v (- BIAS_MAX INT8_MLP) (BIAS_MAX INT8_MLP)) (mi_b1 r)"
    "list_all (\<lambda>v. isInt v (- BIAS_MAX INT8_MLP) (BIAS_MAX INT8_MLP)) (mi_b2 r)"
    "\<And>l. mi_lut r = Some l \<Longrightarrow> list_all (\<lambda>v. isInt v (-128) 127) l"
    using i(4) unfolding check_arrays_None mlp_arrays_def by (simp_all split: option.splits)
  have lut: "map_option (map of_int) (map_option (map floor) (mi_lut r)) = mi_lut r"
    using arr(6) map_floor_int by (cases "mi_lut r") auto
  show eq: "mlp_map of_int (mlp_map floor r) = r"
    using i arr(1-5) lut fl unfolding mlp_map_def
    by (intro int8MlpInput.equality) (simp_all only: int8MlpInput.simps map_floor_int, auto)
  show "mlp_ok (mlp_map floor r)" using assms eq by (simp add: mlp_ok_def)
qed

subsection \<open>The product loop\<close>

lemma gemm_init_eq:
  assumes "length bias = n"
  shows "gemm_init bias m n = Some (map (\<lambda>x. bias ! (x mod n)) [0..<m * n])"
proof -
  let ?I = "\<lambda>i C. length C = m * n \<and> (\<forall>r < i. \<forall>j < n. C ! (r * n + j) = bias ! j)"
  have "\<exists>C. gemm_init bias m n = Some C \<and> ?I m C"
    unfolding gemm_init_def
  proof (rule for_range_rule[where I = ?I])
    fix i C assume i: "i < m" and C: "?I i C"
    let ?J = "\<lambda>j D. length D = m * n \<and> (\<forall>r < i. \<forall>l < n. D ! (r * n + l) = bias ! l) \<and> (\<forall>l < j. D ! (i * n + l) = bias ! l)"
    have "\<exists>D. for_range 0 n (\<lambda>j C. case js_at bias j of None \<Rightarrow> None | Some x \<Rightarrow> js_set C (i * n + j) x) C = Some D \<and> ?J n D"
    proof (rule for_range_rule[where I = ?J])
      fix j D assume j: "j < n" and D: "?J j D"
      have other: "i * n + j \<noteq> r * n + l" if "r < i" "l < n" for r l
        using row_col[of r m l n] row_col[of i m j n] that i j by (metis less_trans nat_neq_iff)
      show "\<exists>E. (case js_at bias j of None \<Rightarrow> None | Some x \<Rightarrow> js_set D (i * n + j) x) = Some E \<and> ?J (Suc j) E"
        using D j i assms nth_row_major[OF i j] other by (auto simp: less_Suc_eq)
    qed (use C in auto)
    then show "\<exists>D. for_range 0 n (\<lambda>j C. case js_at bias j of None \<Rightarrow> None | Some x \<Rightarrow> js_set C (i * n + j) x) C = Some D \<and> ?I (Suc i) D"
      by (auto simp: less_Suc_eq)
  qed auto
  then obtain C where C: "gemm_init bias m n = Some C" "length C = m * n" "\<forall>r < m. \<forall>j < n. C ! (r * n + j) = bias ! j" by blast
  have "C = map (\<lambda>x. bias ! (x mod n)) [0..<m * n]"
    using C(2,3) row_col nth_row_major by (intro list_eq_row_major[of _ m n]) auto
  then show ?thesis using C(1) by simp
qed

lemma row_neq: "r \<noteq> i \<Longrightarrow> l < n \<Longrightarrow> j < n \<Longrightarrow> i * n + j \<noteq> r * n + (l::nat)"
  using row_col[of r "Suc r" l n] row_col[of i "Suc i" j n] by (metis lessI)

lemma gemm_j_spec:
  assumes "length C = m * n" and i: "i < m" and "length B = k * n" and t: "t < k"
  shows "\<exists>D. gemm_j a B (t * n) n i C = Some D \<and> length D = m * n
    \<and> (\<forall>r < m. \<forall>l < n. D ! (r * n + l) = C ! (r * n + l) + (if r = i then a * B ! (t * n + l) else 0))"
proof -
  let ?J = "\<lambda>j D. length D = m * n
    \<and> (\<forall>r < m. \<forall>l < n. D ! (r * n + l) = C ! (r * n + l) + (if r = i \<and> l < j then a * B ! (t * n + l) else 0))"
  have "\<exists>D. gemm_j a B (t * n) n i C = Some D \<and> ?J n D"
    unfolding gemm_j_def
  proof (rule for_range_rule[where I = ?J])
    fix j D assume j: "j < n" and D: "?J j D"
    let ?D = "D[i * n + j := D ! (i * n + j) + a * B ! (t * n + j)]"
    have pos: "i * n + j < length D" "t * n + j < length B" using nth_row_major[OF i j] nth_row_major[OF t j] D assms(3) by auto
    have "?J (Suc j) ?D"
    proof (intro conjI allI impI)
      fix r l assume r: "r < m" and l: "l < n"
      show "?D ! (r * n + l) = C ! (r * n + l) + (if r = i \<and> l < Suc j then a * B ! (t * n + l) else 0)"
      proof (cases "r = i \<and> l = j")
        case True
        then show ?thesis using pos D i j by simp
      next
        case False
        then have "i * n + j \<noteq> r * n + l" using row_neq[of r i l n j] l j by (cases "r = i") auto
        then show ?thesis using False D r l by (auto simp: less_Suc_eq)
      qed
    qed (use D in simp)
    then show "\<exists>E. (case js_at D (i * n + j) of None \<Rightarrow> None
        | Some c \<Rightarrow> (case js_at B (t * n + j) of None \<Rightarrow> None | Some b \<Rightarrow> js_set D (i * n + j) (c + a * b))) = Some E \<and> ?J (Suc j) E"
      using pos by simp
  qed (use assms in simp)
  then show ?thesis by auto
qed

lemma gemm_t_spec:
  assumes "length C = m * n" and i: "i < m" and "length A = m * k" and B: "length B = k * n"
  shows "\<exists>D. gemm_t A B k n i C = Some D \<and> length D = m * n
    \<and> (\<forall>r < m. \<forall>l < n. D ! (r * n + l) = C ! (r * n + l) + (if r = i then rdot k n A B i l else 0))"
proof -
  let ?I = "\<lambda>t D. length D = m * n
    \<and> (\<forall>r < m. \<forall>l < n. D ! (r * n + l) = C ! (r * n + l) + (if r = i then (\<Sum>u < t. A ! (i * k + u) * B ! (u * n + l)) else 0))"
  have "\<exists>D. gemm_t A B k n i C = Some D \<and> ?I k D"
    unfolding gemm_t_def
  proof (rule for_range_rule[where I = ?I])
    fix t D assume t: "t < k" and D: "?I t D"
    have a: "js_at A (i * k + t) = Some (A ! (i * k + t))" using nth_row_major[OF i t] assms(3) by simp
    show "\<exists>E. (case js_at A (i * k + t) of None \<Rightarrow> None | Some a \<Rightarrow> if a = 0 then Some D else gemm_j a B (t * n) n i D) = Some E \<and> ?I (Suc t) E"
    proof (cases "A ! (i * k + t) = 0")
      case True
      then show ?thesis using a D by simp
    next
      case False
      from gemm_j_spec[OF conjunct1[OF D] i B t, of "A ! (i * k + t)"] obtain E where
        "gemm_j (A ! (i * k + t)) B (t * n) n i D = Some E" "length E = m * n"
        "\<forall>r < m. \<forall>l < n. E ! (r * n + l) = D ! (r * n + l) + (if r = i then A ! (i * k + t) * B ! (t * n + l) else 0)" by blast
      then show ?thesis using a D False by auto
    qed
  qed (use assms in simp)
  then show ?thesis by (auto simp: rdot_def)
qed

lemma gemmBias_eq:
  assumes "length A = m * k" and "length B = k * n" and "length bias = n"
  shows "gemmBias A B bias m k n = Some (gemm_product \<lparr>gm_A = A, gm_B = B, gm_bias = Some bias, gm_m = m, gm_k = k, gm_n = n\<rparr>)"
proof -
  let ?C = "map (\<lambda>x. bias ! (x mod n)) [0..<m * n]"
  let ?I = "\<lambda>i D. length D = m * n
    \<and> (\<forall>r < m. \<forall>l < n. D ! (r * n + l) = bias ! l + (if r < i then rdot k n A B r l else 0))"
  have C: "?I 0 ?C" using row_col nth_row_major by auto
  have "\<exists>D. for_range 0 m (gemm_t A B k n) ?C = Some D \<and> ?I m D"
  proof (rule for_range_rule[where I = ?I, OF C])
    fix i D assume i: "i < m" and D: "?I i D"
    from gemm_t_spec[OF conjunct1[OF D] i assms(1,2)] obtain E where "gemm_t A B k n i D = Some E" "length E = m * n"
      "\<forall>r < m. \<forall>l < n. E ! (r * n + l) = D ! (r * n + l) + (if r = i then rdot k n A B i l else 0)" by blast
    then show "\<exists>E. gemm_t A B k n i D = Some E \<and> ?I (Suc i) E" using D by (auto simp: less_Suc_eq)
  qed
  then obtain D where D: "for_range 0 m (gemm_t A B k n) ?C = Some D" "length D = m * n"
    "\<forall>r < m. \<forall>l < n. D ! (r * n + l) = bias ! l + rdot k n A B r l" by auto
  have "D = gemm_product \<lparr>gm_A = A, gm_B = B, gm_bias = Some bias, gm_m = m, gm_k = k, gm_n = n\<rparr>"
    by (rule list_eq_row_major[of _ m n])
      (use D(2,3) gemm_product_nth[of _ "\<lparr>gm_A = A, gm_B = B, gm_bias = Some bias, gm_m = m, gm_k = k, gm_n = n\<rparr>"]
        in \<open>auto simp: gemm_entry_def bias_at_def\<close>)
  then show ?thesis using D(1) gemm_init_eq[OF assms(3)] by (simp add: gemmBias_def)
qed

subsection \<open>Bounds\<close>

lemma clamp8_range: "-128 \<le> clamp8 v \<and> clamp8 v \<le> 127"
  by (simp add: clamp8_def)

lemma requant_range: "-128 \<le> requant v m s \<and> requant v m s \<le> 127"
  by (simp add: requant_def clamp8_range)

lemma requant_eq: "requant v m s = clamp8 ((v * m + 2 ^ nat (s - 1)) div 2 ^ nat s)"
  unfolding requant_def by (metis floor_divide_of_int_eq of_int_numeral of_int_power)

lemma rdot_bound:
  assumes "length A = m * k" and "length B = k * n" and "in_range (-128) 127 A" and "in_range (-128) 127 B" and "i < m" and "j < n"
  shows "\<bar>rdot k n A B i j\<bar> \<le> int k * 2 ^ 14"
proof -
  have "\<bar>A ! (i * k + t) * B ! (t * n + j)\<bar> \<le> 2 ^ 14" if "t < k" for t
  proof -
    have "A ! (i * k + t) \<in> set A" "B ! (t * n + j) \<in> set B"
      using nth_row_major[OF assms(5) that] nth_row_major[OF that assms(6)] assms(1,2) by auto
    then have "\<bar>A ! (i * k + t)\<bar> \<le> 128" "\<bar>B ! (t * n + j)\<bar> \<le> 128" using assms(3,4) by (force simp: in_range_def)+
    then have "\<bar>A ! (i * k + t)\<bar> * \<bar>B ! (t * n + j)\<bar> \<le> 128 * 128" by (intro mult_mono) auto
    then show ?thesis by (simp add: abs_mult)
  qed
  then have "(\<Sum>t < k. \<bar>A ! (i * k + t) * B ! (t * n + j)\<bar>) \<le> (\<Sum>t < k. 2 ^ 14)" by (intro sum_mono) auto
  then have "(\<Sum>t < k. \<bar>A ! (i * k + t) * B ! (t * n + j)\<bar>) \<le> int k * 2 ^ 14" by simp
  with sum_abs[of "\<lambda>t. A ! (i * k + t) * B ! (t * n + j)" "{..<k}"] show ?thesis unfolding rdot_def by (rule order_trans)
qed

definition ACC_MAX :: int where
  "ACC_MAX = 256 * 128 ^ 2 + 2 ^ 20"

lemma gemm_product_bound:
  assumes "length A = m * k" and "length B = k * n" and "length bs = n" and "k \<le> 256"
    and "in_range (-128) 127 A" and "in_range (-128) 127 B" and "in_range (- (2 ^ 20)) (2 ^ 20) bs"
  shows "in_range (- ACC_MAX) ACC_MAX (gemm_product \<lparr>gm_A = A, gm_B = B, gm_bias = Some bs, gm_m = m, gm_k = k, gm_n = n\<rparr>)"
proof -
  have "\<bar>gemm_entry \<lparr>gm_A = A, gm_B = B, gm_bias = Some bs, gm_m = m, gm_k = k, gm_n = n\<rparr> i j\<bar> \<le> ACC_MAX" if "i < m" "j < n" for i j
  proof -
    have "bs ! j \<in> set bs" using that assms(3) by simp
    then have "\<bar>bs ! j\<bar> \<le> 2 ^ 20" using assms(7) by (force simp: in_range_def)
    moreover have "int k * 2 ^ 14 \<le> 256 * 2 ^ 14" using assms(4) by simp
    ultimately show ?thesis using rdot_bound[OF assms(1,2,5,6) that] by (simp add: gemm_entry_def bias_at_def ACC_MAX_def)
  qed
  then have "\<bar>x\<bar> \<le> ACC_MAX" if "x \<in> set (gemm_product \<lparr>gm_A = A, gm_B = B, gm_bias = Some bs, gm_m = m, gm_k = k, gm_n = n\<rparr>)" for x
    using that by (auto simp: gemm_product_def less_mult_imp_div_less)
      (metis mod_less_divisor mult_is_0 not_less_zero neq0_conv less_mult_imp_div_less)
  then show ?thesis by (force simp: in_range_def)
qed

subsection \<open>The block\<close>

definition g1 :: "int int8MlpInput \<Rightarrow> gemmOperands" where
  "g1 x = \<lparr>gm_A = mi_X x, gm_B = mi_W1 x, gm_bias = Some (mi_b1 x), gm_m = nat (mi_b x), gm_k = nat (mi_d x), gm_n = nat (mi_h x)\<rparr>"

definition act1 :: "int int8MlpInput \<Rightarrow> int list" where
  "act1 x = map (\<lambda>v. lut_of x ! nat (requant v (mi_m1 x) (mi_s1 x) + 128)) (gemm_product (g1 x))"

definition g2 :: "int int8MlpInput \<Rightarrow> gemmOperands" where
  "g2 x = \<lparr>gm_A = act1 x, gm_B = mi_W2 x, gm_bias = Some (mi_b2 x), gm_m = nat (mi_b x), gm_k = nat (mi_h x), gm_n = nat (mi_d x)\<rparr>"

definition res2 :: "int int8MlpInput \<Rightarrow> int list" where
  "res2 x = map (\<lambda>(i, v). clamp8 (requant v (mi_m2 x) (mi_s2 x) + mi_X x ! i)) (enumerate 0 (gemm_product (g2 x)))"

definition block_outputs :: "int int8MlpInput \<Rightarrow> int tensor list" where
  "block_outputs x =
     [tensor_of (sig_i32 [mi_b x, mi_h x]) (gemm_product (g1 x)), tensor_of (sig_i8 [mi_b x, mi_h x]) (act1 x),
      tensor_of (sig_i32 [mi_b x, mi_d x]) (gemm_product (g2 x)), tensor_of (sig_i8 [mi_b x, mi_d x]) (res2 x)]"

lemma tensor_of_sel [simp]: "tn_data (tensor_of s d) = d" "tn_dtype (tensor_of s d) = sg_dtype s" "tn_shape (tensor_of s d) = sg_shape s"
  "hasSig (tensor_of s d) s"
  by (simp_all add: tensor_of_def hasSig_iff)

lemma valid_i8: "validTensor (rats (tensor_of (sig_i8 sh) d)) \<longleftrightarrow> sh \<noteq> [] \<and> length sh \<le> 4 \<and> (\<forall>s \<in> set sh. 0 < s)
    \<and> int (length d) = prod_list sh \<and> in_range (-128) 127 d"
  unfolding valid_rats_iff in_range_def by (simp add: sig_i8_def RANGE_def)

lemma valid_i32: "validTensor (rats (tensor_of (sig_i32 sh) d)) \<longleftrightarrow> sh \<noteq> [] \<and> length sh \<le> 4 \<and> (\<forall>s \<in> set sh. 0 < s)
    \<and> int (length d) = prod_list sh \<and> in_range (- (2 ^ 31)) (2 ^ 31 - 1) d"
  unfolding valid_rats_iff in_range_def by (simp add: sig_i32_def RANGE_def)

lemma in_range_mono: "in_range lo hi xs \<Longrightarrow> lo' \<le> lo \<Longrightarrow> hi \<le> hi' \<Longrightarrow> in_range lo' hi' xs"
  by (force simp: in_range_def)

lemma lut_ok: "mlp_ok x \<Longrightarrow> length (lut_of x) = 256 \<and> in_range (-128) 127 (lut_of x)"
  by (auto simp: mlp_ok_iff lut_of_def reluLut_def in_range_def split: option.splits)

lemma lut_index: "mlp_ok x \<Longrightarrow> nat (requant v m s + 128) < length (lut_of x)"
  using lut_ok[of x] requant_range[of v m s] by linarith

definition dims :: "int int8MlpInput \<Rightarrow> nat \<times> nat \<times> nat" where
  "dims x = (nat (mi_b x), nat (mi_d x), nat (mi_h x))"

lemma ok_lengths:
  assumes "mlp_ok x"
  shows "length (mi_X x) = nat (mi_b x) * nat (mi_d x)" "length (mi_W1 x) = nat (mi_d x) * nat (mi_h x)"
    "length (mi_b1 x) = nat (mi_h x)" "length (mi_W2 x) = nat (mi_h x) * nat (mi_d x)" "length (mi_b2 x) = nat (mi_d x)"
proof -
  note o = assms[unfolded mlp_ok_iff]
  have eq: "length xs = nat m * nat n" if "int (length xs) = m * n" "0 \<le> m" "0 \<le> n" for m n and xs :: "int list"
    using that by (metis nat_int nat_mult_distrib)
  show "length (mi_X x) = nat (mi_b x) * nat (mi_d x)" by (rule eq) (use o in linarith)+
  show "length (mi_W1 x) = nat (mi_d x) * nat (mi_h x)" by (rule eq) (use o in linarith)+
  show "length (mi_W2 x) = nat (mi_h x) * nat (mi_d x)" by (rule eq) (use o in linarith)+
  show "length (mi_b1 x) = nat (mi_h x)" using o by linarith
  show "length (mi_b2 x) = nat (mi_d x)" using o by linarith
qed

lemma act1_ok: "mlp_ok x \<Longrightarrow> length (act1 x) = nat (mi_b x) * nat (mi_h x) \<and> in_range (-128) 127 (act1 x)"
  using lut_index[of x] lut_ok[of x] unfolding act1_def in_range_def by (auto simp: g1_def)

lemma ok_ranges:
  assumes "mlp_ok x"
  shows "in_range (-128) 127 (mi_X x)" "in_range (-128) 127 (mi_W1 x)" "in_range (-128) 127 (mi_W2 x)"
    "in_range (- (2 ^ 20)) (2 ^ 20) (mi_b1 x)" "in_range (- (2 ^ 20)) (2 ^ 20) (mi_b2 x)" "nat (mi_d x) \<le> 256" "nat (mi_h x) \<le> 256"
  using assms[unfolded mlp_ok_iff] by auto

lemma acc1_ok: "mlp_ok x \<Longrightarrow> in_range (- ACC_MAX) ACC_MAX (gemm_product (g1 x))"
  unfolding g1_def by (rule gemm_product_bound[OF ok_lengths(1-3) ok_ranges(6,1,2,4)])

lemma acc2_ok: "mlp_ok x \<Longrightarrow> in_range (- ACC_MAX) ACC_MAX (gemm_product (g2 x))"
  unfolding g2_def by (rule gemm_product_bound[OF conjunct1[OF act1_ok] ok_lengths(4,5) ok_ranges(7) conjunct2[OF act1_ok] ok_ranges(3,5)])

lemma res2_ok: "length (res2 x) = nat (mi_b x) * nat (mi_d x) \<and> in_range (-128) 127 (res2 x)"
  using clamp8_range by (auto simp: res2_def g2_def in_range_def)

lemma block_valid:
  assumes "mlp_ok x" and "t \<in> set (block_outputs x)"
  shows "validTensor (rats t)"
proof -
  note o = assms(1)[unfolded mlp_ok_iff]
  have pos: "0 < mi_b x" "0 < mi_d x" "0 < mi_h x" using o by linarith+
  have acc: "in_range (- (2 ^ 31)) (2 ^ 31 - 1) (gemm_product (g1 x))" "in_range (- (2 ^ 31)) (2 ^ 31 - 1) (gemm_product (g2 x))"
    using acc1_ok[OF assms(1)] acc2_ok[OF assms(1)] by (auto intro: in_range_mono simp: ACC_MAX_def)
  have len: "length (gemm_product (g1 x)) = nat (mi_b x) * nat (mi_h x)" "length (gemm_product (g2 x)) = nat (mi_b x) * nat (mi_d x)"
    by (simp_all add: g1_def g2_def)
  show ?thesis
    using assms(2) pos acc len act1_ok[OF assms(1)] res2_ok[of x] unfolding block_outputs_def
    by (auto simp: valid_i8 valid_i32)
qed

lemma inputs_of [simp]:
  "map_of (int8MlpInputs x) ''X'' = Some (tensor_of (sig_i8 [mi_b x, mi_d x]) (mi_X x))"
  "map_of (int8MlpInputs x) ''W1'' = Some (tensor_of (sig_i8 [mi_d x, mi_h x]) (mi_W1 x))"
  "map_of (int8MlpInputs x) ''b1'' = Some (tensor_of (sig_i32 [mi_h x]) (mi_b1 x))"
  "map_of (int8MlpInputs x) ''W2'' = Some (tensor_of (sig_i8 [mi_h x, mi_d x]) (mi_W2 x))"
  "map_of (int8MlpInputs x) ''b2'' = Some (tensor_of (sig_i32 [mi_d x]) (mi_b2 x))"
  by (simp_all add: int8MlpInputs_def int8MlpInputSigs_def mlp_data_def Let_def)

lemma inputs_ok:
  assumes "mlp_ok x" and "(name, t) \<in> set (int8MlpInputs x)"
  shows "validTensor (rats t)"
proof -
  note o = assms(1)[unfolded mlp_ok_iff]
  have pos: "0 < mi_b x" "0 < mi_d x" "0 < mi_h x" using o by linarith+
  have bias: "in_range (- (2 ^ 31)) (2 ^ 31 - 1) (mi_b1 x)" "in_range (- (2 ^ 31)) (2 ^ 31 - 1) (mi_b2 x)"
    using o by (auto intro: in_range_mono)
  have q: "in_range (- (2 ^ 31)) (2 ^ 31 - 1) [mi_m1 x, mi_s1 x, mi_m2 x, mi_s2 x]" using o by (simp add: in_range_def)
  show ?thesis
    using assms(2) o pos bias q lut_ok[OF assms(1)]
    unfolding int8MlpInputs_def int8MlpInputSigs_def mlp_data_def Let_def
    by (auto simp: valid_i8 valid_i32)
qed

text \<open>A kernel of the block on its actual inputs: signatures, computation, execution.\<close>

definition kernel_runs :: "int int8MlpInput \<Rightarrow> string \<Rightarrow> segmentKind \<Rightarrow> int tensor list \<Rightarrow> int tensor \<Rightarrow> bool" where
  "kernel_runs x op kind ins out \<longleftrightarrow> (\<exists>k. int8MlpKernel x op = Some k
     \<and> list_all2 (\<lambda>t s. validTensor (rats t) \<and> hasSig t s) ins (kn_ins k) \<and> validTensor (rats out) \<and> hasSig out (kn_out k)
     \<and> (\<forall>spec. sp_kind spec = kind \<longrightarrow> seg_computes spec k ins out) \<and> run_segment k ins = Some out)"

definition tX :: "int int8MlpInput \<Rightarrow> int tensor" where
  "tX x = tensor_of (sig_i8 [mi_b x, mi_d x]) (mi_X x)"

definition tW1 :: "int int8MlpInput \<Rightarrow> int tensor" where
  "tW1 x = tensor_of (sig_i8 [mi_d x, mi_h x]) (mi_W1 x)"

definition tb1 :: "int int8MlpInput \<Rightarrow> int tensor" where
  "tb1 x = tensor_of (sig_i32 [mi_h x]) (mi_b1 x)"

definition tW2 :: "int int8MlpInput \<Rightarrow> int tensor" where
  "tW2 x = tensor_of (sig_i8 [mi_h x, mi_d x]) (mi_W2 x)"

definition tb2 :: "int int8MlpInput \<Rightarrow> int tensor" where
  "tb2 x = tensor_of (sig_i32 [mi_d x]) (mi_b2 x)"

lemmas input_tensor_defs = tX_def tW1_def tb1_def tW2_def tb2_def

lemma input_tensors_valid:
  assumes "mlp_ok x"
  shows "validTensor (rats (tX x))" "validTensor (rats (tW1 x))" "validTensor (rats (tb1 x))"
    "validTensor (rats (tW2 x))" "validTensor (rats (tb2 x))"
  using map_of_SomeD[OF inputs_of(1)] map_of_SomeD[OF inputs_of(2)] map_of_SomeD[OF inputs_of(3)]
    map_of_SomeD[OF inputs_of(4)] map_of_SomeD[OF inputs_of(5)] inputs_ok[OF assms]
  unfolding input_tensor_defs by blast+

lemma sel_outputs: "length (block_outputs x) = 4"
  "block_outputs x ! 0 = tensor_of (sig_i32 [mi_b x, mi_h x]) (gemm_product (g1 x))"
  "block_outputs x ! 1 = tensor_of (sig_i8 [mi_b x, mi_h x]) (act1 x)"
  "block_outputs x ! Suc 0 = tensor_of (sig_i8 [mi_b x, mi_h x]) (act1 x)"
  "block_outputs x ! 2 = tensor_of (sig_i32 [mi_b x, mi_d x]) (gemm_product (g2 x))"
  "block_outputs x ! 3 = tensor_of (sig_i8 [mi_b x, mi_d x]) (res2 x)"
  by (simp_all add: block_outputs_def)

lemma gemm_kernel_runs:
  assumes k: "int8MlpKernel x op = Some k" "kn_gemm k = Some (gemm3 m kk n)" "kn_out k = sig_i32 [int m, int n]"
    "kn_ins k = map (\<lambda>t. \<lparr>sg_dtype = tn_dtype t, sg_shape = tn_shape t\<rparr>) [a, w, bs]"
    and v: "validTensor (rats a)" "validTensor (rats w)" "validTensor (rats bs)"
    and l: "length (tn_data a) = m * kk" "length (tn_data w) = kk * n" "length (tn_data bs) = n"
    and g: "g = \<lparr>gm_A = tn_data a, gm_B = tn_data w, gm_bias = Some (tn_data bs), gm_m = m, gm_k = kk, gm_n = n\<rparr>"
    and out: "out = tensor_of (sig_i32 [int m, int n]) (gemm_product g)" "validTensor (rats out)"
    and r: "in_range (- ACC_MAX) ACC_MAX (gemm_product g)"
  shows "kernel_runs x op Gemm [a, w, bs] out"
proof -
  have "ACC_MAX \<le> HALF_P" by (simp add: ACC_MAX_def HALF_P_val)
  then have b: "\<forall>y \<in> set (gemm_product g). \<bar>y\<bar> \<le> HALF_P" using r by (force simp: in_range_def)
  have gm: "gm_m g = m" "gm_n g = n" using g by simp_all
  have "gemm_dims g" using l g by (simp add: gemm_dims_def)
  moreover have "gemm_sig g out" using gm out(1) by (simp add: gemm_sig_def sig_i32_def)
  moreover have "gemm3 m kk n [a, w, bs] = Some g" by (simp add: gemm3_def g)
  ultimately have "seg_computes spec k [a, w, bs] out" if "sp_kind spec = Gemm" for spec
    using that k(2) b out(1) by (simp add: seg_computes_def)
  moreover have "run_segment k [a, w, bs] = Some out"
    using k(2,3) gemmBias_eq[OF l] out(1) g by (simp add: run_segment_def gemm3_def)
  moreover have "list_all2 (\<lambda>t s. validTensor (rats t) \<and> hasSig t s) [a, w, bs] (kn_ins k)"
    using v k(4) by (simp add: hasSig_iff)
  ultimately show ?thesis using k(1,3) out by (auto simp: kernel_runs_def)
qed

lemma run_xw1:
  assumes ok: "mlp_ok x"
  shows "kernel_runs x ''xw1'' Gemm [tX x, tW1 x, tb1 x] (block_outputs x ! 0)"
proof (rule gemm_kernel_runs[where g = "g1 x"])
  show "int8MlpKernel x ''xw1'' = Some \<lparr>kn_ins = [sig_i8 [mi_b x, mi_d x], sig_i8 [mi_d x, mi_h x], sig_i32 [mi_h x]], kn_out = sig_i32 [mi_b x, mi_h x],
        kn_gemm = Some (gemm3 (nat (mi_b x)) (nat (mi_d x)) (nat (mi_h x))), kn_elementwise = None, kn_opaque = None\<rparr>"
    by (simp add: int8MlpKernel_def Let_def)
  show "validTensor (rats (block_outputs x ! 0))" using block_valid[OF ok] by (simp add: sel_outputs(1))
  have "0 < mi_b x" "0 < mi_h x" using ok[unfolded mlp_ok_iff] by linarith+
  then show "block_outputs x ! 0 = tensor_of (sig_i32 [int (nat (mi_b x)), int (nat (mi_h x))]) (gemm_product (g1 x))"
    by (simp add: sel_outputs)
qed (use input_tensors_valid[OF ok] ok_lengths[OF ok] acc1_ok[OF ok] ok[unfolded mlp_ok_iff]
    in \<open>simp_all add: input_tensor_defs g1_def sig_i8_def sig_i32_def\<close>)

lemma run_aw2:
  assumes ok: "mlp_ok x"
  shows "kernel_runs x ''aw2'' Gemm [block_outputs x ! 1, tW2 x, tb2 x] (block_outputs x ! 2)"
proof (rule gemm_kernel_runs[where g = "g2 x"])
  show "int8MlpKernel x ''aw2'' = Some \<lparr>kn_ins = [sig_i8 [mi_b x, mi_h x], sig_i8 [mi_h x, mi_d x], sig_i32 [mi_d x]], kn_out = sig_i32 [mi_b x, mi_d x],
        kn_gemm = Some (gemm3 (nat (mi_b x)) (nat (mi_h x)) (nat (mi_d x))), kn_elementwise = None, kn_opaque = None\<rparr>"
    by (simp add: int8MlpKernel_def Let_def)
  show "validTensor (rats (block_outputs x ! 2))" "validTensor (rats (block_outputs x ! 1))"
    using block_valid[OF ok] by (simp_all add: sel_outputs(1))
  have "0 < mi_b x" "0 < mi_d x" using ok[unfolded mlp_ok_iff] by linarith+
  then show "block_outputs x ! 2 = tensor_of (sig_i32 [int (nat (mi_b x)), int (nat (mi_d x))]) (gemm_product (g2 x))"
    by (simp add: sel_outputs)
qed (use input_tensors_valid[OF ok] ok_lengths[OF ok] act1_ok[OF ok] acc2_ok[OF ok] ok[unfolded mlp_ok_iff]
    in \<open>simp_all add: input_tensor_defs g2_def sig_i8_def sig_i32_def sel_outputs\<close>)

lemma run_rq1:
  assumes ok: "mlp_ok x"
  shows "kernel_runs x ''rq1_lut'' Elementwise [block_outputs x ! 0] (block_outputs x ! 1)"
proof -
  have "opt_all (map (\<lambda>v. js_at (lut_of x) (nat (requant v (mi_m1 x) (mi_s1 x) + 128))) (gemm_product (g1 x))) = Some (act1 x)"
    unfolding act1_def by (rule opt_all_cong_Some) (simp add: lut_index[OF ok])
  then have "rq1_lut x [block_outputs x ! 0] = Some (block_outputs x ! 1)" by (simp add: rq1_lut_def sel_outputs)
  moreover have "validTensor (rats (block_outputs x ! 0))" "validTensor (rats (block_outputs x ! 1))"
    using block_valid[OF ok] by (simp_all add: sel_outputs(1))
  ultimately show ?thesis
    by (simp add: kernel_runs_def int8MlpKernel_def Let_def seg_computes_def run_segment_def) (simp add: sel_outputs)
qed

lemma run_rq2:
  assumes ok: "mlp_ok x"
  shows "kernel_runs x ''rq2_res'' Elementwise [block_outputs x ! 2, tX x] (block_outputs x ! 3)"
proof -
  have "length (gemm_product (g2 x)) = length (mi_X x)" using ok_lengths[OF ok] by (simp add: g2_def)
  then have "opt_all (map (\<lambda>(i, v). map_option (\<lambda>u. clamp8 (requant v (mi_m2 x) (mi_s2 x) + u)) (js_at (mi_X x) i))
      (enumerate 0 (gemm_product (g2 x)))) = Some (res2 x)"
    unfolding res2_def by (intro opt_all_cong_Some) (auto simp: in_set_enumerate_eq)
  then have "rq2_res x [block_outputs x ! 2, tX x] = Some (block_outputs x ! 3)" by (simp add: rq2_res_def sel_outputs tX_def)
  moreover have "validTensor (rats (block_outputs x ! 2))" "validTensor (rats (block_outputs x ! 3))"
    using block_valid[OF ok] by (simp_all add: sel_outputs(1))
  ultimately show ?thesis using input_tensors_valid(1)[OF ok]
    by (simp add: kernel_runs_def int8MlpKernel_def Let_def seg_computes_def run_segment_def) (simp add: sel_outputs tX_def)
qed

subsection \<open>Execution\<close>

lemma run_step:
  assumes "kernel_runs x (sp_op spec) kind ins out" and "map (resolve inputs outs) (sp_inputs spec) = map Some ins"
  shows "run_plan (int8MlpKernel x) inputs (spec # specs) outs = run_plan (int8MlpKernel x) inputs specs (outs @ [out])"
proof -
  have "opt_all (map Some ins) = Some ins" using opt_all_map_Some[of "\<lambda>y. y" ins] by simp
  then show ?thesis using assms by (auto simp: kernel_runs_def)
qed

lemma block_outputs_list: "block_outputs x = [block_outputs x ! 0, block_outputs x ! 1, block_outputs x ! 2, block_outputs x ! 3]"
  by (simp add: sel_outputs) (simp add: block_outputs_def)

lemma execute_eq:
  assumes ok: "mlp_ok x"
  shows "executeInt8Mlp x = Some (block_outputs x, block_outputs x ! 3)"
proof -
  let ?o = "block_outputs x" and ?R = "run_plan (int8MlpKernel x) (int8MlpInputs x)"
  have "?R PLAN [] = ?R (tl PLAN) [?o ! 0]"
    unfolding PLAN_def list.sel by (subst run_step[OF _ , of x _ Gemm "[tX x, tW1 x, tb1 x]" "?o ! 0"]) (use run_xw1[OF ok] in \<open>simp_all add: input_tensor_defs\<close>)
  also have "\<dots> = ?R (tl (tl PLAN)) [?o ! 0, ?o ! 1]"
    unfolding PLAN_def list.sel by (subst run_step[OF _ , of x _ Elementwise "[?o ! 0]" "?o ! 1"]) (use run_rq1[OF ok] in simp_all)
  also have "\<dots> = ?R (tl (tl (tl PLAN))) [?o ! 0, ?o ! 1, ?o ! 2]"
    unfolding PLAN_def list.sel by (subst run_step[OF _ , of x _ Gemm "[?o ! 1, tW2 x, tb2 x]" "?o ! 2"]) (use run_aw2[OF ok] in \<open>simp_all add: input_tensor_defs\<close>)
  also have "\<dots> = Some ?o"
    unfolding PLAN_def list.sel
    by (subst run_step[OF _ , of x _ Elementwise "[?o ! 2, tX x]" "?o ! 3"]) (use run_rq2[OF ok] block_outputs_list[of x] in \<open>simp_all add: input_tensor_defs\<close>)
  finally show ?thesis using sel_outputs(1)[of x] by (auto simp: executeInt8Mlp_def last_conv_nth)
qed

definition mlp_outputs :: "int int8MlpInput \<Rightarrow> int tensor list" where
  "mlp_outputs x = (case executeInt8Mlp x of None \<Rightarrow> [] | Some (outputs, _) \<Rightarrow> outputs)"

lemma block_last: "last (block_outputs x) = block_outputs x ! 3"
  by (simp add: block_outputs_def)

lemma mlp_outputs_eq: "mlp_ok x \<Longrightarrow> mlp_outputs x = block_outputs x"
  by (simp add: mlp_outputs_def execute_eq)

lemma seg_ok_of_run:
  assumes "kernel_runs x op (sp_kind spec) ins (outs ! i)" and "map (resolve inputs (take i outs)) (sp_inputs spec) = map Some ins"
  shows "\<exists>k. int8MlpKernel x op = Some k \<and> seg_ok inputs outs spec k i"
  using assms unfolding kernel_runs_def seg_ok_def by blast

lemma mlp_segments:
  assumes ok: "mlp_ok x" and i: "i < length (int8MlpPlan x)"
  shows "\<exists>k. int8MlpKernel x (sp_op (int8MlpPlan x ! i)) = Some k \<and> seg_ok (int8MlpInputs x) (mlp_outputs x) (int8MlpPlan x ! i) k i"
proof -
  let ?o = "block_outputs x"
  have "i = 0 \<or> i = 1 \<or> i = 2 \<or> i = 3" using i by (auto simp: int8MlpPlan_def PLAN_def)
  then have "\<exists>k. int8MlpKernel x (sp_op (PLAN ! i)) = Some k \<and> seg_ok (int8MlpInputs x) ?o (PLAN ! i) k i" (is ?goal)
  proof (elim disjE)
    show ?goal if "i = 0"
      using seg_ok_of_run[of x "''xw1''" "PLAN ! 0" "[tX x, tW1 x, tb1 x]" ?o 0 "int8MlpInputs x"] run_xw1[OF ok] that
      by (simp add: PLAN_def input_tensor_defs)
    show ?goal if "i = 1"
      using seg_ok_of_run[of x "''rq1_lut''" "PLAN ! 1" "[?o ! 0]" ?o 1 "int8MlpInputs x"] run_rq1[OF ok] that sel_outputs(1)[of x]
      by (simp add: PLAN_def)
    show ?goal if "i = 2"
      using seg_ok_of_run[of x "''aw2''" "PLAN ! 2" "[?o ! 1, tW2 x, tb2 x]" ?o 2 "int8MlpInputs x"] run_aw2[OF ok] that sel_outputs(1)[of x]
      by (simp add: PLAN_def input_tensor_defs)
    show ?goal if "i = 3"
      using seg_ok_of_run[of x "''rq2_res''" "PLAN ! 3" "[?o ! 2, tX x]" ?o 3 "int8MlpInputs x"] run_rq2[OF ok] that sel_outputs(1)[of x]
      by (simp add: PLAN_def input_tensor_defs)
  qed
  then show ?thesis by (simp add: mlp_outputs_eq[OF ok] int8MlpPlan_def)
qed

interpretation mlp: challenge_work mlp_ok int8MlpInputs int8MlpPlan int8MlpResultSig int8MlpKernel mlp_outputs
proof unfold_locales
  fix x :: "int int8MlpInput" and name t i
  assume ok: "mlp_ok x"
  show "int8MlpPlan x \<noteq> [] \<and> map sp_idx (int8MlpPlan x) = [0..<length (int8MlpPlan x)]"
    by (simp add: int8MlpPlan_def PLAN_def numeral_eq_Suc)
  show "length (mlp_outputs x) = length (int8MlpPlan x)" using ok by (simp add: mlp_outputs_eq sel_outputs int8MlpPlan_def PLAN_def)
  show "validTensor (rats t)" if "(name, t) \<in> set (int8MlpInputs x)" using inputs_ok[OF ok that] .
  show "\<exists>k. int8MlpKernel x (sp_op (int8MlpPlan x ! i)) = Some k \<and> seg_ok (int8MlpInputs x) (mlp_outputs x) (int8MlpPlan x ! i) k i"
    if "i < length (int8MlpPlan x)" using mlp_segments[OF ok that] .
  show "hasSig (last (mlp_outputs x)) (int8MlpResultSig x)"
    using ok sel_outputs(1)[of x] by (simp add: mlp_outputs_eq int8MlpResultSig_def block_outputs_def)
qed

subsection \<open>Properties\<close>

text \<open>
  Completeness for \<^verbatim>\<open>int8-mlp\<close>: for every input that intake accepts, the agent's execution succeeds, its commitment
  passes \<^verbatim>\<open>checkCommitment\<close>, and every one of the four segments, if drawn, passes \<^verbatim>\<open>checkOpening\<close> whatever the random
  bytes: an honest node is never caught.
\<close>

theorem mlp_honest_never_caught:
  assumes "validateInt8Mlp r = None" and "digest_ok H" and "rand_ok rnd" and "i < 4"
  shows "\<exists>outs y c k. executeInt8Mlp (mlp_map floor r) = Some (outs, y)
    \<and> makeCommitment H sigma (int8MlpInputs (mlp_map floor r)) PLAN outs = Some c
    \<and> checkCommitment H sigma (int8MlpInputs (mlp_map floor r)) PLAN (Some c) (Some (rats y)) (int8MlpResultSig (mlp_map floor r)) = Some Accept
    \<and> int8MlpKernel (mlp_map floor r) (sp_op (PLAN ! i)) = Some k
    \<and> checkOpening H rnd (PLAN ! i) (Some (honest_opening outs (PLAN ! i))) c (int8MlpInputs (mlp_map floor r)) k = Some Accept"
proof -
  let ?x = "mlp_map floor r"
  have ok: "mlp_ok ?x" by (rule validate_reads(2)[OF assms(1)])
  have p: "int8MlpPlan ?x = PLAN" "length PLAN = 4" by (simp_all add: int8MlpPlan_def PLAN_def)
  have outs: "executeInt8Mlp ?x = Some (mlp_outputs ?x, last (mlp_outputs ?x))"
    using execute_eq[OF ok] mlp_outputs_eq[OF ok] block_last[of ?x] by auto
  from mlp.honest_commitment[OF ok assms(2), of sigma] obtain c where
    c: "makeCommitment H sigma (int8MlpInputs ?x) PLAN (mlp_outputs ?x) = Some c"
    "checkCommitment H sigma (int8MlpInputs ?x) PLAN (Some c) (Some (rats (last (mlp_outputs ?x)))) (int8MlpResultSig ?x) = Some Accept"
    "\<forall>i < length PLAN. committed c i = tensorHash H (mlp_outputs ?x ! i)" unfolding p by blast
  from mlp.honest_opening_accepted[OF ok, of i rnd c H] assms(3,4) c(3) p obtain k where
    "int8MlpKernel ?x (sp_op (PLAN ! i)) = Some k"
    "checkOpening H rnd (PLAN ! i) (Some (honest_opening (mlp_outputs ?x) (PLAN ! i))) c (int8MlpInputs ?x) k = Some Accept" by auto
  then show ?thesis using outs c(1,2) by blast
qed

definition toy_mlp :: "rat int8MlpInput" where
  "toy_mlp = \<lparr>mi_b = 1, mi_d = 8, mi_h = 8, mi_X = replicate 8 3, mi_W1 = replicate 64 1, mi_b1 = replicate 8 2, mi_W2 = replicate 64 2,
     mi_b2 = replicate 8 5, mi_m1 = 1, mi_s1 = 2, mi_m2 = 3, mi_s2 = 4, mi_lut = None\<rparr>"

lemma toy_mlp_valid: "validateInt8Mlp toy_mlp = None"
  proof -
  have "check_arrays (mlp_arrays toy_mlp) = None"
    unfolding check_arrays_None by (simp add: mlp_arrays_def toy_mlp_def INT8_MLP_def isInt_def isInteger_def list_all_iff)
  then show ?thesis by (simp add: validateInt8Mlp_def) (simp add: toy_mlp_def INT8_MLP_def isInt_def isInteger_def)
qed

lemma rand_zero_ok: "rand_ok (\<lambda>t len. replicate len 0)"
  by (simp add: rand_ok_def)

theorem mlp_honest_never_caught_witness:
  "\<exists>outs y c. executeInt8Mlp (mlp_map floor toy_mlp) = Some (outs, y)
    \<and> makeCommitment toy_digest ''s'' (int8MlpInputs (mlp_map floor toy_mlp)) PLAN outs = Some c
    \<and> checkCommitment toy_digest ''s'' (int8MlpInputs (mlp_map floor toy_mlp)) PLAN (Some c) (Some (rats y))
        (int8MlpResultSig (mlp_map floor toy_mlp)) = Some Accept"
  using mlp_honest_never_caught[OF toy_mlp_valid toy_digest_ok rand_zero_ok, of 2 "''s''"] by auto

text \<open>
  C14. Soundness for \<^verbatim>\<open>int8-mlp\<close>: if a submission passes the bind check and an opening of each of the four segments is
  accepted, then the submitted result is the result of executing the job, unless a tensor the node served has the SHA-256
  hash of a different honest output, or a wrong product met two blind random vectors (the theorem \<open>wrong_product_accepted_rarely\<close> of the theory Segments).
\<close>

theorem mlp_fully_opened_is_honest:
  assumes "validateInt8Mlp r = None" and "x = mlp_map floor r"
    and "checkCommitment H sigma (int8MlpInputs x) PLAN (Some c) (Some res) (int8MlpResultSig x) = Some Accept"
    and "\<forall>i < 4. \<exists>k. int8MlpKernel x (sp_op (PLAN ! i)) = Some k
        \<and> checkOpening H (rnd i) (PLAN ! i) (Some (opn i)) c (int8MlpInputs x) k = Some Accept"
    and "\<forall>i < 4. no_collision H (ints res # opened (opn i)) (mlp_outputs x)"
    and "\<forall>i < 4. \<forall>k g out. int8MlpKernel x (sp_op (PLAN ! i)) = Some k \<longrightarrow> honest_operands (int8MlpInputs x) (mlp_outputs x) (PLAN ! i) k g
        \<longrightarrow> own_output (opn i) i = Some out \<longrightarrow> \<not> fooled (rnd i) g (tn_data out)"
  shows "\<exists>outs y. executeInt8Mlp x = Some (outs, y) \<and> res = rats y"
proof -
  have ok: "mlp_ok x" using validate_reads(2)[OF assms(1)] assms(2) by simp
  have p: "int8MlpPlan x = PLAN" "length PLAN = 4" by (simp_all add: int8MlpPlan_def PLAN_def)
  have "res = rats (last (mlp_outputs x))"
    by (rule mlp.all_opened_result[OF ok, of H sigma c res rnd opn]) (use assms(3-6) in \<open>auto simp: p\<close>)
  then show ?thesis using execute_eq[OF ok] mlp_outputs_eq[OF ok] block_last[of x] by auto
qed

text \<open>Only product segments have a product kernel.\<close>

lemma honest_gemm:
  assumes "i < 4" and "int8MlpKernel x (sp_op (PLAN ! i)) = Some k" and "honest_operands ins outs (PLAN ! i) k g"
  shows "sp_kind (PLAN ! i) = Gemm"
proof -
  have "i = 0 \<or> i = 1 \<or> i = 2 \<or> i = 3" using assms(1) by auto
  then show ?thesis using assms(2,3) by (elim disjE) (auto simp: PLAN_def int8MlpKernel_def Let_def honest_operands_def)
qed

lemma toy_no_collision: "no_collision toy_digest (mlp_outputs (mlp_map floor toy_mlp)) (mlp_outputs (mlp_map floor toy_mlp))"
  by code_simp

theorem mlp_fully_opened_is_honest_witness:
  "\<exists>c outs y. checkCommitment toy_digest ''s'' (int8MlpInputs (mlp_map floor toy_mlp)) PLAN (Some c) (Some (rats y))
        (int8MlpResultSig (mlp_map floor toy_mlp)) = Some Accept
     \<and> executeInt8Mlp (mlp_map floor toy_mlp) = Some (outs, y)"
proof -
  let ?x = "mlp_map floor toy_mlp" and ?rnd = "\<lambda>t len. replicate len (0 :: byte)"
  let ?opn = "\<lambda>i. honest_opening (mlp_outputs ?x) (PLAN ! i)" and ?r = "rats (last (mlp_outputs ?x))"
  have ok: "mlp_ok ?x" by (rule validate_reads(2)[OF toy_mlp_valid])
  have p: "int8MlpPlan ?x = PLAN" "length PLAN = 4" by (simp_all add: int8MlpPlan_def PLAN_def)
  from mlp.honest_commitment[OF ok toy_digest_ok, of "''s''"] obtain c where
    c: "checkCommitment toy_digest ''s'' (int8MlpInputs ?x) PLAN (Some c) (Some ?r) (int8MlpResultSig ?x) = Some Accept"
    "\<forall>i < 4. committed c i = tensorHash toy_digest (mlp_outputs ?x ! i)" unfolding p by blast
  have acc: "\<forall>i < 4. \<exists>k. int8MlpKernel ?x (sp_op (PLAN ! i)) = Some k
      \<and> checkOpening toy_digest ?rnd (PLAN ! i) (Some (?opn i)) c (int8MlpInputs ?x) k = Some Accept"
    using mlp.honest_opening_accepted[OF ok _ rand_zero_ok, of _ c toy_digest] c(2) p by auto
  have nc: "\<forall>i < 4. no_collision toy_digest (ints ?r # opened (?opn i)) (mlp_outputs ?x)"
    using mlp.honest_no_collision[OF toy_no_collision ok] by blast
  have nf: "\<forall>i < 4. \<forall>k g out. int8MlpKernel ?x (sp_op (PLAN ! i)) = Some k \<longrightarrow> honest_operands (int8MlpInputs ?x) (mlp_outputs ?x) (PLAN ! i) k g
        \<longrightarrow> own_output (?opn i) i = Some out \<longrightarrow> \<not> fooled ?rnd g (tn_data out)"
    using mlp.honest_not_fooled[OF ok] p by (metis honest_gemm)
  from mlp_fully_opened_is_honest[OF toy_mlp_valid refl c(1) acc nc nf] show ?thesis using c(1) by metis
qed



text \<open>
  C37. What intake accepts: \<^verbatim>\<open>validateInt8Mlp\<close> returns null exactly for records of integers with the stated dimensions,
  array lengths and ranges; so an accepted record is its own integer reading.
\<close>

theorem validateInt8Mlp_characterised:
  "validateInt8Mlp r = None \<longleftrightarrow> (\<exists>x. r = mlp_map of_int x
     \<and> (1 \<le> mi_b x \<and> mi_b x \<le> 64) \<and> (8 \<le> mi_d x \<and> mi_d x \<le> 256) \<and> (8 \<le> mi_h x \<and> mi_h x \<le> 256)
     \<and> int (length (mi_X x)) = mi_b x * mi_d x \<and> in_range (-128) 127 (mi_X x)
     \<and> int (length (mi_W1 x)) = mi_d x * mi_h x \<and> in_range (-128) 127 (mi_W1 x)
     \<and> int (length (mi_b1 x)) = mi_h x \<and> in_range (- (2 ^ 20)) (2 ^ 20) (mi_b1 x)
     \<and> int (length (mi_W2 x)) = mi_h x * mi_d x \<and> in_range (-128) 127 (mi_W2 x)
     \<and> int (length (mi_b2 x)) = mi_d x \<and> in_range (- (2 ^ 20)) (2 ^ 20) (mi_b2 x)
     \<and> (case mi_lut x of None \<Rightarrow> True | Some l \<Rightarrow> length l = 256 \<and> in_range (-128) 127 l)
     \<and> (1 \<le> mi_m1 x \<and> mi_m1 x \<le> 2 ^ 15 - 1) \<and> (1 \<le> mi_m2 x \<and> mi_m2 x \<le> 2 ^ 15 - 1)
     \<and> (1 \<le> mi_s1 x \<and> mi_s1 x \<le> 31) \<and> (1 \<le> mi_s2 x \<and> mi_s2 x \<le> 31))"
  unfolding mlp_ok_iff[symmetric] using validate_reads[of r] by (metis mlp_ok_def)

end
