(* ===== verification/Int8Model.thy ===== *)
theory Int8Model
  imports Int8Mlp
begin

text \<open>
  The work type \<^verbatim>\<open>int8-model\<close> (\<^verbatim>\<open>shared/work-int8-model.ts\<close>): \<open>L\<close> chained \<^verbatim>\<open>int8-mlp\<close> blocks, block \<open>l + 1\<close> reading
  the result of block \<open>l\<close>. The plan has four segments per block, named \<^verbatim>\<open><op>@l\<close>; the kernel parses that name back and
  is block \<open>l\<close>'s own. Shown: it is a challenge work type as well, so both checks mean the same for it.
\<close>

subsection \<open>Definitions\<close>

record 'n int8Block =
  bk_W1 :: "'n list"
  bk_b1 :: "'n list"
  bk_W2 :: "'n list"
  bk_b2 :: "'n list"
  bk_m1 :: 'n
  bk_s1 :: 'n
  bk_m2 :: 'n
  bk_s2 :: 'n
  bk_lut :: "'n list option"

record 'n int8ModelInput =
  md_b :: 'n
  md_d :: 'n
  md_h :: 'n
  md_X :: "'n list"
  md_blocks :: "'n int8Block list"

record int8_model_limits =
  L_MAX :: nat
  MODEL_DIM_MAX :: int
  LDH_MAX :: int

definition INT8_MODEL :: int8_model_limits where
  "INT8_MODEL = \<lparr>L_MAX = 16, MODEL_DIM_MAX = 256, LDH_MAX = 2 ^ 17\<rparr>"

definition blockInput :: "'n int8ModelInput \<Rightarrow> nat \<Rightarrow> 'n list \<Rightarrow> 'n int8MlpInput" where
  "blockInput x l X = (let k = md_blocks x ! l in
     \<lparr>mi_b = md_b x, mi_d = md_d x, mi_h = md_h x, mi_X = X, mi_W1 = bk_W1 k, mi_b1 = bk_b1 k, mi_W2 = bk_W2 k, mi_b2 = bk_b2 k,
      mi_m1 = bk_m1 k, mi_s1 = bk_s1 k, mi_m2 = bk_m2 k, mi_s2 = bk_s2 k, mi_lut = bk_lut k\<rparr>)"

datatype model_error = BadBlocks | BadModelDims | TooLarge | BadBlock nat mlp_error

fun check_blocks :: "rat int8ModelInput \<Rightarrow> nat list \<Rightarrow> model_error option" where
  "check_blocks x [] = None"
| "check_blocks x (l # ls) = (case validateInt8Mlp (blockInput x l (md_X x)) of Some e \<Rightarrow> Some (BadBlock l e) | None \<Rightarrow> check_blocks x ls)"

definition validateInt8Model :: "rat int8ModelInput \<Rightarrow> model_error option" where
  "validateInt8Model x =
     (let L = length (md_blocks x) in
      if L < 1 \<or> L > L_MAX INT8_MODEL then Some BadBlocks
      else if \<not> isInteger (md_d x) \<or> \<not> isInteger (md_h x) \<or> md_d x > of_int (MODEL_DIM_MAX INT8_MODEL)
        \<or> md_h x > of_int (MODEL_DIM_MAX INT8_MODEL) then Some BadModelDims
      else if of_nat L * md_d x * md_h x > of_int (LDH_MAX INT8_MODEL) then Some TooLarge
      else check_blocks x [0..<L])"

definition meterInt8Model :: "int int8ModelInput \<Rightarrow> int" where
  "meterInt8Model x = 2 * md_b x * md_d x * md_h x * int (length (md_blocks x))"

definition samplesInt8Model :: "int int8ModelInput \<Rightarrow> nat" where
  "samplesInt8Model x = min 16 (max 3 (length (md_blocks x)))"

definition suffixed :: "string \<Rightarrow> string \<Rightarrow> nat \<Rightarrow> string" where
  "suffixed name sep l = name @ sep @ dec_digits l"

definition block_inputs :: "int int8ModelInput \<Rightarrow> nat \<Rightarrow> tensors" where
  "block_inputs x l = map (\<lambda>(name, t). (suffixed name ''_'' l, t))
     (filter (\<lambda>(name, t). name \<noteq> ''X'') (int8MlpInputs (blockInput x l (md_X x))))"

definition int8ModelInputs :: "int int8ModelInput \<Rightarrow> tensors" where
  "int8ModelInputs x = concat (map (block_inputs x) [0..<length (md_blocks x)])
     @ [(''X'', the (map_of (int8MlpInputs (blockInput x 0 (md_X x))) ''X''))]"

definition block_plan :: "nat \<Rightarrow> segmentSpec list" where
  "block_plan l =
     (let i = 4 * l; X = (if l = 0 then InRef ''X'' else SegRef (i - 1)) in
      [\<lparr>sp_idx = i, sp_kind = Gemm, sp_op = suffixed ''xw1'' ''@'' l, sp_inputs = [X, InRef (suffixed ''W1'' ''_'' l), InRef (suffixed ''b1'' ''_'' l)]\<rparr>,
       \<lparr>sp_idx = i + 1, sp_kind = Elementwise, sp_op = suffixed ''rq1_lut'' ''@'' l, sp_inputs = [SegRef i]\<rparr>,
       \<lparr>sp_idx = i + 2, sp_kind = Gemm, sp_op = suffixed ''aw2'' ''@'' l, sp_inputs = [SegRef (i + 1), InRef (suffixed ''W2'' ''_'' l), InRef (suffixed ''b2'' ''_'' l)]\<rparr>,
       \<lparr>sp_idx = i + 3, sp_kind = Elementwise, sp_op = suffixed ''rq2_res'' ''@'' l, sp_inputs = [SegRef (i + 2), X]\<rparr>])"

definition int8ModelPlan :: "int int8ModelInput \<Rightarrow> segmentSpec list" where
  "int8ModelPlan x = concat (map block_plan [0..<length (md_blocks x)])"

definition int8ModelResultSig :: "int int8ModelInput \<Rightarrow> tensorSig" where
  "int8ModelResultSig x = sig_i8 [md_b x, md_d x]"

text \<open>\<^verbatim>\<open>/^(xw1|rq1_lut|aw2|rq2_res)@(\d+)$/\<close>.\<close>

definition is_dec :: "char \<Rightarrow> bool" where
  "is_dec c \<longleftrightarrow> (let n = of_char c :: nat in 48 \<le> n \<and> n \<le> 57)"

definition parse_op :: "string \<Rightarrow> (string \<times> nat) option" where
  "parse_op s = (let a = takeWhile (\<lambda>c. c \<noteq> CHR ''@'') s; r = dropWhile (\<lambda>c. c \<noteq> CHR ''@'') s in
     if a \<in> {''xw1'', ''rq1_lut'', ''aw2'', ''rq2_res''} \<and> r \<noteq> [] \<and> tl r \<noteq> [] \<and> list_all is_dec (tl r) then Some (a, dec_val (tl r)) else None)"

definition int8ModelKernel :: "int int8ModelInput \<Rightarrow> string \<Rightarrow> segmentKernel option" where
  "int8ModelKernel x op = (case parse_op op of None \<Rightarrow> None
     | Some (name, l) \<Rightarrow> if l \<ge> length (md_blocks x) then None else int8MlpKernel (blockInput x l (md_X x)) name)"

fun run_blocks :: "int int8ModelInput \<Rightarrow> nat list \<Rightarrow> int list \<Rightarrow> int tensor list \<Rightarrow> int tensor list option" where
  "run_blocks x [] X outputs = Some outputs"
| "run_blocks x (l # ls) X outputs = (case executeInt8Mlp (blockInput x l X) of None \<Rightarrow> None
     | Some (outs, res) \<Rightarrow> run_blocks x ls (tn_data res) (outputs @ outs))"

definition executeInt8Model :: "int int8ModelInput \<Rightarrow> (int tensor list \<times> int tensor) option" where
  "executeInt8Model x = (case run_blocks x [0..<length (md_blocks x)] (md_X x) [] of None \<Rightarrow> None
     | Some outputs \<Rightarrow> if outputs = [] then None else Some (outputs, last outputs))"

definition block_map :: "('a \<Rightarrow> 'b) \<Rightarrow> 'a int8Block \<Rightarrow> 'b int8Block" where
  "block_map f k = \<lparr>bk_W1 = map f (bk_W1 k), bk_b1 = map f (bk_b1 k), bk_W2 = map f (bk_W2 k), bk_b2 = map f (bk_b2 k),
     bk_m1 = f (bk_m1 k), bk_s1 = f (bk_s1 k), bk_m2 = f (bk_m2 k), bk_s2 = f (bk_s2 k), bk_lut = map_option (map f) (bk_lut k)\<rparr>"

definition model_map :: "('a \<Rightarrow> 'b) \<Rightarrow> 'a int8ModelInput \<Rightarrow> 'b int8ModelInput" where
  "model_map f x = \<lparr>md_b = f (md_b x), md_d = f (md_d x), md_h = f (md_h x), md_X = map f (md_X x), md_blocks = map (block_map f) (md_blocks x)\<rparr>"

subsection \<open>Blocks of an accepted model\<close>

definition model_ok :: "int int8ModelInput \<Rightarrow> bool" where
  "model_ok x \<longleftrightarrow> validateInt8Model (model_map of_int x) = None"

lemma blockInput_map: "l < length (md_blocks x) \<Longrightarrow> blockInput (model_map f x) l (map f X) = mlp_map f (blockInput x l X)"
  by (simp add: blockInput_def model_map_def mlp_map_def block_map_def Let_def)

lemma check_blocks_None: "check_blocks x ls = None \<longleftrightarrow> (\<forall>l \<in> set ls. validateInt8Mlp (blockInput x l (md_X x)) = None)"
  by (induction ls) (auto split: option.splits)

lemma model_okD:
  assumes "model_ok x"
  shows "md_blocks x \<noteq> []" and "\<And>l. l < length (md_blocks x) \<Longrightarrow> mlp_ok (blockInput x l (md_X x))"
proof -
  have c: "check_blocks (model_map of_int x) [0..<length (md_blocks x)] = None" and n: "md_blocks x \<noteq> []"
    using assms by (auto simp: model_ok_def validateInt8Model_def Let_def model_map_def split: if_splits)
  show "md_blocks x \<noteq> []" by (rule n)
  fix l assume l: "l < length (md_blocks x)"
  then have "validateInt8Mlp (blockInput (model_map of_int x) l (md_X (model_map of_int x))) = None" using c by (simp add: check_blocks_None)
  moreover have "md_X (model_map of_int x) = map rat_of_int (md_X x)" by (simp add: model_map_def)
  ultimately show "mlp_ok (blockInput x l (md_X x))" using l by (simp add: mlp_ok_def blockInput_map)
qed

text \<open>The input of block \<open>l\<close> and the block run on it.\<close>

fun X_at :: "int int8ModelInput \<Rightarrow> nat \<Rightarrow> int list" where
  "X_at x 0 = md_X x"
| "X_at x (Suc l) = res2 (blockInput x l (X_at x l))"

definition blk :: "int int8ModelInput \<Rightarrow> nat \<Rightarrow> int int8MlpInput" where
  "blk x l = blockInput x l (X_at x l)"

lemma blockInput_sel [simp]: "mi_b (blockInput x l X) = md_b x" "mi_d (blockInput x l X) = md_d x" "mi_h (blockInput x l X) = md_h x"
  "mi_X (blockInput x l X) = X"
  by (simp_all add: blockInput_def Let_def)

lemma mlp_ok_X:
  assumes "mlp_ok (blockInput x l X)" and "length Y = length X" and "in_range (-128) 127 Y"
  shows "mlp_ok (blockInput x l Y)"
  using assms by (simp add: mlp_ok_iff blockInput_def Let_def)

lemma X_at_ok:
  assumes "model_ok x" and "l \<le> length (md_blocks x)"
  shows "length (X_at x l) = length (md_X x) \<and> in_range (-128) 127 (X_at x l)"
proof (cases l)
  case 0
  have "mlp_ok (blockInput x 0 (md_X x))" using model_okD[OF assms(1)] by auto
  then show ?thesis using ok_ranges(1) 0 by fastforce
next
  case (Suc k)
  then have "mlp_ok (blockInput x k (md_X x))" using model_okD(2)[OF assms(1), of k] assms(2) by simp
  then have "length (md_X x) = nat (md_b x) * nat (md_d x)" using ok_lengths(1) by fastforce
  then show ?thesis using res2_ok[of "blockInput x k (X_at x k)"] Suc by simp
qed

lemma blk_ok: "model_ok x \<Longrightarrow> l < length (md_blocks x) \<Longrightarrow> mlp_ok (blk x l)"
  unfolding blk_def by (rule mlp_ok_X[OF model_okD(2)]) (use X_at_ok[of x l] in auto)

lemma kernel_X: "int8MlpKernel (blockInput x l X) = int8MlpKernel (blockInput x l Y)"
proof
  fix op
  have "rq1_lut (blockInput x l X) = rq1_lut (blockInput x l Y)" "rq2_res (blockInput x l X) = rq2_res (blockInput x l Y)"
    by (simp_all add: rq1_lut_def rq2_res_def lut_of_def blockInput_def Let_def fun_eq_iff cong: list.case_cong)
  then show "int8MlpKernel (blockInput x l X) op = int8MlpKernel (blockInput x l Y) op"
    unfolding int8MlpKernel_def blockInput_sel Let_def by simp
qed

subsection \<open>Names\<close>

lemma digit_is_dec: "digit c \<Longrightarrow> is_dec c"
proof -
  have "is_dec (hex_digit n)" if "n < 10" for n
  proof -
    have "n < 16" using that by simp
    then have "n < 10 \<longrightarrow> is_dec (hex_digit n)" by (rule less_16_cases) (simp_all add: is_dec_def hex_digit_def)
    then show ?thesis using that by simp
  qed
  then show "digit c \<Longrightarrow> ?thesis" by (auto simp: digit_def)
qed

lemma parse_suffixed:
  assumes "name \<in> {''xw1'', ''rq1_lut'', ''aw2'', ''rq2_res''}"
  shows "parse_op (suffixed name ''@'' l) = Some (name, l)"
proof -
  have n: "CHR ''@'' \<notin> set name" using assms by auto
  have tw: "takeWhile (\<lambda>c. c \<noteq> CHR ''@'') (name @ CHR ''@'' # s) = name" "dropWhile (\<lambda>c. c \<noteq> CHR ''@'') (name @ CHR ''@'' # s) = CHR ''@'' # s" for s
    using n by (induction name) auto
  have "list_all is_dec (dec_digits l)" using dec_digits_digit[of l] digit_is_dec by (auto simp: list_all_iff)
  then show ?thesis using assms by (simp add: parse_op_def suffixed_def tw Let_def)
qed

lemma suffixed_inj:
  assumes "suffixed m [c] k = suffixed n [c] l" and "c \<notin> set m" and "c \<notin> set n"
  shows "m = n \<and> k = l"
  using split_at_sep[of m c "dec_digits k" n "dec_digits l"] assms by (simp add: suffixed_def)

lemma map_of_suffixed:
  assumes "CHR ''_'' \<notin> set n" and "\<forall>(m, t) \<in> set ts. CHR ''_'' \<notin> set m"
  shows "map_of (map (\<lambda>(m, t). (suffixed m ''_'' k, t)) ts) (suffixed n ''_'' l) = (if k = l then map_of ts n else None)"
  using assms(2)
proof (induction ts)
  case (Cons p ts)
  obtain m t where p: "p = (m, t)" by (cases p)
  have "suffixed m ''_'' k = suffixed n ''_'' l \<longleftrightarrow> m = n \<and> k = l"
    using suffixed_inj[of m "CHR ''_''" k n l] assms(1) Cons.prems p by auto
  then show ?case using Cons p by auto
qed simp

lemma input_names: "\<forall>(m, t) \<in> set (int8MlpInputs y). CHR ''_'' \<notin> set m"
  by (simp add: int8MlpInputs_def int8MlpInputSigs_def Let_def)

lemma map_of_blocks:
  assumes "CHR ''_'' \<notin> set n" and "n \<noteq> ''X''" and "l < length (md_blocks x)" and "map_of (int8MlpInputs (blockInput x l (md_X x))) n = Some t"
  shows "map_of (int8ModelInputs x) (suffixed n ''_'' l) = Some t"
proof -
  have filt: "map_of (filter (\<lambda>(name, t). name \<noteq> ''X'') ts) n = map_of ts n" for ts :: tensors
    using assms(2) by (induction ts) auto
  have one: "map_of (block_inputs x k) (suffixed n ''_'' l) = (if k = l then Some t else None)" for k
    unfolding block_inputs_def
    by (subst map_of_suffixed[OF assms(1)]) (use input_names[of "blockInput x k (md_X x)"] assms(4) in \<open>auto simp: filt\<close>)
  have "map_of (concat (map (block_inputs x) ks)) (suffixed n ''_'' l) = (if l \<in> set ks then Some t else None)" for ks
    by (induction ks) (auto simp: one map_add_def split: option.splits)
  then show ?thesis using assms(3) by (simp add: int8ModelInputs_def map_add_def)
qed

lemma X_name: "suffixed n ''_'' l \<noteq> ''X''"
proof
  assume "suffixed n ''_'' l = ''X''"
  then have "CHR ''_'' \<in> set ''X''" by (metis suffixed_def append_Cons in_set_conv_decomp)
  then show False by simp
qed

lemma map_of_X: "md_blocks x \<noteq> [] \<Longrightarrow> map_of (int8ModelInputs x) ''X'' = Some (tX (blk x 0))"
proof -
  have "''X'' \<notin> fst ` set (concat (map (block_inputs x) ks))" for ks
    using X_name by (fastforce simp: block_inputs_def)
  then have "map_of (concat (map (block_inputs x) ks)) ''X'' = None" for ks by (simp only: map_of_eq_None_iff) blast
  then show ?thesis by (simp add: int8ModelInputs_def map_add_def tX_def blk_def)
qed

subsection \<open>Plan and outputs by block\<close>

definition model_outs :: "int int8ModelInput \<Rightarrow> int tensor list" where
  "model_outs x = concat (map (\<lambda>l. block_outputs (blk x l)) [0..<length (md_blocks x)])"

lemma nth_concat_4:
  assumes "\<And>l. l < n \<Longrightarrow> length (f l) = 4" and "l < n" and "j < 4"
  shows "concat (map f [0..<n]) ! (4 * l + j) = f l ! j" and "length (concat (map f [0..<n])) = 4 * n"
proof -
  have len: "length (concat (map f [0..<m])) = 4 * m" if "m \<le> n" for m
    using that assms(1) by (induction m) auto
  show "length (concat (map f [0..<n])) = 4 * n" by (rule len) simp
  have "[0..<n] = [0..<l] @ l # [Suc l..<n]" using assms(2) by (metis append_Cons upt_add_eq_append upt_conv_Cons le_add1 less_imp_le le_add_diff_inverse zero_le)
  then show "concat (map f [0..<n]) ! (4 * l + j) = f l ! j"
    using len[of l] assms by (simp add: nth_append)
qed

lemma model_outs_nth: "l < length (md_blocks x) \<Longrightarrow> j < 4 \<Longrightarrow> model_outs x ! (4 * l + j) = block_outputs (blk x l) ! j"
  unfolding model_outs_def by (rule nth_concat_4(1)) (simp_all add: sel_outputs)

lemma length_model_outs: "md_blocks x \<noteq> [] \<Longrightarrow> length (model_outs x) = 4 * length (md_blocks x)"
  unfolding model_outs_def by (rule nth_concat_4(2)[of _ _ 0 0]) (simp_all add: sel_outputs)

lemma length_block_plan [simp]: "length (block_plan l) = 4"
  by (simp add: block_plan_def Let_def)

lemma plan_nth: "l < length (md_blocks x) \<Longrightarrow> j < 4 \<Longrightarrow> int8ModelPlan x ! (4 * l + j) = block_plan l ! j"
  unfolding int8ModelPlan_def by (rule nth_concat_4(1)) simp_all

lemma length_plan: "md_blocks x \<noteq> [] \<Longrightarrow> length (int8ModelPlan x) = 4 * length (md_blocks x)"
  unfolding int8ModelPlan_def by (rule nth_concat_4(2)[of _ _ 0 0]) simp_all

lemma run_blocks_eq:
  assumes ok: "model_ok x" and "m \<le> length (md_blocks x)"
  shows "run_blocks x [length (md_blocks x) - m..<length (md_blocks x)] (X_at x (length (md_blocks x) - m)) outs
    = Some (outs @ concat (map (\<lambda>l. block_outputs (blk x l)) [length (md_blocks x) - m..<length (md_blocks x)]))"
  using assms(2)
proof (induction m arbitrary: outs)
  case (Suc m)
  let ?L = "length (md_blocks x)" and ?l = "length (md_blocks x) - Suc m"
  have l: "?l < ?L" "Suc ?l = ?L - m" using Suc.prems by auto
  have up: "[?l..<?L] = ?l # [?L - m..<?L]" using l by (metis upt_conv_Cons)
  have ex: "executeInt8Mlp (blockInput x ?l (X_at x ?l)) = Some (block_outputs (blk x ?l), block_outputs (blk x ?l) ! 3)"
    using execute_eq[OF blk_ok[OF ok l(1)]] by (simp add: blk_def)
  have nxt: "tn_data (block_outputs (blk x ?l) ! 3) = X_at x (?L - m)" using l(2) by (metis X_at.simps(2) blk_def sel_outputs(6) tensor_of_sel(1))
  show ?case using Suc ex nxt by (simp add: up)
qed simp

lemma execute_model_eq:
  assumes ok: "model_ok x"
  shows "executeInt8Model x = Some (model_outs x, last (model_outs x))"
proof -
  have "model_outs x \<noteq> []" using length_model_outs[OF model_okD(1)[OF ok]] model_okD(1)[OF ok] by auto
  then show ?thesis using run_blocks_eq[OF ok, of "length (md_blocks x)" "[]"] by (simp add: executeInt8Model_def model_outs_def)
qed

subsection \<open>A challenge work type\<close>

definition model_outputs :: "int int8ModelInput \<Rightarrow> int tensor list" where
  "model_outputs x = (case executeInt8Model x of None \<Rightarrow> [] | Some (outputs, _) \<Rightarrow> outputs)"

lemma model_outputs_eq: "model_ok x \<Longrightarrow> model_outputs x = model_outs x"
  by (simp add: model_outputs_def execute_model_eq)

lemma model_kernel:
  assumes "l < length (md_blocks x)" and "name \<in> {''xw1'', ''rq1_lut'', ''aw2'', ''rq2_res''}"
  shows "int8ModelKernel x (suffixed name ''@'' l) = int8MlpKernel (blk x l) name"
  using assms kernel_X[of x l "md_X x" "X_at x l"] by (simp add: int8ModelKernel_def parse_suffixed blk_def)

text \<open>What the segments of block \<open>l\<close> read, seen from position \<open>4 l + j\<close>.\<close>

definition X_ref :: "nat \<Rightarrow> tensorRef" where
  "X_ref l = (if l = 0 then InRef ''X'' else SegRef (4 * l - 1))"

lemma resolve_X:
  assumes ok: "model_ok x" and l: "l < length (md_blocks x)"
  shows "resolve (int8ModelInputs x) (take (4 * l + j) (model_outs x)) (X_ref l) = Some (tX (blk x l))"
proof (cases l)
  case 0
  then show ?thesis using map_of_X[OF model_okD(1)[OF ok]] by (simp add: X_ref_def)
next
  case (Suc k)
  have n: "4 * l - 1 = 4 * k + 3" using Suc by simp
  have "model_outs x ! (4 * k + 3) = tX (blk x l)"
    using model_outs_nth[of k x 3] l Suc by (simp add: sel_outputs tX_def blk_def)
  then show ?thesis using n l Suc length_model_outs[OF model_okD(1)[OF ok]] by (simp add: X_ref_def js_at_def add.commute)
qed

lemma resolve_seg:
  assumes ok: "model_ok x" and l: "l < length (md_blocks x)" and "i < j" and "j < 4"
  shows "resolve (int8ModelInputs x) (take (4 * l + j) (model_outs x)) (SegRef (4 * l + i)) = Some (block_outputs (blk x l) ! i)"
  using model_outs_nth[OF l, of i] l assms(3,4) length_model_outs[OF model_okD(1)[OF ok]] by (simp add: js_at_def)

lemma resolve_in:
  assumes l: "l < length (md_blocks x)"
  shows "resolve (int8ModelInputs x) outs (InRef (suffixed ''W1'' ''_'' l)) = Some (tW1 (blk x l))"
    "resolve (int8ModelInputs x) outs (InRef (suffixed ''b1'' ''_'' l)) = Some (tb1 (blk x l))"
    "resolve (int8ModelInputs x) outs (InRef (suffixed ''W2'' ''_'' l)) = Some (tW2 (blk x l))"
    "resolve (int8ModelInputs x) outs (InRef (suffixed ''b2'' ''_'' l)) = Some (tb2 (blk x l))"
  using map_of_blocks[OF _ _ l, of "''W1''"] map_of_blocks[OF _ _ l, of "''b1''"] map_of_blocks[OF _ _ l, of "''W2''"] map_of_blocks[OF _ _ l, of "''b2''"]
  by (simp_all add: input_tensor_defs blk_def) (simp_all add: blockInput_def Let_def)

lemma block_plan_nth:
  "block_plan l ! 0 = \<lparr>sp_idx = 4 * l, sp_kind = Gemm, sp_op = suffixed ''xw1'' ''@'' l, sp_inputs = [X_ref l, InRef (suffixed ''W1'' ''_'' l), InRef (suffixed ''b1'' ''_'' l)]\<rparr>"
  "block_plan l ! 1 = \<lparr>sp_idx = 4 * l + 1, sp_kind = Elementwise, sp_op = suffixed ''rq1_lut'' ''@'' l, sp_inputs = [SegRef (4 * l + 0)]\<rparr>"
  "block_plan l ! 2 = \<lparr>sp_idx = 4 * l + 2, sp_kind = Gemm, sp_op = suffixed ''aw2'' ''@'' l,
     sp_inputs = [SegRef (4 * l + 1), InRef (suffixed ''W2'' ''_'' l), InRef (suffixed ''b2'' ''_'' l)]\<rparr>"
  "block_plan l ! 3 = \<lparr>sp_idx = 4 * l + 3, sp_kind = Elementwise, sp_op = suffixed ''rq2_res'' ''@'' l, sp_inputs = [SegRef (4 * l + 2), X_ref l]\<rparr>"
  by (simp_all add: block_plan_def X_ref_def Let_def)

lemma block_plan_idx: "j < 4 \<Longrightarrow> sp_idx (block_plan l ! j) = 4 * l + j"
  using block_plan_nth[of l] by (auto simp: less_Suc_eq numeral_eq_Suc)

lemma model_segments:
  assumes ok: "model_ok x" and i: "i < length (int8ModelPlan x)"
  shows "\<exists>k. int8ModelKernel x (sp_op (int8ModelPlan x ! i)) = Some k \<and> seg_ok (int8ModelInputs x) (model_outs x) (int8ModelPlan x ! i) k i"
proof -
  define l j where "l = i div 4" and "j = i mod 4"
  have ij: "i = 4 * l + j" "j < 4" by (simp_all add: l_def j_def)
  have l: "l < length (md_blocks x)" using i length_plan[OF model_okD(1)[OF ok]] by (simp add: l_def)
  note b = blk_ok[OF ok l] and o = model_outs_nth[OF l]
  note R = resolve_X[OF ok l] resolve_seg[OF ok l] resolve_in[OF l]
  have "j = 0 \<or> j = 1 \<or> j = 2 \<or> j = 3" using ij(2) by auto
  then have "\<exists>name ins. name \<in> {''xw1'', ''rq1_lut'', ''aw2'', ''rq2_res''} \<and> sp_op (block_plan l ! j) = suffixed name ''@'' l
    \<and> kernel_runs (blk x l) name (sp_kind (block_plan l ! j)) ins (block_outputs (blk x l) ! j)
    \<and> map (resolve (int8ModelInputs x) (take (4 * l + j) (model_outs x))) (sp_inputs (block_plan l ! j)) = map Some ins" (is ?goal)
  proof (elim disjE)
    show ?goal if "j = 0"
      by (rule exI[of _ "''xw1''"], rule exI[of _ "[tX (blk x l), tW1 (blk x l), tb1 (blk x l)]"])
        (use run_xw1[OF b] R(1)[of 0] resolve_in[OF l] that in \<open>simp add: block_plan_nth del: resolve.simps\<close>)
    show ?goal if "j = 1"
      by (rule exI[of _ "''rq1_lut''"], rule exI[of _ "[block_outputs (blk x l) ! 0]"])
        (use run_rq1[OF b] R(2)[of 0 1] that in \<open>simp add: block_plan_nth(2)[simplified] del: resolve.simps\<close>)
    show ?goal if "j = 2"
      by (rule exI[of _ "''aw2''"], rule exI[of _ "[block_outputs (blk x l) ! 1, tW2 (blk x l), tb2 (blk x l)]"])
        (use run_aw2[OF b] R(2)[of 1 2] resolve_in[OF l] that in \<open>simp add: block_plan_nth del: resolve.simps\<close>)
    show ?goal if "j = 3"
      by (rule exI[of _ "''rq2_res''"], rule exI[of _ "[block_outputs (blk x l) ! 2, tX (blk x l)]"])
        (use run_rq2[OF b] R(1)[of 3] R(2)[of 2 3] that in \<open>simp add: block_plan_nth del: resolve.simps\<close>)
  qed
  then obtain name ins where n: "name \<in> {''xw1'', ''rq1_lut'', ''aw2'', ''rq2_res''}" "sp_op (block_plan l ! j) = suffixed name ''@'' l"
    "kernel_runs (blk x l) name (sp_kind (block_plan l ! j)) ins (model_outs x ! i)"
    "map (resolve (int8ModelInputs x) (take i (model_outs x))) (sp_inputs (block_plan l ! j)) = map Some ins"
    unfolding o[OF ij(2), symmetric] ij(1)[symmetric] by blast
  have p: "int8ModelPlan x ! i = block_plan l ! j" using plan_nth[OF l ij(2)] ij(1) by simp
  from seg_ok_of_run[OF n(3,4)] show ?thesis unfolding p n(2) model_kernel[OF l n(1)] .
qed

interpretation model: challenge_work model_ok int8ModelInputs int8ModelPlan int8ModelResultSig int8ModelKernel model_outputs
proof unfold_locales
  fix x :: "int int8ModelInput" and name t i
  assume ok: "model_ok x"
  note ne = model_okD(1)[OF ok]
  have L: "length (int8ModelPlan x) = 4 * length (md_blocks x)" by (rule length_plan[OF ne])
  have "sp_idx (int8ModelPlan x ! i) = i" if "i < length (int8ModelPlan x)" for i
  proof -
    have "i div 4 < length (md_blocks x)" using that L by simp
    from plan_nth[OF this, of "i mod 4"] show ?thesis using block_plan_idx[of "i mod 4" "i div 4"] by simp
  qed
  then show "int8ModelPlan x \<noteq> [] \<and> map sp_idx (int8ModelPlan x) = [0..<length (int8ModelPlan x)]"
    using L ne by (auto intro: nth_equalityI)
  show "length (model_outputs x) = length (int8ModelPlan x)" using L length_model_outs[OF ne] model_outputs_eq[OF ok] by simp
  show "validTensor (rats t)" if "(name, t) \<in> set (int8ModelInputs x)"
  proof -
    from that have "(\<exists>l n. l < length (md_blocks x) \<and> (n, t) \<in> set (int8MlpInputs (blockInput x l (md_X x)))) \<or> t = tX (blk x 0)"
      by (auto simp: int8ModelInputs_def block_inputs_def tX_def blk_def)
    then show ?thesis
    proof
      assume "\<exists>l n. l < length (md_blocks x) \<and> (n, t) \<in> set (int8MlpInputs (blockInput x l (md_X x)))"
      then show ?thesis using inputs_ok model_okD(2)[OF ok] by blast
    qed (use input_tensors_valid(1)[OF blk_ok[OF ok]] ne in auto)
  qed
  show "\<exists>k. int8ModelKernel x (sp_op (int8ModelPlan x ! i)) = Some k \<and> seg_ok (int8ModelInputs x) (model_outputs x) (int8ModelPlan x ! i) k i"
    if "i < length (int8ModelPlan x)" using model_segments[OF ok that] model_outputs_eq[OF ok] by simp
  have "last (model_outs x) = block_outputs (blk x (length (md_blocks x) - 1)) ! 3"
  proof -
    have "length (model_outs x) - 1 = 4 * (length (md_blocks x) - 1) + 3" using length_model_outs[OF ne] ne by (cases "md_blocks x") auto
    moreover have "model_outs x \<noteq> []" using length_model_outs[OF ne] ne by auto
    ultimately show ?thesis using model_outs_nth[of "length (md_blocks x) - 1" x 3] ne by (simp add: last_conv_nth)
  qed
  then show "hasSig (last (model_outputs x)) (int8ModelResultSig x)"
    by (simp add: model_outputs_eq[OF ok] int8ModelResultSig_def sel_outputs blk_def)
qed

subsection \<open>Properties\<close>

lemma validate_model_reads:
  assumes v: "validateInt8Model r = None"
  shows "model_map of_int (model_map floor r) = r" and "model_ok (model_map floor r)"
proof -
  have c: "check_blocks r [0..<length (md_blocks r)] = None" and ne: "md_blocks r \<noteq> []"
    using v by (auto simp: validateInt8Model_def Let_def split: if_splits)
  have b: "mlp_map of_int (mlp_map floor (blockInput r l (md_X r))) = blockInput r l (md_X r)" if "l < length (md_blocks r)" for l
    using c that by (intro validate_reads(1)) (simp add: check_blocks_None)
  have k: "block_map of_int (block_map floor (md_blocks r ! l)) = md_blocks r ! l" if "l < length (md_blocks r)" for l
    using b[OF that] by (cases "md_blocks r ! l") (simp add: mlp_map_def block_map_def blockInput_def Let_def)
  have blocks: "map (block_map of_int) (map (block_map floor) (md_blocks r)) = md_blocks r"
    by (rule nth_equalityI) (simp_all add: k)
  have "of_int \<lfloor>md_b r\<rfloor> = md_b r" "of_int \<lfloor>md_d r\<rfloor> = md_d r" "of_int \<lfloor>md_h r\<rfloor> = md_h r" "map of_int (map floor (md_X r)) = md_X r"
    using b[of 0] ne by (simp_all add: mlp_map_def blockInput_def Let_def)
  then show eq: "model_map of_int (model_map floor r) = r"
    using blocks by (cases r) (simp add: model_map_def)
  show "model_ok (model_map floor r)" using v eq by (simp add: model_ok_def)
qed

text \<open>
  C15. Completeness for \<^verbatim>\<open>int8-model\<close>: for every accepted model of \<open>L\<close> blocks the execution succeeds, the commitment to
  its \<open>4 L\<close> outputs passes the bind check, and every segment passes its opening check.
\<close>

theorem model_honest_never_caught:
  assumes "validateInt8Model r = None" and "digest_ok H" and "rand_ok rnd" and "x = model_map floor r" and "i < length (int8ModelPlan x)"
  shows "length (int8ModelPlan x) = 4 * length (md_blocks r) \<and> (\<exists>outs y c k. executeInt8Model x = Some (outs, y)
    \<and> makeCommitment H sigma (int8ModelInputs x) (int8ModelPlan x) outs = Some c
    \<and> checkCommitment H sigma (int8ModelInputs x) (int8ModelPlan x) (Some c) (Some (rats y)) (int8ModelResultSig x) = Some Accept
    \<and> int8ModelKernel x (sp_op (int8ModelPlan x ! i)) = Some k
    \<and> checkOpening H rnd (int8ModelPlan x ! i) (Some (honest_opening outs (int8ModelPlan x ! i))) c (int8ModelInputs x) k = Some Accept)"
proof -
  have ok: "model_ok x" using validate_model_reads(2)[OF assms(1)] assms(4) by simp
  have L: "length (int8ModelPlan x) = 4 * length (md_blocks r)" using length_plan[OF model_okD(1)[OF ok]] assms(4) by (simp add: model_map_def)
  have outs: "executeInt8Model x = Some (model_outputs x, last (model_outputs x))"
    using execute_model_eq[OF ok] model_outputs_eq[OF ok] by simp
  from model.honest_commitment[OF ok assms(2), of sigma] obtain c where
    c: "makeCommitment H sigma (int8ModelInputs x) (int8ModelPlan x) (model_outputs x) = Some c"
    "checkCommitment H sigma (int8ModelInputs x) (int8ModelPlan x) (Some c) (Some (rats (last (model_outputs x)))) (int8ModelResultSig x) = Some Accept"
    "\<forall>i < length (int8ModelPlan x). committed c i = tensorHash H (model_outputs x ! i)" by blast
  from model.honest_opening_accepted[OF ok assms(5,3), of c H] c(3) obtain k where
    "int8ModelKernel x (sp_op (int8ModelPlan x ! i)) = Some k"
    "checkOpening H rnd (int8ModelPlan x ! i) (Some (honest_opening (model_outputs x) (int8ModelPlan x ! i))) c (int8ModelInputs x) k = Some Accept" by auto
  then show ?thesis using outs c(1,2) L by blast
qed

definition toy_model :: "rat int8ModelInput" where
  "toy_model = \<lparr>md_b = 1, md_d = 8, md_h = 8, md_X = replicate 8 3, md_blocks = replicate 2
     \<lparr>bk_W1 = replicate 64 1, bk_b1 = replicate 8 2, bk_W2 = replicate 64 2, bk_b2 = replicate 8 5, bk_m1 = 1, bk_s1 = 2, bk_m2 = 3, bk_s2 = 4, bk_lut = None\<rparr>\<rparr>"

lemma toy_model_valid: "validateInt8Model toy_model = None"
proof -
  have "blockInput toy_model l (md_X toy_model) = toy_mlp" if "l < 2" for l
    using that by (simp add: blockInput_def toy_model_def toy_mlp_def Let_def)
  then have "check_blocks toy_model [0..<2] = None" using toy_mlp_valid by (simp add: check_blocks_None)
  then show ?thesis by (simp add: validateInt8Model_def Let_def) (simp add: toy_model_def INT8_MODEL_def isInteger_def)
qed

theorem model_honest_never_caught_witness:
  "length (int8ModelPlan (model_map floor toy_model)) = 8
    \<and> (\<exists>outs y c. executeInt8Model (model_map floor toy_model) = Some (outs, y)
    \<and> makeCommitment toy_digest ''s'' (int8ModelInputs (model_map floor toy_model)) (int8ModelPlan (model_map floor toy_model)) outs = Some c)"
proof -
  have "7 < length (int8ModelPlan (model_map floor toy_model))"
    by (simp add: length_plan toy_model_def model_map_def)
  from model_honest_never_caught[OF toy_model_valid toy_digest_ok rand_zero_ok refl this, of "''s''"]
  show ?thesis by (auto simp: toy_model_def)
qed

end
