(* ===== verification/WorkTypes.thy ===== *)
theory WorkTypes
  imports Freivalds Int8Model
begin

text \<open>
  The registry of work types (\<^verbatim>\<open>client/api/src/services/work-types.ts\<close>). A work type is the record of functions the
  shared pipeline calls: validation at intake, metering, and either the inline proof (\<open>matmul\<close>) or the pieces of the
  commit-and-open check (\<open>int8-mlp\<close>, \<open>int8-model\<close>). A request carries unchecked numbers (\<open>rawInput\<close>); what intake
  accepted is the integer value it stands for (\<open>jobInput\<close>). An input of another type has none of the fields a work
  type reads: its validation refuses it, and the other functions are only applied to inputs that passed.

  \<open>SHA-256\<close> and the random bytes of the Freivalds rounds are arguments, as in the theories used here.
\<close>

subsection \<open>Inputs and the registry's interface\<close>

datatype rawInput = RawMatmul rat "rat list" "rat list" | RawMlp "rat int8MlpInput" | RawModel "rat int8ModelInput"

datatype jobInput = MatmulJob nat "int list" "int list" | MlpJob "int int8MlpInput" | ModelJob "int int8ModelInput"

fun accept :: "rawInput \<Rightarrow> jobInput" where
  "accept (RawMatmul n a b) = MatmulJob (nat \<lfloor>n\<rfloor>) (map floor a) (map floor b)"
| "accept (RawMlp x) = MlpJob (mlp_map floor x)"
| "accept (RawModel x) = ModelJob (model_map floor x)"

record submission =
  sb_n :: nat
  sb_matrixA :: "int list"
  sb_matrixB :: "int list"
  sb_sigma :: string
  sb_certificate :: "certificate option"
  sb_result :: "rat list option"

record plantedTask_t =
  pt_n :: nat
  pt_matrixA :: "int list"
  pt_matrixB :: "int list"
  pt_matrixC :: "int list"
  pt_expectedValid :: bool

datatype wt_mode = Inline | Challenge

datatype wt_error = BadN | BadMatrixLength nat | BadMatrixEntry string nat | MlpError mlp_error | ModelError model_error

record workType =
  wt_id :: string
  wt_mode :: wt_mode
  wt_minAgent :: "string option"
  wt_requirements :: string
  wt_validate :: "rawInput \<Rightarrow> wt_error option"
  wt_meter :: "jobInput \<Rightarrow> int"
  wt_verify :: "digest \<Rightarrow> (nat \<Rightarrow> bytes) \<Rightarrow> submission \<Rightarrow> bool \<Rightarrow> verdict option"
  wt_inputs :: "jobInput \<Rightarrow> tensors"
  wt_plan :: "jobInput \<Rightarrow> segmentSpec list"
  wt_resultSig :: "jobInput \<Rightarrow> tensorSig option"
  wt_samples :: "jobInput \<Rightarrow> nat"
  wt_kernel :: "jobInput \<Rightarrow> string \<Rightarrow> segmentKernel option"

subsection \<open>The matmul work type\<close>

definition MATMUL_N_MIN :: nat where
  "MATMUL_N_MIN = 8"

definition MATMUL_N_MAX :: nat where
  "MATMUL_N_MAX = 256"

definition signed_j :: "int \<Rightarrow> int list \<Rightarrow> nat \<Rightarrow> nat \<Rightarrow> nat \<Rightarrow> int list \<Rightarrow> int list option" where
  "signed_j a B n i k C = for_range 0 n (\<lambda>j C. case js_at C (i * n + j) of None \<Rightarrow> None
     | Some c \<Rightarrow> (case js_at B (k * n + j) of None \<Rightarrow> None | Some b \<Rightarrow> js_set C (i * n + j) (c + a * b))) C"

definition signed_k :: "int list \<Rightarrow> int list \<Rightarrow> nat \<Rightarrow> nat \<Rightarrow> int list \<Rightarrow> int list option" where
  "signed_k A B n i C = for_range 0 n (\<lambda>k C. case js_at A (i * n + k) of None \<Rightarrow> None
     | Some a \<Rightarrow> if a = 0 then Some C else signed_j a B n i k C) C"

definition matMulSigned :: "int list \<Rightarrow> int list \<Rightarrow> nat \<Rightarrow> int list option" where
  "matMulSigned A B n = for_range 0 n (signed_k A B n) (replicate (n * n) 0)"

fun bad_entry :: "rat \<Rightarrow> nat \<Rightarrow> rat list \<Rightarrow> nat option" where
  "bad_entry bound i [] = None"
| "bad_entry bound i (v # vs) = (if \<not> isInteger v \<or> \<bar>v\<bar> > bound then Some i else bad_entry bound (Suc i) vs)"

fun matmul_validate :: "rawInput \<Rightarrow> wt_error option" where
  "matmul_validate (RawMatmul n matrixA matrixB) =
     (if \<not> isInteger n \<or> n < of_nat MATMUL_N_MIN \<or> n > of_nat MATMUL_N_MAX then Some BadN
      else if of_nat (length matrixA) \<noteq> n * n \<or> of_nat (length matrixB) \<noteq> n * n then Some (BadMatrixLength (nat \<lfloor>n * n\<rfloor>))
      else (let bound = of_int (maxAbsEntry (nat \<lfloor>n\<rfloor>)) in
        case bad_entry bound 0 matrixA of Some i \<Rightarrow> Some (BadMatrixEntry ''matrixA'' i)
        | None \<Rightarrow> (case bad_entry bound 0 matrixB of Some i \<Rightarrow> Some (BadMatrixEntry ''matrixB'' i) | None \<Rightarrow> None)))"
| "matmul_validate _ = Some BadN"

fun matmul_meter :: "jobInput \<Rightarrow> int" where
  "matmul_meter (MatmulJob n _ _) = int (n * n * n)"
| "matmul_meter _ = 0"

text \<open>\<^verbatim>\<open>Number.isSafeInteger\<close> on the submitted entries, and the bound of every entry of a product of accepted matrices.\<close>

definition result_ok :: "nat \<Rightarrow> rat list \<Rightarrow> bool" where
  "result_ok n xs \<longleftrightarrow> length xs = n * n
     \<and> list_all (\<lambda>v. isInteger v \<and> \<bar>v\<bar> \<le> 2 ^ 53 - 1 \<and> \<bar>v\<bar> \<le> of_int (int n * maxAbsEntry n * maxAbsEntry n)) xs"

text \<open>
  \<^verbatim>\<open>matmul.verify\<close>; \<open>None\<close> is an exception outside the \<^verbatim>\<open>try\<close>. The re-execution runs over the job's own matrices, and an
  exception inside it counts as a failed transcript.
\<close>

definition transcript_ok :: "digest \<Rightarrow> submission \<Rightarrow> certificate \<Rightarrow> bool" where
  "transcript_ok H s cert =
     (case toFieldMatrix (int_data (sb_matrixA s)) (sb_n s) ''M'' of Inl _ \<Rightarrow> False | Inr a \<Rightarrow>
     (case toFieldMatrix (int_data (sb_matrixB s)) (sb_n s) ''M'' of Inl _ \<Rightarrow> False | Inr b \<Rightarrow>
       verify H (cert\<lparr>c_matrixA := data a, c_matrixB := data b\<rparr>) = Some True))"

definition matmul_verify :: "digest \<Rightarrow> (nat \<Rightarrow> bytes) \<Rightarrow> submission \<Rightarrow> bool \<Rightarrow> verdict option" where
  "matmul_verify H rnd s transcript =
     (let n = sb_n s in
      case sb_certificate s of None \<Rightarrow> Some (Reject (Refusal ''certificate missing'') None) | Some cert \<Rightarrow>
      if c_sigma cert \<noteq> sb_sigma s then Some (Reject (Refusal ''certificate sigma does not match the assignment'') None)
      else if c_n cert \<noteq> n then Some (Reject (Refusal ''certificate n does not match the job'') None)
      else if c_r cert \<noteq> chooseBlockSize n then Some (Reject (Refusal ''certificate block size r is not the protocol's'') None)
      else (case fieldHash H (int_data (sb_matrixA s)) n of Inl _ \<Rightarrow> None | Inr ah \<Rightarrow>
      if c_matrixAHash cert \<noteq> ah then Some (Reject (Refusal ''certificate is not for this job's matrices'') None)
      else (case fieldHash H (int_data (sb_matrixB s)) n of Inl _ \<Rightarrow> None | Inr bh \<Rightarrow>
      if c_matrixBHash cert \<noteq> bh then Some (Reject (Refusal ''certificate is not for this job's matrices'') None)
      else (case sb_result s of None \<Rightarrow> Some (Reject ResultMalformed None) | Some result \<Rightarrow>
      if \<not> result_ok n result then Some (Reject ResultMalformed None)
      else (case freivalds rnd (sb_matrixA s) (sb_matrixB s) (map floor result) n 2 of None \<Rightarrow> None | Some ok \<Rightarrow>
        if \<not> ok then Some (Reject (Refusal ''result is not A B'') None)
        else if \<not> transcript then Some Accept
        else if \<not> transcript_ok H s cert then Some (Reject (Refusal ''certificate transcript failed verification'') (Some StTranscript))
        else Some Accept)))))"

text \<open>
  \<^verbatim>\<open>plantedTask\<close>: \<open>rand i m\<close> is the \<open>i\<close>-th number drawn below \<open>m\<close>. Without a base the two matrices are drawn first
  (512 numbers below 19), then the position and the size of the corruption.
\<close>

definition planted_base :: "(nat \<Rightarrow> nat \<Rightarrow> nat) \<Rightarrow> (nat \<times> int list \<times> int list \<times> int list) option" where
  "planted_base rand =
     (let n = 16; bound = 9;
          a = map (\<lambda>i. int (rand i (2 * bound + 1)) - int bound) [0..<n * n];
          b = map (\<lambda>i. int (rand (n * n + i) (2 * bound + 1)) - int bound) [0..<n * n]
      in map_option (\<lambda>c. (n, a, b, c)) (matMulSigned a b n))"

definition plantedTask :: "(nat \<Rightarrow> nat \<Rightarrow> nat) \<Rightarrow> (nat \<times> int list \<times> int list \<times> int list) option \<Rightarrow> bool \<Rightarrow> plantedTask_t option" where
  "plantedTask rand base corrupt =
     (case (case base of None \<Rightarrow> planted_base rand | Some t \<Rightarrow> Some t) of None \<Rightarrow> None | Some (n, a, b, c) \<Rightarrow>
       (let matrixC = (if corrupt
              then (let i = rand 512 (length c) in c[i := c ! i + 1 + int (rand 513 9)]) else c)
        in Some \<lparr>pt_n = n, pt_matrixA = a, pt_matrixB = b, pt_matrixC = matrixC, pt_expectedValid = (\<not> corrupt)\<rparr>))"

definition matmul :: workType where
  "matmul = \<lparr>wt_id = ''matmul'', wt_mode = Inline, wt_minAgent = None, wt_requirements = ''matmul'',
     wt_validate = matmul_validate, wt_meter = matmul_meter, wt_verify = matmul_verify,
     wt_inputs = (\<lambda>_. []), wt_plan = (\<lambda>_. []), wt_resultSig = (\<lambda>_. None), wt_samples = (\<lambda>_. 0), wt_kernel = (\<lambda>_ _. None)\<rparr>"

subsection \<open>The challenge-mode work types\<close>

text \<open>A challenge-mode type has no inline proof.\<close>

definition no_inline :: "digest \<Rightarrow> (nat \<Rightarrow> bytes) \<Rightarrow> submission \<Rightarrow> bool \<Rightarrow> verdict option" where
  "no_inline H rnd s transcript = None"

fun mlp_validate :: "rawInput \<Rightarrow> wt_error option" where
  "mlp_validate (RawMlp x) = map_option MlpError (validateInt8Mlp x)"
| "mlp_validate _ = Some (MlpError BadB)"

definition on_mlp :: "'a \<Rightarrow> (int int8MlpInput \<Rightarrow> 'a) \<Rightarrow> jobInput \<Rightarrow> 'a" where
  "on_mlp z f j = (case j of MlpJob x \<Rightarrow> f x | _ \<Rightarrow> z)"

definition int8Mlp :: workType where
  "int8Mlp = \<lparr>wt_id = ''int8-mlp'', wt_mode = Challenge, wt_minAgent = Some ''1.7.0'', wt_requirements = ''int8-mlp'',
     wt_validate = mlp_validate, wt_meter = on_mlp 0 meterInt8Mlp, wt_verify = no_inline,
     wt_inputs = on_mlp [] int8MlpInputs, wt_plan = on_mlp [] int8MlpPlan, wt_resultSig = on_mlp None (\<lambda>x. Some (int8MlpResultSig x)),
     wt_samples = (\<lambda>_. 2), wt_kernel = on_mlp (\<lambda>_. None) int8MlpKernel\<rparr>"

fun model_validate :: "rawInput \<Rightarrow> wt_error option" where
  "model_validate (RawModel x) = map_option ModelError (validateInt8Model x)"
| "model_validate _ = Some (ModelError BadBlocks)"

definition on_model :: "'a \<Rightarrow> (int int8ModelInput \<Rightarrow> 'a) \<Rightarrow> jobInput \<Rightarrow> 'a" where
  "on_model z f j = (case j of ModelJob x \<Rightarrow> f x | _ \<Rightarrow> z)"

definition int8Model :: workType where
  "int8Model = \<lparr>wt_id = ''int8-model'', wt_mode = Challenge, wt_minAgent = Some ''1.9.0'', wt_requirements = ''int8-model'',
     wt_validate = model_validate, wt_meter = on_model 0 meterInt8Model, wt_verify = no_inline,
     wt_inputs = on_model [] int8ModelInputs, wt_plan = on_model [] int8ModelPlan, wt_resultSig = on_model None (\<lambda>x. Some (int8ModelResultSig x)),
     wt_samples = on_model 0 samplesInt8Model, wt_kernel = on_model (\<lambda>_. None) int8ModelKernel\<rparr>"

definition REGISTRY :: "(string \<times> workType) list" where
  "REGISTRY = [(wt_id matmul, matmul), (wt_id int8Mlp, int8Mlp), (wt_id int8Model, int8Model)]"

definition getWorkType :: "string \<Rightarrow> workType option" where
  "getWorkType i = map_of REGISTRY i"

definition workTypeIds :: "string list" where
  "workTypeIds = map fst REGISTRY"

subsection \<open>Intake\<close>

lemma bad_entry_None: "bad_entry bound i vs = None \<longleftrightarrow> list_all (\<lambda>v. isInteger v \<and> \<bar>v\<bar> \<le> bound) vs"
  by (induction vs arbitrary: i) auto

lemma isInteger_floor: "isInteger v \<Longrightarrow> of_int \<lfloor>v\<rfloor> = v"
  by (simp add: isInteger_def)

lemma isInteger_abs_floor: "isInteger v \<Longrightarrow> \<bar>v\<bar> \<le> of_int b \<longleftrightarrow> \<bar>\<lfloor>v\<rfloor>\<bar> \<le> b"
  by (metis isInteger_floor of_int_abs of_int_le_iff)

lemma matmul_validate_bounded:
  assumes "matmul_validate (RawMatmul n a b) = None" and "accept (RawMatmul n a b) = MatmulJob m A B"
  shows "n = of_nat m" and "8 \<le> m" and "m \<le> 256" and "bounded m A" and "bounded m B"
    and "a = int_data A" and "b = int_data B"
proof -
  have m: "m = nat \<lfloor>n\<rfloor>" and A: "A = map floor a" and B: "B = map floor b" using assms(2) by auto
  have n: "isInteger n" "8 \<le> n" "n \<le> 256" and l: "of_nat (length a) = n * n" "of_nat (length b) = n * n"
    and a: "list_all (\<lambda>v. isInteger v \<and> \<bar>v\<bar> \<le> of_int (maxAbsEntry m)) a"
    and b: "list_all (\<lambda>v. isInteger v \<and> \<bar>v\<bar> \<le> of_int (maxAbsEntry m)) b"
    using assms(1) by (auto simp: MATMUL_N_MIN_def MATMUL_N_MAX_def Let_def bad_entry_None m split: if_splits option.splits)
  have nm: "n = rat_of_int \<lfloor>n\<rfloor>" using n(1) by (simp add: isInteger_floor)
  have "0 \<le> \<lfloor>n\<rfloor>" using n(2) by simp
  then show n': "n = of_nat m" using nm m by (metis int_nat_eq of_int_of_nat_eq)
  show "8 \<le> m" "m \<le> 256" using n n' by auto
  have len: "length a = m * m" "length b = m * m" using l n' by (metis of_nat_eq_iff of_nat_mult)+
  show "bounded m A" "bounded m B" using a b len
    by (auto simp: bounded_def A B list_all_iff isInteger_abs_floor)
  show "a = int_data A" "b = int_data B" using a b
    by (auto simp: A B int_data_def list_all_iff isInteger_floor intro!: map_idI[symmetric])
qed

subsection \<open>The reference product and planted tasks\<close>

lemma matMulSigned_gemm: "matMulSigned A B n = for_range 0 n (gemm_t A B n n) (replicate (n * n) 0)"
proof -
  have "signed_k A B n = gemm_t A B n n" by (rule ext)+ (simp only: signed_k_def signed_j_def gemm_t_def gemm_j_def)
  then show ?thesis by (simp add: matMulSigned_def)
qed

lemma map_mod_zeros: "map (\<lambda>x. replicate n (0::int) ! (x mod n)) [0..<n * n] = replicate (n * n) 0"
  by (rule nth_equalityI) (auto simp: gr0_conv_Suc, metis bot_nat_0.extremum_strict mod_less_divisor mult_zero_left nth_replicate zero_less_iff_neq_zero)

lemma matMulSigned_product:
  assumes "length A = n * n" and "length B = n * n"
  shows "matMulSigned A B n = Some (int_product n A B)"
proof -
  have "gemmBias A B (replicate n 0) n n n = Some (int_product n A B)"
    using gemmBias_eq[OF assms, of "replicate n 0"]
    by (auto simp: gemm_product_def int_product_def gemm_entry_def bias_at_def dot_rdot intro!: nth_equalityI)
      (metis add.right_neutral mod_less_divisor mult_zero_left nat_neq_iff not_less_zero nth_replicate)
  then show ?thesis
    using gemm_init_eq[of "replicate n 0" n n] map_mod_zeros[of n] by (simp add: matMulSigned_gemm gemmBias_def)
qed

definition rand_below :: "(nat \<Rightarrow> nat \<Rightarrow> nat) \<Rightarrow> bool" where
  "rand_below rand \<longleftrightarrow> (\<forall>i m. 0 < m \<longrightarrow> rand i m < m)"

definition planted_ok :: "nat \<times> int list \<times> int list \<times> int list \<Rightarrow> bool" where
  "planted_ok t \<longleftrightarrow> (case t of (n, a, b, c) \<Rightarrow> 0 < n \<and> length a = n * n \<and> length b = n * n \<and> c = int_product n a b)"

lemma planted_base_ok: "\<exists>t. planted_base rand = Some t \<and> planted_ok t"
  by (auto simp: planted_base_def Let_def planted_ok_def matMulSigned_product)

text \<open>
  Planted tasks are known-answer tasks: a task drawn from scratch or built from a finished job is labelled valid
  exactly when its \<open>C\<close> is the integer product of its matrices, so a corrupted one is always wrong and an untouched one
  always right, whatever random numbers are drawn.
\<close>

theorem planted_label_right:
  assumes "rand_below rand" and "case base of None \<Rightarrow> True | Some t \<Rightarrow> planted_ok t"
  shows "\<exists>t. plantedTask rand base corrupt = Some t \<and> pt_expectedValid t = (\<not> corrupt)
    \<and> (pt_expectedValid t \<longleftrightarrow> pt_matrixC t = int_product (pt_n t) (pt_matrixA t) (pt_matrixB t))"
proof -
  obtain n a b c where t: "(case base of None \<Rightarrow> planted_base rand | Some t \<Rightarrow> Some t) = Some (n, a, b, c)" "planted_ok (n, a, b, c)"
    using assms(2) planted_base_ok[of rand] by (cases base) auto
  then have c: "c = int_product n a b" "0 < length c" by (auto simp: planted_ok_def int_product_def)
  let ?i = "rand 512 (length c)"
  have "?i < length c" using assms(1) c(2) by (simp add: rand_below_def)
  then have "c[?i := c ! ?i + 1 + int (rand 513 9)] \<noteq> c" by (metis add.assoc add_cancel_right_right add_is_0 int_ops(1) nth_list_update_eq of_nat_1 of_nat_add of_nat_eq_iff zero_neq_one)
  then show ?thesis using t(1) c(1) by (simp add: plantedTask_def Let_def)
qed

theorem planted_label_right_witness:
  "\<exists>t. plantedTask (\<lambda>i m. i mod m) (Some (2, [1, 0, 0, 1], [5, 6, 7, 8], [5, 6, 7, 8])) True = Some t \<and> \<not> pt_expectedValid t
    \<and> pt_matrixC t \<noteq> int_product (pt_n t) (pt_matrixA t) (pt_matrixB t)"
proof -
  have "planted_ok (2, [1, 0, 0, 1], [5, 6, 7, 8], [5, 6, 7, 8])" by code_simp
  moreover have "rand_below (\<lambda>i m. i mod m)" by (simp add: rand_below_def)
  ultimately show ?thesis
    using planted_label_right[of "\<lambda>i m. i mod m" "Some (2, [1, 0, 0, 1], [5, 6, 7, 8], [5, 6, 7, 8])" True] by auto
qed

subsection \<open>The inline proof of matmul\<close>

text \<open>The vectors that hide a wrong result in one round, and the event that both vectors drawn do.\<close>

definition hiding_vectors :: "nat \<Rightarrow> int list \<Rightarrow> int list \<Rightarrow> int list \<Rightarrow> int list set" where
  "hiding_vectors n A B C = {r \<in> vectors n. freivalds_round A B C n r = Some True}"

definition matmul_fooled :: "(nat \<Rightarrow> bytes) \<Rightarrow> nat \<Rightarrow> int list \<Rightarrow> int list \<Rightarrow> int list \<Rightarrow> bool" where
  "matmul_fooled rnd n A B C \<longleftrightarrow>
     (\<forall>t < 2. \<exists>r. randomFieldVector (rnd t) n = Some r \<and> r \<in> hiding_vectors n A B C)"

lemma randomFieldVector_vectors: "randomFieldVector rb n = Some r \<Longrightarrow> r \<in> vectors n"
proof -
  assume a: "randomFieldVector rb n = Some r"
  then have m: "map (\<lambda>i. map_option (\<lambda>v. v smod PRIME) (read_be rb (i * 8) 8)) [0..<n] = map Some r"
    unfolding randomFieldVector_def by (rule opt_all_SomeD)
  then have l: "length r = n" by (metis length_map length_upt minus_nat.diff_0)
  have "in_field (r ! i)" if "i < n" for i
  proof -
    have "map_option (\<lambda>v. v smod PRIME) (read_be rb (i * 8) 8) = Some (r ! i)"
      using arg_cong[OF m, of "\<lambda>xs. xs ! i"] that l by simp
    then obtain v where v: "read_be rb (i * 8) 8 = Some v" "r ! i = v smod PRIME" by auto
    then have "0 \<le> v" using be_num_nonneg by (auto simp: read_be_def split: if_splits)
    then have "v smod PRIME = v mod PRIME" by (simp add: smod_nonneg PRIME_def)
    then show ?thesis using v by (simp add: in_field_def)
  qed
  then show ?thesis using l by (auto simp: vectors_def in_set_conv_nth)
qed

lemma result_ok_half:
  assumes "result_ok n xs" and "0 < n"
  shows "\<forall>x \<in> set (map floor xs). \<bar>x\<bar> \<le> HALF_P" and "length (map floor xs) = n * n"
proof -
  have "\<bar>\<lfloor>v\<rfloor>\<bar> \<le> int n * maxAbsEntry n * maxAbsEntry n" if "v \<in> set xs" for v
    using assms(1) that by (auto simp: result_ok_def list_all_iff isInteger_abs_floor simp del: of_int_mult)
  then show "\<forall>x \<in> set (map floor xs). \<bar>x\<bar> \<le> HALF_P"
    using maxAbsEntry_exact[OF assms(2)] by (fastforce simp: mult.assoc)
  show "length (map floor xs) = n * n" using assms(1) by (simp add: result_ok_def)
qed

text \<open>What an accepted submission passed.\<close>

lemma matmul_verify_acceptD:
  assumes "matmul_verify H rnd s t = Some Accept"
  obtains cert result where "sb_certificate s = Some cert" and "sb_result s = Some result" and "c_sigma cert = sb_sigma s"
    and "c_n cert = sb_n s" and "c_r cert = chooseBlockSize (sb_n s)" and "result_ok (sb_n s) result"
    and "fieldHash H (int_data (sb_matrixA s)) (sb_n s) = Inr (c_matrixAHash cert)"
    and "fieldHash H (int_data (sb_matrixB s)) (sb_n s) = Inr (c_matrixBHash cert)"
    and "freivalds rnd (sb_matrixA s) (sb_matrixB s) (map floor result) (sb_n s) 2 = Some True"
    and "t \<Longrightarrow> transcript_ok H s cert"
  using assms unfolding matmul_verify_def Let_def by (auto split: option.splits if_splits sum.splits)

lemma matmul_accept_sound:
  assumes "matmul_verify H rnd s t = Some Accept" and "bounded (sb_n s) (sb_matrixA s)" and "bounded (sb_n s) (sb_matrixB s)"
    and "0 < sb_n s" and "sb_result s = Some result"
  shows "map floor result = int_product (sb_n s) (sb_matrixA s) (sb_matrixB s)
    \<or> matmul_fooled rnd (sb_n s) (sb_matrixA s) (sb_matrixB s) (map floor result)"
proof -
  obtain cert where *: "freivalds rnd (sb_matrixA s) (sb_matrixB s) (map floor result) (sb_n s) 2 = Some True"
    using assms(1,5) by (auto elim: matmul_verify_acceptD)
  then have run: "freivalds_loop (freivalds_round (sb_matrixA s) (sb_matrixB s) (map floor result) (sb_n s))
      (\<lambda>t. randomFieldVector (rnd t) (sb_n s)) 0 2 = Some True"
    by (simp add: freivalds_def split: if_splits)
  have "\<exists>r. randomFieldVector (rnd t) (sb_n s) = Some r \<and> r \<in> hiding_vectors (sb_n s) (sb_matrixA s) (sb_matrixB s) (map floor result)"
    if "t < 2" for t
    using freivalds_loop_TrueD[OF run, of t] that randomFieldVector_vectors by (fastforce simp: hiding_vectors_def)
  then show ?thesis by (simp add: matmul_fooled_def)
qed

lemma hiding_vectors_few:
  assumes "matmul_verify H rnd s t = Some Accept" and "bounded (sb_n s) (sb_matrixA s)" and "bounded (sb_n s) (sb_matrixB s)"
    and "0 < sb_n s" and "sb_result s = Some result" and "map floor result \<noteq> int_product (sb_n s) (sb_matrixA s) (sb_matrixB s)"
  shows "card (hiding_vectors (sb_n s) (sb_matrixA s) (sb_matrixB s) (map floor result)) * nat PRIME \<le> card (vectors (sb_n s))"
proof -
  have "result_ok (sb_n s) result" using assms(1,5) by (auto elim: matmul_verify_acceptD)
  from result_ok_half[OF this assms(4)] show ?thesis
    unfolding hiding_vectors_def by (intro freivalds_sound_aux[OF assms(2,3)] assms(6))
qed

text \<open>A certificate whose transcript was re-executed carries the hash and the ticket of the honest solver.\<close>

lemma transcript_ok_honest:
  assumes "transcript_ok H s cert" and "bounded (sb_n s) (sb_matrixA s)" and "bounded (sb_n s) (sb_matrixB s)"
    and "c_sigma cert = sb_sigma s" and "c_n cert = sb_n s" and "c_r cert = chooseBlockSize (sb_n s)"
    and "solveAssignedJob H (sb_sigma s) (int_data (sb_matrixA s)) (int_data (sb_matrixB s)) (sb_n s) prov dev now = Inr (cert', C)"
    and "c_matrixAHash cert = c_matrixAHash cert'" and "c_matrixBHash cert = c_matrixBHash cert'"
  shows "c_transcriptHash cert = c_transcriptHash cert' \<and> c_z cert = c_z cert'"
proof -
  let ?A = "field_mat (sb_n s) (sb_matrixA s)" and ?B = "field_mat (sb_n s) (sb_matrixB s)"
  note tf = toFieldMatrix_bounded[OF assms(2)] toFieldMatrix_bounded[OF assms(3)]
  obtain enc mm where e: "encode H (sb_sigma s) ?A ?B (chooseBlockSize (sb_n s)) = Some enc"
    "matMulWithTranscript H (Aprime enc) (Bprime enc) (chooseBlockSize (sb_n s)) = Some mm"
    and c': "c_transcriptHash cert' = mm_transcriptHash mm" "c_matrixAHash cert' = matHash H ?A" "c_matrixBHash cert' = matHash H ?B"
      "c_z cert' = computeZ H (sb_sigma s) (mm_transcriptHash mm) (matHash H ?A) (matHash H ?B)"
    using assms(7) tf
    by (auto simp: solveAssignedJob_def solveAssigned_def solve_pass_def Let_def field_mat_def split: option.splits)
  have "verify H (cert\<lparr>c_matrixA := data ?A, c_matrixB := data ?B\<rparr>) = Some True"
    using assms(1) tf by (simp add: transcript_ok_def)
  then show ?thesis
    using e assms(4-6,8,9) by (simp add: verify_def Let_def field_mat_def c' split: if_splits)
qed

lemma solve_certificate:
  assumes "digest32 H" and "0 < n" and "bounded n a" and "bounded n b"
  shows "\<exists>cert. solveAssignedJob H sigma (int_data a) (int_data b) n prov dev now = Inr (cert, int_product n a b)
     \<and> c_sigma cert = sigma \<and> c_n cert = n \<and> c_r cert = chooseBlockSize n
     \<and> fieldHash H (int_data a) n = Inr (c_matrixAHash cert) \<and> fieldHash H (int_data b) n = Inr (c_matrixBHash cert)
     \<and> verify H (cert\<lparr>c_matrixA := data (field_mat n a), c_matrixB := data (field_mat n b)\<rparr>) = Some True"
proof -
  let ?A = "field_mat n a" and ?B = "field_mat n b"
  have ok: "mul_ok n n n ?A ?B" by (rule field_mat_ok[OF assms(3,4)])
  obtain cert C where c: "solve_pass H sigma n (chooseBlockSize n) 0 ?A ?B now prov dev = Some (cert, Some C)"
    "matMul ?A ?B = Some C" "verify H cert = Some (meetsDifficulty (c_z cert) 0)" "c_n cert = n" "c_matrixA cert = data ?A"
    "c_matrixB cert = data ?B" "c_sigma cert = sigma" "c_r cert = chooseBlockSize n"
    "c_matrixAHash cert = matHash H ?A" "c_matrixBHash cert = matHash H ?B"
    by (rule solve_pass_ok[OF assms(1) ok chooseBlockSize_pos[OF assms(2)] chooseBlockSize_dvd])
  have same: "cert\<lparr>c_matrixA := data ?A, c_matrixB := data ?B\<rparr> = cert" using c(5,6) by (cases cert) simp
  have "rows ?A = n" by (simp add: field_mat_def)
  then show ?thesis
    using c lift_field_product[OF assms(3,4) c(2)] toFieldMatrix_bounded[OF assms(3)] toFieldMatrix_bounded[OF assms(4)]
    by (simp add: solveAssignedJob_def solveAssigned_def fieldHash_def Let_def same)
qed

lemma product_result_ok:
  assumes "bounded n a" and "bounded n b" and "0 < n"
  shows "result_ok n (int_data (int_product n a b))"
proof -
  have "\<bar>dot n a b i j\<bar> \<le> int n * maxAbsEntry n * maxAbsEntry n" if "i < n" "j < n" for i j
  proof -
    have "\<bar>dot n a b i j\<bar> \<le> (\<Sum>t < n. \<bar>a ! (i * n + t) * b ! (t * n + j)\<bar>)" unfolding dot_def by (rule sum_abs)
    also have "\<dots> \<le> (\<Sum>t < n. maxAbsEntry n * maxAbsEntry n)"
      using assms that by (intro sum_mono) (auto simp: abs_mult bounded_nth maxAbsEntry_nonneg intro: mult_mono)
    finally show ?thesis by simp
  qed
  then have e: "\<bar>v\<bar> \<le> int n * maxAbsEntry n * maxAbsEntry n" if "v \<in> set (int_product n a b)" for v
    using that by (auto simp: int_product_def less_mult_imp_div_less mod_less_divisor[OF assms(3)])
  have "int n * maxAbsEntry n * maxAbsEntry n \<le> HALF_P" using maxAbsEntry_exact[OF assms(3)] by (simp add: mult.assoc)
  then have "\<bar>v\<bar> \<le> 2 ^ 53 - 1" if "v \<in> set (int_product n a b)" for v using e[OF that] by (simp add: HALF_P_val)
  then have "\<bar>rat_of_int v\<bar> \<le> 2 ^ 53 - 1 \<and> \<bar>rat_of_int v\<bar> \<le> of_int (int n * maxAbsEntry n * maxAbsEntry n)"
    if "v \<in> set (int_product n a b)" for v
  proof -
    have "rat_of_int \<bar>v\<bar> \<le> of_int (2 ^ 53 - 1)" "rat_of_int \<bar>v\<bar> \<le> of_int (int n * maxAbsEntry n * maxAbsEntry n)"
      using that e \<open>\<And>v. v \<in> set (int_product n a b) \<Longrightarrow> \<bar>v\<bar> \<le> 2 ^ 53 - 1\<close> of_int_le_iff by blast+
    then show ?thesis by simp
  qed
  then show ?thesis by (auto simp: result_ok_def int_data_def list_all_iff isInteger_def) (simp add: int_product_def)
qed

lemma matmul_verify_honest:
  assumes "digest32 H" and "bounded n A" and "bounded n B" and "0 < n"
    and "c_sigma cert = sigma" and "c_n cert = n" and "c_r cert = chooseBlockSize n"
    and "fieldHash H (int_data A) n = Inr (c_matrixAHash cert)" and "fieldHash H (int_data B) n = Inr (c_matrixBHash cert)"
    and "verify H (cert\<lparr>c_matrixA := data (field_mat n A), c_matrixB := data (field_mat n B)\<rparr>) = Some True"
    and "\<And>t. length (rnd t) = n * 8"
  shows "matmul_verify H rnd \<lparr>sb_n = n, sb_matrixA = A, sb_matrixB = B, sb_sigma = sigma, sb_certificate = Some cert,
        sb_result = Some (int_data (int_product n A B))\<rparr> transcript = Some Accept"
proof -
  have "freivalds rnd A B (int_product n A B) n 2 = Some True"
    using assms(2,3) by (intro freivalds_complete_aux assms(11)) (auto simp: bounded_def)
  moreover have "map floor (int_data (int_product n A B)) = int_product n A B" by (simp add: int_data_def comp_def)
  ultimately show ?thesis
    using assms(5-10) product_result_ok[OF assms(2-4)] toFieldMatrix_bounded[OF assms(2)] toFieldMatrix_bounded[OF assms(3)]
    by (simp add: matmul_verify_def Let_def transcript_ok_def)
qed

text \<open>
  The matmul work type is complete: for every input intake accepts, the node's own solver returns the exact product
  with a certificate, and the orchestrator accepts that submission whether or not the transcript is sampled.
\<close>

theorem matmul_honest_accepted:
  assumes "matmul_validate raw = None" and "accept raw = MatmulJob n A B" and "digest32 H" and "\<And>t. length (rnd t) = n * 8"
  shows "\<exists>cert. solveAssignedJob H sigma (int_data A) (int_data B) n prov dev now = Inr (cert, int_product n A B)
    \<and> matmul_verify H rnd \<lparr>sb_n = n, sb_matrixA = A, sb_matrixB = B, sb_sigma = sigma, sb_certificate = Some cert,
        sb_result = Some (int_data (int_product n A B))\<rparr> transcript = Some Accept"
proof -
  obtain m a b where raw: "raw = RawMatmul m a b" using assms(2) by (cases raw) auto
  note v = matmul_validate_bounded[OF assms(1,2)[unfolded raw]]
  have n: "0 < n" using v(2) by simp
  obtain cert where c: "solveAssignedJob H sigma (int_data A) (int_data B) n prov dev now = Inr (cert, int_product n A B)"
    "c_sigma cert = sigma" "c_n cert = n" "c_r cert = chooseBlockSize n"
    "fieldHash H (int_data A) n = Inr (c_matrixAHash cert)" "fieldHash H (int_data B) n = Inr (c_matrixBHash cert)"
    "verify H (cert\<lparr>c_matrixA := data (field_mat n A), c_matrixB := data (field_mat n B)\<rparr>) = Some True"
    using solve_certificate[OF assms(3) n v(4,5)] by blast
  show ?thesis using c(1) matmul_verify_honest[where rnd = rnd, OF assms(3) v(4,5) n c(2-7) assms(4)] by blast
qed

definition toy_matmul :: rawInput where
  "toy_matmul = RawMatmul 8 (replicate 64 1) (replicate 64 (-2))"

lemma toy_matmul_valid: "matmul_validate toy_matmul = None"
proof -
  have "2 \<le> maxAbsEntry 8" by (rule maxAbsEntry_geI) (simp_all add: HALF_P_val)
  then have "list_all (\<lambda>v. isInteger v \<and> \<bar>v\<bar> \<le> of_int (maxAbsEntry 8)) (replicate 64 1)"
    "list_all (\<lambda>v. isInteger v \<and> \<bar>v\<bar> \<le> of_int (maxAbsEntry 8)) (replicate 64 (-2))"
    by (auto simp: list_all_iff isInteger_def intro: exI[of _ "-2"])
  then show ?thesis
    by (simp add: toy_matmul_def MATMUL_N_MIN_def MATMUL_N_MAX_def Let_def bad_entry_None[THEN iffD2] isInteger_def)
qed

lemma toy_matmul_accept: "accept toy_matmul = MatmulJob 8 (replicate 64 1) (replicate 64 (-2))"
  by (simp add: toy_matmul_def map_replicate)

theorem matmul_honest_accepted_witness:
  "\<exists>cert. matmul_verify (\<lambda>_. replicate 32 0) (\<lambda>_. replicate 64 0) \<lparr>sb_n = 8, sb_matrixA = replicate 64 1, sb_matrixB = replicate 64 (-2),
     sb_sigma = ''s'', sb_certificate = Some cert, sb_result = Some (int_data (int_product 8 (replicate 64 1) (replicate 64 (-2))))\<rparr> True
     = Some Accept"
proof -
  have "digest32 (\<lambda>_. replicate 32 0)" by (simp add: digest32_def)
  from matmul_honest_accepted[OF toy_matmul_valid toy_matmul_accept this, of "\<lambda>_. replicate 64 0" "''s''" "''p''" "''d''" 0 True]
  show ?thesis by auto
qed

text \<open>
  C13. The matmul work type is sound: the result of an accepted submission is the exact integer product, unless both
  random vectors drawn hide its error, and at most one vector in \<open>p\<close> hides it; and when the transcript was sampled, the
  certificate carries the transcript hash and the ticket the honest solver computes for the job.
\<close>

theorem matmul_accepted_sound:
  assumes "matmul_verify H rnd s transcript = Some Accept" and "bounded (sb_n s) (sb_matrixA s)" and "bounded (sb_n s) (sb_matrixB s)"
    and "0 < sb_n s" and "sb_result s = Some result" and "sb_certificate s = Some cert" and "digest32 H"
  shows "(map floor result = int_product (sb_n s) (sb_matrixA s) (sb_matrixB s)
      \<or> (matmul_fooled rnd (sb_n s) (sb_matrixA s) (sb_matrixB s) (map floor result)
         \<and> card (hiding_vectors (sb_n s) (sb_matrixA s) (sb_matrixB s) (map floor result)) * nat PRIME \<le> card (vectors (sb_n s))))
    \<and> (transcript \<longrightarrow>
      (\<exists>cert' C. solveAssignedJob H (sb_sigma s) (int_data (sb_matrixA s)) (int_data (sb_matrixB s)) (sb_n s) prov dev now = Inr (cert', C)
         \<and> c_transcriptHash cert = c_transcriptHash cert' \<and> c_z cert = c_z cert'))" (is "?product \<and> (_ \<longrightarrow> ?honest)")
proof (intro conjI impI)
  show ?product using matmul_accept_sound[OF assms(1-5)] hiding_vectors_few[OF assms(1-5)] by blast
  assume t: "transcript"
  obtain cert' where c: "solveAssignedJob H (sb_sigma s) (int_data (sb_matrixA s)) (int_data (sb_matrixB s)) (sb_n s) prov dev now
      = Inr (cert', int_product (sb_n s) (sb_matrixA s) (sb_matrixB s))"
    "fieldHash H (int_data (sb_matrixA s)) (sb_n s) = Inr (c_matrixAHash cert')"
    "fieldHash H (int_data (sb_matrixB s)) (sb_n s) = Inr (c_matrixBHash cert')"
    using solve_certificate[OF assms(7,4,2,3)] by blast
  have "transcript_ok H s cert" "c_sigma cert = sb_sigma s" "c_n cert = sb_n s" "c_r cert = chooseBlockSize (sb_n s)"
    "c_matrixAHash cert = c_matrixAHash cert'" "c_matrixBHash cert = c_matrixBHash cert'"
    using matmul_verify_acceptD[OF assms(1)] assms(6) c(2,3) t by fastforce+
  from transcript_ok_honest[OF this(1) assms(2,3) this(2-4) c(1) this(5,6)] c(1) show ?honest by blast
qed

theorem matmul_accepted_sound_witness:
  "\<exists>s cert. sb_certificate s = Some cert \<and> matmul_verify (\<lambda>_. replicate 32 0) (\<lambda>_. replicate 64 0) s True = Some Accept
    \<and> (\<exists>cert' C. solveAssignedJob (\<lambda>_. replicate 32 0) (sb_sigma s) (int_data (sb_matrixA s)) (int_data (sb_matrixB s)) (sb_n s) ''p'' ''d'' 0
         = Inr (cert', C) \<and> c_z cert = c_z cert')"
proof -
  have H: "digest32 (\<lambda>_. replicate 32 0)" by (simp add: digest32_def)
  note v = matmul_validate_bounded[OF toy_matmul_valid[unfolded toy_matmul_def] toy_matmul_accept[unfolded toy_matmul_def]]
  obtain cert where c: "solveAssignedJob (\<lambda>_. replicate 32 0) ''s'' (int_data (replicate 64 1)) (int_data (replicate 64 (-2))) 8 ''p'' ''d'' 0
      = Inr (cert, int_product 8 (replicate 64 1) (replicate 64 (-2)))"
    "c_sigma cert = ''s''" "c_n cert = 8" "c_r cert = chooseBlockSize 8"
    "fieldHash (\<lambda>_. replicate 32 0) (int_data (replicate 64 1)) 8 = Inr (c_matrixAHash cert)"
    "fieldHash (\<lambda>_. replicate 32 0) (int_data (replicate 64 (-2))) 8 = Inr (c_matrixBHash cert)"
    "verify (\<lambda>_. replicate 32 0) (cert\<lparr>c_matrixA := data (field_mat 8 (replicate 64 1)), c_matrixB := data (field_mat 8 (replicate 64 (-2)))\<rparr>) = Some True"
    using solve_certificate[OF H _ v(4,5)] by fastforce
  define s where "s = \<lparr>sb_n = 8, sb_matrixA = replicate 64 1, sb_matrixB = replicate 64 (-2), sb_sigma = ''s'',
     sb_certificate = Some cert, sb_result = Some (int_data (int_product 8 (replicate 64 1) (replicate 64 (-2))))\<rparr>"
  have sel: "sb_n s = 8" "sb_matrixA s = replicate 64 1" "sb_matrixB s = replicate 64 (-2)" "sb_sigma s = ''s''"
    "sb_certificate s = Some cert" "sb_result s = Some (int_data (int_product 8 (replicate 64 1) (replicate 64 (-2))))"
    by (simp_all only: s_def submission.simps)
  have acc: "matmul_verify (\<lambda>_. replicate 32 0) (\<lambda>_. replicate 64 0) s True = Some Accept"
    unfolding s_def by (rule matmul_verify_honest[OF H v(4,5) _ c(2-7)]) simp_all
  have "\<exists>cert' C. solveAssignedJob (\<lambda>_. replicate 32 0) (sb_sigma s) (int_data (sb_matrixA s)) (int_data (sb_matrixB s)) (sb_n s) ''p'' ''d'' 0
         = Inr (cert', C) \<and> c_transcriptHash cert = c_transcriptHash cert' \<and> c_z cert = c_z cert'"
    using matmul_accepted_sound[OF acc, unfolded sel, OF v(4,5) _ refl refl H, of "''p''" "''d''" 0] unfolding sel by simp
  then show ?thesis using acc sel(5) by blast
qed

end
