(* ===== verification/JobTables.thy ===== *)
theory JobTables
  imports Balance WorkTypes
begin

text \<open>
  The rows the job pipeline shares: \<^verbatim>\<open>NodeRow\<close> of \<^verbatim>\<open>nodes.service.ts\<close> and \<^verbatim>\<open>WorkJobRow\<close> of \<^verbatim>\<open>jobs.service.ts\<close>, one field
  per column the services read or write. A column that holds JSON text holds the value it encodes. \<open>workJob\<close> extends
  the row the reward ledger reads (\<open>jobRow\<close>), so the ledger's view of the table is the truncation of its rows.
  \<^verbatim>\<open>compareVersions\<close> and \<^verbatim>\<open>parseInt\<close> on version texts are modelled here as well.
\<close>

subsection \<open>Nodes\<close>

datatype nodeState = Active | Draining | Suspended

record gpuInfo =
  gi_name :: string
  gi_vramGB :: rat

record nodeManifest =
  mf_cpuThreads :: int
  mf_ramGB :: rat
  mf_gpus :: "gpuInfo list"
  mf_os :: string

record nodeRow =
  nd_address :: string
  nd_payout :: "string option"
  nd_manifest :: "(nodeManifest \<times> rat) option"
  nd_workTypes :: "string list option"
  nd_throughput :: rat
  nd_jobsDone :: int
  nd_jobsFailed :: int
  nd_announcedAt :: "int option"
  nd_bindCode :: "string option"
  nd_fleetId :: "string option"
  nd_pubkey :: "string option"
  nd_publicHost :: "string option"
  nd_agentVersion :: "string option"
  nd_relayAt :: "int option"
  nd_state :: nodeState
  nd_stateReason :: "string option"
  nd_stateAt :: "int option"
  nd_boundAt :: "int option"
  nd_lastSeen :: "int option"

subsection \<open>Jobs\<close>

record candidate =
  cd_address :: string
  cd_payout :: string
  cd_weight :: rat

datatype storedResult = MatrixResult "rat list" | TensorResult "rat tensor"

record workJob = jobRow +
  jb_owner :: string
  jb_workType :: string
  jb_n :: nat
  jb_matrices :: "(int list \<times> int list) option"
  jb_sigma :: "string option"
  jb_seedSource :: "string option"
  jb_drawSeed :: "string option"
  jb_eligibleHash :: "string option"
  jb_eligible :: "candidate list option"
  jb_clusterOk :: "bool option"
  jb_assignedAt :: "int option"
  jb_expiresAt :: "int option"
  jb_deliveredAt :: "int option"
  jb_result :: "storedResult option"
  jb_certZ :: "string option"
  jb_createdAt :: int
  jb_completedAt :: "int option"
  jb_attempts :: int
  jb_artifact :: "string option"
  jb_public :: bool
  jb_protocol :: bool
  jb_input :: "jobInput option"
  jb_inputRef :: "string option"
  jb_inputHash :: "string option"
  jb_commitment :: "commitment option"
  jb_challenge :: "nat list option"
  jb_challengeExpiresAt :: "int option"
  jb_commitPayout :: "string option"

subsection \<open>Agent versions\<close>

text \<open>
  \<^verbatim>\<open>split(".")\<close>, and \<^verbatim>\<open>parseInt(p, 10) || 0\<close>: leading white space, an optional sign and the digits that follow; anything
  else reads as 0.
\<close>

fun split_dot :: "string \<Rightarrow> string list" where
  "split_dot [] = [[]]"
| "split_dot (c # cs) = (if c = CHR ''.'' then [] # split_dot cs else (case split_dot cs of [] \<Rightarrow> [[c]] | p # ps \<Rightarrow> (c # p) # ps))"

definition dec_prefix :: "string \<Rightarrow> int" where
  "dec_prefix s = foldl (\<lambda>a c. 10 * a + int (of_char c - 48)) 0 (takeWhile is_dec s)"

definition parseInt10 :: "string \<Rightarrow> int" where
  "parseInt10 s = (case dropWhile is_space s of [] \<Rightarrow> 0
     | c # cs \<Rightarrow> if c = CHR ''-'' then - dec_prefix cs else if c = CHR ''+'' then dec_prefix cs else dec_prefix (c # cs))"

definition version_parts :: "string \<Rightarrow> int list" where
  "version_parts a = map parseInt10 (split_dot (case a of c # cs \<Rightarrow> if c = CHR ''v'' then cs else a | [] \<Rightarrow> a))"

fun compare_parts :: "int list \<Rightarrow> int list \<Rightarrow> nat \<Rightarrow> int" where
  "compare_parts pa pb 0 = 0"
| "compare_parts pa pb (Suc k) =
     (let d = (case pa of [] \<Rightarrow> 0 | x # _ \<Rightarrow> x) - (case pb of [] \<Rightarrow> 0 | y # _ \<Rightarrow> y) in
      if d \<noteq> 0 then d else compare_parts (drop 1 pa) (drop 1 pb) k)"

definition compareVersions :: "string \<Rightarrow> string \<Rightarrow> int" where
  "compareVersions a b = compare_parts (version_parts a) (version_parts b) 3"

lemma compare_versions_examples:
  "compareVersions ''1.10.0'' ''1.9.0'' > 0" "compareVersions ''v1.7'' ''1.7.0'' = 0" "compareVersions ''1.6.9'' ''1.7.0'' < 0"
  by code_simp+

end
