(* ===== verification/Draw.thy ===== *)
theory Draw
  imports JobTables "HOL-Library.Multiset"
begin

text \<open>
  The pure helpers of job assignment (\<^verbatim>\<open>client/api/src/services/jobs.service.ts\<close>): the weighted draw of a node and its public
  replay, the cluster gate, the sampling decision and the draw of the segments to open. The draws run in doubles: a sum is
  folded with one rounding per addition, \<open>u\<close> is 52 bits over \<open>2^52\<close> and the target is rounded once.

  Parameters: SHA-256 (\<open>H\<close>), the keyed hash \<open>hmac key message\<close> of \<^verbatim>\<open>node:crypto\<close> and JavaScript's decimal text of a number
  (\<open>num\<close>).
\<close>

subsection \<open>Eligible sets\<close>

type_synonym weighted = "string \<times> rat"

definition weighted_of :: "candidate \<Rightarrow> weighted" where
  "weighted_of c = (cd_address c, cd_weight c)"

record publicCandidate =
  pc_address :: string
  pc_weight :: rat
  pc_operator :: string

definition operatorId :: "digest \<Rightarrow> string option \<Rightarrow> string \<Rightarrow> string" where
  "operatorId H signingKey payout =
     (let salt = (case signingKey of None \<Rightarrow> [] | Some k \<Rightarrow> if k = [] then [] else sha256_text H (''cloudana-operator-id:'' @ k)) in
      take 16 (sha256_text H (''operator:'' @ salt @ '':'' @ normalizeAddress payout)))"

definition byAddress :: "weighted \<Rightarrow> weighted \<Rightarrow> int" where
  "byAddress a b = (if str_less (fst a) (fst b) then -1 else if str_less (fst b) (fst a) then 1 else 0)"

definition sortedCandidates :: "candidate list \<Rightarrow> candidate list" where
  "sortedCandidates cs = sort_by (\<lambda>a b. byAddress (weighted_of a) (weighted_of b)) cs"

definition eligibleHash :: "digest \<Rightarrow> (rat \<Rightarrow> string) \<Rightarrow> weighted list \<Rightarrow> string" where
  "eligibleHash H num ws = sha256_text H (join '','' (map (\<lambda>(a, w). a @ '':'' @ num w) (sort_by byAddress ws)))"

subsection \<open>The weighted draw\<close>

definition add_weight :: "rat \<Rightarrow> weighted \<Rightarrow> rat" where
  "add_weight acc c = dbl (acc + max (snd c) 0)"

fun wd_loop :: "rat \<Rightarrow> rat \<Rightarrow> weighted list \<Rightarrow> string option" where
  "wd_loop target acc [] = None"
| "wd_loop target acc (c # cs) = (let acc' = add_weight acc c in if target < acc' then Some (fst c) else wd_loop target acc' cs)"

text \<open>\<^verbatim>\<open>parseInt(s, 16)\<close> of a text that starts with a hex digit: the digits up to the first other character.\<close>

definition weightedDraw :: "string \<Rightarrow> weighted list \<Rightarrow> string option" where
  "weightedDraw drawSeedHex candidates =
     (if candidates = [] then None
      else (let sorted = sort_by byAddress candidates; tot = foldl add_weight 0 sorted in
        if tot \<le> 0 then Some (fst (sorted ! (parse_hex_acc 0 (take 8 drawSeedHex) mod length sorted)))
        else (let u = of_nat (parse_hex_acc 0 (take 13 drawSeedHex)) / 2 ^ 52; target = dbl (u * tot) in
          case wd_loop target 0 sorted of Some a \<Rightarrow> Some a | None \<Rightarrow> Some (fst (last sorted)))))"

subsection \<open>The cluster gate\<close>

text \<open>The wallets in the order the map was filled, and the weight summed for each in candidate order.\<close>

definition wallets :: "candidate list \<Rightarrow> string list" where
  "wallets cs = rev (remdups (rev (map cd_payout cs)))"

definition wallet_weight :: "candidate list \<Rightarrow> string \<Rightarrow> rat" where
  "wallet_weight cs w = foldl (\<lambda>s c. dbl (s + max (cd_weight c) 0)) 0 (filter (\<lambda>c. cd_payout c = w) cs)"

definition clusterTest :: "candidate list \<Rightarrow> int \<Rightarrow> rat \<Rightarrow> string \<Rightarrow> bool" where
  "clusterTest candidates nMin sCap operator =
     (let ws = wallets candidates in
      if int (length ws) < nMin then False
      else if length ws = 1 \<and> nMin \<le> 1 then True
      else (let tot = foldl (\<lambda>a w. dbl (a + wallet_weight candidates w)) 0 ws in
        if tot \<le> 0 then False else dbl (wallet_weight candidates operator / tot) \<le> sCap))"

subsection \<open>Sampling\<close>

definition sample_key :: "digest \<Rightarrow> string \<Rightarrow> string" where
  "sample_key H jwtSecret = sha256_text H (''cloudana-sample:'' @ jwtSecret)"

definition sampledForCheck :: "digest \<Rightarrow> (string \<Rightarrow> string \<Rightarrow> bytes) \<Rightarrow> string \<Rightarrow> string \<Rightarrow> string \<Rightarrow> int \<Rightarrow> bool option" where
  "sampledForCheck H hmac jwtSecret jobId sigma k =
     (if k \<le> 1 then Some True
      else map_option (\<lambda>w. w mod k = 0) (readUInt32BE (hmac (sample_key H jwtSecret) (jobId @ '':'' @ sigma)) 0))"

definition swap_at :: "'a list \<Rightarrow> nat \<Rightarrow> nat \<Rightarrow> 'a list" where
  "swap_at xs i j = xs[i := xs ! j, j := xs ! i]"

definition segmentDraw :: "digest \<Rightarrow> (string \<Rightarrow> string \<Rightarrow> bytes) \<Rightarrow> string \<Rightarrow> string \<Rightarrow> string \<Rightarrow> string \<Rightarrow> nat \<Rightarrow> nat \<Rightarrow> nat list option" where
  "segmentDraw H hmac jwtSecret jobId sigma croot m s =
     (if s > m \<or> s > 16 then None
      else (let key = sample_key H jwtSecret; msg = ''seg:'' @ jobId @ '':'' @ sigma @ '':'' @ croot;
                mac = (if s > 8 then hmac key msg @ hmac key (msg @ '':2'') else hmac key msg) in
        map_option (\<lambda>idx. sort (take s idx))
          (for_range 0 s (\<lambda>i idx. map_option (\<lambda>w. swap_at idx i (i + nat w mod (m - i))) (readUInt32BE mac (i * 4))) [0..<m])))"

subsection \<open>Sorting by address\<close>

lemma str_less_trans: "str_less a b \<Longrightarrow> str_less b c \<Longrightarrow> str_less a c"
proof (induction a b arbitrary: c rule: str_less.induct)
  case (2 y ys)
  then show ?case by (cases c) auto
next
  case (3 x xs y ys)
  then show ?case by (cases c) (auto simp del: of_char_eq_iff)
qed simp

definition addr_less :: "weighted \<Rightarrow> weighted \<Rightarrow> bool" where
  "addr_less a b \<longleftrightarrow> str_less (fst a) (fst b)"

lemma insert_by_sorted:
  assumes "sorted_wrt addr_less ys" and "fst x \<notin> fst ` set ys"
  shows "sorted_wrt addr_less (insert_by byAddress x ys)"
  using assms
proof (induction ys)
  case (Cons y ys)
  have d: "fst x \<noteq> fst y" using Cons.prems by auto
  show ?case
  proof (cases "byAddress x y < 0")
    case True
    then have "str_less (fst x) (fst y)" by (auto simp: byAddress_def split: if_splits)
    then show ?thesis using True Cons.prems by (auto simp: addr_less_def intro: str_less_trans)
  next
    case False
    then have "str_less (fst y) (fst x)" using d str_less_total[of "fst x" "fst y"] by (auto simp: byAddress_def split: if_splits)
    then show ?thesis using False Cons by (auto simp: addr_less_def)
  qed
qed simp

lemma sort_by_sorted: "distinct (map fst ws) \<Longrightarrow> sorted_wrt addr_less (sort_by byAddress ws)"
proof (induction ws rule: rev_induct)
  case (snoc w ws)
  then show ?case using insert_by_sorted[of "sort_by byAddress ws" w] sort_by_props[of byAddress ws] by (simp add: sort_by_def)
qed (simp add: sort_by_def)

lemma sorted_unique:
  assumes "sorted_wrt addr_less xs" and "sorted_wrt addr_less ys" and "set xs = set ys"
  shows "xs = ys"
  using assms
proof (induction xs arbitrary: ys)
  case (Cons x xs)
  then obtain y ys' where ys: "ys = y # ys'" by (cases ys) auto
  have irr: "\<not> addr_less a a" for a by (simp add: addr_less_def str_less_irrefl)
  have asym: "addr_less a b \<Longrightarrow> \<not> addr_less b a" for a b using str_less_asym by (auto simp: addr_less_def)
  have "x = y"
  proof (rule ccontr)
    assume "x \<noteq> y"
    then have "x \<in> set ys'" "y \<in> set xs" using Cons.prems(3) ys by auto
    then have "addr_less y x" "addr_less x y" using Cons.prems(1,2) ys by auto
    then show False using asym by blast
  qed
  have "addr_less x z" if "z \<in> set xs" for z using Cons.prems(1) that by simp
  then have "x \<notin> set xs" using irr by blast
  have "addr_less y z" if "z \<in> set ys'" for z using Cons.prems(2) ys that by simp
  then have "y \<notin> set ys'" using irr by blast
  note \<open>x = y\<close> \<open>x \<notin> set xs\<close> \<open>y \<notin> set ys'\<close>
  then have "set xs = set ys'" using Cons.prems(3) ys by (simp add: insert_ident)
  then show ?case using Cons ys \<open>x = y\<close> by auto
qed simp

lemma sort_by_order:
  assumes "distinct (map fst ws)" and "distinct (map fst ws')" and "set ws' = set ws"
  shows "sort_by byAddress ws' = sort_by byAddress ws"
  by (rule sorted_unique) (simp_all add: assms sort_by_sorted conjunct1[OF sort_by_props])

subsection \<open>Doubles that are exact\<close>

lemma dbl_scaled:
  assumes "0 < k" and "k \<le> 2 ^ 53"
  shows "dbl (of_int k * 2 powi j) = of_int k * 2 powi j"
proof -
  let ?x = "rat_of_int k * 2 powi j" and ?e = "ilog2 (rat_of_int k * 2 powi j)"
  have x: "0 < ?x" using assms(1) by simp
  have le: "2 powi ?e \<le> ?x" using ilog2_bounds[OF x] by simp
  have k: "rat_of_int k \<le> 2 ^ 53" using assms(2) of_int_le_iff[of k "2 ^ 53", where 'a = rat] by simp
  have "\<exists>m. ?x / 2 powi (?e - 52) = of_int m"
  proof (cases "?e \<le> j + 52")
    case True
    then have "?x / 2 powi (?e - 52) = of_int k * 2 powi (j + 52 - ?e)" by (simp add: power_int_diff power_int_add)
    also have "\<dots> = of_int (k * 2 ^ nat (j + 52 - ?e))" using True by (simp add: power_int_def)
    finally show ?thesis by blast
  next
    case False
    then have "(2::rat) powi (j + 53) \<le> 2 powi ?e" by (intro powi2_mono) simp
    moreover have "(2::rat) powi (j + 53) = 2 ^ 53 * 2 powi j" by (simp add: power_int_add)
    ultimately have "(2::rat) ^ 53 * 2 powi j \<le> of_int k * 2 powi j" using le by linarith
    then have "(2::rat) ^ 53 \<le> of_int k" by (rule mult_right_le_imp_le) simp
    then have k53: "rat_of_int k = 2 ^ 53" using k by simp
    then have "?x = 2 powi (j + 53)" by (simp add: power_int_add)
    then have "?e = j + 53" using ilog2_eqI[of "j + 53" ?x] by (simp add: power_int_add)
    then have "?x / 2 powi (?e - 52) = of_int (2 ^ 52)" using k53 by (simp add: power_int_add)
    then show ?thesis by blast
  qed
  then obtain m where m: "?x / 2 powi (?e - 52) = of_int m" by blast
  then have "dbl ?x = of_int m * 2 powi (?e - 52)" using dbl_pos[OF x] by simp
  also have "\<dots> = ?x" unfolding m[symmetric] by simp
  finally show ?thesis .
qed

lemma dbl_form:
  assumes "0 < x"
  shows "\<exists>k j. 2 ^ 52 \<le> k \<and> k \<le> 2 ^ 53 \<and> dbl x = of_int k * 2 powi j"
proof -
  let ?u = "(2::rat) powi (ilog2 x - 52)"
  have lo: "of_int (2 ^ 52) * ?u = 2 powi ilog2 x" by (simp add: power_int_diff)
  have hi: "of_int (2 ^ 53) * ?u = 2 powi (ilog2 x + 1)" by (simp add: power_int_diff power_int_add)
  have "of_int (2 ^ 52) * ?u \<le> x" "x \<le> of_int (2 ^ 53) * ?u" using ilog2_bounds[OF assms] unfolding lo hi by auto
  then have "of_int (2 ^ 52) \<le> x / ?u" "x / ?u \<le> of_int (2 ^ 53)" by (simp_all add: pos_le_divide_eq pos_divide_le_eq)
  then have "2 ^ 52 \<le> rne (x / ?u)" "rne (x / ?u) \<le> 2 ^ 53"
    using rne_mono[of "of_int (2 ^ 52)" "x / ?u"] rne_mono[of "x / ?u" "of_int (2 ^ 53)"] unfolding rne_of_int by auto
  then show ?thesis using dbl_pos[OF assms] by blast
qed

lemma dbl_idem: "0 \<le> x \<Longrightarrow> dbl (dbl x) = dbl x"
proof (cases "x = 0")
  case False
  assume "0 \<le> x"
  then obtain k j where k: "2 ^ 52 \<le> k" "k \<le> 2 ^ 53" "dbl x = of_int k * 2 powi j" using dbl_form[of x] False by auto
  have "0 < k" using k(1) by simp
  from dbl_scaled[OF this k(2)] show ?thesis by (simp only: k(3))
qed simp

lemma dbl_below:
  assumes "0 < x" and "u \<le> 1 - 1 / 2 ^ 52"
  shows "dbl (u * dbl x) < dbl x"
proof -
  obtain k j where k: "2 ^ 52 \<le> k" "k \<le> 2 ^ 53" "dbl x = of_int k * 2 powi j" using dbl_form[OF assms(1)] by blast
  have kq: "(2::rat) ^ 52 \<le> of_int k" using k(1) of_int_le_iff[of "2 ^ 52" k, where 'a = rat] by simp
  have "0 \<le> dbl x" using assms(1) by (simp add: dbl_nonneg)
  then have "u * dbl x \<le> (1 - 1 / 2 ^ 52) * dbl x" by (rule mult_right_mono[OF assms(2)])
  also have "\<dots> = dbl x - dbl x / 2 ^ 52" by (simp add: left_diff_distrib)
  also have "\<dots> \<le> dbl x - 2 powi j"
  proof -
    have "2 ^ 52 * 2 powi j \<le> of_int k * (2 powi j :: rat)" by (rule mult_right_mono[OF kq]) simp
    then show ?thesis by (simp add: k(3) pos_le_divide_eq mult.commute)
  qed
  also have "\<dots> = of_int (k - 1) * 2 powi j" by (simp add: k(3) left_diff_distrib)
  finally have "dbl (u * dbl x) \<le> dbl (of_int (k - 1) * 2 powi j)" by (rule dbl_mono)
  also have "\<dots> = of_int (k - 1) * 2 powi j" by (rule dbl_scaled) (use k(1,2) in simp_all)
  also have "\<dots> < dbl x" by (simp add: k(3) left_diff_distrib)
  finally show ?thesis .
qed

subsection \<open>What the weighted draw returns\<close>

lemma add_weight_props:
  assumes "0 \<le> acc"
  shows "0 \<le> add_weight acc c" and "dbl (add_weight acc c) = add_weight acc c"
    and "dbl acc = acc \<Longrightarrow> snd c \<le> 0 \<Longrightarrow> add_weight acc c = acc"
  using assms by (simp_all add: add_weight_def dbl_nonneg dbl_idem max_def)

lemma fold_weights: "0 \<le> acc \<Longrightarrow> 0 \<le> foldl add_weight acc cs"
  by (induction cs arbitrary: acc) (simp_all add: add_weight_props)

lemma fold_weights_dbl: "0 \<le> acc \<Longrightarrow> cs \<noteq> [] \<Longrightarrow> \<exists>x. 0 \<le> x \<and> foldl add_weight acc cs = dbl x"
proof (induction cs rule: rev_induct)
  case (snoc c cs)
  then have "0 \<le> foldl add_weight acc cs + max (snd c) 0" by (simp add: fold_weights)
  then show ?case unfolding foldl_append foldl.simps add_weight_def[of "foldl add_weight acc cs"] by blast
qed simp

lemma wd_loop_hits:
  assumes "acc \<le> target" and "target < foldl add_weight acc cs" and "0 \<le> acc" and "dbl acc = acc"
  shows "\<exists>c \<in> set cs. wd_loop target acc cs = Some (fst c) \<and> 0 < snd c"
  using assms
proof (induction cs arbitrary: acc)
  case (Cons c cs)
  show ?case
  proof (cases "target < add_weight acc c")
    case True
    then have "0 < snd c" using Cons.prems add_weight_props(3)[of acc c] by (cases "0 < snd c") auto
    with True show ?thesis by simp
  next
    case False
    then show ?thesis using Cons.IH[of "add_weight acc c"] Cons.prems add_weight_props[of acc c] by auto
  qed
qed simp

lemma parse_hex_bound: "parse_hex_acc acc s < (acc + 1) * 16 ^ length s"
proof (induction s arbitrary: acc)
  case (Cons c cs)
  have v: "v < 16" if "hex_val c = Some v" for v using that by (auto simp: hex_val_def Let_def split: if_splits)
  show ?case
  proof (cases "hex_val c")
    case None
    have "(acc + 1) * 1 \<le> (acc + 1) * 16 ^ length (c # cs)" by (intro mult_le_mono2) simp
    then have "acc < (acc + 1) * 16 ^ length (c # cs)" by (rule less_le_trans[rotated]) simp
    then show ?thesis using None by simp
  next
    case (Some v)
    have "parse_hex_acc (16 * acc + v) cs < (16 * acc + v + 1) * 16 ^ length cs" by (rule Cons.IH)
    also have "\<dots> \<le> (16 * (acc + 1)) * 16 ^ length cs" using v[OF Some] by (intro mult_right_mono) auto
    finally show ?thesis using Some by (simp add: algebra_simps)
  qed
qed simp

lemma seed_fraction: "of_nat (parse_hex_acc 0 (take 13 s)) / 2 ^ 52 \<le> (1 - 1 / 2 ^ 52 :: rat)"
proof -
  have "parse_hex_acc 0 (take 13 s) < 16 ^ length (take 13 s)" using parse_hex_bound[of 0 "take 13 s"] by simp
  also have "\<dots> \<le> (16::nat) ^ 13" by (rule power_increasing) simp_all
  finally have "parse_hex_acc 0 (take 13 s) + 1 \<le> 2 ^ 52" by simp
  then have "rat_of_nat (parse_hex_acc 0 (take 13 s) + 1) \<le> of_nat (2 ^ 52)" by (rule of_nat_mono)
  then show ?thesis by (simp add: field_simps)
qed

lemma weightedDraw_aux:
  assumes "ws \<noteq> []" and "distinct (map fst ws)" and "set ws' = set ws" and "distinct (map fst ws')"
  shows "\<exists>c \<in> set ws. weightedDraw seed ws = Some (fst c) \<and> weightedDraw seed ws' = Some (fst c)
    \<and> (0 < foldl add_weight 0 (sort_by byAddress ws) \<longrightarrow> 0 < snd c)"
proof -
  let ?s = "sort_by byAddress ws" and ?tot = "foldl add_weight 0 (sort_by byAddress ws)"
  let ?u = "of_nat (parse_hex_acc 0 (take 13 seed)) / 2 ^ 52 :: rat"
  have ne: "?s \<noteq> []" "ws' \<noteq> []" and set: "set ?s = set ws" using assms(1,3) sort_by_props[of byAddress ws] by auto
  have same: "weightedDraw seed ws' = weightedDraw seed ws"
    using sort_by_order[OF assms(2,4,3)] assms(1) ne(2) by (simp add: weightedDraw_def)
  show ?thesis
  proof (cases "?tot \<le> 0")
    case True
    let ?c = "?s ! (parse_hex_acc 0 (take 8 seed) mod length ?s)"
    have "?c \<in> set ws" using ne(1) set by (metis length_greater_0_conv mod_less_divisor nth_mem)
    then show ?thesis using True assms(1) same by (intro bexI[of _ ?c]) (simp_all add: weightedDraw_def Let_def)
  next
    case False
    obtain x where x: "0 \<le> x" "?tot = dbl x" using fold_weights_dbl[OF order_refl ne(1)] by blast
    with False have "0 < x" by (cases "x = 0") auto
    from dbl_below[OF this seed_fraction[of seed]] have "dbl (?u * ?tot) < ?tot" using x(2) by simp
    moreover have "0 \<le> dbl (?u * ?tot)" using False by (intro dbl_nonneg) simp
    ultimately obtain c where c: "c \<in> set ?s" "wd_loop (dbl (?u * ?tot)) 0 ?s = Some (fst c)" "0 < snd c"
      using wd_loop_hits[of 0 "dbl (?u * ?tot)" ?s] by auto
    then show ?thesis using False assms(1) same set by (intro bexI[of _ c]) (simp_all add: weightedDraw_def Let_def)
  qed
qed

text \<open>
  C27. The draw: any non-empty eligible set yields one of its nodes, the same one for every order the set is listed in; and
  when any weight is positive, the node drawn has a positive weight, because the rounded target stays below the rounded sum
  and the fallback after the loop is never taken.
\<close>

theorem weightedDraw_fair:
  assumes "ws \<noteq> []" and "distinct (map fst ws)" and "set ws' = set ws" and "distinct (map fst ws')"
  shows "\<exists>c \<in> set ws. weightedDraw seed ws = Some (fst c) \<and> weightedDraw seed ws' = Some (fst c)
    \<and> (0 < foldl add_weight 0 (sort_by byAddress ws) \<longrightarrow> 0 < snd c)"
  by (rule weightedDraw_aux[OF assms])

theorem weightedDraw_fair_witness:
  "\<exists>c \<in> {(''a'', 3), (''b'', 0)}. weightedDraw ''ffffffffffffff'' [(''b'', 0), (''a'', 3)] = Some (fst c)"
  using weightedDraw_fair[of "[(''b'', 0), (''a'', 3)]" "[(''b'', 0), (''a'', 3)]" "''ffffffffffffff''"] by auto

subsection \<open>What the segment draw returns\<close>

lemma swap_at_props:
  assumes "i < length xs" and "j < length xs"
  shows "length (swap_at xs i j) = length xs" and "set (swap_at xs i j) = set xs" and "distinct (swap_at xs i j) = distinct xs"
proof -
  have m: "mset (swap_at xs i j) = mset xs" using assms by (simp add: swap_at_def mset_swap)
  show "length (swap_at xs i j) = length xs" by (simp add: swap_at_def)
  show "set (swap_at xs i j) = set xs" using mset_eq_setD[OF m] .
  show "distinct (swap_at xs i j) = distinct xs" using mset_eq_imp_distinct_iff[OF m] .
qed

lemma read_words:
  assumes "length mac = 4 * k" and "i < k"
  shows "\<exists>w. readUInt32BE mac (i * 4) = Some w"
  using assms by (auto simp: readUInt32BE_def)

lemma segment_loop:
  assumes "length mac = 4 * k" and "s \<le> k" and "s \<le> m"
  shows "\<exists>idx. for_range 0 s (\<lambda>i idx. map_option (\<lambda>w. swap_at idx i (i + nat w mod (m - i))) (readUInt32BE mac (i * 4))) [0..<m] = Some idx
     \<and> (length idx = m \<and> distinct idx \<and> set idx = {0..<m})"
proof (rule for_range_rule)
  fix i idx
  assume i: "i < s" and idx: "length idx = m \<and> distinct idx \<and> set idx = {0..<m}"
  have "i < k" using i assms(2) by simp
  from read_words[OF assms(1) this] obtain w where w: "readUInt32BE mac (i * 4) = Some w" by blast
  have "nat w mod (m - i) < m - i" using i assms(3) by simp
  then have "i + nat w mod (m - i) < length idx" "i < length idx" using i idx assms(3) by linarith+
  from swap_at_props[OF this(2,1)] w idx
  show "\<exists>idx'. map_option (\<lambda>w. swap_at idx i (i + nat w mod (m - i))) (readUInt32BE mac (i * 4)) = Some idx'
     \<and> (length idx' = m \<and> distinct idx' \<and> set idx' = {0..<m})" by simp
qed simp

lemma segmentDraw_aux:
  assumes "\<And>k msg. length (hmac k msg) = 32" and "s \<le> m" and "s \<le> 16"
  shows "\<exists>xs. segmentDraw H hmac secret jobId sigma croot m s = Some xs
    \<and> length xs = s \<and> distinct xs \<and> sorted xs \<and> (\<forall>i \<in> set xs. i < m)"
proof -
  let ?key = "sample_key H secret" and ?msg = "''seg:'' @ jobId @ '':'' @ sigma @ '':'' @ croot"
  define mac where "mac = (if s > 8 then hmac ?key ?msg @ hmac ?key (?msg @ '':2'') else hmac ?key ?msg)"
  have "\<exists>k. length mac = 4 * k \<and> s \<le> k"
    using assms(1,3) by (cases "s > 8") (auto simp: mac_def intro: exI[of _ 16] exI[of _ 8])
  then obtain k where k: "length mac = 4 * k" "s \<le> k" by blast
  obtain idx where idx: "for_range 0 s (\<lambda>i idx. map_option (\<lambda>w. swap_at idx i (i + nat w mod (m - i))) (readUInt32BE mac (i * 4))) [0..<m] = Some idx"
    "length idx = m" "distinct idx" "set idx = {0..<m}"
    using segment_loop[OF k assms(2)] by blast
  have "segmentDraw H hmac secret jobId sigma croot m s = Some (sort (take s idx))"
    unfolding segmentDraw_def Let_def mac_def[symmetric] using assms(2,3) idx(1) by simp
  moreover have "\<forall>i \<in> set (take s idx). i < m" using idx(4) by (auto dest: in_set_takeD)
  ultimately show ?thesis using idx(2,3) assms(2) by simp
qed

text \<open>
  C26. The challenge: for a keyed hash of 32 bytes, drawing \<open>s\<close> of \<open>m\<close> segments never fails and returns exactly \<open>s\<close> different
  segment indices of the plan in ascending order.
\<close>

theorem segmentDraw_selects:
  assumes "\<And>k msg. length (hmac k msg) = 32" and "s \<le> m" and "s \<le> 16"
  shows "\<exists>xs. segmentDraw H hmac secret jobId sigma croot m s = Some xs
    \<and> length xs = s \<and> distinct xs \<and> sorted xs \<and> (\<forall>i \<in> set xs. i < m)"
  by (rule segmentDraw_aux[OF assms])

theorem segmentDraw_selects_witness:
  "\<exists>xs. segmentDraw (\<lambda>_. []) (\<lambda>_ _. replicate 32 7) ''k'' ''j'' ''s'' ''r'' 40 10 = Some xs \<and> length xs = 10 \<and> distinct xs"
  using segmentDraw_selects[of "\<lambda>_ _. replicate 32 7" 10 40 "\<lambda>_. []" "''k''" "''j''" "''s''" "''r''"] by auto

end
