(* ===== verification/Nodes.thy ===== *)
theory Nodes
  imports JobTables
begin

text \<open>
  Provider nodes (\<^verbatim>\<open>client/api/src/services/nodes.service.ts\<close>): announcing, binding a payout wallet, liveness, the
  administrative state and the throughput average that is a node's draw weight. Every operation works on the list of node
  rows; \<open>now\<close> is \<^verbatim>\<open>Date.now()\<close>. Parameters of the model: the wallet signature check of viem (\<open>None\<close> when it throws),
  \<^verbatim>\<open>Date.parse\<close> on the issue date (\<open>None\<close> for \<^verbatim>\<open>NaN\<close>), and \<^verbatim>\<open>requeueNodeDeployments\<close> of the deployment module, which works on
  that module's own tables (type \<open>'d\<close>). The relay's kick is a message to another service and changes no table.
\<close>

subsection \<open>Reading and announcing\<close>

definition BIND_MAX_AGE_MS :: int where
  "BIND_MAX_AGE_MS = 10 * 60000"

definition BIND_MAX_SKEW_MS :: int where
  "BIND_MAX_SKEW_MS = 60000"

definition bindingMessage :: "string \<Rightarrow> string \<Rightarrow> string \<Rightarrow> string" where
  "bindingMessage node payout issuedIso = ''Cloudana node binding'' @ [CHR 0x0A] @ ''Node: '' @ toLowerCase node @ [CHR 0x0A]
     @ ''Payout: '' @ toLowerCase payout @ [CHR 0x0A] @ ''Issued: '' @ issuedIso"

definition getNode :: "string \<Rightarrow> nodeRow list \<Rightarrow> nodeRow option" where
  "getNode address nodes = find (\<lambda>r. nd_address r = normalizeAddress address) nodes"

definition at_node :: "string \<Rightarrow> nodeRow \<Rightarrow> bool" where
  "at_node key r \<longleftrightarrow> nd_address r = key"

text \<open>\<^verbatim>\<open>.replace(/^\[|\]$/g, "")\<close>: one opening bracket at the start and one closing bracket at the end.\<close>

definition strip_brackets :: "string \<Rightarrow> string" where
  "strip_brackets s = (let a = (case s of c # cs \<Rightarrow> if c = CHR ''['' then cs else s | [] \<Rightarrow> s) in
     if a \<noteq> [] \<and> last a = CHR '']'' then butlast a else a)"

definition coalesce :: "'a option \<Rightarrow> 'a option \<Rightarrow> 'a option" where
  "coalesce a b = (case a of Some x \<Rightarrow> Some x | None \<Rightarrow> b)"

record announceExtras =
  ax_publicHost :: "string option"
  ax_agentVersion :: "string option"

definition announced :: "nodeManifest \<Rightarrow> rat \<Rightarrow> string list \<Rightarrow> string option \<Rightarrow> announceExtras \<Rightarrow> int \<Rightarrow> nodeRow \<Rightarrow> nodeRow" where
  "announced manifest bench workTypes pubkey extras now r =
     r\<lparr>nd_manifest := Some (manifest, bench), nd_workTypes := Some workTypes, nd_announcedAt := Some now, nd_lastSeen := Some now,
       nd_pubkey := coalesce pubkey (nd_pubkey r), nd_publicHost := map_option (\<lambda>h. strip_brackets (toLowerCase h)) (ax_publicHost extras),
       nd_agentVersion := ax_agentVersion extras\<rparr>"

definition new_node :: "string \<Rightarrow> nodeRow" where
  "new_node key = \<lparr>nd_address = key, nd_payout = None, nd_manifest = None, nd_workTypes = None, nd_throughput = 0, nd_jobsDone = 0,
     nd_jobsFailed = 0, nd_announcedAt = None, nd_bindCode = None, nd_fleetId = None, nd_pubkey = None, nd_publicHost = None,
     nd_agentVersion = None, nd_relayAt = None, nd_state = Active, nd_stateReason = None, nd_stateAt = None, nd_boundAt = None,
     nd_lastSeen = None\<rparr>"

text \<open>\<open>code\<close> is the random bind code drawn if the node needs one.\<close>

definition announceNode :: "string \<Rightarrow> nodeManifest \<Rightarrow> rat \<Rightarrow> string list \<Rightarrow> string option \<Rightarrow> announceExtras \<Rightarrow> string \<Rightarrow> int
    \<Rightarrow> nodeRow list \<Rightarrow> nodeRow list \<times> nodeRow option" where
  "announceNode address manifest bench workTypes pubkey extras code now nodes =
     (let key = normalizeAddress address; upd = announced manifest bench workTypes pubkey extras now;
          nodes1 = (if getNode key nodes = None then nodes @ [upd (new_node key)] else update_where (at_node key) upd nodes)
      in case getNode key nodes1 of None \<Rightarrow> (nodes1, None) | Some row \<Rightarrow>
         if (nd_payout row = None \<or> nd_payout row = Some []) \<and> (nd_bindCode row = None \<or> nd_bindCode row = Some [])
         then (let nodes2 = update_where (\<lambda>r. at_node key r \<and> nd_payout r = None)
                     (\<lambda>r. r\<lparr>nd_bindCode := coalesce (nd_bindCode r) (Some code)\<rparr>) nodes1
               in (nodes2, getNode key nodes2))
         else (nodes1, Some row))"

subsection \<open>Binding\<close>

datatype bindResult = Bound | BindBadRequest | BindUnauthorized | BindNotFound | BindConflict

definition bindNodeToFleet :: "string \<Rightarrow> string \<Rightarrow> string \<Rightarrow> int \<Rightarrow> nodeRow list \<Rightarrow> nodeRow list \<times> bindResult" where
  "bindNodeToFleet node fleetId owner now nodes =
     (let key = normalizeAddress node;
          nodes' = update_where (\<lambda>r. at_node key r \<and> (nd_payout r = None \<or> nd_payout r = Some owner))
            (\<lambda>r. r\<lparr>nd_payout := Some owner, nd_fleetId := Some fleetId, nd_boundAt := coalesce (nd_boundAt r) (Some now), nd_bindCode := None\<rparr>) nodes
      in (nodes', case getNode key nodes' of None \<Rightarrow> BindNotFound
            | Some a \<Rightarrow> if nd_payout a = Some owner \<and> nd_fleetId a = Some fleetId then Bound else BindConflict))"

definition unbound :: "nodeRow \<Rightarrow> nodeRow" where
  "unbound r = r\<lparr>nd_payout := None, nd_fleetId := None, nd_boundAt := None, nd_bindCode := None\<rparr>"

definition in_fleet :: "string \<Rightarrow> string option \<Rightarrow> nodeRow \<Rightarrow> bool" where
  "in_fleet fleetId address r \<longleftrightarrow> nd_fleetId r = Some fleetId
     \<and> (case address of None \<Rightarrow> True | Some a \<Rightarrow> a = [] \<or> nd_address r = normalizeAddress a)"

definition unbindFleetNodes :: "string \<Rightarrow> string option \<Rightarrow> nodeRow list \<Rightarrow> nodeRow list \<times> string list" where
  "unbindFleetNodes fleetId address nodes =
     (update_where (in_fleet fleetId address) unbound nodes, map nd_address (filter (in_fleet fleetId address) nodes))"

text \<open>
  \<^verbatim>\<open>/\nIssued: (.+)$/\<close>: the first place where the marker is followed by a non-empty rest of the text without a line break.
\<close>

definition issued_marker :: string where
  "issued_marker = [CHR 0x0A] @ ''Issued: ''"

fun issued_of :: "string \<Rightarrow> string" where
  "issued_of [] = []"
| "issued_of (c # cs) =
     (let s = c # cs; rest = drop (length issued_marker) s in
      if take (length issued_marker) s = issued_marker \<and> rest \<noteq> [] \<and> list_all (\<lambda>x. x \<noteq> CHR 0x0A \<and> x \<noteq> CHR 0x0D) rest
      then rest else issued_of cs)"

definition bindNode :: "(string \<Rightarrow> string \<Rightarrow> string \<Rightarrow> bool option) \<Rightarrow> (string \<Rightarrow> int option) \<Rightarrow> string \<Rightarrow> string \<Rightarrow> string \<Rightarrow> string \<Rightarrow> string
    \<Rightarrow> int \<Rightarrow> nodeRow list \<Rightarrow> nodeRow list \<times> bindResult" where
  "bindNode verifyMessage parseDate node payout message signature code now nodes =
     (let nodeKey = normalizeAddress node; payoutKey = normalizeAddress payout; issued = issued_of message in
      if message \<noteq> bindingMessage nodeKey payoutKey issued then (nodes, BindBadRequest)
      else (case parseDate issued of None \<Rightarrow> (nodes, BindBadRequest) | Some issuedMs \<Rightarrow>
        let age = now - issuedMs in
        if age > BIND_MAX_AGE_MS \<or> age < - BIND_MAX_SKEW_MS then (nodes, BindBadRequest)
        else if verifyMessage payoutKey message signature \<noteq> Some True then (nodes, BindUnauthorized)
        else (case getNode nodeKey nodes of None \<Rightarrow> (nodes, BindNotFound) | Some ex \<Rightarrow>
          if nd_payout ex = Some payoutKey then (nodes, Bound)
          else if nd_payout ex \<noteq> None \<and> nd_payout ex \<noteq> Some [] then (nodes, BindConflict)
          else if nd_bindCode ex = None \<or> nd_bindCode ex = Some [] \<or> nd_bindCode ex \<noteq> Some code then (nodes, BindUnauthorized)
          else (let nodes' = update_where (\<lambda>r. at_node nodeKey r \<and> nd_payout r = None \<and> nd_bindCode r = Some code)
                      (\<lambda>r. r\<lparr>nd_payout := Some payoutKey, nd_boundAt := Some now, nd_bindCode := None\<rparr>) nodes
                in (nodes', case getNode nodeKey nodes' of Some a \<Rightarrow> if nd_payout a = Some payoutKey then Bound else BindConflict
                              | None \<Rightarrow> BindConflict)))))"

subsection \<open>Liveness and administrative state\<close>

definition touchNode :: "string \<Rightarrow> bool \<Rightarrow> string option \<Rightarrow> int \<Rightarrow> nodeRow list \<Rightarrow> nodeRow list" where
  "touchNode address relay agentVersion now nodes =
     update_where (at_node (normalizeAddress address))
       (\<lambda>r. r\<lparr>nd_lastSeen := Some now, nd_relayAt := coalesce (if relay then Some now else None) (nd_relayAt r),
             nd_agentVersion := coalesce agentVersion (nd_agentVersion r)\<rparr>) nodes"

type_synonym 'd requeue = "string list \<Rightarrow> string \<Rightarrow> int \<Rightarrow> 'd \<Rightarrow> 'd \<times> nat"

definition open_challenge :: "string \<Rightarrow> 'j workJob_scheme list \<Rightarrow> bool" where
  "open_challenge node jobs \<longleftrightarrow> (\<exists>j \<in> set jobs. jr_node j = Some node \<and> jr_status j = JobAssigned \<and> jb_challengeExpiresAt j \<noteq> None)"

datatype unbindResult = Unbound nat | UnbindConflict | UnbindNotFound

definition unbindOwnNode :: "'d requeue \<Rightarrow> string \<Rightarrow> string \<Rightarrow> int \<Rightarrow> 'j workJob_scheme list \<Rightarrow> nodeRow list \<times> 'd
    \<Rightarrow> (nodeRow list \<times> 'd) \<times> unbindResult" where
  "unbindOwnNode requeue payout address now jobs st = (case st of (nodes, dep) \<Rightarrow>
     (let nodeKey = normalizeAddress address; mine = (\<lambda>r. at_node nodeKey r \<and> nd_payout r = Some (normalizeAddress payout));
          P = (\<lambda>r. mine r \<and> \<not> open_challenge nodeKey jobs) in
      if changes P nodes = 0
      then (st, if open_challenge nodeKey jobs \<and> list_ex mine nodes then UnbindConflict else UnbindNotFound)
      else (case requeue [nodeKey] ''node unbound by its owner'' now dep of (dep', n) \<Rightarrow>
        ((update_where P unbound nodes, dep'), Unbound n))))"

datatype stateResult = StateSet nodeState nat | StateNotFound | StateConflict

definition set_state :: "nodeState \<Rightarrow> string option \<Rightarrow> int \<Rightarrow> nodeRow \<Rightarrow> nodeRow" where
  "set_state s reason now r = r\<lparr>nd_state := s, nd_stateReason := reason, nd_stateAt := Some now\<rparr>"

definition setOwnNodeDraining :: "string \<Rightarrow> string \<Rightarrow> bool \<Rightarrow> string option \<Rightarrow> int \<Rightarrow> nodeRow list \<Rightarrow> nodeRow list \<times> stateResult" where
  "setOwnNodeDraining payout address draining reason now nodes =
     (let mine = (\<lambda>r. at_node (normalizeAddress address) r \<and> nd_payout r = Some (normalizeAddress payout));
          s = (if draining then Draining else Active); P = (\<lambda>r. mine r \<and> nd_state r \<noteq> Suspended) in
      if changes P nodes = 0 then (nodes, if list_ex mine nodes then StateConflict else StateNotFound)
      else (update_where P (set_state s (if draining then reason else None) now) nodes, StateSet s 0))"

definition afterNodeSuspended :: "'d requeue \<Rightarrow> string \<Rightarrow> string option \<Rightarrow> int \<Rightarrow> 'd \<Rightarrow> 'd \<times> nat" where
  "afterNodeSuspended requeue nodeKey reason now dep =
     requeue [nodeKey] (''node suspended'' @ (case reason of None \<Rightarrow> [] | Some x \<Rightarrow> if x = [] then [] else '': '' @ x)) now dep"

definition setNodeSuspended :: "'d requeue \<Rightarrow> string \<Rightarrow> bool \<Rightarrow> string option \<Rightarrow> int \<Rightarrow> nodeRow list \<times> 'd \<Rightarrow> (nodeRow list \<times> 'd) \<times> stateResult" where
  "setNodeSuspended requeue address suspended reason now st = (case st of (nodes, dep) \<Rightarrow>
     (let nodeKey = normalizeAddress address; s = (if suspended then Suspended else Active) in
      if changes (at_node nodeKey) nodes = 0 then (st, StateNotFound)
      else (let nodes' = update_where (at_node nodeKey) (set_state s (if suspended then reason else None) now) nodes in
        if suspended then (case afterNodeSuspended requeue nodeKey reason now dep of (dep', n) \<Rightarrow> ((nodes', dep'), StateSet s n))
        else ((nodes', dep), StateSet s 0))))"

subsection \<open>Throughput\<close>

text \<open>The literals \<^verbatim>\<open>0.2\<close>, \<^verbatim>\<open>0.001\<close> and the cap on one sample.\<close>

definition THROUGHPUT_ALPHA :: rat where
  "THROUGHPUT_ALPHA = dbl (2 / 10)"

definition THROUGHPUT_SAMPLE_MAX_MMAC_S :: rat where
  "THROUGHPUT_SAMPLE_MAX_MMAC_S = 2000000"

definition nextThroughput :: "rat \<Rightarrow> rat \<Rightarrow> rat \<Rightarrow> rat" where
  "nextThroughput previous units seconds =
     (let sample = min (dbl (dbl (units / 1000000) / max seconds (dbl (1 / 1000)))) THROUGHPUT_SAMPLE_MAX_MMAC_S in
      dbl (dbl (dbl (1 - THROUGHPUT_ALPHA) * previous) + dbl (THROUGHPUT_ALPHA * sample)))"

subsection \<open>Who may bind a node, and who may lift a suspension\<close>

lemma getNode_update:
  assumes "\<And>r. nd_address (f r) = nd_address r"
  shows "getNode a (update_where P f nodes) = map_option (\<lambda>r. if P r then f r else r) (getNode a nodes)"
  unfolding getNode_def by (induction nodes) (auto simp: update_where_def assms)

lemma getNode_append: "getNode a nodes = Some r \<Longrightarrow> getNode a (nodes @ xs) = Some r"
  unfolding getNode_def by (induction nodes) auto

lemma getNode_address: "getNode a nodes = Some r \<Longrightarrow> nd_address r = normalizeAddress a"
  unfolding getNode_def by (drule find_SomeD) simp

lemma normalize_space: "dropWhile is_space (map f s) = map f (dropWhile (\<lambda>c. is_space (f c)) s)"
  by (induction s) auto

datatype node_event =
    EvAnnounce string nodeManifest rat "string list" "string option" announceExtras string int
  | EvBind string string string string string int
  | EvFleetBind string string string int
  | EvUnbindFleet string "string option"
  | EvUnbindOwn string string int "workJob list"
  | EvTouch string bool "string option" int
  | EvDrain string string bool "string option" int
  | EvAdmin string bool "string option" int

fun node_apply :: "(string \<Rightarrow> string \<Rightarrow> string \<Rightarrow> bool option) \<Rightarrow> (string \<Rightarrow> int option) \<Rightarrow> node_event \<Rightarrow> nodeRow list \<Rightarrow> nodeRow list" where
  "node_apply vm pd (EvAnnounce a m b ws pk ax code t) nodes = fst (announceNode a m b ws pk ax code t nodes)"
| "node_apply vm pd (EvBind n p msg sg code t) nodes = fst (bindNode vm pd n p msg sg code t nodes)"
| "node_apply vm pd (EvFleetBind n fl owner t) nodes = fst (bindNodeToFleet n fl owner t nodes)"
| "node_apply vm pd (EvUnbindFleet fl a) nodes = fst (unbindFleetNodes fl a nodes)"
| "node_apply vm pd (EvUnbindOwn p a t jobs) nodes = fst (fst (unbindOwnNode (\<lambda>_ _ _ d. (d, 0)) p a t jobs (nodes, ())))"
| "node_apply vm pd (EvTouch a rl v t) nodes = touchNode a rl v t nodes"
| "node_apply vm pd (EvDrain p a dr why t) nodes = fst (setOwnNodeDraining p a dr why t nodes)"
| "node_apply vm pd (EvAdmin a sus why t) nodes = fst (fst (setNodeSuspended (\<lambda>_ _ _ d. (d, 0)) a sus why t (nodes, ())))"

text \<open>
  What an event may do to one node: a wallet is only ever removed, or set where there was none, and then by the wallet's own
  signature together with the node's bind code, or by the owner of the fleet whose token the node presented; and only an
  admin lifts a suspension.
\<close>

definition bind_authorised :: "(string \<Rightarrow> string \<Rightarrow> string \<Rightarrow> bool option) \<Rightarrow> node_event \<Rightarrow> nodeRow \<Rightarrow> string \<Rightarrow> bool" where
  "bind_authorised vm ev r wallet \<longleftrightarrow>
     (case ev of EvBind n p msg sg code t \<Rightarrow> wallet = normalizeAddress p \<and> vm wallet msg sg = Some True \<and> nd_bindCode r = Some code \<and> code \<noteq> []
      | EvFleetBind n fl owner t \<Rightarrow> wallet = owner
      | _ \<Rightarrow> False)"

definition lifts_suspension :: "node_event \<Rightarrow> bool" where
  "lifts_suspension ev \<longleftrightarrow> (case ev of EvAdmin a sus why t \<Rightarrow> \<not> sus | _ \<Rightarrow> False)"

definition event_allows :: "(string \<Rightarrow> string \<Rightarrow> string \<Rightarrow> bool option) \<Rightarrow> node_event \<Rightarrow> nodeRow \<Rightarrow> nodeRow \<Rightarrow> bool" where
  "event_allows vm ev r r' \<longleftrightarrow> nd_address r' = nd_address r
     \<and> (nd_payout r' = nd_payout r \<or> nd_payout r' = None
        \<or> (nd_payout r = None \<and> (\<exists>w. nd_payout r' = Some w \<and> bind_authorised vm ev r w)))
     \<and> (nd_state r = Suspended \<and> nd_state r' \<noteq> Suspended \<longrightarrow> lifts_suspension ev)"

lemma event_allows_refl [simp]: "event_allows vm ev r r"
  by (simp add: event_allows_def)

lemma getNode_update_allows:
  assumes "getNode a nodes = Some r" and "\<And>r. nd_address (f r) = nd_address r" and "\<And>r. P r \<Longrightarrow> event_allows vm ev r (f r)"
  shows "\<exists>r'. getNode a (update_where P f nodes) = Some r' \<and> event_allows vm ev r r'"
  using assms by (simp add: getNode_update)

lemma announce_allows:
  assumes "getNode a nodes = Some r"
  shows "\<exists>r'. getNode a (fst (announceNode x m b ws pk ax code t nodes)) = Some r' \<and> event_allows vm ev r r'"
proof -
  let ?up = "announced m b ws pk ax t" and ?code = "\<lambda>r. r\<lparr>nd_bindCode := coalesce (nd_bindCode r) (Some code)\<rparr>"
  have keep: "event_allows vm ev r (?up r)" "event_allows vm ev r (?code (?up r))" "event_allows vm ev r (?code r)" for r
    by (simp_all add: event_allows_def announced_def)
  let ?key = "normalizeAddress x"
  let ?n1 = "if getNode ?key nodes = None then nodes @ [?up (new_node ?key)] else update_where (at_node ?key) ?up nodes"
  have addr: "nd_address (?up r) = nd_address r" for r by (simp add: announced_def)
  have "\<exists>r1. getNode a ?n1 = Some r1 \<and> (r1 = r \<or> r1 = ?up r)"
    using assms by (cases "getNode ?key nodes = None") (simp_all add: getNode_append getNode_update addr)
  then obtain r1 where r1: "getNode a ?n1 = Some r1" "r1 = r \<or> r1 = ?up r" by blast
  have "\<exists>r2. getNode a (update_where (\<lambda>r. at_node ?key r \<and> nd_payout r = None) ?code ?n1) = Some r2 \<and> (r2 = r1 \<or> r2 = ?code r1)"
    using r1(1) by (auto simp: getNode_update)
  then show ?thesis using r1 keep unfolding announceNode_def Let_def
    by (auto split: option.splits)
qed

lemma bind_allows:
  assumes "getNode a nodes = Some r" and "ev = EvBind n p msg sg code t"
  shows "\<exists>r'. getNode a (fst (bindNode vm pd n p msg sg code t nodes)) = Some r' \<and> event_allows vm ev r r'"
proof (cases "fst (bindNode vm pd n p msg sg code t nodes) = nodes")
  case True
  then show ?thesis using assms(1) by auto
next
  case False
  let ?P = "\<lambda>r. at_node (normalizeAddress n) r \<and> nd_payout r = None \<and> nd_bindCode r = Some code"
  let ?f = "\<lambda>r. r\<lparr>nd_payout := Some (normalizeAddress p), nd_boundAt := Some t, nd_bindCode := None\<rparr>"
  have eq: "fst (bindNode vm pd n p msg sg code t nodes) = update_where ?P ?f nodes"
    and ok: "vm (normalizeAddress p) msg sg = Some True" "code \<noteq> []"
    using False by (auto simp: bindNode_def Let_def split: if_splits option.splits)
  show ?thesis unfolding eq
    by (rule getNode_update_allows[OF assms(1)]) (use ok assms(2) in \<open>auto simp: event_allows_def bind_authorised_def\<close>)
qed

text \<open>
  C29. Binding and suspension: whatever happens to the node table, a node keeps its row; its payout wallet never passes
  from one wallet to another in one step, and it is set only where there was none, by a message signed by that very wallet
  together with the node's bind code or for the owner of the fleet whose token was presented; and a suspension is lifted by
  an admin only, never by the owner's drain and resume, an announce, a heartbeat or a re-binding.
\<close>

theorem node_event_safe:
  assumes "getNode a nodes = Some r"
  shows "\<exists>r'. getNode a (node_apply vm pd ev nodes) = Some r' \<and> event_allows vm ev r r'"
proof (cases ev)
  case (EvAnnounce x1 x2 x3 x4 x5 x6 x7 x8)
  then show ?thesis using announce_allows[OF assms] by simp
next
  case (EvBind x1 x2 x3 x4 x5 x6)
  then show ?thesis using bind_allows[OF assms] by simp
next
  case (EvFleetBind n fl owner t)
  then show ?thesis unfolding EvFleetBind node_apply.simps bindNodeToFleet_def Let_def fst_conv
    by (intro getNode_update_allows[OF assms]) (auto simp: event_allows_def bind_authorised_def)
next
  case (EvUnbindFleet fl x)
  then show ?thesis unfolding EvUnbindFleet node_apply.simps unbindFleetNodes_def fst_conv
    by (intro getNode_update_allows[OF assms]) (auto simp: event_allows_def unbound_def)
next
  case (EvUnbindOwn p x t jobs)
  have "\<exists>r'. getNode a (update_where P unbound nodes) = Some r' \<and> event_allows vm ev r r'" for P
    by (intro getNode_update_allows[OF assms]) (auto simp: event_allows_def unbound_def)
  then show ?thesis using assms by (auto simp: EvUnbindOwn unbindOwnNode_def Let_def)
next
  case (EvTouch x rl v t)
  then show ?thesis unfolding EvTouch node_apply.simps touchNode_def
    by (intro getNode_update_allows[OF assms]) (auto simp: event_allows_def)
next
  case (EvDrain p x dr why t)
  have "\<exists>r'. getNode a (update_where (\<lambda>r. A r \<and> B r \<and> nd_state r \<noteq> Suspended) (set_state st w t) nodes) = Some r' \<and> event_allows vm ev r r'" for A B st w
    by (intro getNode_update_allows[OF assms]) (auto simp: event_allows_def set_state_def)
  then show ?thesis using assms by (auto simp: EvDrain setOwnNodeDraining_def Let_def)
next
  case (EvAdmin x sus why t)
  have "\<exists>r'. getNode a (update_where P (set_state (if sus then Suspended else Active) w t) nodes) = Some r' \<and> event_allows vm ev r r'" for P w
    by (intro getNode_update_allows[OF assms]) (auto simp: event_allows_def set_state_def EvAdmin lifts_suspension_def)
  then show ?thesis using assms by (auto simp: EvAdmin setNodeSuspended_def afterNodeSuspended_def Let_def)
qed

theorem node_event_safe_witness:
  "\<exists>r'. getNode ''0xn'' (node_apply (\<lambda>_ _ _. Some True) (\<lambda>_. Some 0) (EvDrain ''0xw'' ''0xN'' False None 5)
      [(new_node ''0xn'')\<lparr>nd_payout := Some ''0xw'', nd_state := Suspended\<rparr>]) = Some r' \<and> nd_state r' = Suspended"
proof -
  let ?r = "(new_node ''0xn'')\<lparr>nd_payout := Some ''0xw'', nd_state := Suspended\<rparr>"
  have "getNode ''0xn'' [?r] = Some ?r" by code_simp
  from node_event_safe[OF this, of "\<lambda>_ _ _. Some True" "\<lambda>_. Some 0" "EvDrain ''0xw'' ''0xN'' False None 5"]
  show ?thesis by (auto simp: event_allows_def lifts_suspension_def)
qed

subsection \<open>The draw weight\<close>

lemma alpha_value: "THROUGHPUT_ALPHA = 3602879701896397 / 2 ^ 54"
  unfolding THROUGHPUT_ALPHA_def using dbl_eqI[of "-3" "2 / 10" 7205759403792794] by (simp add: power_int_minus)

lemma one_minus_alpha: "0 \<le> dbl (1 - THROUGHPUT_ALPHA)" "dbl (1 - THROUGHPUT_ALPHA) \<le> 3602879701896397 / 2 ^ 52"
proof -
  show "0 \<le> dbl (1 - THROUGHPUT_ALPHA)" by (intro dbl_nonneg) (simp add: alpha_value)
  have "dbl (1 - THROUGHPUT_ALPHA) \<le> dbl (3602879701896397 / 2 ^ 52)" by (intro dbl_mono) (simp add: alpha_value)
  also have "\<dots> = 3602879701896397 / 2 ^ 52"
    using dbl_eqI[of "-1" "3602879701896397 / 2 ^ 52" 7205759403792794] by (simp add: power_int_minus)
  finally show "dbl (1 - THROUGHPUT_ALPHA) \<le> 3602879701896397 / 2 ^ 52" .
qed

lemma throughput_parts: "dbl (3602879701896397 / 2 ^ 52 * 2000000) = 1600000" "dbl (THROUGHPUT_ALPHA * 2000000) = 400000"
  using dbl_eqI[of 20 "3602879701896397 / 2 ^ 52 * 2000000" "1600000 * 2 ^ 32"]
    dbl_eqI[of 18 "THROUGHPUT_ALPHA * 2000000" "400000 * 2 ^ 34"]
  by (simp_all add: alpha_value power_int_minus)

text \<open>
  A node cannot buy draw weight: whatever it submits and however fast it claims to be, a weight between 0 and the cap on
  one sample stays between 0 and that cap, rounding of the doubles included.
\<close>

theorem throughput_capped:
  assumes "0 \<le> previous" and "previous \<le> THROUGHPUT_SAMPLE_MAX_MMAC_S" and "0 \<le> units"
  shows "0 \<le> nextThroughput previous units seconds \<and> nextThroughput previous units seconds \<le> THROUGHPUT_SAMPLE_MAX_MMAC_S"
proof -
  define sample where "sample = min (dbl (dbl (units / 1000000) / max seconds (dbl (1 / 1000)))) THROUGHPUT_SAMPLE_MAX_MMAC_S"
  have a: "0 \<le> THROUGHPUT_ALPHA" by (simp add: alpha_value)
  have "(0::rat) < 2 powi ilog2 (1 / 1000)" by simp
  also have "\<dots> \<le> dbl (1 / 1000)" using dbl_binade[of "1 / 1000"] by simp
  finally have "0 < dbl (1 / 1000)" .
  then have "0 < max seconds (dbl (1 / 1000))" by (simp add: less_max_iff_disj)
  then have "0 \<le> dbl (dbl (units / 1000000) / max seconds (dbl (1 / 1000)))" using assms(3)
    by (intro dbl_nonneg divide_nonneg_pos) (simp_all add: dbl_nonneg)
  then have "0 \<le> sample" by (simp add: sample_def THROUGHPUT_SAMPLE_MAX_MMAC_S_def)
  moreover have "sample \<le> 2000000" by (simp add: sample_def THROUGHPUT_SAMPLE_MAX_MMAC_S_def)
  ultimately have s: "0 \<le> THROUGHPUT_ALPHA * sample" "THROUGHPUT_ALPHA * sample \<le> THROUGHPUT_ALPHA * 2000000"
    using a by (simp_all add: mult_left_mono)
  have p: "0 \<le> dbl (1 - THROUGHPUT_ALPHA) * previous" "dbl (1 - THROUGHPUT_ALPHA) * previous \<le> 3602879701896397 / 2 ^ 52 * 2000000"
  proof -
    show "0 \<le> dbl (1 - THROUGHPUT_ALPHA) * previous" using one_minus_alpha(1) assms(1) by simp
    show "dbl (1 - THROUGHPUT_ALPHA) * previous \<le> 3602879701896397 / 2 ^ 52 * 2000000"
      by (intro mult_mono one_minus_alpha(2)) (use assms in \<open>simp_all add: THROUGHPUT_SAMPLE_MAX_MMAC_S_def\<close>)
  qed
  have next_eq: "nextThroughput previous units seconds
      = dbl (dbl (dbl (1 - THROUGHPUT_ALPHA) * previous) + dbl (THROUGHPUT_ALPHA * sample))"
    by (simp add: nextThroughput_def Let_def sample_def)
  have "nextThroughput previous units seconds \<le> dbl (dbl (3602879701896397 / 2 ^ 52 * 2000000) + dbl (THROUGHPUT_ALPHA * 2000000))"
    unfolding next_eq by (intro dbl_mono add_mono p(2) s(2))
  also have "\<dots> = 2000000" unfolding throughput_parts using dbl_of_int[of 2000000] by simp
  finally show ?thesis
    unfolding next_eq THROUGHPUT_SAMPLE_MAX_MMAC_S_def by (intro conjI dbl_nonneg add_nonneg_nonneg p(1) s(1))
qed

theorem throughput_capped_witness:
  "nextThroughput 1500000 (10 ^ 15) (1 / 1000000) \<le> THROUGHPUT_SAMPLE_MAX_MMAC_S"
  using throughput_capped[of 1500000 "10 ^ 15" "1 / 1000000"] by (simp add: THROUGHPUT_SAMPLE_MAX_MMAC_S_def)

end
