(* ===== verification/Pricing.thy ===== *)
theory Pricing
  imports Nodes
begin

text \<open>
  Job pricing and the hourly price controller (\<^verbatim>\<open>client/api/src/services/pricing.service.ts\<close>, with \<^verbatim>\<open>usdToUcld\<close> of
  \<^verbatim>\<open>deployment-spec.ts\<close>). The table \<^verbatim>\<open>price_state\<close> holds one row or none. Prices are integers, the average and the
  intermediate factors are doubles; a literal such as \<^verbatim>\<open>0.98\<close> is the double nearest to it. Fees are computed in integers
  and stay far below \<open>2^53\<close>, where \<^verbatim>\<open>Number(bigint)\<close> is exact.
\<close>

subsection \<open>Fees and quotes\<close>

definition QUOTE_LOCK_MS :: int where
  "QUOTE_LOCK_MS = 5 * 60000"

definition CONTROLLER_STEP_MS :: int where
  "CONTROLLER_STEP_MS = 3600000"

definition EMA_ALPHA :: rat where
  "EMA_ALPHA = dbl (1 / 720)"

definition TARGET_UTILIZATION :: rat where
  "TARGET_UTILIZATION = dbl (7 / 10)"

definition FLOOR_X :: rat where
  "FLOOR_X = dbl (1 / 10)"

definition CEILING_X :: rat where
  "CEILING_X = 10"

definition feeUcld :: "int \<Rightarrow> int \<Rightarrow> int \<Rightarrow> int" where
  "feeUcld unitsMac price baseFee = baseFee + (unitsMac * price + 999999999999999) sdiv 1000000000000000"

record price_env =
  PRICE_NUSD_PER_TMAC :: int
  USD_PER_CLD :: rat
  BASE_FEE_USD :: rat
  PRICE_CONTROLLER_ON :: bool

definition usdToUcld :: "price_env \<Rightarrow> rat \<Rightarrow> int" where
  "usdToUcld env usd = \<lceil>dbl (dbl (dbl (usd * 1000000) / USD_PER_CLD env) - dbl (1 / 1000000))\<rceil>"

record priceQuote =
  pq_priceNusdPerTmac :: int
  pq_usdPerCld :: rat
  pq_priceNcldPerTmac :: int
  pq_baseFeeUsd :: rat
  pq_baseFeeUcld :: int
  pq_expiresAt :: int

definition toQuote :: "price_env \<Rightarrow> int \<Rightarrow> int \<Rightarrow> priceQuote" where
  "toQuote env price expiresAt =
     \<lparr>pq_priceNusdPerTmac = price, pq_usdPerCld = USD_PER_CLD env,
      pq_priceNcldPerTmac = \<lceil>dbl (dbl (of_int price / USD_PER_CLD env) - dbl (1 / 1000000))\<rceil>,
      pq_baseFeeUsd = BASE_FEE_USD env, pq_baseFeeUcld = usdToUcld env (BASE_FEE_USD env), pq_expiresAt = expiresAt\<rparr>"

record priceRow =
  pr_price :: int
  pr_ema :: rat
  pr_steppedAt :: "int option"
  pr_quotePrice :: "int option"
  pr_quoteExpiresAt :: "int option"

definition loadState :: "price_env \<Rightarrow> priceRow option \<Rightarrow> priceRow" where
  "loadState env row = (case row of Some r \<Rightarrow> r
     | None \<Rightarrow> \<lparr>pr_price = PRICE_NUSD_PER_TMAC env, pr_ema = of_int (PRICE_NUSD_PER_TMAC env), pr_steppedAt = None,
                pr_quotePrice = None, pr_quoteExpiresAt = None\<rparr>)"

definition locked_quote :: "int \<Rightarrow> priceRow \<Rightarrow> (int \<times> int) option" where
  "locked_quote now r = (case (pr_quotePrice r, pr_quoteExpiresAt r) of
     (Some p, Some e) \<Rightarrow> if e > now then Some (p, e) else None | _ \<Rightarrow> None)"

definition getPriceQuote :: "price_env \<Rightarrow> int \<Rightarrow> priceRow option \<Rightarrow> priceRow option \<times> priceQuote" where
  "getPriceQuote env now row =
     (if \<not> PRICE_CONTROLLER_ON env then (row, toQuote env (PRICE_NUSD_PER_TMAC env) (now + QUOTE_LOCK_MS))
      else (let r = loadState env row in
        case locked_quote now r of Some (p, e) \<Rightarrow> (Some r, toQuote env p e)
        | None \<Rightarrow> (let expiresAt = now + QUOTE_LOCK_MS in
            (Some (r\<lparr>pr_quotePrice := Some (pr_price r), pr_quoteExpiresAt := Some expiresAt\<rparr>), toQuote env (pr_price r) expiresAt))))"

subsection \<open>The controller\<close>

record priceStep =
  ps_price :: int
  ps_ema :: rat
  ps_held :: bool
  ps_utilization :: "rat option"

definition step_factor :: "rat \<Rightarrow> rat" where
  "step_factor u = min (dbl (102 / 100)) (max (dbl (98 / 100)) (dbl (1 + dbl (u - TARGET_UTILIZATION))))"

definition price_floor :: "rat \<Rightarrow> int" where
  "price_floor ema = max 1 (js_round (dbl (ema * FLOOR_X)))"

definition price_ceiling :: "rat \<Rightarrow> int" where
  "price_ceiling ema = max (price_floor ema) (js_round (dbl (ema * CEILING_X)))"

definition stepPrice :: "int \<Rightarrow> rat \<Rightarrow> int \<Rightarrow> rat \<Rightarrow> priceStep" where
  "stepPrice price ema servedMac capacityMac =
     (if servedMac \<le> 0 then \<lparr>ps_price = price, ps_ema = ema, ps_held = True, ps_utilization = None\<rparr>
      else (let u = (if capacityMac > 0 then dbl (of_int servedMac / capacityMac) else 1);
                p = min (price_ceiling ema) (max (price_floor ema) (js_round (dbl (of_int price * step_factor u))))
            in \<lparr>ps_price = p, ps_ema = dbl (ema + dbl (EMA_ALPHA * dbl (of_int p - ema))), ps_held = False, ps_utilization = Some u\<rparr>))"

text \<open>
  Served work is the sum of \<^verbatim>\<open>n * n * n\<close> over the jobs completed in the window, whatever their type; the sum over the
  throughputs is SQLite's, in row order.
\<close>

definition utilizationWindow :: "int \<Rightarrow> int \<Rightarrow> 'j workJob_scheme list \<Rightarrow> nodeRow list \<Rightarrow> int \<times> rat" where
  "utilizationWindow frm til jobs nodes =
     (let macs = sum_list (map (\<lambda>j. int (jb_n j * jb_n j * jb_n j))
            (filter (\<lambda>j. jr_status j = JobDone \<and> (case jb_completedAt j of Some c \<Rightarrow> frm \<le> c \<and> c < til | None \<Rightarrow> False)) jobs));
          mmac_s = foldl (\<lambda>s r. dbl (s + nd_throughput r)) 0
            (filter (\<lambda>r. nd_payout r \<noteq> None \<and> (case nd_lastSeen r of Some t \<Rightarrow> frm \<le> t | None \<Rightarrow> False)) nodes)
      in (macs, dbl (dbl (mmac_s * 1000000) * dbl (of_int (til - frm) / 1000))))"

datatype controllerRun = NotRun bool | Ran priceStep

text \<open>
  One cron run; \<open>NotRun True\<close> is \<^verbatim>\<open>already_stepped\<close> and \<open>NotRun False\<close> \<^verbatim>\<open>off\<close>. The update repeats the test on the hour, as
  the statement does; the second test only matters for two runs at once.
\<close>

definition runPriceControllerCron :: "price_env \<Rightarrow> int \<Rightarrow> 'j workJob_scheme list \<Rightarrow> nodeRow list \<Rightarrow> priceRow option
    \<Rightarrow> priceRow option \<times> controllerRun" where
  "runPriceControllerCron env now jobs nodes row =
     (if \<not> PRICE_CONTROLLER_ON env then (row, NotRun False)
      else (let r = loadState env row; hour = now div CONTROLLER_STEP_MS in
        if (case pr_steppedAt r of Some t \<Rightarrow> t div CONTROLLER_STEP_MS \<ge> hour | None \<Rightarrow> False) then (Some r, NotRun True)
        else (case utilizationWindow (now - CONTROLLER_STEP_MS) now jobs nodes of (macs, capacity) \<Rightarrow>
          (let st = stepPrice (pr_price r) (pr_ema r) macs capacity in
           if (case pr_steppedAt r of None \<Rightarrow> True | Some t \<Rightarrow> t < hour * CONTROLLER_STEP_MS)
           then (Some (r\<lparr>pr_price := ps_price st, pr_ema := ps_ema st, pr_steppedAt := Some now\<rparr>), Ran st)
           else (Some r, NotRun True)))))"

subsection \<open>Fees\<close>

lemma feeUcld_ceiling:
  assumes "0 \<le> units" and "0 \<le> price"
  shows "base \<le> feeUcld units price base \<and> units * price \<le> (feeUcld units price base - base) * 10 ^ 15
    \<and> (feeUcld units price base - base - 1) * 10 ^ 15 < units * price"
proof -
  define a where "a = units * price"
  have "0 \<le> a" using assms by (simp add: a_def)
  then have eq: "feeUcld units price base = base + (a + 999999999999999) div 1000000000000000"
    by (simp add: feeUcld_def sdiv_nonneg a_def)
  show ?thesis unfolding eq a_def[symmetric] using div_bounds_int[of 1000000000000000 "a + 999999999999999"] \<open>0 \<le> a\<close>
    by (simp add: pos_imp_zdiv_nonneg_iff)
qed

subsection \<open>Bounds of one step\<close>

lemma step_factor_bounds: "dbl (98 / 100) \<le> step_factor u" "step_factor u \<le> dbl (102 / 100)"
proof -
  have "dbl (98 / 100) \<le> dbl (102 / 100)" by (rule dbl_mono) simp
  then show "dbl (98 / 100) \<le> step_factor u" "step_factor u \<le> dbl (102 / 100)" by (auto simp: step_factor_def)
qed

lemma literal_bounds: "dbl (102 / 100) \<le> 102 / 100 * (1 + 1 / 2 ^ 53)" "98 / 100 * (1 - 1 / 2 ^ 53) \<le> dbl (98 / 100)"
proof -
  show "dbl (102 / 100) \<le> 102 / 100 * (1 + 1 / 2 ^ 53)" by (rule dbl_upper) simp
  have "\<bar>dbl (98 / 100) - 98 / 100\<bar> \<le> 98 / 100 / 2 ^ 53" by (rule dbl_close) simp
  from abs_le_D2[OF this] show "98 / 100 * (1 - 1 / 2 ^ 53) \<le> dbl (98 / 100)" by (simp add: right_diff_distrib)
qed

lemma js_round_bounds: "of_int (js_round x) \<le> x + 1 / 2" "x - 1 / 2 < of_int (js_round x)"
  unfolding js_round_def by linarith+

lemma step_rounded:
  assumes "1 \<le> price" and "price < 2 ^ 50"
  shows "98 * price - 100 \<le> 100 * js_round (dbl (of_int price * step_factor u))
    \<and> 100 * js_round (dbl (of_int price * step_factor u)) \<le> 102 * price + 100"
proof -
  let ?p = "rat_of_int price" and ?f = "step_factor u" and ?e = "1 / 2 ^ 53 :: rat"
  let ?y = "dbl (?p * ?f)"
  have p: "1 \<le> ?p" "?p < 2 ^ 50"
    using assms of_int_less_iff[of price "2 ^ 50", where 'a = rat] of_int_le_iff[of 1 price, where 'a = rat] by simp_all
  have f: "98 / 100 * (1 - ?e) \<le> ?f" "?f \<le> 102 / 100 * (1 + ?e)"
    using step_factor_bounds[of u] literal_bounds by simp_all
  have pf: "?p * (98 / 100 * (1 - ?e)) \<le> ?p * ?f" "?p * ?f \<le> ?p * (102 / 100 * (1 + ?e))"
    using p(1) f by (intro mult_left_mono; simp)+
  have "0 \<le> ?p * (98 / 100 * (1 - ?e))" using p(1) by simp
  then have pf0: "0 \<le> ?p * ?f" using pf(1) by simp
  from dbl_close[OF this] have d: "\<bar>?y - ?p * ?f\<bar> \<le> ?p * ?f / 2 ^ 53" .
  have "?p * ?f / 2 ^ 53 \<le> ?p * (102 / 100 * (1 + ?e)) / 2 ^ 53" by (intro divide_right_mono pf(2)) simp
  also have "\<dots> \<le> 1 / 5" using p by simp
  finally have "\<bar>?y - ?p * ?f\<bar> \<le> 1 / 5" using d by simp
  moreover have "?p * (102 / 100 * (1 + ?e)) \<le> 102 / 100 * ?p + 1 / 5" using p by (simp add: distrib_left)
  moreover have "98 / 100 * ?p - 1 / 5 \<le> ?p * (98 / 100 * (1 - ?e))" using p by (simp add: right_diff_distrib)
  ultimately have "98 / 100 * ?p - 2 / 5 \<le> ?y" "?y \<le> 102 / 100 * ?p + 2 / 5"
    using pf abs_le_D1[of "?y - ?p * ?f" "1 / 5"] abs_le_D2[of "?y - ?p * ?f" "1 / 5"] by linarith+
  then have "98 * ?p - 100 \<le> 100 * of_int (js_round ?y)" "100 * of_int (js_round ?y) \<le> 102 * ?p + 100"
    using js_round_bounds[of ?y] by linarith+
  then have "rat_of_int (98 * price - 100) \<le> of_int (100 * js_round ?y)" "rat_of_int (100 * js_round ?y) \<le> of_int (102 * price + 100)"
    by simp_all
  then show ?thesis by (simp only: of_int_le_iff)
qed

text \<open>
  One step of the price controller: the new price is between the floor and the ceiling of the running average, never
  below 1, and a price inside that corridor moves by at most two per cent and one unit, however extreme the utilization;
  without served work nothing moves.
\<close>

theorem price_step_bounded:
  assumes "1 \<le> price" and "price < 2 ^ 50"
  shows "let s = stepPrice price ema macs capacity in
    (macs \<le> 0 \<longrightarrow> ps_price s = price \<and> ps_ema s = ema)
    \<and> (0 < macs \<longrightarrow> 1 \<le> price_floor ema \<and> price_floor ema \<le> ps_price s \<and> ps_price s \<le> price_ceiling ema)
    \<and> (price_floor ema \<le> price \<and> price \<le> price_ceiling ema \<longrightarrow>
         98 * price - 100 \<le> 100 * ps_price s \<and> 100 * ps_price s \<le> 102 * price + 100)"
proof (cases "macs \<le> 0")
  case True
  then show ?thesis using assms by (simp add: stepPrice_def)
next
  case False
  define u where "u = (if capacity > 0 then dbl (of_int macs / capacity) else 1)"
  define x where "x = js_round (dbl (of_int price * step_factor u))"
  have p: "ps_price (stepPrice price ema macs capacity) = min (price_ceiling ema) (max (price_floor ema) x)"
    using False by (simp add: stepPrice_def Let_def u_def x_def)
  have x: "98 * price - 100 \<le> 100 * x" "100 * x \<le> 102 * price + 100"
    using step_rounded[OF assms, of u] by (simp_all add: x_def)
  have fc: "1 \<le> price_floor ema" "price_floor ema \<le> price_ceiling ema" by (simp_all add: price_floor_def price_ceiling_def)
  show ?thesis unfolding Let_def p using False fc x assms(1) by (auto simp: min_def max_def)
qed

theorem price_step_bounded_witness:
  "let s = stepPrice 1400 1400 5 0 in 1 \<le> ps_price s \<and> (price_floor 1400 \<le> 1400 \<and> 1400 \<le> price_ceiling 1400 \<longrightarrow> 100 * ps_price s \<le> 102 * 1400 + 100)"
  using price_step_bounded[of 1400 1400 5 0] by (simp add: Let_def)

subsection \<open>Quotes are locked, and the controller steps once per hour\<close>

fun run_controller :: "price_env \<Rightarrow> (int \<times> workJob list \<times> nodeRow list) list \<Rightarrow> priceRow option \<Rightarrow> priceRow option" where
  "run_controller env [] row = row"
| "run_controller env ((t, jobs, nodes) # runs) row = run_controller env runs (fst (runPriceControllerCron env t jobs nodes row))"

definition same_quote :: "priceRow option \<Rightarrow> priceRow option \<Rightarrow> bool" where
  "same_quote row row' \<longleftrightarrow> (case (row, row') of (Some r, Some r') \<Rightarrow>
     pr_quotePrice r' = pr_quotePrice r \<and> pr_quoteExpiresAt r' = pr_quoteExpiresAt r | (None, _) \<Rightarrow> True | _ \<Rightarrow> False)"

lemma cron_same_quote: "same_quote row (fst (runPriceControllerCron env t jobs nodes row))"
  by (cases row) (auto simp: same_quote_def runPriceControllerCron_def loadState_def Let_def split: prod.splits option.splits)

lemma run_controller_same_quote: "row = Some r \<Longrightarrow> same_quote row (run_controller env runs row)"
proof (induction runs arbitrary: row r)
  case Nil
  then show ?case by (simp add: same_quote_def)
next
  case (Cons x runs)
  obtain t jobs nodes where x: "x = (t, jobs, nodes)" by (cases x)
  let ?row = "fst (runPriceControllerCron env t jobs nodes row)"
  have 1: "same_quote row ?row" by (rule cron_same_quote)
  then obtain r' where r': "?row = Some r'" using Cons.prems by (cases ?row) (auto simp: same_quote_def)
  show ?case using 1 Cons.IH[OF r'] Cons.prems r' by (auto simp: x same_quote_def split: option.splits)
qed

text \<open>
  A quote that was issued is honoured: until it expires every further request returns the same quote, however often
  the controller steps the price in between.
\<close>

theorem quote_is_locked:
  assumes "PRICE_CONTROLLER_ON env" and "getPriceQuote env now row = (row1, q)" and "now2 < pq_expiresAt q" and "now \<le> now2"
  shows "snd (getPriceQuote env now2 (run_controller env runs row1)) = q"
proof -
  obtain r1 where r1: "row1 = Some r1" "locked_quote now2 r1 = Some (pq_priceNusdPerTmac q, pq_expiresAt q)"
    "q = toQuote env (pq_priceNusdPerTmac q) (pq_expiresAt q)"
    using assms by (auto simp: getPriceQuote_def Let_def toQuote_def locked_quote_def split: option.splits if_splits)
  then obtain r2 where r2: "run_controller env runs row1 = Some r2" "locked_quote now2 r2 = locked_quote now2 r1"
    using run_controller_same_quote[OF r1(1), of env runs]
    by (auto simp: same_quote_def locked_quote_def split: option.splits)
  show ?thesis using r1(2,3) r2 assms(1) by (simp add: getPriceQuote_def Let_def loadState_def)
qed

theorem quote_is_locked_witness:
  "let env = \<lparr>PRICE_NUSD_PER_TMAC = 1400, USD_PER_CLD = 1, BASE_FEE_USD = 0, PRICE_CONTROLLER_ON = True\<rparr> in
   pq_priceNusdPerTmac (snd (getPriceQuote env 200 (run_controller env [(150, [], [])] (fst (getPriceQuote env 100 None))))) = 1400"
proof -
  let ?env = "\<lparr>PRICE_NUSD_PER_TMAC = 1400, USD_PER_CLD = 1, BASE_FEE_USD = 0, PRICE_CONTROLLER_ON = True\<rparr>"
  let ?q = "toQuote ?env 1400 300100"
  have "getPriceQuote ?env 100 None = (fst (getPriceQuote ?env 100 None), ?q)"
    by (simp add: getPriceQuote_def loadState_def locked_quote_def QUOTE_LOCK_MS_def Let_def)
  from quote_is_locked[OF _ this, of 200 "[(150, [], [])]"] show ?thesis by (simp add: toQuote_def)
qed

text \<open>
  C33. However often the cron runs, the price is stepped at most once per clock hour: after a run that stepped, no run in
  the same hour, or one with a clock that is behind, steps again.
\<close>

theorem controller_steps_once_per_hour:
  assumes "snd (runPriceControllerCron env t jobs nodes row) = Ran st" and "t' div CONTROLLER_STEP_MS \<le> t div CONTROLLER_STEP_MS"
  shows "snd (runPriceControllerCron env t' jobs' nodes' (fst (runPriceControllerCron env t jobs nodes row))) = NotRun True
    \<and> fst (runPriceControllerCron env t' jobs' nodes' (fst (runPriceControllerCron env t jobs nodes row)))
        = fst (runPriceControllerCron env t jobs nodes row)"
proof -
  have on: "PRICE_CONTROLLER_ON env" using assms(1) by (auto simp: runPriceControllerCron_def split: if_splits)
  obtain r where r: "fst (runPriceControllerCron env t jobs nodes row) = Some r" "pr_steppedAt r = Some t"
    using assms(1) on by (auto simp: runPriceControllerCron_def Let_def split: if_splits prod.splits)
  show ?thesis using on r assms(2) by (simp add: runPriceControllerCron_def loadState_def)
qed

theorem controller_steps_once_per_hour_witness:
  "let env = \<lparr>PRICE_NUSD_PER_TMAC = 1400, USD_PER_CLD = 1, BASE_FEE_USD = 0, PRICE_CONTROLLER_ON = True\<rparr>;
       run = runPriceControllerCron env 7200000 [] [] None in
   snd (runPriceControllerCron env 7500000 [] [] (fst run)) = NotRun True"
proof -
  let ?env = "\<lparr>PRICE_NUSD_PER_TMAC = 1400, USD_PER_CLD = 1, BASE_FEE_USD = 0, PRICE_CONTROLLER_ON = True\<rparr>"
  have "snd (runPriceControllerCron ?env 7200000 [] [] None) = Ran (stepPrice 1400 1400 0 0)"
    by (simp add: runPriceControllerCron_def loadState_def Let_def utilizationWindow_def stepPrice_def)
  moreover have "(7500000::int) div CONTROLLER_STEP_MS \<le> 7200000 div CONTROLLER_STEP_MS" by (simp add: CONTROLLER_STEP_MS_def)
  ultimately show ?thesis unfolding Let_def by (rule controller_steps_once_per_hour[THEN conjunct1])
qed

end
