(* ===== verification/Jobs.thy ===== *)
theory Jobs
  imports Draw Pricing
begin

text \<open>
  The work-job service (\<^verbatim>\<open>client/api/src/services/jobs.service.ts\<close>) up to the hand-out of an assignment: the state it keeps,
  the artifact store, enqueueing with a hold, protocol work, the assignment run, the published draw record and its replay,
  and the delivery of an assignment. Each operation is a function from the state to the state and what the source returns;
  an exception is a constructor of its result. Statements that the source awaits one after the other run without
  interleaving here, one operation after another.

  Arguments of the operations stand for what the source draws or asks for: the time, random ids and bytes, the answer of the
  chain RPC, whether a write to the artifact store succeeds. Parameters (\<open>runtime\<close>): SHA-256, the keyed hash, the text of a
  number, and \<^verbatim>\<open>JSON.stringify\<close> and \<^verbatim>\<open>JSON.parse\<close> on job inputs.
\<close>

subsection \<open>State\<close>

text \<open>What the artifact store holds under a key: a finished job's matrices (the object its JSON text denotes) or the text of an input.\<close>

record jobMatrices_t =
  jm_n :: nat
  jm_matrixA :: "int list"
  jm_matrixB :: "int list"
  jm_matrixC :: "storedResult option"

datatype artifact_body = MatricesBody jobMatrices_t | InputBody string

type_synonym artifacts = "string \<Rightarrow> artifact_body option"

record runtime =
  rt_sha :: digest
  rt_hmac :: "string \<Rightarrow> string \<Rightarrow> bytes"
  rt_num :: "rat \<Rightarrow> string"
  rt_stringify :: "jobInput \<Rightarrow> string"
  rt_parse :: "string \<Rightarrow> jobInput option"

record work_env =
  we_api :: api_env
  we_price :: price_env
  PROTOCOL_WORK :: bool
  NODE_ACTIVE_SECONDS :: int
  ASSIGNMENT_TTL_SECONDS :: int
  CHALLENGE_TTL_SECONDS :: int
  VERIFY_SAMPLE_K :: int
  VERIFY_WARMUP_JOBS :: int
  JWT_SECRET :: string
  INSTRUCTION_SIGNING_KEY :: "string option"

record 'd jobsState =
  js_jobs :: "workJob list"
  js_nodes :: "nodeRow list"
  js_balances :: "balanceRow list"
  js_ledger :: db
  js_store :: "artifacts option"
  js_price :: "priceRow option"
  js_dep :: 'd

text \<open>The ledger statements read the same table of jobs.\<close>

definition ledger_view :: "'d jobsState \<Rightarrow> db" where
  "ledger_view st = (js_ledger st)\<lparr>db_jobs := map jobRow.truncate (js_jobs st)\<rparr>"

definition is_job :: "string \<Rightarrow> workJob \<Rightarrow> bool" where
  "is_job i j \<longleftrightarrow> jr_id j = i"

definition assigned_to :: "string \<Rightarrow> string \<Rightarrow> workJob \<Rightarrow> bool" where
  "assigned_to i node j \<longleftrightarrow> jr_id j = i \<and> jr_status j = JobAssigned \<and> jr_node j = Some node"

definition job_input_key :: "string \<Rightarrow> string" where
  "job_input_key i = ''jobs/'' @ i @ ''.input.json''"

definition job_key :: "string \<Rightarrow> string" where
  "job_key i = ''jobs/'' @ i @ ''.json''"

subsection \<open>Matrices and inputs\<close>

definition store_get :: "artifacts option \<Rightarrow> string \<Rightarrow> artifact_body option" where
  "store_get store key = (case store of None \<Rightarrow> None | Some m \<Rightarrow> m key)"

definition jobMatrices :: "artifacts option \<Rightarrow> workJob \<Rightarrow> jobMatrices_t option" where
  "jobMatrices store j =
     (case jb_matrices j of
        Some (a, b) \<Rightarrow> Some \<lparr>jm_n = jb_n j, jm_matrixA = a, jm_matrixB = b, jm_matrixC = jb_result j\<rparr>
      | None \<Rightarrow> (case jb_artifact j of None \<Rightarrow> None
          | Some key \<Rightarrow> (case store_get store key of Some (MatricesBody m) \<Rightarrow> Some m | _ \<Rightarrow> None)))"

text \<open>
  \<open>put_ok key\<close>: the put and the registration of provider copies under \<open>key\<close> succeed; otherwise the row is left for the
  next run. A registration that fails after the put leaves the object in the store.
\<close>

definition unmoved :: "workJob \<Rightarrow> bool" where
  "unmoved j \<longleftrightarrow> jr_status j = JobDone \<and> jb_artifact j = None \<and> jb_matrices j \<noteq> None"

definition completed :: "workJob \<Rightarrow> int" where
  "completed j = (case jb_completedAt j of None \<Rightarrow> 0 | Some t \<Rightarrow> t)"

definition body_of :: "workJob \<Rightarrow> artifact_body" where
  "body_of r = (case jb_matrices r of
     Some (a, b) \<Rightarrow> MatricesBody \<lparr>jm_n = jb_n r, jm_matrixA = a, jm_matrixB = b, jm_matrixC = jb_result r\<rparr>
   | None \<Rightarrow> MatricesBody \<lparr>jm_n = jb_n r, jm_matrixA = [], jm_matrixB = [], jm_matrixC = jb_result r\<rparr>)"

definition move_artifact :: "string \<Rightarrow> workJob \<Rightarrow> workJob" where
  "move_artifact key j = j\<lparr>jb_matrices := None, jb_result := None, jb_artifact := Some key\<rparr>"

definition unmoved_at :: "string \<Rightarrow> workJob \<Rightarrow> bool" where
  "unmoved_at i j \<longleftrightarrow> jr_id j = i \<and> jb_artifact j = None"

datatype put_outcome = PutOk | PutFailed | RegisterFailed

fun move_loop :: "(string \<Rightarrow> put_outcome) \<Rightarrow> workJob list \<Rightarrow> artifacts \<times> workJob list \<Rightarrow> (artifacts \<times> workJob list) \<times> nat" where
  "move_loop outcome [] s = (s, 0)"
| "move_loop outcome (r # rs) (m, jobs) =
     (let key = job_key (jr_id r); m' = m(key \<mapsto> body_of r) in
      case outcome key of
        PutFailed \<Rightarrow> move_loop outcome rs (m, jobs)
      | RegisterFailed \<Rightarrow> move_loop outcome rs (m', jobs)
      | PutOk \<Rightarrow>
          (let hit = changes (unmoved_at (jr_id r)) jobs > 0;
               (s, k) = move_loop outcome rs (m', update_where (unmoved_at (jr_id r)) (move_artifact key) jobs)
           in (s, if hit then Suc k else k)))"

definition moveJobArtifacts :: "(string \<Rightarrow> put_outcome) \<Rightarrow> nat \<Rightarrow> 'd jobsState \<Rightarrow> 'd jobsState \<times> nat" where
  "moveJobArtifacts outcome limit st =
     (case js_store st of None \<Rightarrow> (st, 0)
      | Some m \<Rightarrow>
          (let brs = take limit (sort_by (\<lambda>a b. completed a - completed b) (filter unmoved (js_jobs st)));
               ((m', jobs), k) = move_loop outcome brs (m, js_jobs st)
           in (st\<lparr>js_store := Some m', js_jobs := jobs\<rparr>, k)))"

text \<open>The input's text, \<open>None\<close> when the source throws; \<open>job_sha\<close> is the service's \<^verbatim>\<open>sha256\<close>.\<close>

definition job_sha :: "runtime \<Rightarrow> string \<Rightarrow> string" where
  "job_sha rt s = sha256_text (rt_sha rt) s"

definition jobInputJson :: "runtime \<Rightarrow> artifacts option \<Rightarrow> workJob \<Rightarrow> string option" where
  "jobInputJson rt store j =
     (case jb_input j of Some x \<Rightarrow> Some (rt_stringify rt x)
      | None \<Rightarrow> (case (case jb_inputRef j of None \<Rightarrow> None | Some ref \<Rightarrow> store_get store ref) of
            Some (InputBody text) \<Rightarrow> if Some (job_sha rt text) = jb_inputHash j then Some text else None
          | _ \<Rightarrow> None))"

subsection \<open>Seed source\<close>

definition is_hex_char :: "char \<Rightarrow> bool" where
  "is_hex_char c \<longleftrightarrow> hex_val c \<noteq> None"

text \<open>\<open>rpc\<close> is the hash in the RPC's answer, \<open>None\<close> when there is no RPC or the call fails.\<close>

definition fetchSeedSource :: "string option \<Rightarrow> int \<Rightarrow> string" where
  "fetchSeedSource rpc now =
     (case rpc of Some h \<Rightarrow>
        if take 2 h = ''0x'' \<and> length (drop 2 h) = 64 \<and> list_all is_hex_char (drop 2 h) then h else ''local:'' @ dec_digits (nat now)
      | None \<Rightarrow> ''local:'' @ dec_digits (nat now))"

subsection \<open>Reading jobs\<close>

record jobSummary =
  su_id :: string
  su_workType :: string
  su_n :: nat
  su_priceUcld :: int
  su_public :: bool
  su_status :: job_status
  su_node :: "string option"
  su_createdAt :: int
  su_assignedAt :: "int option"
  su_completedAt :: "int option"

definition toSummary :: "workJob \<Rightarrow> jobSummary" where
  "toSummary r = \<lparr>su_id = jr_id r, su_workType = jb_workType r, su_n = jb_n r, su_priceUcld = jr_price r, su_public = jb_public r,
     su_status = jr_status r, su_node = jr_node r, su_createdAt = jb_createdAt r, su_assignedAt = jb_assignedAt r,
     su_completedAt = jb_completedAt r\<rparr>"

definition getWorkJob :: "string \<Rightarrow> workJob list \<Rightarrow> workJob option" where
  "getWorkJob i jobs = find (is_job i) jobs"

definition listWorkJobs :: "string \<Rightarrow> nat \<Rightarrow> workJob list \<Rightarrow> jobSummary list" where
  "listWorkJobs owner limit jobs =
     map toSummary (take limit (sort_by (\<lambda>a b. jb_createdAt b - jb_createdAt a) (filter (\<lambda>j. jb_owner j = normalizeAddress owner) jobs)))"

subsection \<open>Assignment\<close>

definition MAX_JOB_ATTEMPTS :: int where
  "MAX_JOB_ATTEMPTS = 3"

definition PROTOCOL_ACCOUNT :: string where
  "PROTOCOL_ACCOUNT = ''protocol''"

definition PROTOCOL_N :: nat where
  "PROTOCOL_N = 64"

definition CLEAR_ASSIGNMENT :: "workJob \<Rightarrow> workJob" where
  "CLEAR_ASSIGNMENT j = j\<lparr>jr_status := JobQueued, jr_node := None, jb_sigma := None, jb_seedSource := None, jb_drawSeed := None,
     jb_eligibleHash := None, jb_eligible := None, jb_clusterOk := None, jb_assignedAt := None, jb_expiresAt := None,
     jb_deliveredAt := None\<rparr>"

definition new_job :: "string \<Rightarrow> string \<Rightarrow> string \<Rightarrow> nat \<Rightarrow> int \<Rightarrow> bool \<Rightarrow> int \<Rightarrow> workJob" where
  "new_job i owner workType n price pub now =
     \<lparr>jr_id = i, jr_price = price, jr_status = JobQueued, jr_node = None, jr_feeCapturedAt = None, jr_sampleCheck = None,
      jb_owner = owner, jb_workType = workType, jb_n = n, jb_matrices = None, jb_sigma = None, jb_seedSource = None,
      jb_drawSeed = None, jb_eligibleHash = None, jb_eligible = None, jb_clusterOk = None, jb_assignedAt = None,
      jb_expiresAt = None, jb_deliveredAt = None, jb_result = None, jb_certZ = None, jb_createdAt = now, jb_completedAt = None,
      jb_attempts = 0, jb_artifact = None, jb_public = pub, jb_protocol = False, jb_input = None, jb_inputRef = None,
      jb_inputHash = None, jb_commitment = None, jb_challenge = None, jb_challengeExpiresAt = None, jb_commitPayout = None\<rparr>"

text \<open>A node that can be drawn at \<open>now\<close>; \<open>busy\<close> are the nodes of assigned jobs.\<close>

definition live_node :: "work_env \<Rightarrow> int \<Rightarrow> nodeRow \<Rightarrow> bool" where
  "live_node env now r \<longleftrightarrow> nd_payout r \<noteq> None \<and> nd_state r = Active
     \<and> (case nd_lastSeen r of None \<Rightarrow> False | Some t \<Rightarrow> now - NODE_ACTIVE_SECONDS env * 1000 \<le> t)"

definition busy_nodes :: "workJob list \<Rightarrow> string list" where
  "busy_nodes jobs = List.map_filter jr_node (filter (\<lambda>j. jr_status j = JobAssigned) jobs)"

definition node_types :: "nodeRow \<Rightarrow> string list" where
  "node_types r = (case nd_workTypes r of None \<Rightarrow> [] | Some ts \<Rightarrow> ts)"

text \<open>\<open>ids k\<close> and \<open>rnd k\<close>: the id and the two times \<open>64 * 64\<close> random bytes of the \<open>k\<close>-th job issued.\<close>

definition protocol_job :: "string \<Rightarrow> bytes \<Rightarrow> bytes \<Rightarrow> int \<Rightarrow> workJob" where
  "protocol_job i ra rb now = (new_job i PROTOCOL_ACCOUNT ''matmul'' PROTOCOL_N 0 True now)
     \<lparr>jb_matrices := Some (map sint ra, map sint rb), jb_protocol := True\<rparr>"

definition stale_protocol :: "int \<Rightarrow> workJob \<Rightarrow> bool" where
  "stale_protocol now j \<longleftrightarrow> jb_protocol j \<and> jr_status j = JobQueued \<and> jb_createdAt j < now - 600000"

definition ensure_row :: "string \<Rightarrow> int \<Rightarrow> balanceRow list \<Rightarrow> balanceRow list" where
  "ensure_row key now brs = (if balance_row key brs = None
     then brs @ [\<lparr>bl_address = key, bl_balance = 0, bl_held = 0, bl_updatedAt = now\<rparr>] else brs)"

definition issueProtocolWork :: "work_env \<Rightarrow> (nat \<Rightarrow> string) \<Rightarrow> (nat \<Rightarrow> bytes \<times> bytes) \<Rightarrow> int \<Rightarrow> 'd jobsState \<Rightarrow> 'd jobsState \<times> nat" where
  "issueProtocolWork env ids rnd now st =
     (if \<not> PROTOCOL_WORK env then (st, 0)
      else
        (let jobs = filter (\<lambda>j. \<not> stale_protocol now j) (js_jobs st);
             queued = filter (\<lambda>j. jr_status j = JobQueued) jobs;
             idle = filter (\<lambda>r. live_node env now r \<and> nd_address r \<notin> set (busy_nodes jobs)) (js_nodes st);
             count = changes (\<lambda>r. ''matmul'' \<in> set (node_types r)) idle - changes jb_protocol queued
         in if list_ex (\<lambda>j. \<not> jb_protocol j) queued \<or> count \<le> 0 then (st\<lparr>js_jobs := jobs\<rparr>, 0)
            else (st\<lparr>js_jobs := jobs @ map (\<lambda>k. protocol_job (ids k) (fst (rnd k)) (snd (rnd k)) now) [0..<nat count],
                     js_balances := ensure_row PROTOCOL_ACCOUNT now (js_balances st)\<rparr>, nat count)))"

definition expired :: "int \<Rightarrow> workJob \<Rightarrow> bool" where
  "expired now j \<longleftrightarrow> jr_status j = JobAssigned \<and> (case jb_expiresAt j of None \<Rightarrow> False | Some t \<Rightarrow> t < now) \<and> jb_challengeExpiresAt j = None"

text \<open>The type list has the work type, and the agent is new enough where the type asks for one.\<close>

definition fits :: "workType \<Rightarrow> nodeRow \<Rightarrow> bool" where
  "fits wt r \<longleftrightarrow> wt_requirements wt \<in> set (node_types r)
     \<and> (case wt_minAgent wt of None \<Rightarrow> True | Some v \<Rightarrow> v = []
        \<or> (case nd_agentVersion r of None \<Rightarrow> False | Some a \<Rightarrow> a \<noteq> [] \<and> compareVersions a v \<ge> 0))"

definition payout_of :: "nodeRow \<Rightarrow> string" where
  "payout_of r = (case nd_payout r of None \<Rightarrow> [] | Some p \<Rightarrow> p)"

definition candidate :: "nodeRow \<Rightarrow> candidate" where
  "candidate r = \<lparr>cd_address = nd_address r, cd_payout = payout_of r, cd_weight = nd_throughput r\<rparr>"

definition assign_row :: "string \<Rightarrow> string \<Rightarrow> string \<Rightarrow> string \<Rightarrow> string \<Rightarrow> candidate list \<Rightarrow> bool \<Rightarrow> int \<Rightarrow> int \<Rightarrow> workJob \<Rightarrow> workJob" where
  "assign_row node sigma seedSource drawSeed ehash eligible clusterOk now expiresAt j =
     j\<lparr>jr_status := JobAssigned, jr_node := Some node, jb_sigma := Some sigma, jb_seedSource := Some seedSource,
       jb_drawSeed := Some drawSeed, jb_eligibleHash := Some ehash, jb_eligible := Some eligible, jb_clusterOk := Some clusterOk,
       jb_assignedAt := Some now, jb_expiresAt := Some expiresAt\<rparr>"

definition assignable :: "string \<Rightarrow> string \<Rightarrow> workJob list \<Rightarrow> workJob \<Rightarrow> bool" where
  "assignable i node jobs j \<longleftrightarrow> jr_id j = i \<and> jr_status j = JobQueued
     \<and> \<not> list_ex (\<lambda>x. jr_node x = Some node \<and> jr_status x = JobAssigned) jobs"

text \<open>One queued job: the draw among the pool's nodes that fit, and the update; \<open>None\<close> when the job is passed over.\<close>

definition draw_node :: "runtime \<Rightarrow> string \<Rightarrow> string \<Rightarrow> workType \<Rightarrow> nodeRow list \<Rightarrow> (string \<times> string \<times> candidate list) option" where
  "draw_node rt seedSource i wt pool =
     (let eligible = map candidate (filter (fits wt) pool); drawSeed = job_sha rt (seedSource @ i) in
      map_option (\<lambda>node. (node, drawSeed, eligible)) (weightedDraw drawSeed (map weighted_of eligible)))"

definition assign_one :: "runtime \<Rightarrow> work_env \<Rightarrow> (string \<Rightarrow> string) \<Rightarrow> string \<Rightarrow> int \<Rightarrow> nodeRow list \<Rightarrow> workType \<Rightarrow> string
    \<Rightarrow> string \<times> string \<times> candidate list \<Rightarrow> nodeRow list \<Rightarrow> workJob list \<Rightarrow> workJob list \<times> bool" where
  "assign_one rt env nonce seedSource now live wt i draw pool jobs = (case draw of (node, drawSeed, eligible) \<Rightarrow>
     (let sigma = job_sha rt (i @ node @ nonce i @ seedSource);
          operator = (case find (at_node node) pool of None \<Rightarrow> [] | Some r \<Rightarrow> payout_of r);
          clusterOk = clusterTest (map candidate (filter (fits wt) live)) (CLUSTER_N_MIN (we_api env)) (CLUSTER_S_CAP (we_api env)) operator
      in (update_where (assignable i node jobs)
            (assign_row node sigma seedSource drawSeed (eligibleHash (rt_sha rt) (rt_num rt) (map weighted_of eligible))
               (sortedCandidates eligible) clusterOk now (now + ASSIGNMENT_TTL_SECONDS env * 1000)) jobs,
          changes (assignable i node jobs) jobs > 0)))"

fun assign_loop :: "runtime \<Rightarrow> work_env \<Rightarrow> (string \<Rightarrow> string) \<Rightarrow> string \<Rightarrow> int \<Rightarrow> nodeRow list \<Rightarrow> (string \<times> string) list
    \<Rightarrow> nodeRow list \<Rightarrow> workJob list \<Rightarrow> workJob list \<times> nat" where
  "assign_loop rt env nonce seedSource now live [] pool jobs = (jobs, 0)"
| "assign_loop rt env nonce seedSource now live ((i, workType) # rest) pool jobs =
     (case getWorkType workType of None \<Rightarrow> assign_loop rt env nonce seedSource now live rest pool jobs
      | Some wt \<Rightarrow> (case draw_node rt seedSource i wt pool of
            None \<Rightarrow> assign_loop rt env nonce seedSource now live rest pool jobs
          | Some draw \<Rightarrow>
              (let (jobs', hit) = assign_one rt env nonce seedSource now live wt i draw pool jobs;
                   pool' = filter (\<lambda>r. nd_address r \<noteq> fst draw) pool;
                   (jobs'', k) = (if pool' = [] then (jobs', 0)
                                  else assign_loop rt env nonce seedSource now live rest pool' jobs')
               in (jobs'', if hit then Suc k else k))))"

definition runAssignment :: "runtime \<Rightarrow> work_env \<Rightarrow> (string \<Rightarrow> string) \<Rightarrow> string option \<Rightarrow> int \<Rightarrow> 'd jobsState \<Rightarrow> 'd jobsState \<times> nat" where
  "runAssignment rt env nonce rpc now st =
     (let jobs = update_where (expired now) CLEAR_ASSIGNMENT (js_jobs st);
          queued = take 50 (sort_by (\<lambda>a b. jb_createdAt a - jb_createdAt b) (filter (\<lambda>j. jr_status j = JobQueued) jobs));
          live = filter (live_node env now) (js_nodes st);
          pool = filter (\<lambda>r. nd_address r \<notin> set (busy_nodes jobs)) live
      in if queued = [] \<or> pool = [] then (st\<lparr>js_jobs := jobs\<rparr>, 0)
         else (let (jobs', k) = assign_loop rt env nonce (fetchSeedSource rpc now) now live
                     (map (\<lambda>j. (jr_id j, jb_workType j)) queued) pool jobs
               in (st\<lparr>js_jobs := jobs'\<rparr>, k)))"

subsection \<open>Enqueueing\<close>

record enqueueInput =
  ei_owner :: string
  ei_workType :: string
  ei_input :: rawInput
  ei_public :: "bool option"
  ei_maxPriceUcld :: "int option"

datatype enqueueResult = Enqueued string int int | EnqueueInvalid "wt_error option" | PriceAboveCeiling int | InsufficientCredits int
  | EnqueueThrew

fun job_width :: "jobInput \<Rightarrow> nat" where
  "job_width (MatmulJob n a b) = n"
| "job_width (MlpJob x) = nat (mi_d x)"
| "job_width (ModelJob x) = nat (md_d x)"

text \<open>
  What the row of a new job holds: for \<open>matmul\<close> the matrices, for a challenge-mode type the input or, when there is a store,
  its key, and the hash of its text either way.
\<close>

definition enqueued_job :: "runtime \<Rightarrow> string \<Rightarrow> string \<Rightarrow> workType \<Rightarrow> jobInput \<Rightarrow> bool \<Rightarrow> int \<Rightarrow> bool \<Rightarrow> int \<Rightarrow> workJob" where
  "enqueued_job rt i owner wt x stored price pub now =
     (let j = new_job i owner (wt_id wt) (job_width x) price pub now in
      if wt_mode wt = Challenge
      then j\<lparr>jb_input := (if stored then None else Some x),
             jb_inputRef := (if stored then Some (job_input_key i) else None),
             jb_inputHash := Some (job_sha rt (rt_stringify rt x))\<rparr>
      else (case x of MatmulJob n a b \<Rightarrow> j\<lparr>jb_matrices := Some (a, b)\<rparr> | _ \<Rightarrow> j))"

definition has_store :: "artifacts option \<Rightarrow> bool" where
  "has_store store = (case store of None \<Rightarrow> False | Some m \<Rightarrow> True)"

text \<open>
  \<open>write_ok\<close>: the put (\<open>fst\<close>) and the insert (\<open>snd\<close>) of a challenge-mode job succeed; when one fails the hold goes back. A
  failed insert of a matmul job is an exception with the hold kept, as in the source.
\<close>

definition put_input :: "runtime \<Rightarrow> string \<Rightarrow> workType \<Rightarrow> jobInput \<Rightarrow> bool \<Rightarrow> artifacts option \<Rightarrow> artifacts option" where
  "put_input rt i wt x ok store = (if wt_mode wt = Challenge \<and> ok
     then map_option (\<lambda>m. m(job_input_key i \<mapsto> InputBody (rt_stringify rt x))) store else store)"

definition insert_job :: "runtime \<Rightarrow> string \<Rightarrow> string \<Rightarrow> workType \<Rightarrow> jobInput \<Rightarrow> int \<Rightarrow> bool \<Rightarrow> bool \<times> bool \<Rightarrow> int \<Rightarrow> 'd jobsState
    \<Rightarrow> 'd jobsState option \<times> 'd jobsState" where
  "insert_job rt i owner wt x price pub write_ok now st =
     (let st1 = st\<lparr>js_store := put_input rt i wt x (fst write_ok) (js_store st)\<rparr>;
          put_failed = (wt_mode wt = Challenge \<and> has_store (js_store st) \<and> \<not> fst write_ok)
      in if put_failed \<or> \<not> snd write_ok
         then (None, if wt_mode wt = Challenge
                 then (case release owner price now (js_balances st1) of Inr (brs, _) \<Rightarrow> st1\<lparr>js_balances := brs\<rparr> | Inl _ \<Rightarrow> st1)
                 else st1)
         else (Some (st1\<lparr>js_jobs := js_jobs st1 @ [enqueued_job rt i owner wt x (has_store (js_store st)) price pub now]\<rparr>), st1))"

definition enqueueWorkJob :: "runtime \<Rightarrow> work_env \<Rightarrow> string \<Rightarrow> (string \<Rightarrow> string) \<Rightarrow> string option \<Rightarrow> bool \<times> bool \<Rightarrow> enqueueInput \<Rightarrow> int
    \<Rightarrow> 'd jobsState \<Rightarrow> 'd jobsState \<times> enqueueResult" where
  "enqueueWorkJob rt env uuid nonce rpc write_ok input now st =
     (case getWorkType (ei_workType input) of None \<Rightarrow> (st, EnqueueInvalid None)
      | Some wt \<Rightarrow> (case wt_validate wt (ei_input input) of Some e \<Rightarrow> (st, EnqueueInvalid (Some e))
        | None \<Rightarrow>
            (let owner = normalizeAddress (ei_owner input); x = accept (ei_input input);
                 (row, quote) = getPriceQuote (we_price env) now (js_price st); st1 = st\<lparr>js_price := row\<rparr>;
                 price = feeUcld (wt_meter wt x) (pq_priceNcldPerTmac quote) (pq_baseFeeUcld quote)
             in if (case ei_maxPriceUcld input of None \<Rightarrow> False | Some c \<Rightarrow> c < price) then (st1, PriceAboveCeiling price)
                else (case hold owner price now (js_balances st1) of
                    Inl _ \<Rightarrow> (st1, EnqueueThrew)
                  | Inr (brs, None) \<Rightarrow> (st1\<lparr>js_balances := brs\<rparr>, InsufficientCredits price)
                  | Inr (brs, Some (bal, _)) \<Rightarrow>
                      (case insert_job rt uuid owner wt x price (ei_public input \<noteq> Some False) write_ok now (st1\<lparr>js_balances := brs\<rparr>) of
                         (None, st2) \<Rightarrow> (st2, EnqueueThrew)
                       | (Some st2, _) \<Rightarrow> (fst (runAssignment rt env nonce rpc now st2), Enqueued uuid price bal))))))"

subsection \<open>The published draw\<close>

record drawRecord =
  dr_jobId :: string
  dr_status :: job_status
  dr_node :: "string option"
  dr_seedSource :: "string option"
  dr_drawSeed :: "string option"
  dr_eligibleHash :: "string option"
  dr_eligible :: "publicCandidate list option"
  dr_clusterOk :: "bool option"
  dr_assignedAt :: "int option"
  dr_completedAt :: "int option"
  dr_sigma :: "string option"
  dr_certZ :: "string option"
  dr_replayable :: bool

text \<open>A text that is absent or empty is false.\<close>

definition truthy :: "string option \<Rightarrow> bool" where
  "truthy x \<longleftrightarrow> x \<noteq> None \<and> x \<noteq> Some []"

definition public_of :: "runtime \<Rightarrow> work_env \<Rightarrow> candidate \<Rightarrow> publicCandidate" where
  "public_of rt env c = \<lparr>pc_address = cd_address c, pc_weight = cd_weight c,
     pc_operator = operatorId (rt_sha rt) (INSTRUCTION_SIGNING_KEY env) (cd_payout c)\<rparr>"

definition draw_record :: "runtime \<Rightarrow> work_env \<Rightarrow> workJob \<Rightarrow> drawRecord" where
  "draw_record rt env r =
     \<lparr>dr_jobId = jr_id r, dr_status = jr_status r, dr_node = jr_node r, dr_seedSource = jb_seedSource r, dr_drawSeed = jb_drawSeed r,
      dr_eligibleHash = jb_eligibleHash r, dr_eligible = map_option (map (public_of rt env)) (jb_eligible r),
      dr_clusterOk = jb_clusterOk r, dr_assignedAt = jb_assignedAt r, dr_completedAt = jb_completedAt r,
      dr_sigma = (if jr_status r = JobDone then jb_sigma r else None), dr_certZ = jb_certZ r,
      dr_replayable = (truthy (jr_node r) \<and> jb_eligible r \<noteq> None \<and> truthy (jb_seedSource r)
        \<and> (case jb_seedSource r of None \<Rightarrow> False | Some s \<Rightarrow> take 6 s \<noteq> ''local:''))\<rparr>"

definition getDrawRecord :: "runtime \<Rightarrow> work_env \<Rightarrow> string \<Rightarrow> workJob list \<Rightarrow> drawRecord option" where
  "getDrawRecord rt env i jobs = map_option (draw_record rt env) (getWorkJob i jobs)"

record replay =
  rp_seedOk :: bool
  rp_eligibleOk :: bool
  rp_drawOk :: bool
  rp_ok :: bool

definition pc_weighted :: "publicCandidate \<Rightarrow> weighted" where
  "pc_weighted c = (pc_address c, pc_weight c)"

definition replayDraw :: "runtime \<Rightarrow> drawRecord \<Rightarrow> replay" where
  "replayDraw rt d =
     (let ws = map_option (map pc_weighted) (dr_eligible d);
          seedOk = (case (dr_seedSource d, dr_drawSeed d) of
              (Some s, Some x) \<Rightarrow> s \<noteq> [] \<and> x \<noteq> [] \<and> job_sha rt (s @ dr_jobId d) = x | _ \<Rightarrow> False);
          eligibleOk = (case (ws, dr_eligibleHash d) of
              (Some w, Some h) \<Rightarrow> h \<noteq> [] \<and> eligibleHash (rt_sha rt) (rt_num rt) w = h | _ \<Rightarrow> False);
          drawOk = (seedOk \<and> (case (ws, dr_node d, dr_drawSeed d) of
              (Some w, Some node, Some x) \<Rightarrow> w \<noteq> [] \<and> node \<noteq> [] \<and> weightedDraw x w = Some node | _ \<Rightarrow> False))
      in \<lparr>rp_seedOk = seedOk, rp_eligibleOk = eligibleOk, rp_drawOk = drawOk, rp_ok = (seedOk \<and> eligibleOk \<and> drawOk)\<rparr>)"

subsection \<open>Handing out an assignment\<close>

record assignment =
  as_jobId :: string
  as_workType :: string
  as_n :: nat
  as_matrices :: "(int list \<times> int list) option"
  as_sigma :: "string option"
  as_expiresAt :: "int option"
  as_inputHash :: "string option"
  as_input :: "jobInput option"

datatype handout = NoAssignment | Handout assignment | InputUnreadable

definition INPUT_FETCH_AGENT :: string where
  "INPUT_FETCH_AGENT = ''1.9.0''"

definition deliverable :: "string \<Rightarrow> int \<Rightarrow> workJob \<Rightarrow> bool" where
  "deliverable key now j \<longleftrightarrow> jr_node j = Some key \<and> jr_status j = JobAssigned
     \<and> (case jb_expiresAt j of None \<Rightarrow> False | Some t \<Rightarrow> now \<le> t) \<and> jb_challengeExpiresAt j = None"

definition undelivered :: "string \<Rightarrow> workJob \<Rightarrow> bool" where
  "undelivered i j \<longleftrightarrow> jr_id j = i \<and> jb_deliveredAt j = None"

definition assigned_at :: "workJob \<Rightarrow> int" where
  "assigned_at j = (case jb_assignedAt j of None \<Rightarrow> 0 | Some t \<Rightarrow> t)"

definition fetches_input :: "string option \<Rightarrow> bool" where
  "fetches_input agentVersion \<longleftrightarrow> (case agentVersion of None \<Rightarrow> False | Some v \<Rightarrow> v \<noteq> [] \<and> compareVersions v INPUT_FETCH_AGENT \<ge> 0)"

definition handout_of :: "runtime \<Rightarrow> artifacts option \<Rightarrow> string option \<Rightarrow> workJob \<Rightarrow> handout" where
  "handout_of rt store agentVersion r =
     (let base = \<lparr>as_jobId = jr_id r, as_workType = jb_workType r, as_n = jb_n r, as_matrices = jb_matrices r, as_sigma = jb_sigma r,
                  as_expiresAt = jb_expiresAt r, as_inputHash = None, as_input = None\<rparr> in
      if jb_input r \<noteq> None \<or> truthy (jb_inputRef r)
      then (let h = (case jb_inputHash r of Some h \<Rightarrow> Some h | None \<Rightarrow> map_option (\<lambda>x. job_sha rt (rt_stringify rt x)) (jb_input r));
                b = base\<lparr>as_matrices := Some ([], []), as_inputHash := h\<rparr> in
        if fetches_input agentVersion then Handout b
        else (case jobInputJson rt store r of None \<Rightarrow> InputUnreadable
          | Some t \<Rightarrow> (case rt_parse rt t of None \<Rightarrow> InputUnreadable | Some x \<Rightarrow> Handout (b\<lparr>as_input := Some x\<rparr>))))
      else Handout base)"

definition getActiveAssignment :: "runtime \<Rightarrow> string \<Rightarrow> int \<Rightarrow> string option \<Rightarrow> 'd jobsState \<Rightarrow> 'd jobsState \<times> handout" where
  "getActiveAssignment rt node now agentVersion st =
     (case sort_by (\<lambda>a b. assigned_at a - assigned_at b) (filter (deliverable (normalizeAddress node) now) (js_jobs st)) of
        [] \<Rightarrow> (st, NoAssignment)
      | r # _ \<Rightarrow>
          ((if jb_deliveredAt r = None
            then st\<lparr>js_jobs := update_where (undelivered (jr_id r)) (\<lambda>j. j\<lparr>jb_deliveredAt := Some now\<rparr>) (js_jobs st)\<rparr> else st),
           handout_of rt (js_store st) agentVersion r))"

datatype input_fetch = NoInput | InputText string | FetchThrew

definition assignedJobInput :: "runtime \<Rightarrow> string \<Rightarrow> string \<Rightarrow> int \<Rightarrow> 'd jobsState \<Rightarrow> input_fetch" where
  "assignedJobInput rt node jobId now st =
     (case find (\<lambda>j. assigned_to jobId (normalizeAddress node) j \<and> (case jb_expiresAt j of None \<Rightarrow> False | Some t \<Rightarrow> now \<le> t)) (js_jobs st) of
        None \<Rightarrow> NoInput
      | Some r \<Rightarrow> if jb_input r \<noteq> None \<or> truthy (jb_inputRef r)
          then (case jobInputJson rt (js_store st) r of None \<Rightarrow> FetchThrew | Some t \<Rightarrow> InputText t) else NoInput)"

end
