(* ===== verification/Submit.thy ===== *)
theory Submit
  imports Jobs
begin

text \<open>
  Submitting work (\<^verbatim>\<open>client/api/src/services/jobs.service.ts\<close>): \<^verbatim>\<open>submitWork\<close> with its guards, the refusal of a failed
  check, the booking of a verified job in one transaction, and the challenge mode: commitment, challenge, answer and the sweep
  of unanswered challenges. A batch is the composition of its statements, each with its own guard, in the order the source
  lists them; what a statement changed is read off the table before it.

  \<open>rnd\<close> are the random bytes of the Freivalds rounds and \<open>requeue\<close> is the deployment module's \<^verbatim>\<open>requeueNodeDeployments\<close>.
  A check that throws is \<open>SubmitThrew\<close>; nothing has been written when it does, except where \<open>refuse\<close> is followed by a
  \<^verbatim>\<open>release\<close> that throws.
\<close>

subsection \<open>Requests and results\<close>

datatype workSubmission = CertSub string "certificate option" "rat list option" | CommitSub string "commitment option" "rat tensor option"

fun sub_jobId :: "workSubmission \<Rightarrow> string" where
  "sub_jobId (CertSub i c r) = i"
| "sub_jobId (CommitSub i c r) = i"

datatype catch_reason = AnsweredLate | WrongSegments | NoAnswer | OpeningFailed reason

datatype refusal = JobNotFound | AlreadyCommitted | NotAssigned | WrongKind | BindFirst | CheckFailed reason | AlreadyCompleted
  | TranscriptCaught | NothingStored | SegmentCaught catch_reason | NoOpenChallenge | PlanMismatch

datatype submit_code = NotFoundCode | ConflictCode | UnprocessableCode | ValidationCode

fun code_of :: "refusal \<Rightarrow> submit_code" where
  "code_of JobNotFound = NotFoundCode"
| "code_of WrongKind = ValidationCode"
| "code_of (CheckFailed r) = UnprocessableCode"
| "code_of TranscriptCaught = UnprocessableCode"
| "code_of (SegmentCaught r) = UnprocessableCode"
| "code_of _ = ConflictCode"

record earnings =
  ea_units :: int
  ea_laneAUcld :: int
  ea_laneBUcld :: int
  ea_vestsAt :: int
  ea_heldUntil :: int

datatype submitResult = SubmitOk earnings | SubmitRefused refusal | ChallengeIssued "nat list" int | SubmitThrew

subsection \<open>Refusal\<close>

definition bump_failed :: "nodeRow \<Rightarrow> nodeRow" where
  "bump_failed r = r\<lparr>nd_jobsFailed := nd_jobsFailed r + 1\<rparr>"

definition give_up :: "int \<Rightarrow> workJob \<Rightarrow> workJob" where
  "give_up now j = j\<lparr>jr_status := JobFailed, jb_expiresAt := None, jb_completedAt := Some now, jb_attempts := jb_attempts j + 1\<rparr>"

definition retry :: "workJob \<Rightarrow> workJob" where
  "retry j = (CLEAR_ASSIGNMENT j)\<lparr>jb_attempts := jb_attempts j + 1\<rparr>"

definition giveUp :: "workJob \<Rightarrow> bool" where
  "giveUp j \<longleftrightarrow> jb_attempts j + 1 \<ge> MAX_JOB_ATTEMPTS"

definition refuse :: "workJob \<Rightarrow> string \<Rightarrow> reason \<Rightarrow> int \<Rightarrow> 'd jobsState \<Rightarrow> 'd jobsState \<times> submitResult" where
  "refuse job node why now st =
     (let P = assigned_to (jr_id job) node; hit = changes P (js_jobs st) > 0;
          st1 = st\<lparr>js_nodes := update_where (at_node node) bump_failed (js_nodes st),
                   js_jobs := update_where P (if giveUp job then give_up now else retry) (js_jobs st)\<rparr>
      in if giveUp job \<and> hit
         then (case release (jb_owner job) (jr_price job) now (js_balances st1) of
                 Inl _ \<Rightarrow> (st1, SubmitThrew)
               | Inr (bs, _) \<Rightarrow> (st1\<lparr>js_balances := bs\<rparr>, SubmitRefused (CheckFailed why)))
         else (st1, SubmitRefused (CheckFailed why)))"

subsection \<open>A caught node\<close>

definition still_assigned_job :: "string \<Rightarrow> string \<Rightarrow> workJob list \<Rightarrow> bool" where
  "still_assigned_job i node jobs \<longleftrightarrow> list_ex (assigned_to i node) jobs"

definition suspensionReason :: "string \<Rightarrow> string" where
  "suspensionReason jobId = ''sampled transcript check failed on job '' @ jobId"

definition segmentSuspensionReason :: "string \<Rightarrow> string" where
  "segmentSuspensionReason jobId = ''sampled segment check failed on job '' @ jobId"

definition suspend_row :: "string \<Rightarrow> int \<Rightarrow> nodeRow \<Rightarrow> nodeRow" where
  "suspend_row why now r = (bump_failed r)\<lparr>nd_state := Suspended, nd_stateReason := Some why, nd_stateAt := Some now\<rparr>"

text \<open>The node statement; and the three statements of \<^verbatim>\<open>caughtStatements\<close>, the first two on the ledger (\<open>caughtLedger\<close>).\<close>

definition suspend_caught :: "string \<Rightarrow> string \<Rightarrow> string \<Rightarrow> int \<Rightarrow> 'd jobsState \<Rightarrow> 'd jobsState" where
  "suspend_caught jobId node why now st =
     (if still_assigned_job jobId node (js_jobs st)
      then st\<lparr>js_nodes := update_where (at_node node) (suspend_row why now) (js_nodes st)\<rparr> else st)"

definition caughtStatements :: "work_env \<Rightarrow> string \<Rightarrow> string \<Rightarrow> string \<Rightarrow> string \<Rightarrow> int \<Rightarrow> 'd jobsState \<Rightarrow> 'd jobsState" where
  "caughtStatements env jobId node payout why now st =
     suspend_caught jobId node why now (st\<lparr>js_ledger := caughtLedger (we_api env) jobId node payout now (ledger_view st)\<rparr>)"

text \<open>After a suspension: the fleet hint is a log line, the node's deployments are re-queued.\<close>

definition afterCaught :: "'d requeue \<Rightarrow> string \<Rightarrow> string \<Rightarrow> int \<Rightarrow> 'd jobsState \<Rightarrow> 'd jobsState" where
  "afterCaught requeue node why now st = st\<lparr>js_dep := fst (afterNodeSuspended requeue node (Some why) now (js_dep st))\<rparr>"

subsection \<open>Booking a verified job\<close>

record bookOut =
  bo_result :: "storedResult option"
  bo_certZ :: "string option"
  bo_sampleCheck :: "sample_check option"
  bo_caught :: bool
  bo_units :: "int option"

datatype booked = NotBooked | Booked bool jobRewards

definition authorisable :: "workJob \<Rightarrow> string \<Rightarrow> balanceRow list \<Rightarrow> workJob \<Rightarrow> bool" where
  "authorisable job node bs j \<longleftrightarrow> assigned_to (jr_id job) node j \<and> jr_feeCapturedAt j = None
     \<and> list_ex (covers_hold (normalizeAddress (jb_owner job)) (jr_price job)) bs"

definition authorise :: "int \<Rightarrow> workJob \<Rightarrow> workJob" where
  "authorise now j = j\<lparr>jr_feeCapturedAt := Some now\<rparr>"

definition authorised :: "workJob \<Rightarrow> string \<Rightarrow> int \<Rightarrow> workJob \<Rightarrow> bool" where
  "authorised job node now j \<longleftrightarrow> assigned_to (jr_id job) node j \<and> jr_feeCapturedAt j = Some now"

definition finish_row :: "bookOut \<Rightarrow> int \<Rightarrow> workJob \<Rightarrow> workJob" where
  "finish_row out now j = j\<lparr>jr_status := JobDone, jb_result := bo_result out, jb_certZ := bo_certZ out, jb_completedAt := Some now,
     jr_sampleCheck := bo_sampleCheck out\<rparr>"

text \<open>The fee: authorised on the row while the hold covers it, captured when that happened.\<close>

definition authorise_fee :: "workJob \<Rightarrow> string \<Rightarrow> int \<Rightarrow> 'd jobsState \<Rightarrow> 'd jobsState" where
  "authorise_fee job node now st = st\<lparr>js_jobs := update_where (authorisable job node (js_balances st)) (authorise now) (js_jobs st)\<rparr>"

definition capture_fee :: "workJob \<Rightarrow> string \<Rightarrow> int \<Rightarrow> 'd jobsState \<Rightarrow> 'd jobsState" where
  "capture_fee job node now st =
     (if list_ex (authorised job node now) (js_jobs st)
      then st\<lparr>js_balances := update_where (covers_hold (normalizeAddress (jb_owner job)) (jr_price job))
                 (capture_row (jr_price job) now) (js_balances st)\<rparr>
      else st)"

definition protocol_units :: "workJob \<Rightarrow> bookOut \<Rightarrow> int option" where
  "protocol_units job out = (case bo_units out of None \<Rightarrow> None | Some u \<Rightarrow> if jb_protocol job \<and> u \<noteq> 0 then Some u else None)"

definition job_rewards :: "work_env \<Rightarrow> string list \<Rightarrow> workJob \<Rightarrow> string \<Rightarrow> string \<Rightarrow> int \<Rightarrow> bookOut \<Rightarrow> rewardStatement list \<times> jobRewards" where
  "job_rewards env uuids job node payout now out =
     jobRewardStatements (we_api env) uuids (jr_id job) (jb_workType job) payout (jr_price job) (jb_clusterOk job = Some True) now
       (protocol_units job out) now node (bo_caught out)"

definition write_rewards :: "rewardStatement list \<Rightarrow> 'd jobsState \<Rightarrow> 'd jobsState" where
  "write_rewards stmts st = st\<lparr>js_ledger := fold run_statement stmts (ledger_view st)\<rparr>"

definition finish_job :: "workJob \<Rightarrow> string \<Rightarrow> bookOut \<Rightarrow> int \<Rightarrow> 'd jobsState \<Rightarrow> 'd jobsState" where
  "finish_job job node out now st = st\<lparr>js_jobs := update_where (assigned_to (jr_id job) node) (finish_row out now) (js_jobs st)\<rparr>"

definition bookVerified :: "work_env \<Rightarrow> string list \<Rightarrow> workJob \<Rightarrow> string \<Rightarrow> string \<Rightarrow> int \<Rightarrow> bookOut \<Rightarrow> 'd jobsState \<Rightarrow> 'd jobsState \<times> booked" where
  "bookVerified env uuids job node payout now out st =
     (let (stmts, split) = job_rewards env uuids job node payout now out;
          captured = changes (authorisable job node (js_balances st)) (js_jobs st) > 0;
          st1 = write_rewards stmts (capture_fee job node now (authorise_fee job node now st));
          st2 = (if bo_caught out then caughtStatements env (jr_id job) node payout (suspensionReason (jr_id job)) now st1 else st1)
      in (finish_job job node out now st2,
          if changes (assigned_to (jr_id job) node) (js_jobs st2) = 0 then NotBooked else Booked captured split))"

definition credit_row :: "rat \<Rightarrow> nodeRow \<Rightarrow> nodeRow" where
  "credit_row throughput r = r\<lparr>nd_jobsDone := nd_jobsDone r + 1, nd_throughput := throughput\<rparr>"

text \<open>The compute time counts from the delivery of the job, or from its assignment.\<close>

definition job_seconds :: "workJob \<Rightarrow> int \<Rightarrow> rat" where
  "job_seconds job now = dbl (of_int (now - (case coalesce (jb_deliveredAt job) (jb_assignedAt job) of None \<Rightarrow> now | Some t \<Rightarrow> t)) / 1000)"

definition creditNode :: "string \<Rightarrow> nodeRow \<Rightarrow> workJob \<Rightarrow> int \<Rightarrow> bool \<Rightarrow> jobRewards \<Rightarrow> int \<Rightarrow> 'd jobsState \<Rightarrow> 'd jobsState \<times> submitResult" where
  "creditNode node nodeRow job units captured split now st =
     (st\<lparr>js_nodes := update_where (at_node node)
           (credit_row (nextThroughput (nd_throughput nodeRow) (of_int units) (job_seconds job now))) (js_nodes st)\<rparr>,
      SubmitOk (if captured
        then \<lparr>ea_units = units, ea_laneAUcld = rw_laneAUcld split, ea_laneBUcld = rw_laneBUcld split, ea_vestsAt = rw_vestsAt split,
              ea_heldUntil = rw_heldUntil split\<rparr>
        else \<lparr>ea_units = units, ea_laneAUcld = 0, ea_laneBUcld = 0, ea_vestsAt = now, ea_heldUntil = now\<rparr>))"

subsection \<open>Inline submissions\<close>

definition or_null :: "string option \<Rightarrow> string" where
  "or_null x = (case x of None \<Rightarrow> ''null'' | Some s \<Rightarrow> s)"

definition inline_submission :: "workJob \<Rightarrow> int list \<Rightarrow> int list \<Rightarrow> certificate option \<Rightarrow> rat list option \<Rightarrow> submission" where
  "inline_submission job a b cert result = \<lparr>sb_n = jb_n job, sb_matrixA = a, sb_matrixB = b, sb_sigma = or_null (jb_sigma job),
     sb_certificate = cert, sb_result = result\<rparr>"

definition is_sampled :: "runtime \<Rightarrow> work_env \<Rightarrow> nodeRow \<Rightarrow> workJob \<Rightarrow> bool option" where
  "is_sampled rt env nodeRow job =
     (if nd_jobsDone nodeRow < VERIFY_WARMUP_JOBS env then Some True
      else sampledForCheck (rt_sha rt) (rt_hmac rt) (JWT_SECRET env) (jr_id job) (or_null (jb_sigma job)) (VERIFY_SAMPLE_K env))"

text \<open>A job of an inline type has its matrices until it is done, so \<^verbatim>\<open>JSON.parse\<close> never meets a null.\<close>

definition book_inline :: "work_env \<Rightarrow> 'd requeue \<Rightarrow> string list \<Rightarrow> workJob \<Rightarrow> string \<Rightarrow> nodeRow \<Rightarrow> int \<Rightarrow> int \<Rightarrow> bookOut \<Rightarrow> 'd jobsState
    \<Rightarrow> 'd jobsState \<times> submitResult" where
  "book_inline env requeue uuids job node nodeRow units now out st =
     (case bookVerified env uuids job node (payout_of nodeRow) now out st of
        (st1, NotBooked) \<Rightarrow> (st1, SubmitRefused AlreadyCompleted)
      | (st1, Booked captured split) \<Rightarrow>
          if bo_caught out then (afterCaught requeue node (suspensionReason (jr_id job)) now st1, SubmitRefused TranscriptCaught)
          else creditNode node nodeRow job units captured split now st1)"

definition submitInline :: "runtime \<Rightarrow> work_env \<Rightarrow> 'd requeue \<Rightarrow> (nat \<Rightarrow> bytes) \<Rightarrow> string list \<Rightarrow> workJob \<Rightarrow> string \<Rightarrow> nodeRow \<Rightarrow> workType
    \<Rightarrow> certificate option \<Rightarrow> rat list option \<Rightarrow> int \<Rightarrow> 'd jobsState \<Rightarrow> 'd jobsState \<times> submitResult" where
  "submitInline rt env requeue rnd uuids job node nodeRow wt cert result now st =
     (case jb_matrices job of None \<Rightarrow> (st, SubmitThrew) | Some (a, b) \<Rightarrow>
      (case is_sampled rt env nodeRow job of None \<Rightarrow> (st, SubmitThrew) | Some sampled \<Rightarrow>
      (case wt_verify wt (rt_sha rt) rnd (inline_submission job a b cert result) sampled of None \<Rightarrow> (st, SubmitThrew) | Some verdict \<Rightarrow>
        (let units = wt_meter wt (MatmulJob (jb_n job) a b);
             out = \<lparr>bo_result = map_option MatrixResult result, bo_certZ = map_option c_z cert, bo_sampleCheck = None,
                    bo_caught = False, bo_units = Some units\<rparr> in
         case verdict of
           Accept \<Rightarrow> book_inline env requeue uuids job node nodeRow units now
             (out\<lparr>bo_sampleCheck := (if sampled then Some SamplePassed else None)\<rparr>) st
         | Reject why stg \<Rightarrow>
             if stg = Some StTranscript
             then book_inline env requeue uuids job node nodeRow units now (out\<lparr>bo_sampleCheck := Some SampleFailed, bo_caught := True\<rparr>) st
             else refuse job node why now st))))"

subsection \<open>Commitments\<close>

record challengeJob_t =
  cj_input :: jobInput
  cj_plan :: "segmentSpec list"
  cj_inputs :: tensors

definition challengeJob :: "runtime \<Rightarrow> artifacts option \<Rightarrow> workJob \<Rightarrow> workType \<Rightarrow> challengeJob_t option" where
  "challengeJob rt store job wt =
     (case jobInputJson rt store job of None \<Rightarrow> None | Some t \<Rightarrow>
      map_option (\<lambda>x. \<lparr>cj_input = x, cj_plan = wt_plan wt x, cj_inputs = wt_inputs wt x\<rparr>) (rt_parse rt t))"

definition commit_row :: "commitment \<Rightarrow> rat tensor option \<Rightarrow> nat list \<Rightarrow> int \<Rightarrow> string \<Rightarrow> workJob \<Rightarrow> workJob" where
  "commit_row c result segments deadline payout j =
     j\<lparr>jb_commitment := Some c, jb_certZ := Some (cm_chainRoot c), jb_result := map_option TensorResult result,
       jb_challenge := Some segments, jb_challengeExpiresAt := Some deadline, jb_expiresAt := Some deadline,
       jb_commitPayout := Some (normalizeAddress payout)\<rparr>"

definition committable :: "workJob \<Rightarrow> string \<Rightarrow> int \<Rightarrow> workJob \<Rightarrow> bool" where
  "committable job node now j \<longleftrightarrow> assigned_to (jr_id job) node j \<and> jb_commitment j = None
     \<and> jb_sigma job \<noteq> None \<and> jb_sigma j = jb_sigma job \<and> (case jb_expiresAt j of None \<Rightarrow> False | Some t \<Rightarrow> now \<le> t)"

definition submitCommitment :: "runtime \<Rightarrow> work_env \<Rightarrow> workJob \<Rightarrow> string \<Rightarrow> string \<Rightarrow> workType \<Rightarrow> commitment option \<Rightarrow> rat tensor option
    \<Rightarrow> int \<Rightarrow> 'd jobsState \<Rightarrow> 'd jobsState \<times> submitResult" where
  "submitCommitment rt env job node payout wt sub_c sub_result now st =
     (case challengeJob rt (js_store st) job wt of None \<Rightarrow> (st, SubmitThrew) | Some cj \<Rightarrow>
      (case wt_resultSig wt (cj_input cj) of None \<Rightarrow> (st, SubmitThrew) | Some sig \<Rightarrow>
      (case checkCommitment (rt_sha rt) (or_null (jb_sigma job)) (cj_inputs cj) (cj_plan cj) sub_c sub_result sig of
         None \<Rightarrow> (st, SubmitThrew)
       | Some (Reject why stg) \<Rightarrow> refuse job node why now st
       | Some Accept \<Rightarrow>
           (case sub_c of None \<Rightarrow> (st, SubmitThrew) | Some c \<Rightarrow>
           (case segmentDraw (rt_sha rt) (rt_hmac rt) (JWT_SECRET env) (jr_id job) (or_null (jb_sigma job)) (cm_chainRoot c)
                   (length (cj_plan cj)) (wt_samples wt (cj_input cj)) of
              None \<Rightarrow> (st, SubmitThrew)
            | Some segments \<Rightarrow>
                (let deadline = now + CHALLENGE_TTL_SECONDS env * 1000; P = committable job node now in
                 if changes P (js_jobs st) = 0 then (st, SubmitRefused NothingStored)
                 else (st\<lparr>js_jobs := update_where P (commit_row c sub_result segments deadline payout) (js_jobs st)\<rparr>,
                       ChallengeIssued segments deadline)))))))"

subsection \<open>The entry point\<close>

definition open_challenge_of :: "workJob \<Rightarrow> string \<Rightarrow> (nat list \<times> int) option" where
  "open_challenge_of g node =
     (case (jb_challenge g, jb_challengeExpiresAt g) of
        (Some segs, Some t) \<Rightarrow> if jr_status g = JobAssigned \<and> jr_node g = Some node \<and> t \<noteq> 0 then Some (segs, t) else None
      | _ \<Rightarrow> None)"

definition repeats :: "workSubmission \<Rightarrow> workJob \<Rightarrow> bool" where
  "repeats input g = (case input of CommitSub i (Some c) r \<Rightarrow> jb_certZ g = Some (cm_chainRoot c) | _ \<Rightarrow> False)"

definition is_commit :: "workSubmission \<Rightarrow> bool" where
  "is_commit input = (case input of CommitSub i c r \<Rightarrow> True | CertSub i c r \<Rightarrow> False)"

definition submitWork :: "runtime \<Rightarrow> work_env \<Rightarrow> 'd requeue \<Rightarrow> (nat \<Rightarrow> bytes) \<Rightarrow> string list \<Rightarrow> string \<Rightarrow> workSubmission \<Rightarrow> int \<Rightarrow> 'd jobsState
    \<Rightarrow> 'd jobsState \<times> submitResult" where
  "submitWork rt env requeue rnd uuids nodeAddress input now st =
     (let node = normalizeAddress nodeAddress in
      case getWorkJob (sub_jobId input) (js_jobs st) of None \<Rightarrow> (st, SubmitRefused JobNotFound)
      | Some g \<Rightarrow>
        if jb_commitment g \<noteq> None
        then (st, if repeats input g
                  then (case open_challenge_of g node of Some (segs, t) \<Rightarrow> ChallengeIssued segs t | None \<Rightarrow> SubmitRefused AlreadyCommitted)
                  else SubmitRefused AlreadyCommitted)
        else if jr_status g \<noteq> JobAssigned \<or> jr_node g \<noteq> Some node \<or> (case jb_expiresAt g of None \<Rightarrow> 0 | Some t \<Rightarrow> t) < now
        then (st, SubmitRefused NotAssigned)
        else (case getWorkType (jb_workType g) of None \<Rightarrow> (st, SubmitThrew) | Some wt \<Rightarrow>
          if (wt_mode wt = Challenge) \<noteq> is_commit input then (st, SubmitRefused WrongKind)
          else (case getNode node (js_nodes st) of None \<Rightarrow> (st, SubmitRefused BindFirst) | Some nodeRow \<Rightarrow>
            if \<not> truthy (nd_payout nodeRow) then (st, SubmitRefused BindFirst)
            else (case input of
                CommitSub i c r \<Rightarrow> submitCommitment rt env g node (payout_of nodeRow) wt c r now st
              | CertSub i cert result \<Rightarrow> submitInline rt env requeue rnd uuids g node nodeRow wt cert result now st))))"

subsection \<open>Failed challenges\<close>

definition refund :: "workJob \<Rightarrow> string \<Rightarrow> int \<Rightarrow> 'd jobsState \<Rightarrow> 'd jobsState" where
  "refund job node now st =
     (if still_assigned_job (jr_id job) node (js_jobs st)
      then st\<lparr>js_balances := update_where (covers_hold (normalizeAddress (jb_owner job)) (jr_price job))
                 (release_row (jr_price job) now) (js_balances st)\<rparr>
      else st)"

definition fail_row :: "int \<Rightarrow> workJob \<Rightarrow> workJob" where
  "fail_row now j = j\<lparr>jr_status := JobFailed, jr_sampleCheck := Some SampleFailed, jb_result := None, jb_completedAt := Some now,
     jb_expiresAt := None, jb_challengeExpiresAt := None\<rparr>"

definition caughtChallenge :: "work_env \<Rightarrow> 'd requeue \<Rightarrow> workJob \<Rightarrow> string \<Rightarrow> nodeRow option \<Rightarrow> catch_reason \<Rightarrow> int \<Rightarrow> 'd jobsState
    \<Rightarrow> 'd jobsState \<times> submitResult" where
  "caughtChallenge env requeue job node nodeRow why now st =
     (let note = segmentSuspensionReason (jr_id job);
          payout = coalesce (jb_commitPayout job) (case nodeRow of None \<Rightarrow> None | Some r \<Rightarrow> nd_payout r);
          st1 = (if truthy payout then caughtStatements env (jr_id job) node (or_null payout) note now st
                 else suspend_caught (jr_id job) node note now st);
          st2 = refund job node now st1;
          P = assigned_to (jr_id job) node;
          st3 = st2\<lparr>js_jobs := update_where P (fail_row now) (js_jobs st2)\<rparr>
      in (if changes P (js_jobs st2) > 0 \<and> nodeRow \<noteq> None then afterCaught requeue node note now st3 else st3,
          SubmitRefused (SegmentCaught why)))"

subsection \<open>Answers\<close>

datatype opening_outcome = AllOpened | OpeningCaught reason | OpeningMisfit | OpeningThrew

text \<open>\<^verbatim>\<open>openings.map((o) => o?.idx).sort((a, b) => a - b)\<close>: the indices in order, then those that are absent.\<close>

definition opened_idx :: "segmentOpening option list \<Rightarrow> rat option list" where
  "opened_idx os = (let idxs = map (\<lambda>x. case x of None \<Rightarrow> None | Some s \<Rightarrow> so_idx s) os in
     map Some (sort (List.map_filter (\<lambda>x. x) idxs)) @ filter (\<lambda>x. x = None) idxs)"

fun check_openings :: "runtime \<Rightarrow> (nat \<Rightarrow> nat \<Rightarrow> nat \<Rightarrow> bytes) \<Rightarrow> workType \<Rightarrow> challengeJob_t \<Rightarrow> commitment \<Rightarrow> nat \<Rightarrow> segmentOpening option list
    \<Rightarrow> opening_outcome" where
  "check_openings rt rnd wt cj c k [] = AllOpened"
| "check_openings rt rnd wt cj c k (x # xs) =
     (case (case x of None \<Rightarrow> None | Some s \<Rightarrow> so_idx s) of None \<Rightarrow> OpeningThrew | Some q \<Rightarrow>
      (case js_at (cj_plan cj) (nat \<lfloor>q\<rfloor>) of None \<Rightarrow> OpeningThrew | Some spec \<Rightarrow>
      (case wt_kernel wt (cj_input cj) (sp_op spec) of None \<Rightarrow> OpeningThrew | Some krn \<Rightarrow>
      (case checkOpening (rt_sha rt) (rnd k) spec x c (cj_inputs cj) krn of
         None \<Rightarrow> OpeningThrew
       | Some Accept \<Rightarrow> check_openings rt rnd wt cj c (Suc k) xs
       | Some (Reject why (Some stg)) \<Rightarrow> OpeningCaught why
       | Some (Reject why None) \<Rightarrow> OpeningMisfit))))"

definition misfit_row :: "int \<Rightarrow> workJob \<Rightarrow> workJob" where
  "misfit_row now j = j\<lparr>jr_status := JobFailed, jb_completedAt := Some now, jb_expiresAt := None, jb_challengeExpiresAt := None\<rparr>"

definition fail_misfit :: "workJob \<Rightarrow> string \<Rightarrow> int \<Rightarrow> 'd jobsState \<Rightarrow> 'd jobsState \<times> submitResult" where
  "fail_misfit job node now st =
     (let P = assigned_to (jr_id job) node; st1 = st\<lparr>js_jobs := update_where P (misfit_row now) (js_jobs st)\<rparr> in
      if changes P (js_jobs st) > 0
      then (case release (jb_owner job) (jr_price job) now (js_balances st1) of
              Inl _ \<Rightarrow> (st1, SubmitThrew)
            | Inr (bs, _) \<Rightarrow> (st1\<lparr>js_balances := bs\<rparr>, SubmitRefused PlanMismatch))
      else (st1, SubmitRefused PlanMismatch))"

definition book_answer :: "work_env \<Rightarrow> string list \<Rightarrow> workJob \<Rightarrow> string \<Rightarrow> nodeRow option \<Rightarrow> int \<Rightarrow> int \<Rightarrow> 'd jobsState \<Rightarrow> 'd jobsState \<times> submitResult" where
  "book_answer env uuids job node nodeRow units now st =
     (case nodeRow of None \<Rightarrow> (st, SubmitRefused BindFirst) | Some r \<Rightarrow>
       (let payTo = coalesce (jb_commitPayout job) (nd_payout r) in
        if \<not> truthy payTo then (st, SubmitRefused BindFirst)
        else (case bookVerified env uuids job node (or_null payTo) now
                  \<lparr>bo_result = jb_result job, bo_certZ = jb_certZ job, bo_sampleCheck = Some SamplePassed, bo_caught = False, bo_units = None\<rparr> st of
              (st1, NotBooked) \<Rightarrow> (st1, SubmitRefused AlreadyCompleted)
            | (st1, Booked captured split) \<Rightarrow> creditNode node r job units captured split now st1)))"

text \<open>\<open>os\<close> is \<^verbatim>\<open>input.openings\<close>, empty when it is not an array.\<close>

definition answerChallenge :: "runtime \<Rightarrow> work_env \<Rightarrow> 'd requeue \<Rightarrow> (nat \<Rightarrow> nat \<Rightarrow> nat \<Rightarrow> bytes) \<Rightarrow> string list \<Rightarrow> string \<Rightarrow> string
    \<Rightarrow> segmentOpening option list \<Rightarrow> int \<Rightarrow> 'd jobsState \<Rightarrow> 'd jobsState \<times> submitResult" where
  "answerChallenge rt env requeue rnd uuids nodeAddress jobId os now st =
     (let node = normalizeAddress nodeAddress in
      case getWorkJob jobId (js_jobs st) of None \<Rightarrow> (st, SubmitRefused JobNotFound)
      | Some job \<Rightarrow> (case (jb_commitment job, jb_challenge job) of
          (Some c, Some drawn) \<Rightarrow>
            if jr_status job \<noteq> JobAssigned \<or> jr_node job \<noteq> Some node then (st, SubmitRefused NoOpenChallenge)
            else
              (let nodeRow = getNode node (js_nodes st) in
               if (case jb_challengeExpiresAt job of None \<Rightarrow> 0 | Some t \<Rightarrow> t) < now
               then caughtChallenge env requeue job node nodeRow AnsweredLate now st
               else (case getWorkType (jb_workType job) of None \<Rightarrow> (st, SubmitThrew) | Some wt \<Rightarrow>
                 (case challengeJob rt (js_store st) job wt of None \<Rightarrow> (st, SubmitThrew) | Some cj \<Rightarrow>
                   if opened_idx os \<noteq> map (\<lambda>i. Some (of_nat i)) drawn
                   then caughtChallenge env requeue job node nodeRow WrongSegments now st
                   else (case check_openings rt rnd wt cj c 0 os of
                       OpeningThrew \<Rightarrow> (st, SubmitThrew)
                     | OpeningCaught why \<Rightarrow> caughtChallenge env requeue job node nodeRow (OpeningFailed why) now st
                     | OpeningMisfit \<Rightarrow> fail_misfit job node now st
                     | AllOpened \<Rightarrow> book_answer env uuids job node nodeRow (wt_meter wt (cj_input cj)) now st))))
        | _ \<Rightarrow> (st, SubmitRefused NoOpenChallenge)))"

subsection \<open>The sweep\<close>

definition SWEEP_GRACE_MS :: int where
  "SWEEP_GRACE_MS = 10000"

definition overdue :: "int \<Rightarrow> workJob \<Rightarrow> bool" where
  "overdue now j \<longleftrightarrow> jr_status j = JobAssigned \<and> (case jb_challengeExpiresAt j of None \<Rightarrow> False | Some t \<Rightarrow> t < now - SWEEP_GRACE_MS)"

definition challenge_deadline :: "workJob \<Rightarrow> int" where
  "challenge_deadline j = (case jb_challengeExpiresAt j of None \<Rightarrow> 0 | Some t \<Rightarrow> t)"

fun sweep_loop :: "work_env \<Rightarrow> 'd requeue \<Rightarrow> int \<Rightarrow> workJob list \<Rightarrow> 'd jobsState \<Rightarrow> 'd jobsState \<times> nat" where
  "sweep_loop env requeue now [] st = (st, 0)"
| "sweep_loop env requeue now (job # jobs) st =
     (case jr_node job of None \<Rightarrow> sweep_loop env requeue now jobs st
      | Some node \<Rightarrow>
          (let (st', k) = sweep_loop env requeue now jobs
                 (fst (caughtChallenge env requeue job node (getNode node (js_nodes st)) NoAnswer now st))
           in (st', Suc k)))"

definition sweepChallenges :: "work_env \<Rightarrow> 'd requeue \<Rightarrow> int \<Rightarrow> nat \<Rightarrow> 'd jobsState \<Rightarrow> 'd jobsState \<times> nat" where
  "sweepChallenges env requeue now limit st =
     sweep_loop env requeue now (take limit (sort_by (\<lambda>a b. challenge_deadline a - challenge_deadline b) (filter (overdue now) (js_jobs st)))) st"

end
