(* ===== verification/JobsInv.thy ===== *)
theory JobsInv
  imports Submit
begin

text \<open>
  What holds of the job table and the balances after any history of the service: the invariant \<open>jobs_inv\<close>, that every
  operation keeps it, and from it: held funds are exactly the prices of the jobs that are not finished, a verified job's fee is
  always captured, nobody's job is refused more than three times, and a node holds one assignment at a time.
\<close>

subsection \<open>Owners are normalised once\<close>

lemma is_space_lower: "is_space (lower_char c) = is_space c"
  by (auto simp: is_space_def lower_char_def Let_def of_char_of take_bit_nat_def)

lemma lower_char_idem: "lower_char (lower_char c) = lower_char c"
  by (auto simp: lower_char_def Let_def of_char_of take_bit_nat_def)

lemma dropWhile_idem: "dropWhile P (dropWhile P xs) = dropWhile P xs"
  by (induction xs) auto

lemma trim_trim: "trim (trim s) = trim s"
proof -
  let ?t = "dropWhile is_space s"
  let ?u = "rev (dropWhile is_space (rev ?t))"
  have t: "?t = ?u @ rev (takeWhile is_space (rev ?t))"
    using takeWhile_dropWhile_id[of is_space "rev ?t"] by (metis rev_append rev_rev_ident)
  have "dropWhile is_space ?u = ?u"
  proof (cases ?u)
    case (Cons x xs)
    then have "?t = x # xs @ rev (takeWhile is_space (rev ?t))" using t by simp
    then have "\<not> is_space x" by (metis hd_dropWhile list.sel(1) list.distinct(1))
    then show ?thesis using Cons by simp
  next
    case Nil
    then show ?thesis by (simp only: dropWhile.simps)
  qed
  then show ?thesis by (simp add: trim_def dropWhile_idem)
qed

lemma trim_lower: "trim (toLowerCase s) = toLowerCase (trim s)"
  by (simp add: trim_def toLowerCase_def normalize_space is_space_lower rev_map)

lemma lower_lower: "toLowerCase (toLowerCase s) = toLowerCase s"
  by (simp add: toLowerCase_def lower_char_idem)

definition normal_owner :: "string \<Rightarrow> bool" where
  "normal_owner a \<longleftrightarrow> normalizeAddress a = a \<and> bal_normalizeAddress a = a"

lemma normal_owner_normalize [simp]: "normal_owner (normalizeAddress a)"
  by (simp add: normal_owner_def normalizeAddress_def bal_normalizeAddress_def trim_lower trim_trim lower_lower)

lemma normal_owner_protocol [simp]: "normal_owner PROTOCOL_ACCOUNT"
  by code_simp

subsection \<open>The invariant\<close>

definition unfinished :: "workJob \<Rightarrow> bool" where
  "unfinished j \<longleftrightarrow> jr_status j = JobQueued \<or> jr_status j = JobAssigned"

definition open_share :: "string \<Rightarrow> workJob \<Rightarrow> int" where
  "open_share a j = (if unfinished j \<and> jb_owner j = a then jr_price j else 0)"

definition open_price :: "string \<Rightarrow> workJob list \<Rightarrow> int" where
  "open_price a jobs = sum_list (map (open_share a) jobs)"

definition captured_share :: "workJob \<Rightarrow> int" where
  "captured_share j = (if jr_feeCapturedAt j \<noteq> None then jr_price j else 0)"

definition fees_captured :: "workJob list \<Rightarrow> int" where
  "fees_captured jobs = sum_list (map captured_share jobs)"

definition held_of :: "string \<Rightarrow> balanceRow list \<Rightarrow> int" where
  "held_of a bs = (case balance_row a bs of None \<Rightarrow> 0 | Some r \<Rightarrow> bl_held r)"

definition job_ok :: "workJob \<Rightarrow> bool" where
  "job_ok j \<longleftrightarrow> normal_owner (jb_owner j) \<and> 0 \<le> jr_price j \<and> jr_price j \<le> MAX_SAFE_INTEGER
     \<and> (jr_price j = 0 \<longleftrightarrow> jb_protocol j)
     \<and> (jr_feeCapturedAt j \<noteq> None \<longleftrightarrow> jr_status j = JobDone)
     \<and> (jr_status j = JobQueued \<longrightarrow> jb_commitment j = None \<and> jb_challengeExpiresAt j = None)
     \<and> (jr_status j = JobAssigned \<longrightarrow> jr_node j \<noteq> None \<and> jb_sigma j \<noteq> None \<and> jb_expiresAt j \<noteq> None
          \<and> (jb_challengeExpiresAt j \<noteq> None \<longleftrightarrow> jb_commitment j \<noteq> None))
     \<and> (jb_commitment j \<noteq> None \<longrightarrow> jb_challenge j \<noteq> None)
     \<and> 0 \<le> jb_attempts j \<and> jb_attempts j \<le> MAX_JOB_ATTEMPTS \<and> (unfinished j \<longrightarrow> jb_attempts j < MAX_JOB_ATTEMPTS)"

definition jobs_inv :: "workJob list \<Rightarrow> balanceRow list \<Rightarrow> int \<Rightarrow> bool" where
  "jobs_inv jobs bs paid \<longleftrightarrow> distinct (map jr_id jobs) \<and> distinct (busy_nodes jobs) \<and> bal_inv bs \<and> (\<forall>j \<in> set jobs. job_ok j)
     \<and> (\<forall>a. held_of a bs = open_price a jobs) \<and> bal_total bs + fees_captured jobs = paid
     \<and> (\<forall>j \<in> set jobs. unfinished j \<longrightarrow> balance_row (jb_owner j) bs \<noteq> None)"

abbreviation st_inv :: "'d jobsState \<Rightarrow> int \<Rightarrow> bool" where
  "st_inv st paid \<equiv> jobs_inv (js_jobs st) (js_balances st) paid"

lemma jobs_invD:
  assumes "jobs_inv jobs bs paid"
  shows "distinct (map jr_id jobs)" and "distinct (busy_nodes jobs)" and "bal_inv bs" and "j \<in> set jobs \<Longrightarrow> job_ok j"
    and "held_of a bs = open_price a jobs" and "bal_total bs + fees_captured jobs = paid"
    and "j \<in> set jobs \<Longrightarrow> unfinished j \<Longrightarrow> balance_row (jb_owner j) bs \<noteq> None"
  using assms by (simp_all add: jobs_inv_def)

lemma same_job: "distinct (map jr_id jobs) \<Longrightarrow> x \<in> set jobs \<Longrightarrow> y \<in> set jobs \<Longrightarrow> jr_id x = jr_id y \<Longrightarrow> x = (y :: workJob)"
  by (auto simp: distinct_map inj_on_def)

subsection \<open>Updates of the job table\<close>

lemma busy_Cons: "busy_nodes (x # xs) = (if jr_status x = JobAssigned then (case jr_node x of None \<Rightarrow> busy_nodes xs | Some n \<Rightarrow> n # busy_nodes xs)
    else busy_nodes xs)"
  by (simp add: busy_nodes_def map_filter_simps split: option.split)

lemma busy_Nil [simp]: "busy_nodes [] = []"
  by (simp add: busy_nodes_def map_filter_simps)

lemma in_busy: "node \<in> set (busy_nodes jobs) \<longleftrightarrow> (\<exists>j \<in> set jobs. jr_status j = JobAssigned \<and> jr_node j = Some node)"
  by (induction jobs) (auto simp: busy_Cons split: option.splits)

lemma busy_keep:
  assumes "\<And>j. j \<in> set jobs \<Longrightarrow> P j \<Longrightarrow> jr_status (f j) = JobAssigned \<Longrightarrow> jr_status j = JobAssigned \<and> jr_node (f j) = jr_node j"
    and "distinct (busy_nodes jobs)"
  shows "distinct (busy_nodes (update_where P f jobs)) \<and> set (busy_nodes (update_where P f jobs)) \<subseteq> set (busy_nodes jobs)"
  using assms
proof (induction jobs)
  case (Cons x xs)
  have d: "distinct (busy_nodes xs)" using Cons.prems(2) by (auto simp: busy_Cons split: if_splits option.splits)
  have IH: "distinct (busy_nodes (update_where P f xs)) \<and> set (busy_nodes (update_where P f xs)) \<subseteq> set (busy_nodes xs)"
    using Cons.IH[OF _ d] Cons.prems(1) by simp
  have u: "update_where P f (x # xs) = (if P x then f x else x) # update_where P f xs" by (simp add: update_where_def)
  show ?case using IH Cons.prems(1)[of x] Cons.prems(2) unfolding u busy_Cons
    by (cases "P x"; cases "jr_node x") (auto split: if_splits option.splits)
qed (simp add: update_where_def)

lemma busy_assign:
  assumes "distinct (map jr_id jobs)" and "\<And>j. P j \<Longrightarrow> jr_id j = i" and "\<And>j. jr_node (f j) = Some node"
    and "node \<notin> set (busy_nodes jobs)" and "distinct (busy_nodes jobs)"
  shows "distinct (busy_nodes (update_where P f jobs)) \<and> set (busy_nodes (update_where P f jobs)) \<subseteq> insert node (set (busy_nodes jobs))"
  using assms(1,4,5)
proof (induction jobs)
  case (Cons x xs)
  have d: "distinct (busy_nodes xs)" "node \<notin> set (busy_nodes xs)"
    using Cons.prems(2,3) by (auto simp: busy_Cons split: if_splits option.splits)
  have IH: "distinct (busy_nodes (update_where P f xs)) \<and> set (busy_nodes (update_where P f xs)) \<subseteq> insert node (set (busy_nodes xs))"
    using Cons d by simp
  show ?case
  proof (cases "P x")
    case True
    then have "\<not> P y" if "y \<in> set xs" for y using that Cons.prems(1) assms(2) by force
    then have "update_where P f xs = xs" by (auto simp: update_where_def intro!: map_idI)
    then have u: "update_where P f (x # xs) = f x # xs" using True by (simp add: update_where_def)
    show ?thesis unfolding u busy_Cons using assms(3)[of x] d by (auto split: option.splits)
  next
    case False
    then have u: "update_where P f (x # xs) = x # update_where P f xs" by (simp add: update_where_def)
    show ?thesis unfolding u busy_Cons using IH Cons.prems(2,3) by (auto simp: busy_Cons split: if_splits option.splits)
  qed
qed (simp add: update_where_def)

definition keeps_money :: "workJob \<Rightarrow> workJob \<Rightarrow> bool" where
  "keeps_money j j' \<longleftrightarrow> jr_id j' = jr_id j \<and> jb_owner j' = jb_owner j \<and> jr_price j' = jr_price j \<and> unfinished j' = unfinished j
     \<and> jr_feeCapturedAt j' = jr_feeCapturedAt j"

lemma map_update_where_on:
  "(\<And>r. r \<in> set xs \<Longrightarrow> P r \<Longrightarrow> g (f r) = g r) \<Longrightarrow> map g (update_where P f xs) = map g xs"
  by (auto simp: update_where_def)

lemma neutral_update:
  assumes inv: "jobs_inv jobs bs paid"
    and ok: "\<And>j. j \<in> set jobs \<Longrightarrow> P j \<Longrightarrow> job_ok (f j) \<and> keeps_money j (f j)"
    and busy: "distinct (busy_nodes (update_where P f jobs))"
  shows "jobs_inv (update_where P f jobs) bs paid"
proof -
  note k = ok[unfolded keeps_money_def]
  have "map jr_id (update_where P f jobs) = map jr_id jobs" by (rule map_update_where_on) (use k in simp)
  moreover have "map (open_share a) (update_where P f jobs) = map (open_share a) jobs" for a
    by (rule map_update_where_on) (use k in \<open>simp add: open_share_def\<close>)
  moreover have "map captured_share (update_where P f jobs) = map captured_share jobs"
    by (rule map_update_where_on) (use k in \<open>simp add: captured_share_def\<close>)
  moreover have "job_ok j \<and> (unfinished j \<longrightarrow> balance_row (jb_owner j) bs \<noteq> None)" if "j \<in> set (update_where P f jobs)" for j
    using that ok k inv by (auto simp: update_where_def jobs_inv_def)
  ultimately show ?thesis using inv busy by (simp add: jobs_inv_def open_price_def fees_captured_def)
qed

lemmas neutral_keep = neutral_update[OF _ _ busy_keep[THEN conjunct1]]

text \<open>One job leaves the open ones, and its price leaves the held funds.\<close>

lemma sum_keyed_one:
  fixes g :: "workJob \<Rightarrow> int"
  assumes "distinct (map jr_id jobs)" and "j \<in> set jobs" and "P j" and "\<And>x. P x \<Longrightarrow> jr_id x = jr_id j"
  shows "sum_list (map g (update_where P f jobs)) = sum_list (map g jobs) + g (f j) - g j"
proof -
  obtain r where r: "find P jobs = Some r" using assms(2,3) by (metis find_None_iff not_None_eq)
  then have "r = j" using find_SomeD[OF r] assms same_job by blast
  then show ?thesis using sum_update_keyed[OF assms(1), of P "jr_id j" g f] assms(4) r by simp
qed

lemma settle_core:
  assumes inv: "jobs_inv jobs bs paid" and j: "j \<in> set jobs" "P j" and key: "\<And>x. P x \<Longrightarrow> jr_id x = jr_id j"
    and f: "job_ok (f j)" "\<not> unfinished (f j)" "unfinished j" "jr_id (f j) = jr_id j"
    and bal: "bal_inv bs'" "\<And>a. held_of a bs' = held_of a bs - open_share a j" "bal_total bs' = bal_total bs - captured_share (f j)"
      "\<And>a. balance_row a bs \<noteq> None \<Longrightarrow> balance_row a bs' \<noteq> None"
  shows "jobs_inv (update_where P f jobs) bs' paid"
proof -
  note d = jobs_invD(1)[OF inv]
  have only: "x = j" if "x \<in> set jobs" "P x" for x using that key same_job[OF d _ j(1)] by blast
  have ids: "map jr_id (update_where P f jobs) = map jr_id jobs" by (rule map_update_where_on) (use only f in auto)
  have busy: "distinct (busy_nodes (update_where P f jobs))"
    using busy_keep[of jobs P f] jobs_invD(2)[OF inv] only f(2) unfolding unfinished_def by blast
  have op: "open_price a (update_where P f jobs) = open_price a jobs - open_share a j" for a
    using sum_keyed_one[where P = P, OF d j key, where g = "open_share a" and f = f] f(2) by (simp add: open_price_def open_share_def)
  have "captured_share j = 0" using jobs_invD(4)[OF inv j(1)] f(3) by (auto simp: job_ok_def captured_share_def unfinished_def)
  then have cap: "fees_captured (update_where P f jobs) = fees_captured jobs + captured_share (f j)"
    using sum_keyed_one[where P = P, OF d j key, where g = captured_share and f = f] by (simp add: fees_captured_def)
  have "job_ok x \<and> (unfinished x \<longrightarrow> balance_row (jb_owner x) bs' \<noteq> None)" if "x \<in> set (update_where P f jobs)" for x
    using that only f bal(4) inv by (auto simp: update_where_def jobs_inv_def)
  then show ?thesis using inv ids busy op cap bal(1-3) by (simp add: jobs_inv_def)
qed

subsection \<open>Updates of the balances\<close>

lemma held_of_update:
  assumes "\<And>r. bl_address (g r) = bl_address r" and "\<And>r. Q r \<Longrightarrow> bl_address r = key"
  shows "held_of a (update_where Q g bs) = (case balance_row a bs of None \<Rightarrow> 0 | Some r \<Rightarrow> if Q r then bl_held (g r) else bl_held r)"
  unfolding held_of_def balance_row_def by (induction bs) (auto simp: update_where_def assms(1) split: if_splits)

lemma row_update:
  assumes "\<And>r. bl_address (g r) = bl_address r"
  shows "balance_row a (update_where Q g bs) = map_option (\<lambda>r. if Q r then g r else r) (balance_row a bs)"
  unfolding balance_row_def by (induction bs) (auto simp: update_where_def assms)

lemma row_address: "balance_row a bs = Some r \<Longrightarrow> bl_address r = a \<and> r \<in> set bs"
  unfolding balance_row_def by (drule find_SomeD) simp

lemma find_covers:
  assumes "bal_inv bs" and "balance_row key bs = Some r" and "covers_hold key u r"
  shows "find (covers_hold key u) bs = Some r"
proof -
  have "find (covers_hold key u) bs \<noteq> None" using assms(3) row_address[OF assms(2)] by (auto simp: find_None_iff)
  then obtain r' where r': "find (covers_hold key u) bs = Some r'" by blast
  then have "r' \<in> set bs" "bl_address r' = key" using find_SomeD[OF r'] keyed_conds(2) by auto
  then have "r' = r" using assms(1) row_address[OF assms(2)] by (auto simp: bal_inv_def distinct_map inj_on_def)
  then show ?thesis using r' by simp
qed

text \<open>What capturing or releasing the price of an open job does to the balances.\<close>

lemma open_price_ge:
  assumes "jobs_inv jobs bs paid" and "j \<in> set jobs" and "unfinished j"
  shows "jr_price j \<le> open_price (jb_owner j) jobs"
proof -
  have "open_share (jb_owner j) j \<le> sum_list (map (open_share (jb_owner j)) jobs)"
    by (rule member_le_sum_list) (use assms jobs_invD(4)[OF assms(1)] in \<open>auto simp: open_share_def job_ok_def\<close>)
  then show ?thesis using assms(3) by (simp add: open_price_def open_share_def)
qed

lemma owner_row:
  assumes "jobs_inv jobs bs paid" and "j \<in> set jobs" and "unfinished j"
  obtains r where "balance_row (jb_owner j) bs = Some r" and "covers_hold (jb_owner j) (jr_price j) r"
proof -
  obtain r where r: "balance_row (jb_owner j) bs = Some r" using jobs_invD(7)[OF assms] by blast
  have "jr_price j \<le> held_of (jb_owner j) bs" using open_price_ge[OF assms] jobs_invD(5)[OF assms(1)] by simp
  then have "covers_hold (jb_owner j) (jr_price j) r" using r row_address[OF r] by (simp add: held_of_def covers_hold_def)
  then show ?thesis using r that by blast
qed

lemma settle:
  assumes inv: "jobs_inv jobs bs paid" and j: "j \<in> set jobs" "P j" and key: "\<And>x. P x \<Longrightarrow> jr_id x = jr_id j"
    and f: "job_ok (f j)" "\<not> unfinished (f j)" "unfinished j" "jr_id (f j) = jr_id j" "jr_price (f j) = jr_price j"
    and g: "g = (if jr_feeCapturedAt (f j) = None then release_row (jr_price j) now else capture_row (jr_price j) now)"
  shows "jobs_inv (update_where P f jobs) (update_where (covers_hold (jb_owner j) (jr_price j)) g bs) paid"
proof -
  let ?Q = "covers_hold (jb_owner j) (jr_price j)" and ?bs = "update_where (covers_hold (jb_owner j) (jr_price j)) g bs"
  note binv = jobs_invD(3)[OF inv]
  obtain r where r: "balance_row (jb_owner j) bs = Some r" "?Q r" using owner_row[OF inv j(1) f(3)] by blast
  have p: "0 \<le> jr_price j" using jobs_invD(4)[OF inv j(1)] by (simp add: job_ok_def)
  have addr: "bl_address (g x) = bl_address x" for x using g by simp
  have h: "bl_held (g x) = bl_held x - jr_price j" for x using g by simp
  have "bal_inv ?bs" by (rule bal_inv_update[OF binv addr]) (use p g in \<open>auto simp: covers_hold_def\<close>)
  moreover have "held_of a ?bs = held_of a bs - open_share a j" for a
  proof (cases "a = jb_owner j")
    case True
    then show ?thesis using held_of_update[OF addr keyed_conds(2), where bs = bs] r f(3) h by (simp add: held_of_def open_share_def)
  next
    case False
    then have "\<not> ?Q x" if "balance_row a bs = Some x" for x using row_address[OF that] by (auto simp: covers_hold_def)
    then show ?thesis using held_of_update[OF addr keyed_conds(2), where bs = bs] False
      by (auto simp: held_of_def open_share_def split: option.splits)
  qed
  moreover have "bal_total ?bs = bal_total bs - captured_share (f j)"
    using bal_total_held[OF binv] find_covers[OF binv r] g f(5) by (auto simp: captured_share_def)
  moreover have "balance_row a ?bs \<noteq> None" if "balance_row a bs \<noteq> None" for a using that by (simp add: row_update[OF addr])
  ultimately show ?thesis by (intro settle_core[where P = P and f = f and j = j, OF inv j key f(1-4)])
qed

text \<open>The balances change with no effect on what is held, or with a new row.\<close>

lemma balances_change:
  assumes "jobs_inv jobs bs paid" and "bal_inv bs'" and "\<And>a. held_of a bs' = held_of a bs" and "bal_total bs' = bal_total bs + d"
    and "\<And>a. balance_row a bs \<noteq> None \<Longrightarrow> balance_row a bs' \<noteq> None"
  shows "jobs_inv jobs bs' (paid + d)"
  using assms unfolding jobs_inv_def by auto

lemma row_append: "balance_row a (bs @ [r]) = (case balance_row a bs of None \<Rightarrow> if bl_address r = a then Some r else None | Some x \<Rightarrow> Some x)"
  unfolding balance_row_def by (induction bs) auto

lemma credit_inv:
  assumes "jobs_inv jobs bs paid" and "0 \<le> u"
  shows "jobs_inv jobs (upsert_credit key u now bs) (paid + u)"
proof (rule balances_change[OF assms(1)])
  note b = upsert_credit_ok[OF jobs_invD(3)[OF assms(1)] assms(2)]
  show "bal_inv (upsert_credit key u now bs)" "bal_total (upsert_credit key u now bs) = bal_total bs + u" by (rule b)+
  show "held_of a (upsert_credit key u now bs) = held_of a bs" for a
    by (auto simp: upsert_credit_def held_of_def row_update row_append split: option.splits)
  show "balance_row a (upsert_credit key u now bs) \<noteq> None" if "balance_row a bs \<noteq> None" for a
    using that by (auto simp: upsert_credit_def row_update row_append)
qed

lemma ensure_inv:
  assumes "jobs_inv jobs bs paid"
  shows "jobs_inv jobs (ensure_row key now bs) paid \<and> balance_row key (ensure_row key now bs) \<noteq> None"
proof
  have "balance_row key bs = None \<Longrightarrow> \<forall>r \<in> set bs. bl_address r \<noteq> key" by (simp add: balance_row_def find_None_iff)
  then have "jobs_inv jobs (ensure_row key now bs) (paid + 0)"
    by (intro balances_change[OF assms]) (use jobs_invD(3)[OF assms] in
      \<open>auto simp: ensure_row_def bal_inv_def bal_total_def held_of_def row_append split: option.splits\<close>)
  then show "jobs_inv jobs (ensure_row key now bs) paid" by simp
  show "balance_row key (ensure_row key now bs) \<noteq> None" by (auto simp: ensure_row_def row_append)
qed

subsection \<open>New and dropped jobs\<close>

lemma busy_append: "busy_nodes (xs @ ys) = busy_nodes xs @ busy_nodes ys"
  by (induction xs) (auto simp: busy_Cons split: option.splits)

lemma busy_queued: "\<forall>j \<in> set js. jr_status j = JobQueued \<Longrightarrow> busy_nodes js = []"
  by (induction js) (auto simp: busy_Cons)

lemma sum_list_zero: "(\<And>x. x \<in> set xs \<Longrightarrow> f x = (0::int)) \<Longrightarrow> sum_list (map f xs) = 0"
  by (induction xs) auto

lemma append_inv:
  assumes inv: "jobs_inv jobs bs paid" and new: "\<forall>j \<in> set js. job_ok j \<and> jr_status j = JobQueued"
    and ids: "distinct (map jr_id js)" "set (map jr_id js) \<inter> set (map jr_id jobs) = {}"
    and bal: "bal_inv bs'" "\<And>a. held_of a bs' = held_of a bs + open_price a js" "bal_total bs' = bal_total bs"
      "\<And>a. balance_row a bs \<noteq> None \<Longrightarrow> balance_row a bs' \<noteq> None" "\<And>j. j \<in> set js \<Longrightarrow> balance_row (jb_owner j) bs' \<noteq> None"
  shows "jobs_inv (jobs @ js) bs' paid"
proof -
  have "fees_captured js = 0" unfolding fees_captured_def
    by (rule sum_list_zero) (use new in \<open>auto simp: captured_share_def job_ok_def\<close>)
  then show ?thesis using inv new ids bal busy_queued[of js] unfolding jobs_inv_def
    by (auto simp: busy_append open_price_def fees_captured_def)
qed

lemma filter_inv:
  assumes inv: "jobs_inv jobs bs paid" and drop: "\<And>j. j \<in> set jobs \<Longrightarrow> \<not> P j \<Longrightarrow> jr_price j = 0"
  shows "jobs_inv (filter P jobs) bs paid"
proof -
  have zero: "sum_list (map g (filter P xs)) = sum_list (map g xs)" if "\<And>j. j \<in> set xs \<Longrightarrow> \<not> P j \<Longrightarrow> g j = 0" for g :: "workJob \<Rightarrow> int" and xs
    using that by (induction xs) auto
  have "open_price a (filter P jobs) = open_price a jobs" for a
    unfolding open_price_def by (rule zero) (use drop in \<open>auto simp: open_share_def\<close>)
  moreover have "fees_captured (filter P jobs) = fees_captured jobs"
    unfolding fees_captured_def by (rule zero) (use drop in \<open>auto simp: captured_share_def\<close>)
  moreover have "distinct (busy_nodes (filter P xs)) \<and> set (busy_nodes (filter P xs)) \<subseteq> set (busy_nodes xs)"
    if "distinct (busy_nodes xs)" for xs using that
    by (induction xs) (auto simp: busy_Cons split: if_splits option.splits)
  ultimately show ?thesis using inv by (auto simp: jobs_inv_def distinct_map inj_on_def)
qed

subsection \<open>Holds\<close>

lemma row_of: "bal_inv bs \<Longrightarrow> r \<in> set bs \<Longrightarrow> balance_row (bl_address r) bs = Some r"
  unfolding balance_row_def bal_inv_def by (induction bs) auto

lemma hold_effect:
  assumes inv: "jobs_inv jobs bs paid" and owner: "normal_owner owner" and h: "hold owner price now bs = Inr (bs', Some res)"
  shows "0 < price" and "price \<le> MAX_SAFE_INTEGER" and "bal_inv bs'" and "bal_total bs' = bal_total bs"
    and "held_of a bs' = held_of a bs + (if a = owner then price else 0)"
    and "balance_row a bs \<noteq> None \<Longrightarrow> balance_row a bs' \<noteq> None" and "balance_row owner bs' \<noteq> None"
proof -
  let ?Q = "spendable owner price"
  have bs': "bs' = update_where ?Q (hold_row price now) bs" and hit: "find ?Q bs \<noteq> None"
    and p: "0 < price" "price \<le> MAX_SAFE_INTEGER"
    using h owner by (auto simp: hold_def Let_def assertUcld_def normal_owner_def split: if_splits)
  show "0 < price" "price \<le> MAX_SAFE_INTEGER" by (rule p)+
  show "bal_inv bs'" "bal_total bs' = bal_total bs" using hold_ok[OF jobs_invD(3)[OF inv] h] by simp_all
  obtain r where r: "find ?Q bs = Some r" using hit by blast
  then have r': "balance_row owner bs = Some r" "?Q r"
    using row_of[OF jobs_invD(3)[OF inv]] find_SomeD[OF r] keyed_conds(1) by auto
  have "\<not> ?Q x" if "balance_row a bs = Some x" "a \<noteq> owner" for x using row_address[OF that(1)] that(2) by (auto simp: spendable_def)
  then show "held_of a bs' = held_of a bs + (if a = owner then price else 0)"
    using r' unfolding bs' by (auto simp: held_of_def row_update split: option.splits)
  show "balance_row a bs \<noteq> None \<Longrightarrow> balance_row a bs' \<noteq> None" "balance_row owner bs' \<noteq> None"
    unfolding bs' using r'(1) by (auto simp: row_update)
qed

text \<open>A hold that is released at once leaves the held funds as they were.\<close>

lemma hold_release:
  assumes inv: "jobs_inv jobs bs paid" and owner: "normal_owner owner" and h: "hold owner price now bs = Inr (bs', Some res)"
    and rel: "release owner price now bs' = Inr (bs'', ok)"
  shows "jobs_inv jobs bs'' paid"
proof -
  note e = hold_effect[OF inv owner h]
  let ?Q = "covers_hold owner price"
  have bs'': "bs'' = update_where ?Q (release_row price now) bs'"
    using rel owner by (auto simp: release_def Let_def normal_owner_def split: if_splits)
  have ok: "bal_inv bs'' \<and> bal_total bs'' = bal_total bs'" by (rule release_ok[OF e(3) rel])
  have held: "held_of a bs'' = held_of a bs" for a
  proof (cases "a = owner")
    case True
    obtain r where r: "balance_row owner bs' = Some r" using e(7) by blast
    have "0 \<le> open_price owner jobs" unfolding open_price_def
      by (rule sum_list_nonneg) (use jobs_invD(4)[OF inv] in \<open>auto simp: open_share_def job_ok_def\<close>)
    then have "?Q r" using r e(5)[of owner] jobs_invD(5)[OF inv, of owner] row_address[OF r] by (simp add: held_of_def covers_hold_def)
    then show ?thesis using True r e(5)[of owner] unfolding bs'' by (simp add: held_of_def row_update)
  next
    case False
    then have "\<not> ?Q x" if "balance_row a bs' = Some x" for x using row_address[OF that] by (auto simp: covers_hold_def)
    then show ?thesis using e(5)[of a] False unfolding bs'' by (auto simp: held_of_def row_update split: option.splits)
  qed
  have rowsok: "balance_row a bs'' \<noteq> None" if "balance_row a bs \<noteq> None" for a
    using e(6)[OF that] unfolding bs'' by (auto simp: row_update)
  have "jobs_inv jobs bs'' (paid + 0)"
    by (rule balances_change[OF inv]) (use ok held rowsok e(4) in simp_all)
  then show ?thesis by simp
qed

subsection \<open>Assignment\<close>

lemma update_comp_keyed:
  assumes "\<And>x. P x \<Longrightarrow> Q (g x)" and "\<And>x. Q x \<Longrightarrow> P x"
  shows "update_where Q f (update_where P g xs) = update_where P (\<lambda>x. f (g x)) xs"
  using assms by (auto simp: update_where_def)

lemma clear_ok: "job_ok j \<Longrightarrow> expired now j \<Longrightarrow> job_ok (CLEAR_ASSIGNMENT j) \<and> keeps_money j (CLEAR_ASSIGNMENT j)"
  by (auto simp: job_ok_def CLEAR_ASSIGNMENT_def keeps_money_def unfinished_def expired_def)

lemma assign_one_inv:
  assumes "jobs_inv jobs bs paid" and "assign_one rt env nonce src now lv wt i draw pool jobs = (jobs', hit)"
  shows "jobs_inv jobs' bs paid"
proof -
  obtain node seed el where d: "draw = (node, seed, el)" by (cases draw)
  let ?P = "assignable i node jobs"
  obtain sg eh cl ok ex where j': "jobs' = update_where ?P (assign_row node sg src seed eh cl ok now ex) jobs"
    using assms(2) by (auto simp: assign_one_def d Let_def)
  let ?f = "assign_row node sg src seed eh cl ok now ex"
  note inv = assms(1)
  show ?thesis
  proof (cases "\<exists>j \<in> set jobs. ?P j")
    case False
    then have "jobs' = jobs" unfolding j' by (auto simp: update_where_def intro!: map_idI)
    then show ?thesis using inv by simp
  next
    case True
    then have free: "node \<notin> set (busy_nodes jobs)" by (auto simp: assignable_def in_busy list_ex_iff)
    have "distinct (busy_nodes (update_where ?P ?f jobs))"
      using busy_assign[OF jobs_invD(1)[OF inv] _ _ free jobs_invD(2)[OF inv], where P = ?P and f = ?f]
      by (auto simp: assignable_def assign_row_def)
    then show ?thesis unfolding j'
      by (intro neutral_update[OF inv]) (use jobs_invD(4)[OF inv] in
        \<open>auto simp: assignable_def job_ok_def assign_row_def keeps_money_def unfinished_def\<close>)
  qed
qed

lemma assign_loop_inv: "jobs_inv jobs bs paid \<Longrightarrow> jobs_inv (fst (assign_loop rt env nonce src now lv queued pool jobs)) bs paid"
proof (induction queued arbitrary: pool jobs)
  case (Cons q queued)
  obtain i w where q: "q = (i, w)" by (cases q)
  show ?case
  proof (cases "getWorkType w")
    case (Some wt)
    show ?thesis
    proof (cases "draw_node rt src i wt pool")
      case (Some draw)
      obtain jobs' hit where one: "assign_one rt env nonce src now lv wt i draw pool jobs = (jobs', hit)" by fastforce
      have inv: "jobs_inv jobs' bs paid" by (rule assign_one_inv[OF Cons.prems one])
      let ?pool = "filter (\<lambda>r. nd_address r \<noteq> fst draw) pool"
      have "fst (assign_loop rt env nonce src now lv (q # queued) pool jobs)
          = (if ?pool = [] then jobs' else fst (assign_loop rt env nonce src now lv queued ?pool jobs'))"
        using \<open>getWorkType w = Some wt\<close> Some one by (simp add: q Let_def split: prod.split)
      then show ?thesis using Cons.IH[OF inv] inv by simp
    qed (use Cons \<open>getWorkType w = Some wt\<close> q in simp)
  qed (use Cons q in simp)
qed simp

lemma expire_inv: "jobs_inv jobs bs paid \<Longrightarrow> jobs_inv (update_where (expired now) CLEAR_ASSIGNMENT jobs) bs paid"
  by (rule neutral_keep) (use clear_ok jobs_invD(2,4) in \<open>auto simp: CLEAR_ASSIGNMENT_def\<close>)

lemma runAssignment_inv: "st_inv st paid \<Longrightarrow> st_inv (fst (runAssignment rt env nonce rpc now st)) paid"
proof -
  assume inv: "st_inv st paid"
  define jobs where "jobs = update_where (expired now) CLEAR_ASSIGNMENT (js_jobs st)"
  have e: "jobs_inv jobs (js_balances st) paid" unfolding jobs_def by (rule expire_inv[OF inv])
  have "\<exists>src lv q pool. fst (runAssignment rt env nonce rpc now st) = st\<lparr>js_jobs := jobs\<rparr>
     \<or> fst (runAssignment rt env nonce rpc now st) = st\<lparr>js_jobs := fst (assign_loop rt env nonce src now lv q pool jobs)\<rparr>"
    unfolding runAssignment_def Let_def jobs_def[symmetric] by (simp add: case_prod_beta) blast
  then show ?thesis using e assign_loop_inv[OF e] by auto
qed

end
