(* ===== verification/JobsRun.thy ===== *)
theory JobsRun
  imports JobsInv
begin

text \<open>
  Every operation of the job service keeps \<open>jobs_inv\<close>; the runs of the service (\<open>jobs_run\<close>) and what follows for them.
\<close>

subsection \<open>What the operations leave alone\<close>

lemma tables_simps [simp]:
  "js_jobs (write_rewards s st) = js_jobs st" "js_balances (write_rewards s st) = js_balances st"
  "js_jobs (suspend_caught i n w t st) = js_jobs st" "js_balances (suspend_caught i n w t st) = js_balances st"
  "js_jobs (caughtStatements env i n p w t st) = js_jobs st" "js_balances (caughtStatements env i n p w t st) = js_balances st"
  "js_jobs (afterCaught rq n w t st) = js_jobs st" "js_balances (afterCaught rq n w t st) = js_balances st"
  "js_jobs (fst (creditNode n r j u c sp t st)) = js_jobs st" "js_balances (fst (creditNode n r j u c sp t st)) = js_balances st"
  by (simp_all add: write_rewards_def suspend_caught_def caughtStatements_def afterCaught_def creditNode_def)

text \<open>The row of a job that the operation read at its start.\<close>

definition current :: "workJob \<Rightarrow> string \<Rightarrow> 'd jobsState \<Rightarrow> bool" where
  "current job node st \<longleftrightarrow> job \<in> set (js_jobs st) \<and> assigned_to (jr_id job) node job"

lemma assigned_keyed: "assigned_to i node x \<Longrightarrow> jr_id x = i"
  by (simp add: assigned_to_def)

lemma currentD:
  assumes "st_inv st paid" and "current job node st"
  shows "job \<in> set (js_jobs st)" and "unfinished job" and "job_ok job" and "assigned_to (jr_id job) node job"
    and "changes (assigned_to (jr_id job) node) (js_jobs st) > 0"
    and "x \<in> set (js_jobs st) \<Longrightarrow> jr_id x = jr_id job \<Longrightarrow> x = job"
proof -
  show j: "job \<in> set (js_jobs st)" "assigned_to (jr_id job) node job" using assms(2) by (simp_all add: current_def)
  show "unfinished job" using j(2) by (simp add: assigned_to_def unfinished_def)
  show "job_ok job" by (rule jobs_invD(4)[OF assms(1) j(1)])
  show "changes (assigned_to (jr_id job) node) (js_jobs st) > 0" using j by (auto simp: changes_find find_None_iff)
  show "x \<in> set (js_jobs st) \<Longrightarrow> jr_id x = jr_id job \<Longrightarrow> x = job" using same_job[OF jobs_invD(1)[OF assms(1)] _ j(1)] .
qed

lemma release_open:
  assumes "job_ok job"
  shows "release (jb_owner job) (jr_price job) now bs =
    (if jb_protocol job then Inl (BadUcld 0)
     else Inr (update_where (covers_hold (jb_owner job) (jr_price job)) (release_row (jr_price job) now) bs,
               changes (covers_hold (jb_owner job) (jr_price job)) bs > 0))"
  using assms by (auto simp: release_def job_ok_def normal_owner_def assertUcld_def Let_def)

text \<open>A job that goes from assigned to failed while its hold goes back.\<close>

lemma failed_row_inv:
  assumes inv: "st_inv st paid" and cur: "current job node st"
    and f: "job_ok (f job)" "jr_status (f job) = JobFailed" "jr_id (f job) = jr_id job" "jr_price (f job) = jr_price job"
  shows "jobs_inv (update_where (assigned_to (jr_id job) node) f (js_jobs st))
    (update_where (covers_hold (jb_owner job) (jr_price job)) (release_row (jr_price job) now) (js_balances st)) paid"
  by (rule settle[where P = "assigned_to (jr_id job) node" and j = job and f = f and now = now, OF inv])
    (use currentD[OF inv cur] f in \<open>auto simp: assigned_to_def unfinished_def job_ok_def\<close>)

text \<open>A protocol job has no hold to give back.\<close>

lemma failed_protocol_inv:
  assumes inv: "st_inv st paid" and cur: "current job node st" and pr: "jb_protocol job"
    and f: "job_ok (f job)" "jr_status (f job) = JobFailed" "jr_id (f job) = jr_id job" "jr_price (f job) = jr_price job"
  shows "jobs_inv (update_where (assigned_to (jr_id job) node) f (js_jobs st)) (js_balances st) paid"
proof -
  have z: "jr_price job = 0" using currentD(3)[OF inv cur] pr by (simp add: job_ok_def)
  show ?thesis
    by (rule settle_core[where P = "assigned_to (jr_id job) node" and j = job and f = f, OF inv])
      (use currentD[OF inv cur] f z jobs_invD(3)[OF inv] in
        \<open>auto simp: assigned_to_def unfinished_def job_ok_def open_share_def captured_share_def\<close>)
qed

subsection \<open>Refusals\<close>

lemma refuse_inv:
  assumes inv: "st_inv st paid" and cur: "current job node st" and nc: "jb_commitment job = None"
  shows "st_inv (fst (refuse job node why now st)) paid"
proof -
  note c = currentD[OF inv cur]
  show ?thesis
  proof (cases "giveUp job")
    case True
    have ok: "job_ok (give_up now job)" using c(2,3,4) nc True
      by (auto simp: job_ok_def give_up_def unfinished_def assigned_to_def giveUp_def)
    have f: "jr_status (give_up now job) = JobFailed" "jr_id (give_up now job) = jr_id job" "jr_price (give_up now job) = jr_price job"
      by (simp_all add: give_up_def)
    show ?thesis
    proof (cases "jb_protocol job")
      case p: True
      show ?thesis using failed_protocol_inv[where f = "give_up now", OF inv cur p ok f] True c(5) p by (simp add: refuse_def Let_def release_open[OF c(3)])
    next
      case False
      show ?thesis using failed_row_inv[where f = "give_up now", OF inv cur ok f] True c(5) False by (simp add: refuse_def Let_def release_open[OF c(3)])
    qed
  next
    case False
    have "job_ok (retry job) \<and> keeps_money job (retry job)" using c(2,3,4) nc False
      by (auto simp: job_ok_def retry_def CLEAR_ASSIGNMENT_def unfinished_def assigned_to_def giveUp_def keeps_money_def)
    then have "jobs_inv (update_where (assigned_to (jr_id job) node) retry (js_jobs st)) (js_balances st) paid"
      by (intro neutral_keep[OF inv]) (use c(6) assigned_keyed jobs_invD(2)[OF inv] in \<open>auto simp: retry_def CLEAR_ASSIGNMENT_def\<close>)
    then show ?thesis using False by (simp add: refuse_def Let_def)
  qed
qed

subsection \<open>Bookings\<close>

text \<open>With the invariant, the fee of a job that is booked is always authorised and captured.\<close>

lemma book_effect:
  assumes inv: "st_inv st paid" and cur: "current job node st"
  shows "js_jobs (fst (bookVerified env uuids job node payout now out st))
      = update_where (assigned_to (jr_id job) node) (\<lambda>j. finish_row out now (authorise now j)) (js_jobs st)"
    and "js_balances (fst (bookVerified env uuids job node payout now out st))
      = update_where (covers_hold (jb_owner job) (jr_price job)) (capture_row (jr_price job) now) (js_balances st)"
    and "snd (bookVerified env uuids job node payout now out st) = Booked True (snd (job_rewards env uuids job node payout now out))"
proof -
  note c = currentD[OF inv cur]
  let ?A = "assigned_to (jr_id job) node" and ?Q = "covers_hold (jb_owner job) (jr_price job)"
  have own: "normalizeAddress (jb_owner job) = jb_owner job" using c(3) by (simp add: job_ok_def normal_owner_def)
  obtain r where r: "balance_row (jb_owner job) (js_balances st) = Some r" "?Q r" using owner_row[OF inv c(1,2)] by blast
  then have cover: "list_ex ?Q (js_balances st)" using row_address[OF r(1)] by (auto simp: list_ex_iff)
  have fee: "jr_feeCapturedAt job = None" using c(2,3) by (auto simp: job_ok_def unfinished_def)
  have auth: "authorisable job node (js_balances st) x = ?A x" if "x \<in> set (js_jobs st)" for x
    using c(6)[OF that] cover fee own by (auto simp: authorisable_def assigned_to_def)
  then have upd: "update_where (authorisable job node (js_balances st)) g (js_jobs st) = update_where ?A g (js_jobs st)" for g
    by (auto simp: update_where_def)
  have "filter (authorisable job node (js_balances st)) (js_jobs st) = filter ?A (js_jobs st)" by (rule filter_cong) (use auth in simp_all)
  then have cap: "changes (authorisable job node (js_balances st)) (js_jobs st) > 0" using c(5) by (simp add: changes_def)
  let ?jobs = "update_where ?A (authorise now) (js_jobs st)"
  have "authorise now job \<in> set ?jobs" using c(1,4) by (force simp: update_where_def)
  moreover have "authorised job node now (authorise now job)" using c(4) by (simp add: authorised_def authorise_def assigned_to_def)
  ultimately have run: "list_ex (authorised job node now) ?jobs" by (auto simp: list_ex_iff)
  have comp: "update_where ?A (finish_row out now) ?jobs = update_where ?A (\<lambda>j. finish_row out now (authorise now j)) (js_jobs st)"
    by (auto simp: update_where_def authorise_def assigned_to_def)
  have hit: "changes ?A ?jobs = changes ?A (js_jobs st)"
  proof -
    have "(?A \<circ> (\<lambda>r. if ?A r then authorise now r else r)) = ?A" by (rule ext) (simp add: authorise_def assigned_to_def)
    then show ?thesis by (simp add: changes_def update_where_def filter_map)
  qed
  let ?st1 = "capture_fee job node now (authorise_fee job node now st)"
  have st1: "js_jobs ?st1 = ?jobs" "js_balances ?st1 = update_where ?Q (capture_row (jr_price job) now) (js_balances st)"
    using run by (simp_all add: capture_fee_def authorise_fee_def upd own)
  show "js_jobs (fst (bookVerified env uuids job node payout now out st))
      = update_where (assigned_to (jr_id job) node) (\<lambda>j. finish_row out now (authorise now j)) (js_jobs st)"
    by (simp add: bookVerified_def case_prod_beta Let_def finish_job_def st1 comp)
  show "js_balances (fst (bookVerified env uuids job node payout now out st))
      = update_where (covers_hold (jb_owner job) (jr_price job)) (capture_row (jr_price job) now) (js_balances st)"
    by (simp add: bookVerified_def case_prod_beta Let_def finish_job_def st1)
  show "snd (bookVerified env uuids job node payout now out st) = Booked True (snd (job_rewards env uuids job node payout now out))"
    using cap c(5) by (simp add: bookVerified_def case_prod_beta Let_def st1 hit)
qed

lemma book_inv:
  assumes inv: "st_inv st paid" and cur: "current job node st"
  shows "st_inv (fst (bookVerified env uuids job node payout now out st)) paid"
  unfolding book_effect(1,2)[OF inv cur]
  by (rule settle[where P = "assigned_to (jr_id job) node" and j = job and f = "\<lambda>j. finish_row out now (authorise now j)" and now = now, OF inv])
    (use currentD[OF inv cur] in \<open>auto simp: assigned_to_def unfinished_def job_ok_def finish_row_def authorise_def\<close>)

lemma book_inline_inv:
  assumes "st_inv st paid" and "current job node st"
  shows "st_inv (fst (book_inline env rq uuids job node r u now out st)) paid"
proof -
  obtain st1 b where b: "bookVerified env uuids job node (payout_of r) now out st = (st1, b)" by fastforce
  then have "st_inv st1 paid" using book_inv[OF assms, of env uuids "payout_of r" now out] by simp
  then show ?thesis by (simp add: book_inline_def b split: booked.split)
qed

lemma submitInline_inv:
  assumes "st_inv st paid" and "current job node st" and "jb_commitment job = None"
  shows "st_inv (fst (submitInline rt env rq rnd uuids job node r wt cert result now st)) paid"
  using assms book_inline_inv[OF assms(1,2)] refuse_inv[OF assms]
  by (simp add: submitInline_def Let_def split: option.split verdict.split)

lemma submitCommitment_inv:
  assumes inv: "st_inv st paid" and cur: "current job node st" and nc: "jb_commitment job = None"
  shows "st_inv (fst (submitCommitment rt env job node p wt c result now st)) paid"
proof -
  have upd: "jobs_inv (update_where (committable job node now) (commit_row c result segs dl p) (js_jobs st)) (js_balances st) paid" for c result segs dl
    by (rule neutral_keep[OF inv])
      (use currentD[OF inv cur] jobs_invD(2)[OF inv] in
        \<open>auto simp: committable_def assigned_to_def commit_row_def job_ok_def unfinished_def keeps_money_def\<close>)
  show ?thesis using inv upd refuse_inv[OF inv cur nc]
    by (simp add: submitCommitment_def Let_def split: option.split verdict.split)
qed

lemma getWorkJob_found: "getWorkJob i jobs = Some g \<Longrightarrow> g \<in> set jobs \<and> jr_id g = i"
  unfolding getWorkJob_def by (drule find_SomeD) (simp add: is_job_def)

lemma submitWork_inv:
  assumes inv: "st_inv st paid"
  shows "st_inv (fst (submitWork rt env rq rnd uuids nodeAddress input now st)) paid"
proof (cases "getWorkJob (sub_jobId input) (js_jobs st)")
  case None
  then show ?thesis using inv by (simp add: submitWork_def Let_def)
next
  case (Some g)
  let ?node = "normalizeAddress nodeAddress"
  show ?thesis
  proof (cases "jb_commitment g = None \<and> jr_status g = JobAssigned \<and> jr_node g = Some ?node")
    case True
    then have cur: "current g ?node st" using getWorkJob_found[OF Some] by (simp add: current_def assigned_to_def)
    show ?thesis using Some True inv submitCommitment_inv[OF inv cur] submitInline_inv[OF inv cur]
      by (simp add: submitWork_def Let_def split: option.split workSubmission.split)
  next
    case False
    then show ?thesis using Some inv by (auto simp: submitWork_def Let_def)
  qed
qed

subsection \<open>Failed challenges and answers\<close>

text \<open>\<open>job\<close> may be a snapshot: what counts is that the row with its id still has its owner and price.\<close>

definition snapshot :: "workJob \<Rightarrow> workJob list \<Rightarrow> bool" where
  "snapshot job jobs \<longleftrightarrow> normal_owner (jb_owner job) \<and> (\<forall>j \<in> set jobs. jr_id j = jr_id job \<longrightarrow> jb_owner j = jb_owner job \<and> jr_price j = jr_price job)"

definition caught_jobs :: "workJob \<Rightarrow> string \<Rightarrow> int \<Rightarrow> workJob list \<Rightarrow> workJob list" where
  "caught_jobs job node now jobs = update_where (assigned_to (jr_id job) node) (fail_row now) jobs"

lemma caught_effect:
  "js_jobs (fst (caughtChallenge env rq job node r why now st)) = caught_jobs job node now (js_jobs st)"
  "js_balances (fst (caughtChallenge env rq job node r why now st)) =
     (if still_assigned_job (jr_id job) node (js_jobs st)
      then update_where (covers_hold (normalizeAddress (jb_owner job)) (jr_price job)) (release_row (jr_price job) now) (js_balances st)
      else js_balances st)"
  by (simp_all add: caughtChallenge_def Let_def refund_def caught_jobs_def)

lemma caught_inv:
  assumes inv: "st_inv st paid" and snap: "snapshot job (js_jobs st)"
  shows "st_inv (fst (caughtChallenge env rq job node r why now st)) paid"
proof (cases "still_assigned_job (jr_id job) node (js_jobs st)")
  case True
  then obtain j where j: "j \<in> set (js_jobs st)" "assigned_to (jr_id job) node j" by (auto simp: still_assigned_job_def list_ex_iff)
  then have id: "jr_id j = jr_id job" by (simp add: assigned_to_def)
  then have cur: "current j node st" using j by (simp add: current_def)
  have same: "jb_owner j = jb_owner job" "jr_price j = jr_price job" using snap j(1) id by (auto simp: snapshot_def)
  have ok: "job_ok (fail_row now j)" using currentD(2,3,4)[OF inv cur]
    by (auto simp: job_ok_def fail_row_def unfinished_def assigned_to_def)
  have own: "normalizeAddress (jb_owner job) = jb_owner job" using snap by (simp add: snapshot_def normal_owner_def)
  have "jobs_inv (update_where (assigned_to (jr_id j) node) (fail_row now) (js_jobs st))
      (update_where (covers_hold (jb_owner j) (jr_price j)) (release_row (jr_price j) now) (js_balances st)) paid"
    by (rule failed_row_inv[where f = "fail_row now", OF inv cur ok]) (simp_all add: fail_row_def)
  then show ?thesis using True by (simp add: caught_effect caught_jobs_def id same own)
next
  case False
  then have "caught_jobs job node now (js_jobs st) = js_jobs st"
    by (auto simp: caught_jobs_def update_where_def still_assigned_job_def list_ex_iff intro!: map_idI)
  then show ?thesis using inv False by (simp add: caught_effect)
qed

lemma snapshot_self: "st_inv st paid \<Longrightarrow> job \<in> set (js_jobs st) \<Longrightarrow> snapshot job (js_jobs st)"
  using same_job jobs_invD(1,4) by (fastforce simp: snapshot_def job_ok_def)

lemma snapshot_caught: "snapshot x jobs \<Longrightarrow> snapshot x (caught_jobs job node now jobs)"
  by (auto simp: snapshot_def caught_jobs_def update_where_def fail_row_def)

lemma sweep_loop_inv:
  "st_inv st paid \<Longrightarrow> \<forall>j \<in> set jobs. snapshot j (js_jobs st) \<Longrightarrow> st_inv (fst (sweep_loop env rq now jobs st)) paid"
proof (induction jobs arbitrary: st)
  case (Cons job jobs)
  show ?case
  proof (cases "jr_node job")
    case (Some node)
    let ?st = "fst (caughtChallenge env rq job node (getNode node (js_nodes st)) NoAnswer now st)"
    have inv: "st_inv ?st paid" using Cons.prems by (intro caught_inv) simp_all
    have "\<forall>j \<in> set jobs. snapshot j (js_jobs ?st)" using Cons.prems(2) by (simp add: caught_effect snapshot_caught)
    from Cons.IH[OF inv this] Some show ?thesis by (simp add: case_prod_beta)
  qed (use Cons in simp)
qed simp

lemma sweep_inv: "st_inv st paid \<Longrightarrow> st_inv (fst (sweepChallenges env rq now limit st)) paid"
  unfolding sweepChallenges_def
  by (rule sweep_loop_inv) (auto dest!: in_set_takeD simp: sort_by_props intro: snapshot_self)

lemma misfit_inv:
  assumes inv: "st_inv st paid" and cur: "current job node st"
  shows "st_inv (fst (fail_misfit job node now st)) paid"
proof -
  note c = currentD[OF inv cur]
  have ok: "job_ok (misfit_row now job)" using c(2,3,4) by (auto simp: job_ok_def misfit_row_def unfinished_def assigned_to_def)
  have f: "jr_status (misfit_row now job) = JobFailed" "jr_id (misfit_row now job) = jr_id job" "jr_price (misfit_row now job) = jr_price job"
    by (simp_all add: misfit_row_def)
  show ?thesis
    using failed_protocol_inv[where f = "misfit_row now", OF inv cur _ ok f] failed_row_inv[where f = "misfit_row now", OF inv cur ok f] c(5)
    by (simp add: fail_misfit_def Let_def release_open[OF c(3)])
qed

lemma book_answer_inv:
  assumes "st_inv st paid" and "current job node st"
  shows "st_inv (fst (book_answer env uuids job node r u now st)) paid"
proof -
  let ?out = "\<lparr>bo_result = jb_result job, bo_certZ = jb_certZ job, bo_sampleCheck = Some SamplePassed, bo_caught = False, bo_units = None\<rparr>"
  have "st_inv st1 paid" if "bookVerified env uuids job node p now ?out st = (st1, b)" for p st1 b
    using book_inv[OF assms, of env uuids p now ?out] that by simp
  then show ?thesis using assms(1) by (simp add: book_answer_def Let_def split: option.split prod.split booked.split)
qed

lemma answer_inv:
  assumes inv: "st_inv st paid"
  shows "st_inv (fst (answerChallenge rt env rq rnd uuids nodeAddress jobId os now st)) paid"
proof (cases "getWorkJob jobId (js_jobs st)")
  case None
  then show ?thesis using inv by (simp add: answerChallenge_def Let_def)
next
  case (Some job)
  let ?node = "normalizeAddress nodeAddress"
  have j: "job \<in> set (js_jobs st)" using getWorkJob_found[OF Some] by simp
  have caught: "st_inv (fst (caughtChallenge env rq job ?node r why now st)) paid" for r why
    by (rule caught_inv[OF inv snapshot_self[OF inv j]])
  show ?thesis
  proof (cases "jr_status job = JobAssigned \<and> jr_node job = Some ?node")
    case True
    then have cur: "current job ?node st" using j by (simp add: current_def assigned_to_def)
    show ?thesis using Some True inv caught misfit_inv[OF inv cur] book_answer_inv[OF inv cur]
      by (simp add: answerChallenge_def Let_def split: option.split opening_outcome.split)
  next
    case False
    then show ?thesis using Some inv by (auto simp: answerChallenge_def Let_def split: option.split)
  qed
qed

subsection \<open>Enqueueing, protocol work, delivery and artifacts\<close>

lemma issue_inv:
  assumes inv: "st_inv st paid" and ids: "inj ids" "range ids \<inter> set (map jr_id (js_jobs st)) = {}"
  shows "st_inv (fst (issueProtocolWork env ids rnd now st)) paid"
proof -
  let ?jobs = "filter (\<lambda>j. \<not> stale_protocol now j) (js_jobs st)"
  have f: "jobs_inv ?jobs (js_balances st) paid"
    by (rule filter_inv[OF inv]) (use jobs_invD(4)[OF inv] in \<open>auto simp: stale_protocol_def job_ok_def\<close>)
  have e: "jobs_inv ?jobs (ensure_row PROTOCOL_ACCOUNT now (js_balances st)) paid"
    "balance_row PROTOCOL_ACCOUNT (ensure_row PROTOCOL_ACCOUNT now (js_balances st)) \<noteq> None" using ensure_inv[OF f] by auto
  have "jobs_inv (?jobs @ map (\<lambda>k. protocol_job (ids k) (fst (rnd k)) (snd (rnd k)) now) [0..<c])
      (ensure_row PROTOCOL_ACCOUNT now (js_balances st)) paid" (is "jobs_inv (_ @ ?new) _ _") for c
  proof (rule append_inv[OF e(1)])
    have s: "jr_id (protocol_job i a b now) = i" "jb_owner (protocol_job i a b now) = PROTOCOL_ACCOUNT" "jr_price (protocol_job i a b now) = 0"
      "jr_status (protocol_job i a b now) = JobQueued" "job_ok (protocol_job i a b now)" for i a b
      by (simp_all add: protocol_job_def new_job_def job_ok_def MAX_JOB_ATTEMPTS_def MAX_SAFE_INTEGER_def)
    show "\<forall>j \<in> set ?new. job_ok j \<and> jr_status j = JobQueued" by (simp add: s)
    show "distinct (map jr_id ?new)" using ids(1) by (auto simp: comp_def s distinct_map inj_on_def inj_def)
    show "set (map jr_id ?new) \<inter> set (map jr_id ?jobs) = {}" using ids(2) by (auto simp: s)
    show "held_of a (ensure_row PROTOCOL_ACCOUNT now (js_balances st)) = held_of a (ensure_row PROTOCOL_ACCOUNT now (js_balances st)) + open_price a ?new" for a
    proof -
      have "open_price a ?new = 0" unfolding open_price_def by (rule sum_list_zero) (auto simp: open_share_def s)
      then show ?thesis by simp
    qed
    show "balance_row (jb_owner j) (ensure_row PROTOCOL_ACCOUNT now (js_balances st)) \<noteq> None" if "j \<in> set ?new" for j
      using that e(2) by (auto simp: s)
  qed (use jobs_invD(3)[OF e(1)] in simp_all)
  then show ?thesis using inv f by (simp add: issueProtocolWork_def Let_def)
qed

lemma insert_inv:
  assumes inv: "st_inv st paid" and owner: "normal_owner owner" and h: "hold owner price now (js_balances st) = Inr (bs', Some res)"
    and fresh: "i \<notin> set (map jr_id (js_jobs st))" and ok: "wt_mode wt = Challenge \<or> snd write_ok"
  shows "case insert_job rt i owner wt x price pub write_ok now (st\<lparr>js_balances := bs'\<rparr>) of
      (None, st2) \<Rightarrow> st_inv st2 paid \<and> js_jobs st2 = js_jobs st
    | (Some st2, _) \<Rightarrow> st_inv st2 paid \<and> (\<exists>j. js_jobs st2 = js_jobs st @ [j] \<and> jr_id j = i)"
proof -
  note e = hold_effect[OF inv owner h]
  let ?j = "enqueued_job rt i owner wt x s price pub now"
  have s: "jr_id (enqueued_job rt i owner wt x s price pub now) = i" "jb_owner (enqueued_job rt i owner wt x s price pub now) = owner"
    "jr_price (enqueued_job rt i owner wt x s price pub now) = price"
    "jr_status (enqueued_job rt i owner wt x s price pub now) = JobQueued" "job_ok (enqueued_job rt i owner wt x s price pub now)" for s
    using owner e(1,2) by (auto simp: enqueued_job_def Let_def new_job_def job_ok_def MAX_JOB_ATTEMPTS_def split: jobInput.split)
  have added: "jobs_inv (js_jobs st @ [enqueued_job rt i owner wt x s price pub now]) bs' paid" for s
    by (rule append_inv[OF inv])
      (use fresh e s in \<open>auto simp: open_price_def open_share_def unfinished_def\<close>)
  have refunded: "st_inv (case release owner price now bs' of Inr (bs, _) \<Rightarrow> (st\<lparr>js_balances := bs', js_store := m\<rparr>)\<lparr>js_balances := bs\<rparr>
      | Inl _ \<Rightarrow> st\<lparr>js_balances := bs', js_store := m\<rparr>) paid
    \<and> js_jobs (case release owner price now bs' of Inr (bs, _) \<Rightarrow> (st\<lparr>js_balances := bs', js_store := m\<rparr>)\<lparr>js_balances := bs\<rparr>
      | Inl _ \<Rightarrow> st\<lparr>js_balances := bs', js_store := m\<rparr>) = js_jobs st" for m
  proof -
    obtain bs ok where r: "release owner price now bs' = Inr (bs, ok)" using e(1,2) by (auto simp: release_def assertUcld_def Let_def)
    show ?thesis using hold_release[OF inv owner h r] r by simp
  qed
  show ?thesis using ok added refunded[THEN conjunct1] refunded[THEN conjunct2] s(1) by (auto simp: insert_job_def Let_def)
qed

definition enqueue_outcome :: "workJob list \<Rightarrow> int \<Rightarrow> string \<Rightarrow> ('d jobsState \<Rightarrow> 'd jobsState) \<Rightarrow> 'd jobsState \<Rightarrow> bool" where
  "enqueue_outcome jobs paid i run st' \<longleftrightarrow> (\<exists>st2. st_inv st2 paid \<and>
     ((st' = st2 \<and> js_jobs st2 = jobs) \<or> (st' = run st2 \<and> (\<exists>j. js_jobs st2 = jobs @ [j] \<and> jr_id j = i))))"

lemma enqueue_cases:
  assumes inv: "st_inv st paid" and fresh: "i \<notin> set (map jr_id (js_jobs st))"
    and ok: "(\<exists>wt. getWorkType (ei_workType input) = Some wt \<and> wt_mode wt = Challenge) \<or> snd write_ok"
  shows "enqueue_outcome (js_jobs st) paid i (\<lambda>s. fst (runAssignment rt env nonce rpc now s))
    (fst (enqueueWorkJob rt env i nonce rpc write_ok input now st))"
proof (cases "getWorkType (ei_workType input)")
  case None
  then show ?thesis using inv by (auto simp: enqueueWorkJob_def enqueue_outcome_def)
next
  case (Some wt)
  let ?run = "\<lambda>s. fst (runAssignment rt env nonce rpc now s)"
  have ok': "wt_mode wt = Challenge \<or> snd write_ok" using ok Some by auto
  have same: "enqueue_outcome (js_jobs st) paid i ?run (st\<lparr>js_price := row\<rparr>)" for row
    using inv unfolding enqueue_outcome_def by (intro exI[of _ "st\<lparr>js_price := row\<rparr>"]) simp
  have step: "enqueue_outcome (js_jobs st) paid i ?run (fst (case hold owner price now (js_balances st) of
          Inl _ \<Rightarrow> (st\<lparr>js_price := row\<rparr>, EnqueueThrew)
        | Inr (bs, None) \<Rightarrow> (st\<lparr>js_price := row, js_balances := bs\<rparr>, InsufficientCredits price)
        | Inr (bs, Some (bal, _)) \<Rightarrow>
            (case insert_job rt i owner wt x price pub write_ok now (st\<lparr>js_price := row, js_balances := bs\<rparr>) of
               (None, st2) \<Rightarrow> (st2, EnqueueThrew)
             | (Some st2, _) \<Rightarrow> (fst (runAssignment rt env nonce rpc now st2), Enqueued i price bal))))"
    if owner: "normal_owner owner" for owner price x pub row
  proof (cases "hold owner price now (js_balances st)")
    case (Inr q)
    obtain bs res where q: "q = (bs, res)" by (cases q)
    show ?thesis
    proof (cases res)
      case None
      then have "bs = js_balances st" using Inr q by (auto simp: hold_def Let_def update_where_none split: if_splits)
      then have "enqueue_outcome (js_jobs st) paid i ?run (st\<lparr>js_price := row, js_balances := bs\<rparr>)"
        using inv unfolding enqueue_outcome_def by (intro exI[of _ "st\<lparr>js_price := row, js_balances := bs\<rparr>"]) simp
      then show ?thesis using Inr q None by simp
    next
      case (Some r)
      have "st_inv (st\<lparr>js_price := row\<rparr>) paid" using inv by simp
      from insert_inv[OF this owner _ _ ok', of price now bs r i rt x pub] Inr q Some fresh
      have "case insert_job rt i owner wt x price pub write_ok now (st\<lparr>js_price := row, js_balances := bs\<rparr>) of
          (None, st2) \<Rightarrow> st_inv st2 paid \<and> js_jobs st2 = js_jobs st
        | (Some st2, _) \<Rightarrow> st_inv st2 paid \<and> (\<exists>j. js_jobs st2 = js_jobs st @ [j] \<and> jr_id j = i)"
        by (auto split: prod.splits option.splits)
      then show ?thesis using Inr q Some by (auto simp: enqueue_outcome_def split: prod.splits option.splits)
    qed
  qed (simp add: same)
  show ?thesis
  proof (cases "wt_validate wt (ei_input input)")
    case None
    then show ?thesis using Some step[OF normal_owner_normalize] same
      by (simp add: enqueueWorkJob_def Let_def case_prod_beta)
  next
    case (Some e)
    then show ?thesis using \<open>getWorkType (ei_workType input) = Some wt\<close> inv by (auto simp: enqueueWorkJob_def enqueue_outcome_def)
  qed
qed

lemma enqueue_inv:
  assumes "st_inv st paid" and "i \<notin> set (map jr_id (js_jobs st))"
    and "(\<exists>wt. getWorkType (ei_workType input) = Some wt \<and> wt_mode wt = Challenge) \<or> snd write_ok"
  shows "st_inv (fst (enqueueWorkJob rt env i nonce rpc write_ok input now st)) paid"
  using enqueue_cases[OF assms, of rt env nonce rpc now] unfolding enqueue_outcome_def
  by (elim exE conjE disjE) (metis runAssignment_inv)+

lemma deliver_inv: "st_inv st paid \<Longrightarrow> st_inv (fst (getActiveAssignment rt node now v st)) paid"
proof -
  assume inv: "st_inv st paid"
  have "jobs_inv (update_where (undelivered i) (\<lambda>j. j\<lparr>jb_deliveredAt := Some now\<rparr>) (js_jobs st)) (js_balances st) paid" for i
    by (rule neutral_keep[OF inv]) (use jobs_invD(2,4)[OF inv] in \<open>auto simp: job_ok_def keeps_money_def unfinished_def\<close>)
  then show ?thesis using inv by (simp add: getActiveAssignment_def split: list.split)
qed

lemma move_loop_inv: "jobs_inv jobs bs paid \<Longrightarrow> jobs_inv (snd (fst (move_loop oc rs (m, jobs)))) bs paid"
proof (induction rs arbitrary: m jobs)
  case (Cons r rs)
  have "jobs_inv (update_where (unmoved_at (jr_id r)) (move_artifact (job_key (jr_id r))) jobs) bs paid"
    by (rule neutral_keep[OF Cons.prems])
      (use jobs_invD(2,4)[OF Cons.prems] in \<open>auto simp: job_ok_def keeps_money_def unfinished_def move_artifact_def\<close>)
  then show ?case using Cons by (auto simp: Let_def case_prod_beta split: put_outcome.split)
qed simp

lemma move_inv: "st_inv st paid \<Longrightarrow> st_inv (fst (moveJobArtifacts oc limit st)) paid"
  using move_loop_inv[of "js_jobs st" "js_balances st" paid] by (auto simp: moveJobArtifacts_def Let_def case_prod_beta split: option.split)

subsection \<open>Steps and runs\<close>

text \<open>
  One operation of the service, labelled with the job it refused. Ids are fresh (\<^verbatim>\<open>crypto.randomUUID\<close>), and the insert of a
  matmul job succeeds: when it fails the source keeps the hold and reports the error. Everything else that happens in the API
  (nodes announcing and binding, epochs closing, prices stepping, the other modules) leaves the jobs and these balances alone.
\<close>

definition refused_job :: "string \<Rightarrow> submitResult \<Rightarrow> string option" where
  "refused_job i r = (case r of SubmitRefused (CheckFailed why) \<Rightarrow> Some i | _ \<Rightarrow> None)"

inductive jobs_step :: "runtime \<Rightarrow> work_env \<Rightarrow> 'd requeue \<Rightarrow> string option \<Rightarrow> 'd jobsState \<Rightarrow> 'd jobsState \<Rightarrow> bool"
  for rt env rq where
  step_enqueue: "i \<notin> set (map jr_id (js_jobs st)) \<Longrightarrow>
    (\<exists>wt. getWorkType (ei_workType input) = Some wt \<and> wt_mode wt = Challenge) \<or> snd write_ok \<Longrightarrow>
    jobs_step rt env rq None st (fst (enqueueWorkJob rt env i nonce rpc write_ok input now st))"
| step_issue: "inj ids \<Longrightarrow> range ids \<inter> set (map jr_id (js_jobs st)) = {} \<Longrightarrow>
    jobs_step rt env rq None st (fst (issueProtocolWork env ids rnd2 now st))"
| step_assign: "jobs_step rt env rq None st (fst (runAssignment rt env nonce rpc now st))"
| step_deliver: "jobs_step rt env rq None st (fst (getActiveAssignment rt node now v st))"
| step_move: "jobs_step rt env rq None st (fst (moveJobArtifacts oc limit st))"
| step_submit: "submitWork rt env rq rnd uuids node input now st = (st', r) \<Longrightarrow>
    jobs_step rt env rq (refused_job (sub_jobId input) r) st st'"
| step_answer: "answerChallenge rt env rq rnd3 uuids node jobId os now st = (st', r) \<Longrightarrow> jobs_step rt env rq None st st'"
| step_sweep: "jobs_step rt env rq None st (fst (sweepChallenges env rq now limit st))"
| step_other: "js_jobs st' = js_jobs st \<Longrightarrow> js_balances st' = js_balances st \<Longrightarrow> jobs_step rt env rq None st st'"

inductive jobs_run :: "runtime \<Rightarrow> work_env \<Rightarrow> 'd requeue \<Rightarrow> 'd jobsState \<Rightarrow> int \<Rightarrow> bool"
  for rt env rq where
  run_start: "js_jobs st = [] \<Longrightarrow> js_balances st = [] \<Longrightarrow> jobs_run rt env rq st 0"
| run_deposit: "jobs_run rt env rq st paid \<Longrightarrow> creditUcld a u now (js_balances st) = Inr (bs, n) \<Longrightarrow>
    jobs_run rt env rq (st\<lparr>js_balances := bs\<rparr>) (paid + u)"
| run_step: "jobs_run rt env rq st paid \<Longrightarrow> jobs_step rt env rq lab st st' \<Longrightarrow> jobs_run rt env rq st' paid"

lemma step_inv:
  assumes "jobs_step rt env rq lab st st'" and "st_inv st paid"
  shows "st_inv st' paid"
  using assms(1)
proof cases
  case (step_submit rnd uuids node input now r)
  then show ?thesis using submitWork_inv[OF assms(2), of rt env rq rnd uuids node input now] by simp
next
  case (step_answer rnd3 uuids node jobId os now r)
  then show ?thesis using answer_inv[OF assms(2), of rt env rq rnd3 uuids node jobId os now] by simp
qed (use assms(2) in \<open>auto intro: enqueue_inv[unfolded list.set_map] issue_inv[unfolded list.set_map] runAssignment_inv deliver_inv move_inv sweep_inv\<close>)

lemma run_inv: "jobs_run rt env rq st paid \<Longrightarrow> st_inv st paid"
proof (induction rule: jobs_run.induct)
  case (run_start st)
  then show ?case by (simp add: jobs_inv_def bal_inv_def bal_total_def fees_captured_def open_price_def held_of_def balance_row_def)
next
  case (run_deposit st paid a u now bs n)
  then have "0 \<le> u" "bs = upsert_credit (bal_normalizeAddress a) u now (js_balances st)"
    by (auto simp: creditUcld_def Let_def assertUcld_def split: if_splits)
  then show ?case using credit_inv[OF run_deposit.IH] by simp
qed (rule step_inv)

subsection \<open>What a step may do to a job\<close>

text \<open>
  A row keeps its id, owner and price; refusals only add up; a finished job keeps its status and its fee; a stored
  commitment and the segments drawn for it are never replaced.
\<close>

definition progress :: "workJob \<Rightarrow> workJob \<Rightarrow> bool" where
  "progress j j' \<longleftrightarrow> jr_id j' = jr_id j \<and> jb_owner j' = jb_owner j \<and> jr_price j' = jr_price j \<and> jb_attempts j \<le> jb_attempts j'
     \<and> (\<not> unfinished j \<longrightarrow> jr_status j' = jr_status j \<and> jr_feeCapturedAt j' = jr_feeCapturedAt j)
     \<and> (jb_commitment j \<noteq> None \<longrightarrow> jb_commitment j' = jb_commitment j \<and> jb_challenge j' = jb_challenge j)"

definition evolves :: "workJob list \<Rightarrow> workJob list \<Rightarrow> bool" where
  "evolves jobs jobs' \<longleftrightarrow> (\<forall>j' \<in> set jobs'. jr_id j' \<in> set (map jr_id jobs) \<longrightarrow> (\<exists>j \<in> set jobs. progress j j'))"

lemma progress_refl [simp]: "progress j j"
  by (simp add: progress_def)

lemma progress_trans: "progress a b \<Longrightarrow> progress b c \<Longrightarrow> progress a c"
  by (auto simp: progress_def unfinished_def)

lemma evolves_refl [simp]: "evolves jobs jobs"
  unfolding evolves_def using progress_refl by blast

lemma evolves_same_or_new:
  assumes "\<And>j'. j' \<in> set jobs' \<Longrightarrow> j' \<in> set jobs \<or> jr_id j' \<notin> set (map jr_id jobs)"
  shows "evolves jobs jobs'"
  unfolding evolves_def using assms progress_refl by blast

lemma evolves_update:
  assumes "\<And>j. j \<in> set jobs \<Longrightarrow> P j \<Longrightarrow> progress j (f j)"
  shows "evolves jobs (update_where P f jobs)"
  unfolding evolves_def
proof (intro ballI impI)
  fix j' assume "j' \<in> set (update_where P f jobs)"
  then obtain j where "j \<in> set jobs" "j' = (if P j then f j else j)" by (auto simp: update_where_def)
  then have "progress j j'" using assms by auto
  then show "\<exists>j \<in> set jobs. progress j j'" using \<open>j \<in> set jobs\<close> by blast
qed

lemma evolves_trans:
  assumes "evolves a b" and "evolves b c" and "set (map jr_id a) \<subseteq> set (map jr_id b)"
  shows "evolves a c"
  unfolding evolves_def
proof (intro ballI impI)
  fix j'' assume j'': "j'' \<in> set c" "jr_id j'' \<in> set (map jr_id a)"
  then obtain j' where j': "j' \<in> set b" "progress j' j''" using assms(2,3) unfolding evolves_def by blast
  then have "jr_id j' \<in> set (map jr_id a)" using j''(2) by (simp add: progress_def)
  then obtain j where "j \<in> set a" "progress j j'" using assms(1) j'(1) unfolding evolves_def by blast
  then show "\<exists>j \<in> set a. progress j j''" using j'(2) progress_trans by blast
qed

lemma ids_update: "(\<And>j. j \<in> set jobs \<Longrightarrow> P j \<Longrightarrow> progress j (f j)) \<Longrightarrow> map jr_id (update_where P f jobs) = map jr_id jobs"
  by (auto simp: update_where_def progress_def)

text \<open>The same ids, and every row a successor of its old one.\<close>

definition advances :: "workJob list \<Rightarrow> workJob list \<Rightarrow> bool" where
  "advances jobs jobs' \<longleftrightarrow> evolves jobs jobs' \<and> map jr_id jobs' = map jr_id jobs"

lemma advances_refl [simp]: "advances jobs jobs"
  by (simp add: advances_def)

lemma advances_trans: "advances a b \<Longrightarrow> advances b c \<Longrightarrow> advances a c"
  using evolves_trans[of a b c] by (simp add: advances_def)

lemma advances_update: "(\<And>j. j \<in> set jobs \<Longrightarrow> P j \<Longrightarrow> progress j (f j)) \<Longrightarrow> advances jobs (update_where P f jobs)"
  by (simp add: advances_def evolves_update ids_update)

lemma assign_loop_advances: "advances jobs (fst (assign_loop rt env nonce src now lv queued pool jobs))"
proof (induction queued arbitrary: pool jobs)
  case (Cons q queued)
  obtain i w where q: "q = (i, w)" by (cases q)
  have one: "advances jobs (fst (assign_one rt env nonce src now lv wt i draw pool jobs))" for wt draw pool
    by (cases draw) (auto simp: assign_one_def Let_def assignable_def assign_row_def progress_def unfinished_def intro!: advances_update)
  show ?case using Cons.IH one advances_trans[OF one Cons.IH]
    by (auto simp: q Let_def case_prod_beta split: option.split)
qed simp

lemma runAssignment_advances:
  assumes inv: "st_inv st paid"
  shows "advances (js_jobs st) (js_jobs (fst (runAssignment rt env nonce rpc now st)))"
proof -
  let ?jobs = "update_where (expired now) CLEAR_ASSIGNMENT (js_jobs st)"
  have e: "advances (js_jobs st) ?jobs"
    by (rule advances_update) (use jobs_invD(4)[OF inv] in \<open>auto simp: expired_def job_ok_def CLEAR_ASSIGNMENT_def progress_def unfinished_def\<close>)
  have "js_jobs (fst (runAssignment rt env nonce rpc now st)) = ?jobs
     \<or> (\<exists>src lv q pool. js_jobs (fst (runAssignment rt env nonce rpc now st)) = fst (assign_loop rt env nonce src now lv q pool ?jobs))"
    unfolding runAssignment_def Let_def by (simp add: case_prod_beta) blast
  then show ?thesis using e advances_trans[OF e assign_loop_advances] by auto
qed

lemma refuse_advances:
  assumes inv: "st_inv st paid" and cur: "current job node st"
  shows "advances (js_jobs st) (js_jobs (fst (refuse job node why now st)))"
    and "\<exists>j' \<in> set (js_jobs (fst (refuse job node why now st))). progress job j' \<and> jb_attempts j' = jb_attempts job + 1"
proof -
  let ?f = "if giveUp job then give_up now else retry" and ?P = "assigned_to (jr_id job) node"
  note c = currentD[OF inv cur]
  have jobs: "js_jobs (fst (refuse job node why now st)) = update_where ?P ?f (js_jobs st)"
    by (simp add: refuse_def Let_def split: sum.split)
  have p: "progress j (?f j)" if "?P j" for j
    using that by (auto simp: progress_def give_up_def retry_def CLEAR_ASSIGNMENT_def assigned_to_def unfinished_def)
  show "advances (js_jobs st) (js_jobs (fst (refuse job node why now st)))" unfolding jobs by (rule advances_update) (rule p)
  have "?f job \<in> set (update_where ?P ?f (js_jobs st))" using c(1,4) by (force simp: update_where_def)
  moreover have "jb_attempts (?f job) = jb_attempts job + 1" by (simp add: give_up_def retry_def)
  ultimately show "\<exists>j' \<in> set (js_jobs (fst (refuse job node why now st))). progress job j' \<and> jb_attempts j' = jb_attempts job + 1"
    unfolding jobs using p[OF c(4)] by blast
qed

lemma book_advances:
  assumes "st_inv st paid" and "current job node st"
  shows "advances (js_jobs st) (js_jobs (fst (bookVerified env uuids job node payout now out st)))"
  unfolding book_effect(1)[OF assms]
  by (rule advances_update) (auto simp: progress_def finish_row_def authorise_def assigned_to_def unfinished_def)

lemma book_cases:
  assumes "st_inv st paid" and "current job node st" and "bookVerified env uuids job node p now out st = (st1, b)"
  shows "advances (js_jobs st) (js_jobs st1)"
  using book_advances[OF assms(1,2), of env uuids p now out] assms(3) by simp

lemma book_inline_advances:
  assumes "st_inv st paid" and "current job node st"
  shows "advances (js_jobs st) (js_jobs (fst (book_inline env rq uuids job node r u now out st)))"
proof -
  obtain st1 b where b: "bookVerified env uuids job node (payout_of r) now out st = (st1, b)" by fastforce
  show ?thesis using book_cases[OF assms b] by (simp add: book_inline_def b split: booked.split)
qed

lemma submitInline_advances:
  assumes "st_inv st paid" and "current job node st"
  shows "advances (js_jobs st) (js_jobs (fst (submitInline rt env rq rnd uuids job node r wt cert result now st)))"
  using book_inline_advances[OF assms] refuse_advances(1)[OF assms]
  by (simp add: submitInline_def Let_def split: option.split verdict.split)

lemma submitCommitment_advances:
  assumes inv: "st_inv st paid" and cur: "current job node st"
  shows "advances (js_jobs st) (js_jobs (fst (submitCommitment rt env job node p wt c result now st)))"
proof -
  have "advances (js_jobs st) (update_where (committable job node now) (commit_row c result segs dl p) (js_jobs st))" for c result segs dl
    by (rule advances_update) (auto simp: committable_def assigned_to_def commit_row_def progress_def unfinished_def)
  then show ?thesis using refuse_advances(1)[OF inv cur]
    by (simp add: submitCommitment_def Let_def split: option.split verdict.split)
qed

lemma submitWork_advances:
  assumes inv: "st_inv st paid"
  shows "advances (js_jobs st) (js_jobs (fst (submitWork rt env rq rnd uuids nodeAddress input now st)))"
proof (cases "getWorkJob (sub_jobId input) (js_jobs st)")
  case (Some g)
  let ?node = "normalizeAddress nodeAddress"
  show ?thesis
  proof (cases "jb_commitment g = None \<and> jr_status g = JobAssigned \<and> jr_node g = Some ?node")
    case True
    then have cur: "current g ?node st" using getWorkJob_found[OF Some] by (simp add: current_def assigned_to_def)
    show ?thesis using Some True submitCommitment_advances[OF inv cur] submitInline_advances[OF inv cur]
      by (simp add: submitWork_def Let_def split: option.split workSubmission.split)
  qed (use Some in \<open>auto simp: submitWork_def Let_def\<close>)
qed (simp add: submitWork_def Let_def)

lemma caught_advances: "advances (js_jobs st) (js_jobs (fst (caughtChallenge env rq job node r why now st)))"
  unfolding caught_effect caught_jobs_def
  by (rule advances_update) (auto simp: progress_def fail_row_def assigned_to_def unfinished_def)

lemma sweep_advances: "advances (js_jobs st) (js_jobs (fst (sweep_loop env rq now jobs st)))"
proof (induction jobs arbitrary: st)
  case (Cons job jobs)
  show ?case
  proof (cases "jr_node job")
    case (Some node)
    then show ?thesis using advances_trans[OF caught_advances Cons.IH] by (simp add: case_prod_beta)
  qed (use Cons in simp)
qed simp

lemma answer_advances:
  assumes inv: "st_inv st paid"
  shows "advances (js_jobs st) (js_jobs (fst (answerChallenge rt env rq rnd uuids nodeAddress jobId os now st)))"
proof (cases "getWorkJob jobId (js_jobs st)")
  case (Some job)
  let ?node = "normalizeAddress nodeAddress"
  have misfit: "advances (js_jobs st) (js_jobs (fst (fail_misfit job ?node now st)))"
  proof -
    have "js_jobs (fst (fail_misfit job ?node now st)) = update_where (assigned_to (jr_id job) ?node) (misfit_row now) (js_jobs st)"
      by (simp add: fail_misfit_def Let_def split: sum.split)
    then show ?thesis using advances_update[of "js_jobs st" "assigned_to (jr_id job) ?node" "misfit_row now"]
      by (auto simp: progress_def misfit_row_def assigned_to_def unfinished_def)
  qed
  show ?thesis
  proof (cases "jr_status job = JobAssigned \<and> jr_node job = Some ?node")
    case True
    then have cur: "current job ?node st" using getWorkJob_found[OF Some] by (simp add: current_def assigned_to_def)
    have booked: "advances (js_jobs st) (js_jobs (fst (book_answer env uuids job ?node r u now st)))" for r u
      using book_cases[OF inv cur] by (simp add: book_answer_def Let_def split: option.split prod.split booked.split)
    have caught: "advances (js_jobs st) (js_jobs (fst (caughtChallenge env rq job ?node r why now st)))" for r why
      by (rule caught_advances)
    show ?thesis using Some True caught misfit booked
      by (simp add: answerChallenge_def Let_def split: option.split opening_outcome.split)
  qed (use Some in \<open>auto simp: answerChallenge_def Let_def split: option.split\<close>)
qed (simp add: answerChallenge_def Let_def)

lemma deliver_advances: "advances (js_jobs st) (js_jobs (fst (getActiveAssignment rt node now v st)))"
proof -
  have "advances (js_jobs st) (update_where (undelivered i) (\<lambda>j. j\<lparr>jb_deliveredAt := Some now\<rparr>) (js_jobs st))" for i
    by (rule advances_update) (simp add: progress_def)
  then show ?thesis by (simp add: getActiveAssignment_def split: list.split)
qed

lemma move_advances: "advances jobs (snd (fst (move_loop oc rs (m, jobs))))"
proof (induction rs arbitrary: m jobs)
  case (Cons r rs)
  have "advances jobs (update_where (unmoved_at (jr_id r)) (move_artifact (job_key (jr_id r))) jobs)"
    by (rule advances_update) (simp add: progress_def move_artifact_def)
  then show ?case using Cons advances_trans by (auto simp: Let_def case_prod_beta split: put_outcome.split)
qed simp

lemma issue_evolves:
  assumes "range ids \<inter> set (map jr_id (js_jobs st)) = {}"
  shows "evolves (js_jobs st) (js_jobs (fst (issueProtocolWork env ids rnd now st)))"
proof (rule evolves_same_or_new)
  have "ids k \<notin> set (map jr_id (js_jobs st))" for k using assms by blast
  moreover have "jr_id (protocol_job i a b now) = i" for i a b by (simp add: protocol_job_def new_job_def)
  moreover fix j' assume "j' \<in> set (js_jobs (fst (issueProtocolWork env ids rnd now st)))"
  ultimately show "j' \<in> set (js_jobs st) \<or> jr_id j' \<notin> set (map jr_id (js_jobs st))"
    by (fastforce simp: issueProtocolWork_def Let_def split: if_splits)
qed

lemma enqueue_evolves:
  assumes inv: "st_inv st paid" and fresh: "i \<notin> set (map jr_id (js_jobs st))"
    and ok: "(\<exists>wt. getWorkType (ei_workType input) = Some wt \<and> wt_mode wt = Challenge) \<or> snd write_ok"
  shows "evolves (js_jobs st) (js_jobs (fst (enqueueWorkJob rt env i nonce rpc write_ok input now st)))"
proof -
  obtain st2 where st2: "st_inv st2 paid"
    and cases: "(fst (enqueueWorkJob rt env i nonce rpc write_ok input now st) = st2 \<and> js_jobs st2 = js_jobs st)
      \<or> (fst (enqueueWorkJob rt env i nonce rpc write_ok input now st) = fst (runAssignment rt env nonce rpc now st2)
         \<and> (\<exists>j. js_jobs st2 = js_jobs st @ [j] \<and> jr_id j = i))"
    using enqueue_cases[OF assms, of rt env nonce rpc now] unfolding enqueue_outcome_def by blast
  show ?thesis
  proof (cases "js_jobs st2 = js_jobs st \<and> fst (enqueueWorkJob rt env i nonce rpc write_ok input now st) = st2")
    case False
    then obtain j where j: "js_jobs st2 = js_jobs st @ [j]" "jr_id j = i"
      "fst (enqueueWorkJob rt env i nonce rpc write_ok input now st) = fst (runAssignment rt env nonce rpc now st2)" using cases by blast
    have "evolves (js_jobs st) (js_jobs st2)" by (rule evolves_same_or_new) (use j fresh in auto)
    moreover have "evolves (js_jobs st2) (js_jobs (fst (runAssignment rt env nonce rpc now st2)))"
      using runAssignment_advances[OF st2] by (simp add: advances_def)
    moreover have "set (map jr_id (js_jobs st)) \<subseteq> set (map jr_id (js_jobs st2))" using j(1) by auto
    ultimately show ?thesis unfolding j(3) by (rule evolves_trans)
  qed auto
qed

lemma step_evolves:
  assumes "jobs_step rt env rq lab st st'" and "st_inv st paid"
  shows "evolves (js_jobs st) (js_jobs st')"
  using assms(1)
proof cases
  case (step_submit rnd uuids node input now r)
  then show ?thesis using submitWork_advances[OF assms(2), of rt env rq rnd uuids node input now] by (simp add: advances_def)
next
  case (step_answer rnd3 uuids node jobId os now r)
  then show ?thesis using answer_advances[OF assms(2), of rt env rq rnd3 uuids node jobId os now] by (simp add: advances_def)
next
  case (step_move oc limit)
  then show ?thesis using move_advances[of "js_jobs st" oc]
    by (auto simp: moveJobArtifacts_def Let_def case_prod_beta advances_def split: option.split)
next
  case (step_assign nonce rpc now)
  then show ?thesis using runAssignment_advances[OF assms(2), of rt env nonce rpc now] by (simp add: advances_def)
next
  case (step_deliver node now v)
  then show ?thesis using deliver_advances[of st rt node now v] by (simp add: advances_def)
next
  case (step_sweep now limit)
  then show ?thesis using sweep_advances[of st env rq now] by (simp add: advances_def sweepChallenges_def)
next
  case (step_issue ids rnd2 now)
  then show ?thesis using issue_evolves by blast
next
  case (step_enqueue i input write_ok nonce rpc now)
  then show ?thesis using enqueue_evolves[OF assms(2)] by blast
qed simp

end
