(* ===== verification/JobsSafe.thy ===== *)
theory JobsSafe
  imports JobsRun LedgerClaws
begin

text \<open>
  The properties of the job service that hold in every run: what is held and what was paid, one assignment per node, the end of
  refusals, the finality of results and commitments, and the pay of verified work.
\<close>

subsection \<open>Money\<close>


subsection \<open>Assignments\<close>

lemma distinct_busy_unique:
  "distinct (busy_nodes jobs) \<Longrightarrow> distinct (map jr_id jobs) \<Longrightarrow> j \<in> set jobs \<Longrightarrow> k \<in> set jobs \<Longrightarrow> jr_status j = JobAssigned \<Longrightarrow>
   jr_status k = JobAssigned \<Longrightarrow> jr_node j = Some n \<Longrightarrow> jr_node k = Some n \<Longrightarrow> j = (k :: workJob)"
proof (induction jobs)
  case (Cons x xs)
  have "n \<in> set (busy_nodes xs)" if "y \<in> set xs" "jr_status y = JobAssigned" "jr_node y = Some n" for y
    using that in_busy by blast
  then show ?case using Cons by (auto simp: busy_Cons split: if_splits option.splits)
qed simp

text \<open>
  C8. In every run an assigned job has a node, a \<open>\<sigma>\<close> and a deadline, a node has at most one assigned job, a job that waits in
  the queue has no commitment, and an assigned job has an open challenge exactly when a commitment is stored for it.
\<close>

theorem assignments_exclusive:
  assumes "jobs_run rt env rq st paid"
  shows "(\<forall>j \<in> set (js_jobs st). \<forall>k \<in> set (js_jobs st). jr_status j = JobAssigned \<and> jr_status k = JobAssigned \<and> jr_node j = jr_node k
        \<longrightarrow> j = k)
    \<and> (\<forall>j \<in> set (js_jobs st). jr_status j = JobAssigned \<longrightarrow> jr_node j \<noteq> None \<and> jb_sigma j \<noteq> None \<and> jb_expiresAt j \<noteq> None
        \<and> (jb_challengeExpiresAt j \<noteq> None \<longleftrightarrow> jb_commitment j \<noteq> None))
    \<and> (\<forall>j \<in> set (js_jobs st). jr_status j = JobQueued \<longrightarrow> jb_commitment j = None)"
proof -
  note inv = run_inv[OF assms]
  have "j = k" if "j \<in> set (js_jobs st)" "k \<in> set (js_jobs st)" "jr_status j = JobAssigned" "jr_status k = JobAssigned" "jr_node j = jr_node k" for j k
  proof -
    have "jr_node j \<noteq> None" using jobs_invD(4)[OF inv that(1)] that(3) by (auto simp: job_ok_def)
    then obtain n where n: "jr_node j = Some n" by blast
    show ?thesis by (rule distinct_busy_unique[OF jobs_invD(2,1)[OF inv] that(1-4) n]) (use that(5) n in simp)
  qed
  moreover have "job_ok j" if "j \<in> set (js_jobs st)" for j by (rule jobs_invD(4)[OF inv that])
  ultimately show ?thesis unfolding job_ok_def by blast
qed

text \<open>
  C5. What is final stays final: in any step from a state of a run, a job keeps its id, owner and price; a job that is done or
  failed stays so, and its fee with it; refusals only add up; and a stored commitment is never replaced, nor the segments that
  were drawn for it, so no node can draw again.
\<close>

theorem finished_is_final:
  assumes "jobs_run rt env rq st paid" and "jobs_step rt env rq lab st st'"
    and "j \<in> set (js_jobs st)" and "j' \<in> set (js_jobs st')" and "jr_id j' = jr_id j"
  shows "jb_owner j' = jb_owner j \<and> jr_price j' = jr_price j \<and> jb_attempts j \<le> jb_attempts j'
    \<and> (jr_status j = JobDone \<or> jr_status j = JobFailed \<longrightarrow> jr_status j' = jr_status j \<and> jr_feeCapturedAt j' = jr_feeCapturedAt j)
    \<and> (jb_commitment j \<noteq> None \<longrightarrow> jb_commitment j' = jb_commitment j \<and> jb_challenge j' = jb_challenge j)"
proof -
  note inv = run_inv[OF assms(1)]
  have "jr_id j' \<in> set (map jr_id (js_jobs st))" using assms(3,5) by simp
  then obtain k where k: "k \<in> set (js_jobs st)" "progress k j'"
    using step_evolves[OF assms(2) inv] assms(4) unfolding evolves_def by blast
  then have "jr_id k = jr_id j" using assms(5) by (simp add: progress_def)
  then have "k = j" using same_job[OF jobs_invD(1)[OF inv] k(1) assms(3)] by simp
  then show ?thesis using k(2) by (auto simp: progress_def unfinished_def)
qed

subsection \<open>Refusals end\<close>

lemma book_inline_no_refusal: "snd (book_inline env rq uuids job node r u now out st) \<noteq> SubmitRefused (CheckFailed why)"
  by (auto simp: book_inline_def creditNode_def split: prod.split booked.split)

lemma submitInline_refused:
  "snd (submitInline rt env rq rnd uuids job node r wt cert result now st) = SubmitRefused (CheckFailed why) \<Longrightarrow>
   \<exists>w. submitInline rt env rq rnd uuids job node r wt cert result now st = refuse job node w now st"
  by (auto simp: submitInline_def Let_def book_inline_no_refusal split: option.splits verdict.splits if_splits)

lemma submitCommitment_refused:
  "snd (submitCommitment rt env job node p wt c result now st) = SubmitRefused (CheckFailed why) \<Longrightarrow>
   \<exists>w. submitCommitment rt env job node p wt c result now st = refuse job node w now st"
  by (auto simp: submitCommitment_def Let_def split: option.splits verdict.splits if_splits)

lemma refused_bumps:
  assumes inv: "st_inv st paid" and r: "submitWork rt env rq rnd uuids nodeAddress input now st = (st', SubmitRefused (CheckFailed why))"
  shows "\<exists>g \<in> set (js_jobs st). jr_id g = sub_jobId input
    \<and> (\<exists>j' \<in> set (js_jobs st'). progress g j' \<and> jb_attempts j' = jb_attempts g + 1)"
proof -
  let ?node = "normalizeAddress nodeAddress"
  obtain g where g: "getWorkJob (sub_jobId input) (js_jobs st) = Some g" using r by (auto simp: submitWork_def Let_def split: option.splits)
  have as: "jb_commitment g = None" "jr_status g = JobAssigned" "jr_node g = Some ?node"
    using r g by (auto simp: submitWork_def Let_def split: if_splits option.splits)
  have cur: "current g ?node st" using as getWorkJob_found[OF g] by (simp add: current_def assigned_to_def)
  obtain nr where nr: "case input of
      CommitSub i c r \<Rightarrow> submitCommitment rt env g ?node (payout_of nr) (the (getWorkType (jb_workType g))) c r now st = (st', SubmitRefused (CheckFailed why))
    | CertSub i cert result \<Rightarrow> submitInline rt env rq rnd uuids g ?node nr (the (getWorkType (jb_workType g))) cert result now st
        = (st', SubmitRefused (CheckFailed why))"
    using r g as by (auto simp: submitWork_def Let_def split: if_splits option.splits workSubmission.splits)
  have "\<exists>w. st' = fst (refuse g ?node w now st)"
  proof (cases input)
    case (CommitSub i c r)
    then have eq: "submitCommitment rt env g ?node (payout_of nr) (the (getWorkType (jb_workType g))) c r now st = (st', SubmitRefused (CheckFailed why))"
      using nr by simp
    then have "snd (submitCommitment rt env g ?node (payout_of nr) (the (getWorkType (jb_workType g))) c r now st) = SubmitRefused (CheckFailed why)"
      by simp
    from submitCommitment_refused[OF this] show ?thesis using eq by (metis fst_conv)
  next
    case (CertSub i cert res)
    then have eq: "submitInline rt env rq rnd uuids g ?node nr (the (getWorkType (jb_workType g))) cert res now st = (st', SubmitRefused (CheckFailed why))"
      using nr by simp
    then have "snd (submitInline rt env rq rnd uuids g ?node nr (the (getWorkType (jb_workType g))) cert res now st) = SubmitRefused (CheckFailed why)"
      by simp
    from submitInline_refused[OF this] show ?thesis using eq by (metis fst_conv)
  qed
  then show ?thesis using refuse_advances(2)[OF inv cur] getWorkJob_found[OF g] by blast
qed

text \<open>A history of one job, with the number of refusals it met while its row was there.\<close>

inductive refusals :: "runtime \<Rightarrow> work_env \<Rightarrow> 'd requeue \<Rightarrow> string \<Rightarrow> nat \<Rightarrow> 'd jobsState \<Rightarrow> 'd jobsState \<Rightarrow> bool"
  for rt env rq i where
  refusals_none: "refusals rt env rq i 0 st st"
| refusals_step: "refusals rt env rq i n st st' \<Longrightarrow> jobs_step rt env rq lab st' st'' \<Longrightarrow> i \<in> set (map jr_id (js_jobs st'')) \<Longrightarrow>
    refusals rt env rq i (if lab = Some i then Suc n else n) st st''"

lemma refusals_counted:
  assumes "refusals rt env rq i n st st'" and inv: "st_inv st paid" and i: "i \<in> set (map jr_id (js_jobs st))"
  shows "st_inv st' paid \<and> (\<exists>j \<in> set (js_jobs st'). jr_id j = i \<and> int n \<le> jb_attempts j)"
  using assms
proof (induction rule: refusals.induct)
  case (refusals_none st)
  then obtain j where "j \<in> set (js_jobs st)" "jr_id j = i" by auto
  then show ?case using refusals_none.prems(1) jobs_invD(4)[OF refusals_none.prems(1)] by (auto simp: job_ok_def)
next
  case (refusals_step n st st' lab st'')
  then have inv': "st_inv st' paid" by simp
  obtain j where j: "j \<in> set (js_jobs st')" "jr_id j = i" "int n \<le> jb_attempts j" using refusals_step.IH refusals_step.prems by blast
  obtain j'' where j'': "j'' \<in> set (js_jobs st'')" "jr_id j'' = i" using refusals_step.hyps(3) by auto
  note inv'' = step_inv[OF refusals_step.hyps(2) inv']
  have only: "x = j" if "x \<in> set (js_jobs st')" "jr_id x = i" for x
    using same_job[OF jobs_invD(1)[OF inv'] that(1) j(1)] that(2) j(2) by simp
  have "jr_id j'' \<in> set (map jr_id (js_jobs st'))" using j j'' by force
  then obtain k where "k \<in> set (js_jobs st')" "progress k j''"
    using step_evolves[OF refusals_step.hyps(2) inv'] j''(1) unfolding evolves_def by blast
  then have prog: "jb_attempts j \<le> jb_attempts j''" using only[of k] j''(2) by (simp add: progress_def)
  have "int (Suc n) \<le> jb_attempts j''" if lab: "lab = Some i"
    using refusals_step.hyps(2)
  proof cases
    case (step_submit rnd uuids node input now r)
    then obtain why where r: "r = SubmitRefused (CheckFailed why)" "sub_jobId input = i"
      using lab by (auto simp: refused_job_def split: submitResult.splits refusal.splits)
    obtain g g' where g: "g \<in> set (js_jobs st')" "jr_id g = i" "g' \<in> set (js_jobs st'')" "progress g g'" "jb_attempts g' = jb_attempts g + 1"
      using refused_bumps[OF inv'] step_submit(2) r by blast
    have "g' = j''" using same_job[OF jobs_invD(1)[OF inv''] g(3) j''(1)] g(2,4) j''(2) by (simp add: progress_def)
    then show ?thesis using only[OF g(1,2)] g(5) j(3) by simp
  qed (use lab in auto)
  then show ?case using inv'' j'' j(3) prog by auto
qed

text \<open>
  C9. Refusals end: from any state of a run, whatever nodes submit and however assignment, expiry and the other operations
  interleave, a job is refused at most \<^verbatim>\<open>MAX_JOB_ATTEMPTS\<close> times; after that many it is finished and its hold is gone.
\<close>

theorem refusals_bounded:
  assumes "jobs_run rt env rq st paid" and "i \<in> set (map jr_id (js_jobs st))" and "refusals rt env rq i n st st'"
  shows "int n \<le> MAX_JOB_ATTEMPTS
    \<and> (int n = MAX_JOB_ATTEMPTS \<longrightarrow> (\<exists>j \<in> set (js_jobs st'). jr_id j = i \<and> (jr_status j = JobDone \<or> jr_status j = JobFailed)))"
proof -
  note c = refusals_counted[OF assms(3) run_inv[OF assms(1)] assms(2)]
  then obtain j where j: "j \<in> set (js_jobs st')" "jr_id j = i" "int n \<le> jb_attempts j" by blast
  have "job_ok j" using c j(1) jobs_invD(4) by blast
  then show ?thesis using j by (cases "jr_status j") (auto simp: job_ok_def unfinished_def)
qed

subsection \<open>A run\<close>

definition toy_rt :: runtime where
  "toy_rt = \<lparr>rt_sha = toy_digest, rt_hmac = (\<lambda>k m. replicate 32 0), rt_num = (\<lambda>q. ''1''), rt_stringify = (\<lambda>x. ''{}''), rt_parse = (\<lambda>s. None)\<rparr>"

definition toy_work_env :: work_env where
  "toy_work_env = \<lparr>we_api = toy_env, we_price = \<lparr>PRICE_NUSD_PER_TMAC = 1400, USD_PER_CLD = 1, BASE_FEE_USD = 0, PRICE_CONTROLLER_ON = False\<rparr>,
     PROTOCOL_WORK = True, NODE_ACTIVE_SECONDS = 60, ASSIGNMENT_TTL_SECONDS = 60, CHALLENGE_TTL_SECONDS = 60, VERIFY_SAMPLE_K = 1,
     VERIFY_WARMUP_JOBS = 5, JWT_SECRET = ''k'', INSTRUCTION_SIGNING_KEY = None\<rparr>"

definition toy_node :: nodeRow where
  "toy_node = (new_node ''0xn'')\<lparr>nd_payout := Some ''0xw'', nd_workTypes := Some [''matmul''], nd_lastSeen := Some 1000\<rparr>"

definition toy_start :: "unit jobsState" where
  "toy_start = \<lparr>js_jobs = [], js_nodes = [toy_node], js_balances = [], js_ledger = empty_db, js_store = None, js_price = None, js_dep = ()\<rparr>"

definition toy_job :: workJob where
  "toy_job = protocol_job [] [] [] 1000"

definition toy_rows :: "balanceRow list" where
  "toy_rows = [\<lparr>bl_address = ''0xa'', bl_balance = 100, bl_held = 0, bl_updatedAt = 1\<rparr>,
     \<lparr>bl_address = PROTOCOL_ACCOUNT, bl_balance = 0, bl_held = 0, bl_updatedAt = 1000\<rparr>]"

definition toy_state :: "unit jobsState" where
  "toy_state = toy_start\<lparr>js_jobs := [toy_job], js_balances := toy_rows\<rparr>"

definition toy_requeue :: "unit requeue" where
  "toy_requeue ids why now d = (d, 0)"

lemma toy_issue:
  "fst (issueProtocolWork toy_work_env (\<lambda>k. replicate k CHR ''p'') (\<lambda>_. ([], [])) 1000
     (toy_start\<lparr>js_balances := [\<lparr>bl_address = ''0xa'', bl_balance = 100, bl_held = 0, bl_updatedAt = 1\<rparr>]\<rparr>)) = toy_state"
  by (simp add: issueProtocolWork_def toy_work_env_def toy_start_def Let_def changes_def busy_nodes_def live_node_def toy_node_def
    new_node_def node_types_def toy_state_def toy_job_def toy_rows_def ensure_row_def balance_row_def PROTOCOL_ACCOUNT_def map_filter_simps)

lemma toy_run: "jobs_run toy_rt toy_work_env toy_requeue toy_state 100"
proof -
  let ?s1 = "toy_start\<lparr>js_balances := [\<lparr>bl_address = ''0xa'', bl_balance = 100, bl_held = 0, bl_updatedAt = 1\<rparr>]\<rparr>"
  have "jobs_run toy_rt toy_work_env toy_requeue toy_start 0" by (rule run_start) (simp_all add: toy_start_def)
  moreover have "creditUcld ''0xA'' 100 1 (js_balances toy_start) = Inr ([\<lparr>bl_address = ''0xa'', bl_balance = 100, bl_held = 0, bl_updatedAt = 1\<rparr>], 100)"
    by (simp only: toy_start_def jobsState.simps) code_simp
  ultimately have "jobs_run toy_rt toy_work_env toy_requeue ?s1 (0 + 100)" by (rule run_deposit)
  moreover have "jobs_step toy_rt toy_work_env toy_requeue None ?s1 (fst (issueProtocolWork toy_work_env (\<lambda>k. replicate k CHR ''p'') (\<lambda>_. ([], [])) 1000 ?s1))"
    by (rule step_issue) (auto simp: inj_def toy_start_def dest: arg_cong[of _ _ length])
  ultimately have "jobs_run toy_rt toy_work_env toy_requeue (fst (issueProtocolWork toy_work_env (\<lambda>k. replicate k CHR ''p'') (\<lambda>_. ([], [])) 1000 ?s1)) (0 + 100)"
    by (rule run_step)
  then show ?thesis by (simp add: toy_issue)
qed


theorem assignments_exclusive_witness: "jr_status toy_job = JobQueued \<and> jb_commitment toy_job = None"
proof -
  have q: "jr_status toy_job = JobQueued" by (simp add: toy_job_def protocol_job_def new_job_def)
  show ?thesis using assignments_exclusive[OF toy_run] q by (simp add: toy_state_def)
qed

theorem finished_is_final_witness: "jb_owner toy_job = PROTOCOL_ACCOUNT \<and> jb_attempts toy_job \<le> jb_attempts toy_job"
proof -
  have "jobs_step toy_rt toy_work_env toy_requeue None toy_state (toy_state\<lparr>js_nodes := []\<rparr>)" by (rule step_other) simp_all
  from finished_is_final[OF toy_run this, of toy_job toy_job] show ?thesis
    by (simp add: toy_state_def toy_job_def protocol_job_def new_job_def)
qed

definition toy_assigned :: "unit jobsState" where
  "toy_assigned = fst (runAssignment toy_rt toy_work_env (\<lambda>i. ''n'') None 1000 toy_state)"

lemma toy_draw: "draw_node toy_rt src i matmul [toy_node] = Some (''0xn'', job_sha toy_rt (src @ i), [candidate toy_node])"
  by (simp add: draw_node_def Let_def fits_def matmul_def toy_node_def new_node_def node_types_def weightedDraw_def candidate_def
    weighted_of_def sort_by_def add_weight_def)

lemma toy_assigned_jobs: "\<exists>sg sd eh el cl. js_jobs toy_assigned
    = [assign_row ''0xn'' sg (fetchSeedSource None 1000) sd eh el cl 1000 61000 toy_job]"
proof -
  have m: "getWorkType ''matmul'' = Some matmul" by (simp add: getWorkType_def REGISTRY_def matmul_def)
  have j: "\<not> expired 1000 toy_job" "jr_status toy_job = JobQueued" "jr_id toy_job = []"
    "jb_workType toy_job = ''matmul''"
    by (simp_all add: expired_def toy_job_def protocol_job_def new_job_def)
  have n: "live_node toy_work_env 1000 toy_node" by (simp add: live_node_def toy_node_def new_node_def toy_work_env_def)
  show ?thesis
    by (simp add: toy_assigned_def runAssignment_def Let_def toy_state_def toy_start_def j n m sort_by_def busy_Cons toy_draw assign_one_def
      assignable_def update_where_def) (simp add: toy_work_env_def, blast)
qed

lemma toy_assigned_nodes: "js_nodes toy_assigned = [toy_node]"
  by (simp add: toy_assigned_def runAssignment_def Let_def toy_state_def toy_start_def case_prod_beta)

definition toy_refused :: "unit jobsState \<times> submitResult" where
  "toy_refused = submitWork toy_rt toy_work_env toy_requeue (\<lambda>_. []) [] ''0xn'' (CertSub [] None None) 1000 toy_assigned"

lemma toy_refusal: "snd toy_refused = SubmitRefused (CheckFailed (Refusal ''certificate missing'')) \<and> map jr_id (js_jobs (fst toy_refused)) = [[]]"
proof -
  obtain sg sd eh el cl where jobs: "js_jobs toy_assigned = [assign_row ''0xn'' sg (fetchSeedSource None 1000) sd eh el cl 1000 61000 toy_job]"
    using toy_assigned_jobs by blast
  let ?j = "assign_row ''0xn'' sg (fetchSeedSource None 1000) sd eh el cl 1000 61000 toy_job"
  have j: "jr_id ?j = []" "jb_commitment ?j = None" "jr_status ?j = JobAssigned" "jr_node ?j = Some ''0xn''" "jb_expiresAt ?j = Some 61000"
    "jb_workType ?j = ''matmul''" "jb_matrices ?j = Some ([], [])" "jb_attempts ?j = 0"
    by (simp_all add: assign_row_def toy_job_def protocol_job_def new_job_def)
  have m: "getWorkType ''matmul'' = Some matmul" "wt_mode matmul = Inline" "wt_verify matmul = matmul_verify"
    by (simp_all add: getWorkType_def REGISTRY_def matmul_def)
  have a: "normalizeAddress ''0xn'' = ''0xn''" by code_simp
  have n: "nd_address toy_node = ''0xn''" "nd_payout toy_node = Some ''0xw''" "nd_jobsDone toy_node = 0" by (simp_all add: toy_node_def new_node_def)
  show ?thesis
    by (simp add: toy_refused_def submitWork_def jobs Let_def getWorkJob_def is_job_def j m a getNode_def toy_assigned_nodes n is_commit_def truthy_def
      submitInline_def is_sampled_def inline_submission_def matmul_verify_def refuse_def giveUp_def MAX_JOB_ATTEMPTS_def update_where_def
      assigned_to_def retry_def CLEAR_ASSIGNMENT_def) (simp_all add: toy_work_env_def)
qed
theorem refusals_bounded_witness:
  "refusals toy_rt toy_work_env toy_requeue [] (Suc 0) toy_assigned (fst toy_refused) \<and> int (Suc 0) \<le> MAX_JOB_ATTEMPTS"
proof -
  have run: "jobs_run toy_rt toy_work_env toy_requeue toy_assigned 100"
    unfolding toy_assigned_def by (rule run_step[OF toy_run jobs_step.step_assign])
  have i: "[] \<in> set (map jr_id (js_jobs toy_assigned))"
    using toy_assigned_jobs by (auto simp: assign_row_def toy_job_def protocol_job_def new_job_def)
  have "submitWork toy_rt toy_work_env toy_requeue (\<lambda>_. []) [] ''0xn'' (CertSub [] None None) 1000 toy_assigned
      = (fst toy_refused, SubmitRefused (CheckFailed (Refusal ''certificate missing'')))"
    using toy_refusal by (simp add: toy_refused_def prod_eq_iff)
  from jobs_step.step_submit[OF this] have "jobs_step toy_rt toy_work_env toy_requeue (Some []) toy_assigned (fst toy_refused)"
    by (simp add: refused_job_def)
  from refusals_step[OF refusals_none this, of "[]"] toy_refusal
  have r: "refusals toy_rt toy_work_env toy_requeue [] (Suc 0) toy_assigned (fst toy_refused)" by simp
  show ?thesis using refusals_bounded[OF run i r] r by simp
qed

end
