(* ===== verification/JobsPay.thy ===== *)
theory JobsPay
  imports JobsSafe
begin

text \<open>
  What a submission does to the money: a verified job is paid the split of its fee and its owner is charged the price, and a node
  caught on a challenge loses its held pay and its state while the owner is refunded.
\<close>

subsection \<open>Verified work\<close>

definition booked_by :: "work_env \<Rightarrow> string list \<Rightarrow> string \<Rightarrow> int \<Rightarrow> 'd jobsState \<Rightarrow> workJob \<Rightarrow> earnings \<Rightarrow> 'd jobsState \<Rightarrow> bool" where
  "booked_by env uuids node now st job e st' \<longleftrightarrow> current job node st \<and>
     (\<exists>p out st1 c split r u. bookVerified env uuids job node p now out st = (st1, Booked c split)
        \<and> creditNode node r job u c split now st1 = (st', SubmitOk e))"

lemma refuse_not_ok: "snd (refuse job node why now st) \<noteq> SubmitOk e"
  by (simp add: refuse_def Let_def split: sum.split)

lemma caught_not_ok: "snd (caughtChallenge env rq job node r why now st) \<noteq> SubmitOk e"
  by (simp add: caughtChallenge_def Let_def)

lemma book_inline_ok:
  assumes "book_inline env rq uuids job node r u now out st = (st', SubmitOk e)" and "current job node st"
  shows "booked_by env uuids node now st job e st'"
  using assms by (auto simp: book_inline_def booked_by_def split: prod.splits booked.splits if_splits) blast

lemma submitInline_ok:
  assumes "submitInline rt env rq rnd uuids job node r wt cert result now st = (st', SubmitOk e)" and "current job node st"
  shows "booked_by env uuids node now st job e st'"
proof -
  have no: "refuse job node why now st \<noteq> (st', SubmitOk e)" for why using refuse_not_ok[of job node why now st e] by auto
  show ?thesis using assms no by (auto simp: submitInline_def Let_def intro: book_inline_ok split: option.splits verdict.splits if_splits)
qed

lemma submitCommitment_not_ok: "snd (submitCommitment rt env job node p wt c result now st) \<noteq> SubmitOk e"
  by (simp add: submitCommitment_def Let_def refuse_not_ok split: option.split verdict.split)

lemma submitWork_ok:
  assumes r: "submitWork rt env rq rnd uuids nodeAddress input now st = (st', SubmitOk e)"
  shows "\<exists>job. jr_id job = sub_jobId input \<and> booked_by env uuids (normalizeAddress nodeAddress) now st job e st'"
proof -
  let ?node = "normalizeAddress nodeAddress"
  obtain g where g: "getWorkJob (sub_jobId input) (js_jobs st) = Some g" using r by (auto simp: submitWork_def Let_def split: option.splits)
  have as: "jb_commitment g = None" "jr_status g = JobAssigned" "jr_node g = Some ?node"
    using r g by (auto simp: submitWork_def Let_def split: if_splits option.splits)
  have cur: "current g ?node st" using as getWorkJob_found[OF g] by (simp add: current_def assigned_to_def)
  obtain nr wt where nr: "case input of
      CommitSub i c r \<Rightarrow> submitCommitment rt env g ?node (payout_of nr) wt c r now st = (st', SubmitOk e)
    | CertSub i cert result \<Rightarrow> submitInline rt env rq rnd uuids g ?node nr wt cert result now st = (st', SubmitOk e)"
    using r g as by (auto simp: submitWork_def Let_def split: if_splits option.splits workSubmission.splits)
  have "booked_by env uuids ?node now st g e st'"
  proof (cases input)
    case (CommitSub i c res)
    then have "snd (submitCommitment rt env g ?node (payout_of nr) wt c res now st) = SubmitOk e" using nr by simp
    then show ?thesis using submitCommitment_not_ok by blast
  next
    case (CertSub i cert res)
    then show ?thesis using nr submitInline_ok[OF _ cur] by simp
  qed
  then show ?thesis using getWorkJob_found[OF g] by blast
qed

lemma book_answer_ok:
  assumes "book_answer env uuids job node r u now st = (st', SubmitOk e)" and "current job node st"
  shows "booked_by env uuids node now st job e st'"
  using assms by (auto simp: book_answer_def booked_by_def Let_def split: option.splits prod.splits booked.splits if_splits) blast

lemma misfit_not_ok: "snd (fail_misfit job node now st) \<noteq> SubmitOk e"
  by (simp add: fail_misfit_def Let_def split: sum.split)

lemma answer_ok:
  assumes r: "answerChallenge rt env rq rnd uuids nodeAddress i os now st = (st', SubmitOk e)"
  shows "\<exists>job. jr_id job = i \<and> booked_by env uuids (normalizeAddress nodeAddress) now st job e st'"
proof -
  let ?node = "normalizeAddress nodeAddress"
  obtain g where g: "getWorkJob i (js_jobs st) = Some g" using r by (auto simp: answerChallenge_def Let_def split: option.splits)
  have as: "jr_status g = JobAssigned" "jr_node g = Some ?node"
    using r g by (auto simp: answerChallenge_def Let_def split: if_splits option.splits)
  have cur: "current g ?node st" using as getWorkJob_found[OF g] by (simp add: current_def assigned_to_def)
  have no: "fail_misfit g ?node now st \<noteq> (st', SubmitOk e)" "caughtChallenge env rq g ?node r' why now st \<noteq> (st', SubmitOk e)" for r' why
    using misfit_not_ok[of g ?node now st e] caught_not_ok[of env rq g ?node r' why now st e] by auto
  obtain nr u where "book_answer env uuids g ?node nr u now st = (st', SubmitOk e)"
    using r g as no by (auto simp: answerChallenge_def Let_def split: if_splits option.splits opening_outcome.splits)
  then show ?thesis using book_answer_ok[OF _ cur] getWorkJob_found[OF g] by blast
qed


end
