(* ===== verification/JobsHonest.thy ===== *)
theory JobsHonest
  imports JobsPay
begin

text \<open>
  The composition of the job service with the challenge work types. The locale \<open>challenge_jobs\<close> extends \<open>challenge_work\<close> by what
  the service asks of a registered work type: that the fields of its registry entry are the functions of the interface. From it:
  an honest node that executes its job and answers in time is issued a challenge and paid, whatever segments are drawn; both
  challenge-mode types of the registry are instances.
\<close>

lemma normalize_idem [simp]: "normalizeAddress (normalizeAddress a) = normalizeAddress a"
  using normal_owner_normalize[of a] by (simp add: normal_owner_def)

lemma getWorkJob_self: "distinct (map jr_id jobs) \<Longrightarrow> j \<in> set jobs \<Longrightarrow> getWorkJob (jr_id j) jobs = Some j"
  unfolding getWorkJob_def by (induction jobs) (auto simp: is_job_def)

lemma getWorkJob_update:
  assumes "\<And>j. P j \<Longrightarrow> jr_id (f j) = jr_id j"
  shows "getWorkJob i (update_where P f jobs) = map_option (\<lambda>j. if P j then f j else j) (getWorkJob i jobs)"
  unfolding getWorkJob_def is_job_def by (induction jobs) (auto simp: update_where_def assms)

lemma commit_input: "jobInputJson rt store (commit_row c y segs dl p job) = jobInputJson rt store job"
proof -
  have "jb_input (commit_row c y segs dl p job) = jb_input job" "jb_inputRef (commit_row c y segs dl p job) = jb_inputRef job"
    "jb_inputHash (commit_row c y segs dl p job) = jb_inputHash job" by (simp_all add: commit_row_def)
  then show ?thesis by (simp only: jobInputJson_def)
qed

lemma in_update: "j \<in> set xs \<Longrightarrow> P j \<Longrightarrow> f j \<in> set (update_where P f xs)"
  by (force simp: update_where_def)

locale challenge_jobs = challenge_work valid inputs plan resultSig krn outputs
  for valid :: "'x \<Rightarrow> bool" and inputs plan resultSig krn outputs +
  fixes wt :: workType and wrap :: "'x \<Rightarrow> jobInput"
  assumes registered: "getWorkType (wt_id wt) = Some wt"
    and mode: "wt_mode wt = Challenge"
    and wt_plan_eq: "wt_plan wt (wrap x) = plan x"
    and wt_inputs_eq: "wt_inputs wt (wrap x) = inputs x"
    and wt_sig_eq: "wt_resultSig wt (wrap x) = Some (resultSig x)"
    and wt_kernel_eq: "wt_kernel wt (wrap x) = krn x"
    and samples: "valid x \<Longrightarrow> wt_samples wt (wrap x) \<le> length (plan x) \<and> wt_samples wt (wrap x) \<le> 16"
begin

text \<open>The input of the job, wherever it is stored, is \<open>x\<close>.\<close>

definition job_of :: "runtime \<Rightarrow> 'd jobsState \<Rightarrow> string \<Rightarrow> int \<Rightarrow> 'x \<Rightarrow> workJob \<Rightarrow> bool" where
  "job_of rt st node now x job \<longleftrightarrow> current job node st \<and> jb_commitment job = None \<and> jb_workType job = wt_id wt
     \<and> (case jb_expiresAt job of None \<Rightarrow> False | Some t \<Rightarrow> now \<le> t)
     \<and> (\<exists>text. jobInputJson rt (js_store st) job = Some text \<and> rt_parse rt text = Some (wrap x))"

lemma job_challenge:
  assumes "job_of rt st node now x job"
  shows "challengeJob rt (js_store st) job wt = Some \<lparr>cj_input = wrap x, cj_plan = plan x, cj_inputs = inputs x\<rparr>"
  using assms by (auto simp: job_of_def challengeJob_def wt_plan_eq wt_inputs_eq)

lemma commitment_accepted:
  assumes v: "valid x" and inv: "st_inv st paid" and job: "job_of rt st (normalizeAddress node) now x job"
    and row: "getNode (normalizeAddress node) (js_nodes st) = Some r" "truthy (nd_payout r)"
    and rt: "digest_ok (rt_sha rt)" "\<And>k m. length (rt_hmac rt k m) = 32"
    and c: "checkCommitment (rt_sha rt) (or_null (jb_sigma job)) (inputs x) (plan x) (Some c) (Some y) (resultSig x) = Some Accept"
  shows "\<exists>segs. submitWork rt env rq rnd uuids node (CommitSub (jr_id job) (Some c) (Some y)) now st
      = (st\<lparr>js_jobs := update_where (committable job (normalizeAddress node) now)
           (commit_row c (Some y) segs (now + CHALLENGE_TTL_SECONDS env * 1000) (payout_of r)) (js_jobs st)\<rparr>,
         ChallengeIssued segs (now + CHALLENGE_TTL_SECONDS env * 1000))
    \<and> length segs = wt_samples wt (wrap x) \<and> distinct segs \<and> sorted segs \<and> (\<forall>i \<in> set segs. i < length (plan x))"
proof -
  let ?node = "normalizeAddress node"
  have cur: "current job ?node st" using job by (simp add: job_of_def)
  note cj = currentD[OF inv cur]
  have g: "getWorkJob (jr_id job) (js_jobs st) = Some job" by (rule getWorkJob_self[OF jobs_invD(1)[OF inv] cj(1)])
  have jb: "jb_commitment job = None" "jr_status job = JobAssigned" "jr_node job = Some ?node" "jb_workType job = wt_id wt"
    using job cj(4) by (simp_all add: job_of_def assigned_to_def)
  obtain t where t: "jb_expiresAt job = Some t" "now \<le> t" using job by (auto simp: job_of_def split: option.splits)
  obtain s where s: "jb_sigma job = Some s" using cj(3) jb(2) by (auto simp: job_ok_def)
  obtain segs where segs: "segmentDraw (rt_sha rt) (rt_hmac rt) (JWT_SECRET env) (jr_id job) (or_null (jb_sigma job)) (cm_chainRoot c)
      (length (plan x)) (wt_samples wt (wrap x)) = Some segs"
    "length segs = wt_samples wt (wrap x)" "distinct segs" "sorted segs" "\<forall>i \<in> set segs. i < length (plan x)"
    using segmentDraw_aux[where hmac = "rt_hmac rt", OF rt(2), of "wt_samples wt (wrap x)" "length (plan x)"] samples[OF v] by blast
  have "committable job ?node now job" using cj(4) jb(1) s t by (simp add: committable_def)
  then have "find (committable job ?node now) (js_jobs st) \<noteq> None" using cj(1) by (auto simp: find_None_iff)
  then have "changes (committable job ?node now) (js_jobs st) > 0" by (simp add: changes_find)
  then have "submitCommitment rt env job ?node (payout_of r) wt (Some c) (Some y) now st
      = (st\<lparr>js_jobs := update_where (committable job ?node now)
           (commit_row c (Some y) segs (now + CHALLENGE_TTL_SECONDS env * 1000) (payout_of r)) (js_jobs st)\<rparr>,
         ChallengeIssued segs (now + CHALLENGE_TTL_SECONDS env * 1000))"
    using job_challenge[OF job] c segs(1) by (simp add: submitCommitment_def wt_sig_eq Let_def)
  then show ?thesis using g jb t row segs(2-5) registered mode
    by (intro exI[of _ segs]) (simp add: submitWork_def Let_def is_commit_def)
qed

lemma honest_openings_pass:
  assumes v: "valid x" and rnd: "\<And>k. rand_ok (rnd k)"
    and c: "\<And>j. j < length (plan x) \<Longrightarrow> committed c j = tensorHash (rt_sha rt) (outputs x ! j)"
  shows "\<forall>i \<in> set segs. i < length (plan x) \<Longrightarrow>
    check_openings rt rnd wt \<lparr>cj_input = wrap x, cj_plan = plan x, cj_inputs = inputs x\<rparr> c k
      (map (\<lambda>i. Some (honest_opening (outputs x) (plan x ! i))) segs) = AllOpened"
proof (induction segs arbitrary: k)
  case (Cons i segs)
  then have i: "i < length (plan x)" by simp
  obtain kn where kn: "krn x (sp_op (plan x ! i)) = Some kn"
    "checkOpening (rt_sha rt) (rnd k) (plan x ! i) (Some (honest_opening (outputs x) (plan x ! i))) c (inputs x) kn = Some Accept"
    using honest_opening_accepted[OF v i rnd c] by blast
  have "so_idx (honest_opening (outputs x) (plan x ! i)) = Some (of_nat i)" using idx_nth[OF v i] by (simp add: honest_opening_def)
  then show ?case using Cons kn i by (simp add: wt_kernel_eq js_at_def)
qed simp

lemma honest_indices:
  assumes "valid x" and "\<forall>i \<in> set segs. i < length (plan x)" and "sorted segs"
  shows "opened_idx (map (\<lambda>i. Some (honest_opening (outputs x) (plan x ! i))) segs) = map (\<lambda>i. Some (of_nat i)) segs"
proof -
  have idx: "map (\<lambda>z. case z of None \<Rightarrow> None | Some s \<Rightarrow> so_idx s) (map (\<lambda>i. Some (honest_opening (outputs x) (plan x ! i))) segs)
      = map Some (map rat_of_nat segs)"
    using assms(2) idx_nth[OF assms(1)] by (auto simp: honest_opening_def)
  have "List.map_filter (\<lambda>z. z) (map Some (map rat_of_nat segs)) = map rat_of_nat segs" by (induction segs) (simp_all add: map_filter_simps)
  moreover have "sort (map rat_of_nat segs) = map rat_of_nat segs" using assms(3) by (intro sorted_sort_id) (simp add: sorted_map)
  ultimately show ?thesis unfolding opened_idx_def Let_def idx by simp
qed

text \<open>An honest node is issued a challenge, and paid when it answers by the deadline.\<close>

lemma honest_paid:
  assumes v: "valid x" and inv: "st_inv st paid" and job: "job_of rt st (normalizeAddress node) now x job"
    and row: "getNode (normalizeAddress node) (js_nodes st) = Some r" "nd_payout r = Some p" "normalizeAddress p \<noteq> []"
    and rt: "digest_ok (rt_sha rt)" "\<And>k m. length (rt_hmac rt k m) = 32" and rnd: "\<And>k. rand_ok (rnd2 k)"
    and t: "t2 \<le> now + CHALLENGE_TTL_SECONDS env * 1000"
  shows "\<exists>c segs st1 st2 e.
      makeCommitment (rt_sha rt) (or_null (jb_sigma job)) (inputs x) (plan x) (outputs x) = Some c
    \<and> submitWork rt env rq rnd uuids node (CommitSub (jr_id job) (Some c) (Some (rats (last (outputs x))))) now st
        = (st1, ChallengeIssued segs (now + CHALLENGE_TTL_SECONDS env * 1000))
    \<and> length segs = wt_samples wt (wrap x)
    \<and> answerChallenge rt env rq rnd2 uuids node (jr_id job) (map (\<lambda>i. Some (honest_opening (outputs x) (plan x ! i))) segs) t2 st1
        = (st2, SubmitOk e)
    \<and> (\<exists>j \<in> set (js_jobs st2). jr_id j = jr_id job \<and> jr_status j = JobDone \<and> jb_result j = Some (TensorResult (rats (last (outputs x)))))"
proof -
  let ?node = "normalizeAddress node" and ?y = "rats (last (outputs x))" and ?dl = "now + CHALLENGE_TTL_SECONDS env * 1000"
  have cur: "current job ?node st" and nc: "jb_commitment job = None" using job by (simp_all add: job_of_def)
  note cj = currentD[OF inv cur]
  have np: "p \<noteq> []" using row(3) by (auto simp: normalizeAddress_def trim_def toLowerCase_def)
  then have tr: "truthy (nd_payout r)" "payout_of r = p" using row(2) by (simp_all add: truthy_def payout_of_def)
  obtain c where c: "makeCommitment (rt_sha rt) (or_null (jb_sigma job)) (inputs x) (plan x) (outputs x) = Some c"
    "checkCommitment (rt_sha rt) (or_null (jb_sigma job)) (inputs x) (plan x) (Some c) (Some ?y) (resultSig x) = Some Accept"
    "\<forall>i < length (plan x). committed c i = tensorHash (rt_sha rt) (outputs x ! i)" using honest_commitment[OF v rt(1)] by blast
  let ?P = "committable job ?node now"
  obtain segs where segs: "submitWork rt env rq rnd uuids node (CommitSub (jr_id job) (Some c) (Some ?y)) now st
      = (st\<lparr>js_jobs := update_where ?P (commit_row c (Some ?y) segs ?dl p) (js_jobs st)\<rparr>, ChallengeIssued segs ?dl)"
    "length segs = wt_samples wt (wrap x)" "sorted segs" "\<forall>i \<in> set segs. i < length (plan x)"
    using commitment_accepted[OF v inv job row(1) tr(1) rt c(2), of env rq rnd uuids] unfolding tr(2) by blast
  let ?st1 = "st\<lparr>js_jobs := update_where ?P (commit_row c (Some ?y) segs ?dl p) (js_jobs st)\<rparr>" and ?j1 = "commit_row c (Some ?y) segs ?dl p job"
  have P: "?P job" using job cj(3,4) by (auto simp: job_of_def committable_def job_ok_def assigned_to_def)
  have inv1: "st_inv ?st1 paid" using submitWork_inv[OF inv, of rt env rq rnd uuids node "CommitSub (jr_id job) (Some c) (Some ?y)" now] segs(1) by simp
  have j1: "?j1 \<in> set (js_jobs ?st1)" using cj(1) P by (force simp: update_where_def)
  have f: "jr_id ?j1 = jr_id job" "jr_status ?j1 = JobAssigned" "jr_node ?j1 = Some ?node" "jb_commitment ?j1 = Some c" "jb_challenge ?j1 = Some segs"
    "jb_challengeExpiresAt ?j1 = Some ?dl" "jb_workType ?j1 = wt_id wt" "jb_commitPayout ?j1 = Some (normalizeAddress p)"
    "jb_result ?j1 = Some (TensorResult ?y)"
    using job cj(4) by (simp_all add: commit_row_def job_of_def assigned_to_def)
  have cur1: "current ?j1 ?node ?st1" using j1 f(1-3) by (simp add: current_def assigned_to_def)
  have g: "getWorkJob (jr_id job) (js_jobs ?st1) = Some ?j1" using getWorkJob_self[OF jobs_invD(1)[OF inv1] j1] f(1) by simp
  have cj1: "challengeJob rt (js_store ?st1) ?j1 wt = Some \<lparr>cj_input = wrap x, cj_plan = plan x, cj_inputs = inputs x\<rparr>"
    using job_challenge[OF job] by (simp add: challengeJob_def commit_input)
  have pass: "check_openings rt rnd2 wt \<lparr>cj_input = wrap x, cj_plan = plan x, cj_inputs = inputs x\<rparr> c 0
      (map (\<lambda>i. Some (honest_opening (outputs x) (plan x ! i))) segs) = AllOpened"
    by (rule honest_openings_pass[OF v rnd _ segs(4)]) (use c(3) in blast)
  let ?os = "map (\<lambda>i. Some (honest_opening (outputs x) (plan x ! i))) segs" and ?u = "wt_meter wt (wrap x)"
  have ans: "answerChallenge rt env rq rnd2 uuids node (jr_id job) ?os t2 ?st1 = book_answer env uuids ?j1 ?node (Some r) ?u t2 ?st1"
    using g f cj1 registered t honest_indices[OF v segs(4,3)] pass row(1) by (simp add: answerChallenge_def Let_def)
  let ?out = "\<lparr>bo_result = jb_result ?j1, bo_certZ = jb_certZ ?j1, bo_sampleCheck = Some SamplePassed, bo_caught = False, bo_units = None\<rparr>"
  let ?b = "bookVerified env uuids ?j1 ?node (normalizeAddress p) t2 ?out ?st1"
  note be = book_effect[OF inv1 cur1, of env uuids "normalizeAddress p" t2 ?out]
  obtain split where bk: "?b = (fst ?b, Booked True split)" using be(3) by (metis prod.collapse)
  have pay: "coalesce (jb_commitPayout ?j1) (nd_payout r) = Some (normalizeAddress p)" unfolding f(8) by (simp add: coalesce_def)
  have "book_answer env uuids ?j1 ?node (Some r) ?u t2 ?st1
      = (case ?b of (s, NotBooked) \<Rightarrow> (s, SubmitRefused AlreadyCompleted)
          | (s, Booked captured sp) \<Rightarrow> creditNode ?node r ?j1 ?u captured sp t2 s)"
    using row(3) by (simp only: book_answer_def Let_def pay option.case truthy_def or_null_def) simp
  also have "\<dots> = creditNode ?node r ?j1 ?u True split t2 (fst ?b)" by (subst bk) simp
  finally have "book_answer env uuids ?j1 ?node (Some r) ?u t2 ?st1 = creditNode ?node r ?j1 ?u True split t2 (fst ?b)" .
  moreover obtain e where "creditNode ?node r ?j1 ?u True split t2 (fst ?b) = (fst (creditNode ?node r ?j1 ?u True split t2 (fst ?b)), SubmitOk e)"
    by (simp add: creditNode_def)
  ultimately have paid: "answerChallenge rt env rq rnd2 uuids node (jr_id job) ?os t2 ?st1
      = (fst (creditNode ?node r ?j1 ?u True split t2 (fst ?b)), SubmitOk e)" using ans by simp
  let ?j2 = "finish_row ?out t2 (authorise t2 ?j1)"
  have "?j2 \<in> set (js_jobs (fst (creditNode ?node r ?j1 ?u True split t2 (fst ?b))))"
  proof -
    have "assigned_to (jr_id ?j1) ?node ?j1" using f(2,3) by (simp only: assigned_to_def)
    from in_update[where f = "\<lambda>j. finish_row ?out t2 (authorise t2 j)" and P = "assigned_to (jr_id ?j1) ?node", OF j1 this] show ?thesis by (simp only: tables_simps be(1))
  qed
  moreover have "jr_id ?j2 = jr_id job" "jr_status ?j2 = JobDone" "jb_result ?j2 = Some (TensorResult ?y)"
    using f by (simp_all add: finish_row_def authorise_def)
  ultimately have "\<exists>j \<in> set (js_jobs (fst (creditNode ?node r ?j1 ?u True split t2 (fst ?b)))). jr_id j = jr_id job \<and> jr_status j = JobDone
      \<and> jb_result j = Some (TensorResult ?y)" by (intro bexI[of _ ?j2]) simp_all
  then show ?thesis
    by (intro exI[of _ c] exI[of _ segs] exI[of _ ?st1] exI[of _ "fst (creditNode ?node r ?j1 ?u True split t2 (fst ?b))"] exI[of _ e]
      conjI c(1) segs(1,2) paid)
qed

end

interpretation mlp_jobs: challenge_jobs mlp_ok int8MlpInputs int8MlpPlan int8MlpResultSig int8MlpKernel mlp_outputs int8Mlp MlpJob
  by unfold_locales (auto simp: int8Mlp_def on_mlp_def getWorkType_def REGISTRY_def matmul_def int8MlpPlan_def PLAN_def)

interpretation model_jobs: challenge_jobs model_ok int8ModelInputs int8ModelPlan int8ModelResultSig int8ModelKernel model_outputs int8Model ModelJob
proof unfold_locales
  fix x :: "int int8ModelInput"
  assume ok: "model_ok x"
  have "3 \<le> 4 * length (md_blocks x)" "length (md_blocks x) \<le> 4 * length (md_blocks x)" using model_okD(1)[OF ok] by (cases "md_blocks x"; simp)+
  then show "wt_samples int8Model (ModelJob x) \<le> length (int8ModelPlan x) \<and> wt_samples int8Model (ModelJob x) \<le> 16"
    using length_plan[OF model_okD(1)[OF ok]] by (simp add: int8Model_def on_model_def samplesInt8Model_def)
qed (auto simp: int8Model_def int8Mlp_def on_model_def getWorkType_def REGISTRY_def matmul_def)


definition toy_mlp_rt :: runtime where
  "toy_mlp_rt = toy_rt\<lparr>rt_parse := (\<lambda>s. Some (MlpJob (mlp_map floor toy_mlp)))\<rparr>"

definition toy_mlp_job :: workJob where
  "toy_mlp_job = (assign_row ''0xn'' ''s'' ''src'' ''seed'' ''h'' [] True 1000 61000 (new_job ''j'' ''0xa'' ''int8-mlp'' 8 5 True 900))
     \<lparr>jb_input := Some (MlpJob (mlp_map floor toy_mlp))\<rparr>"

definition toy_mlp_rows :: "balanceRow list" where
  "toy_mlp_rows = [\<lparr>bl_address = ''0xa'', bl_balance = 95, bl_held = 5, bl_updatedAt = 1\<rparr>]"

definition toy_mlp_state :: "unit jobsState" where
  "toy_mlp_state = toy_start\<lparr>js_jobs := [toy_mlp_job], js_balances := toy_mlp_rows\<rparr>"

lemma toy_mlp_job_sel: "jr_id toy_mlp_job = ''j''" "jr_price toy_mlp_job = 5" "jr_status toy_mlp_job = JobAssigned" "jr_node toy_mlp_job = Some ''0xn''"
  "jr_feeCapturedAt toy_mlp_job = None" "jb_owner toy_mlp_job = ''0xa''" "jb_workType toy_mlp_job = ''int8-mlp''" "jb_sigma toy_mlp_job = Some ''s''"
  "jb_expiresAt toy_mlp_job = Some 61000" "jb_challengeExpiresAt toy_mlp_job = None" "jb_commitment toy_mlp_job = None" "jb_attempts toy_mlp_job = 0"
  "jb_protocol toy_mlp_job = False" "jb_input toy_mlp_job = Some (MlpJob (mlp_map floor toy_mlp))"
  by (simp_all add: toy_mlp_job_def assign_row_def new_job_def)

lemma toy_mlp_inv: "jobs_inv [toy_mlp_job] toy_mlp_rows 100"
proof -
  have "normal_owner ''0xa''" by code_simp
  then have "job_ok toy_mlp_job" by (simp add: job_ok_def toy_mlp_job_sel MAX_JOB_ATTEMPTS_def MAX_SAFE_INTEGER_def)
  then show ?thesis
    by (simp add: jobs_inv_def busy_Cons toy_mlp_job_sel toy_mlp_rows_def bal_inv_def bal_total_def fees_captured_def captured_share_def
      held_of_def open_price_def open_share_def unfinished_def balance_row_def)
qed



end
