(* ===== verification/JobsChecks.thy ===== *)
theory JobsChecks
  imports JobsHonest
begin

text \<open>
  What the job service shows to others: a caught node, the published draw, and the matrices of a finished job after they moved
  to the artifact store.
\<close>

subsection \<open>A failed challenge\<close>

lemma truncate_sel [simp]: "jr_id (jobRow.truncate j) = jr_id j" "jr_status (jobRow.truncate j) = jr_status j"
  "jr_node (jobRow.truncate j) = jr_node j"
  by (simp_all add: jobRow.truncate_def)

lemma view_assigned: "still_assigned i node (ledger_view st) = still_assigned_job i node (js_jobs st)"
  by (auto simp: still_assigned_def ledger_view_def still_assigned_job_def list_ex_iff assigned_to_def)

lemma view_entries [simp]: "db_entries (ledger_view st) = db_entries (js_ledger st)"
  by (simp add: ledger_view_def)

text \<open>Every unreleased lane entry of the wallet that was pending is clawed.\<close>

lemma claw_takes:
  assumes "still_assigned i node d" and "e \<in> set (db_entries d)" and "en_status e = Pending" and "en_lane e = LaneA \<or> en_lane e = LaneB"
    and "epochOf env now < en_epoch e" and "en_address e = normalizeAddress p"
  shows "e\<lparr>en_status := Clawed\<rparr> \<in> set (db_entries (caughtLedger env i node p now d))"
proof -
  have cov: "covered env i node p now d e" using assms by (simp add: covered_def)
  let ?cl = "db_claws d @ filter (\<lambda>c. c \<notin> set (db_claws d)) (map (\<lambda>e. (en_id e, i)) (filter (covered env i node p now d) (db_entries d)))"
  have "(en_id e, i) \<in> set ?cl" using cov assms(2) by auto
  then have "e\<lparr>en_status := Clawed\<rparr> \<in> set (update_where (\<lambda>e. en_status e = Pending \<and> (en_id e, i) \<in> set ?cl) (\<lambda>e. e\<lparr>en_status := Clawed\<rparr>) (db_entries d))"
    using assms(2,3) by (force simp: update_where_def)
  then show ?thesis using assms(1) by (simp add: caughtLedger_def Let_def set_status_where_def)
qed

lemma caught_ledger:
  assumes "jb_commitPayout job = Some p" and "p \<noteq> []"
  shows "js_ledger (fst (caughtChallenge env rq job node r why now st)) = caughtLedger (we_api env) (jr_id job) node p now (ledger_view st)"
  using assms by (simp add: caughtChallenge_def Let_def coalesce_def truthy_def or_null_def caughtStatements_def suspend_caught_def refund_def afterCaught_def)

lemma caught_nodes:
  assumes "still_assigned_job (jr_id job) node (js_jobs st)"
  shows "js_nodes (fst (caughtChallenge env rq job node r why now st)) =
    update_where (at_node node) (suspend_row (segmentSuspensionReason (jr_id job)) now) (js_nodes st)"
  using assms by (simp add: caughtChallenge_def Let_def caughtStatements_def suspend_caught_def refund_def afterCaught_def)

lemma answer_caught:
  assumes r: "answerChallenge rt env rq rnd uuids nodeAddress i os now st = (st', SubmitRefused (SegmentCaught why))"
  shows "\<exists>job. getWorkJob i (js_jobs st) = Some job \<and> current job (normalizeAddress nodeAddress) st \<and> jb_commitment job \<noteq> None
    \<and> st' = fst (caughtChallenge env rq job (normalizeAddress nodeAddress) (getNode (normalizeAddress nodeAddress) (js_nodes st)) why now st)"
proof -
  let ?node = "normalizeAddress nodeAddress"
  obtain g where g: "getWorkJob i (js_jobs st) = Some g" using r by (auto simp: answerChallenge_def Let_def split: option.splits)
  have as: "jr_status g = JobAssigned" "jr_node g = Some ?node" "jb_commitment g \<noteq> None"
    using r g by (auto simp: answerChallenge_def Let_def split: if_splits option.splits)
  have cur: "current g ?node st" using as getWorkJob_found[OF g] by (simp add: current_def assigned_to_def)
  have no: "fail_misfit g ?node now st \<noteq> (st', SubmitRefused (SegmentCaught why))" "book_answer env uuids g ?node nr u now st \<noteq> (st', SubmitRefused (SegmentCaught why))" for nr u
    by (auto simp: fail_misfit_def book_answer_def creditNode_def Let_def split: sum.splits option.splits prod.splits booked.splits if_splits)
  have res: "snd (caughtChallenge env rq g ?node nr w now st) = SubmitRefused (SegmentCaught w)" for nr w by (simp add: caughtChallenge_def Let_def)
  have "\<exists>w. caughtChallenge env rq g ?node (getNode ?node (js_nodes st)) w now st = (st', SubmitRefused (SegmentCaught why))"
    using r g as no by (auto simp: answerChallenge_def Let_def split: if_splits option.splits opening_outcome.splits)
  then obtain w where w: "caughtChallenge env rq g ?node (getNode ?node (js_nodes st)) w now st = (st', SubmitRefused (SegmentCaught why))" by blast
  then have "w = why" using res[of "getNode ?node (js_nodes st)" w] by simp
  then show ?thesis using w g cur as(3) by (metis fst_conv)
qed


definition toy_committed :: workJob where
  "toy_committed = toy_mlp_job\<lparr>jb_commitment := Some \<lparr>cm_inputHash = [], cm_outputHash = None, cm_chainRoot = [], cm_segments = []\<rparr>,
     jb_challenge := Some [0, 1], jb_challengeExpiresAt := Some 3000, jb_commitPayout := Some ''w1''\<rparr>"

definition toy_late_state :: "unit jobsState" where
  "toy_late_state = toy_mlp_state\<lparr>js_jobs := [toy_committed], js_ledger := empty_db\<lparr>db_entries := [toy_entry ''e1'' ''w1'' 100 None]\<rparr>\<rparr>"

definition toy_late :: "unit jobsState \<times> submitResult" where
  "toy_late = answerChallenge toy_mlp_rt toy_work_env toy_requeue (\<lambda>_ _ l. []) [] ''0xN'' ''j'' [] 5000 toy_late_state"


subsection \<open>The published draw\<close>

definition replays :: "runtime \<Rightarrow> workJob \<Rightarrow> bool" where
  "replays rt j \<longleftrightarrow> (\<forall>env. rp_ok (replayDraw rt (draw_record rt env j)))"

lemma public_weighted: "map pc_weighted (map (public_of rt env) cs) = map weighted_of cs"
  by (simp add: pc_weighted_def public_of_def weighted_of_def)

lemma sorted_weighted: "map weighted_of (sortedCandidates cs) = sort_by byAddress (map weighted_of cs)"
  unfolding sortedCandidates_def by (rule sort_by_map) simp

lemma hexdigest_ne: "digest_ok H \<Longrightarrow> sha256_text H s \<noteq> []"
proof
  assume H: "digest_ok H" and e: "sha256_text H s = []"
  have "is_hex 64 (sha256_text H s)" using H by (simp add: sha256_text_def hexdigest_def digest_ok_def)
  then show False unfolding e by (simp add: is_hex_def)
qed

lemma sorted_distinct: "sorted_wrt addr_less xs \<Longrightarrow> distinct (map fst xs)"
  by (induction xs) (auto simp: addr_less_def str_less_irrefl)

lemma assigned_replays:
  assumes H: "digest_ok (rt_sha rt)" and src: "src \<noteq> []"
    and pool: "distinct (map nd_address pool)" "[] \<notin> set (map nd_address pool)"
    and draw: "draw_node rt src (jr_id j) wt pool = Some (node, seed, el)"
  shows "replays rt (assign_row node sg src seed (eligibleHash (rt_sha rt) (rt_num rt) (map weighted_of el)) (sortedCandidates el) cl now ex j)"
proof -
  let ?ws = "map weighted_of el" and ?s = "sort_by byAddress (map weighted_of el)"
  have el: "el = map candidate (filter (fits wt) pool)" and seed: "seed = job_sha rt (src @ jr_id j)" and wd: "weightedDraw seed ?ws = Some node"
    using draw by (auto simp: draw_node_def Let_def)
  have fsts: "map fst ?ws = map nd_address (filter (fits wt) pool)" by (simp add: el weighted_of_def candidate_def)
  have "distinct (map nd_address (filter (fits wt) pool))" using pool(1) by (rule distinct_map_filter)
  then have dist: "distinct (map fst ?ws)" unfolding fsts .
  have "set (map nd_address (filter (fits wt) pool)) \<subseteq> set (map nd_address pool)" by auto
  then have ne: "[] \<notin> set (map fst ?ws)" unfolding fsts using pool(2) by blast
  have sw: "set ?s = set ?ws" using sort_by_props[of byAddress ?ws] by simp
  have ds: "distinct (map fst ?s)" by (rule sorted_distinct[OF sort_by_sorted[OF dist]])
  have nonempty: "?ws \<noteq> []" using wd by (auto simp: weightedDraw_def)
  have draw2: "weightedDraw seed ?s = Some node" and in_ws: "node \<in> set (map fst ?ws)"
    using weightedDraw_aux[OF nonempty dist sw ds, of seed] wd by auto
  have eh: "eligibleHash (rt_sha rt) (rt_num rt) ?s = eligibleHash (rt_sha rt) (rt_num rt) ?ws"
    using sort_by_order[OF dist ds sw] by (simp add: eligibleHash_def)
  have node: "node \<noteq> []" using in_ws ne by blast
  have "?s \<noteq> []" using nonempty sw by (metis set_empty)
  moreover have "seed \<noteq> []" "eligibleHash (rt_sha rt) (rt_num rt) ?ws \<noteq> []"
    using hexdigest_ne[OF H] by (simp_all add: seed job_sha_def eligibleHash_def)
  moreover have pw: "map (pc_weighted \<circ> public_of rt env) (sortedCandidates el) = ?s" for env
    using public_weighted[of rt env "sortedCandidates el"] by (simp add: sorted_weighted)
  ultimately show ?thesis using node draw2 eh src seed
    by (simp add: replays_def replayDraw_def draw_record_def assign_row_def Let_def)
qed

definition drawn_or :: "runtime \<Rightarrow> workJob set \<Rightarrow> workJob list \<Rightarrow> bool" where
  "drawn_or rt J jobs \<longleftrightarrow> (\<forall>j \<in> set jobs. jr_status j = JobAssigned \<longrightarrow> j \<in> J \<or> replays rt j)"

lemma seed_ne: "fetchSeedSource rpc now \<noteq> []"
  by (auto simp: fetchSeedSource_def split: option.splits)

lemma assign_one_replays:
  assumes "digest_ok (rt_sha rt)" and "src \<noteq> []" and "distinct (map nd_address pool)" "[] \<notin> set (map nd_address pool)"
    and "draw_node rt src i wt pool = Some draw" and "drawn_or rt J jobs"
  shows "drawn_or rt J (fst (assign_one rt env nonce src now live wt i draw pool jobs))"
proof -
  obtain node seed el where draw: "draw = (node, seed, el)" by (cases draw) auto
  have "replays rt (assign_row node sg src seed (eligibleHash (rt_sha rt) (rt_num rt) (map weighted_of el)) (sortedCandidates el) cl now ex j)"
    if "assignable i node jobs j" for sg cl ex j
    by (rule assigned_replays[OF assms(1-4)]) (use that assms(5) draw in \<open>simp add: assignable_def\<close>)
  then show ?thesis using assms(6) by (auto simp: drawn_or_def assign_one_def Let_def draw update_where_def)
qed

lemma assign_loop_replays:
  assumes "digest_ok (rt_sha rt)" and "src \<noteq> []"
  shows "distinct (map nd_address pool) \<Longrightarrow> [] \<notin> set (map nd_address pool) \<Longrightarrow> drawn_or rt J jobs
    \<Longrightarrow> drawn_or rt J (fst (assign_loop rt env nonce src now live q pool jobs))"
proof (induction q arbitrary: pool jobs)
  case (Cons p q)
  obtain i w where p: "p = (i, w)" by (cases p) auto
  have IH: "drawn_or rt J (fst (assign_loop rt env nonce src now live q pool' jobs'))"
    if "pool' = filter Q pool" "drawn_or rt J jobs'" for pool' jobs' Q
    by (rule Cons.IH) (use that Cons.prems distinct_map_filter[of nd_address pool Q] in auto)
  have self: "drawn_or rt J (fst (assign_loop rt env nonce src now live q pool jobs))" using IH[of pool "\<lambda>_. True"] Cons.prems(3) by simp
  show ?case
  proof (cases "getWorkType w")
    case (Some wt)
    show ?thesis
    proof (cases "draw_node rt src i wt pool")
      case (Some draw)
      note one = assign_one_replays[OF assms Cons.prems(1,2) Some Cons.prems(3), of env nonce now live]
      show ?thesis using IH[OF refl one, of "\<lambda>r. nd_address r \<noteq> fst draw"] one \<open>getWorkType w = Some wt\<close> Some
        by (simp add: p case_prod_beta Let_def split: if_split)
    qed (simp add: p \<open>getWorkType w = Some wt\<close> self)
  qed (simp add: p self)
qed simp

text \<open>
  C10. Every assignment can be checked from its published record: whoever reads a job that the assignment round has just handed
  out, and repeats the three steps of the draw on the record (the seed from the seed source and the job id, the hash of the
  eligible set, the weighted draw), gets the same seed, the same hash and the same node. The record lists the candidates sorted by
  address and hides the payout wallets behind operator ids, which none of the steps depends on.
\<close>

theorem draws_replay:
  assumes "digest_ok (rt_sha rt)" and "distinct (map nd_address (js_nodes st))" and "[] \<notin> set (map nd_address (js_nodes st))"
    and "j \<in> set (js_jobs (fst (runAssignment rt env nonce rpc now st)))" and "jr_status j = JobAssigned" and "j \<notin> set (js_jobs st)"
  shows "replayDraw rt (draw_record rt env j) = \<lparr>rp_seedOk = True, rp_eligibleOk = True, rp_drawOk = True, rp_ok = True\<rparr>"
proof -
  let ?jobs = "update_where (expired now) CLEAR_ASSIGNMENT (js_jobs st)"
  have clear: "drawn_or rt (set (js_jobs st)) ?jobs" by (auto simp: drawn_or_def update_where_def CLEAR_ASSIGNMENT_def)
  let ?pool = "filter (\<lambda>r. nd_address r \<notin> set (busy_nodes ?jobs)) (filter (live_node env now) (js_nodes st))"
  have pool: "distinct (map nd_address ?pool)" "[] \<notin> set (map nd_address ?pool)"
    using assms(2,3) by (auto intro!: distinct_map_filter)
  have "drawn_or rt (set (js_jobs st)) (js_jobs (fst (runAssignment rt env nonce rpc now st)))"
    using clear assign_loop_replays[OF assms(1) seed_ne pool clear] by (simp add: runAssignment_def Let_def case_prod_beta del: filter_filter)
  then have "rp_ok (replayDraw rt (draw_record rt env j))" using assms(4-6) by (auto simp: drawn_or_def replays_def)
  then show ?thesis by (auto simp: replayDraw_def Let_def)
qed

theorem draws_replay_witness: "\<exists>j \<in> set (js_jobs toy_assigned). rp_ok (replayDraw toy_rt (draw_record toy_rt toy_work_env j))"
proof -
  obtain j where j: "j \<in> set (js_jobs toy_assigned)" "jr_status j = JobAssigned" using toy_assigned_jobs by (auto simp: assign_row_def)
  moreover have "js_jobs toy_state = [toy_job]" "js_nodes toy_state = [toy_node]" "jr_status toy_job = JobQueued" "nd_address toy_node \<noteq> []"
    by (simp_all add: toy_state_def toy_start_def toy_job_def protocol_job_def new_job_def toy_node_def new_node_def)
  moreover have "digest_ok (rt_sha toy_rt)" using toy_digest_ok by (simp add: toy_rt_def)
  moreover have "j \<noteq> toy_job" using j(2) by (auto simp: toy_job_def protocol_job_def new_job_def)
  ultimately have "rp_ok (replayDraw toy_rt (draw_record toy_rt toy_work_env j))"
    using draws_replay[of toy_rt toy_state j toy_work_env "\<lambda>i. ''n''" None 1000] by (auto simp: toy_assigned_def)
  then show ?thesis using j(1) by blast
qed

subsection \<open>Matrices in the artifact store\<close>

definition contents :: "artifacts \<Rightarrow> workJob list \<Rightarrow> (string \<times> jobMatrices_t option) list" where
  "contents m jobs = map (\<lambda>j. (jr_id j, jobMatrices (Some m) j)) jobs"

definition own_keys :: "workJob list \<Rightarrow> bool" where
  "own_keys jobs \<longleftrightarrow> distinct (map jr_id jobs) \<and> (\<forall>j \<in> set jobs. jb_artifact j = None \<or> jb_artifact j = Some (job_key (jr_id j)))"

lemma job_key_inj [simp]: "job_key i = job_key k \<longleftrightarrow> i = k"
  by (simp add: job_key_def)

lemma put_keeps:
  assumes "own_keys jobs" and "r \<in> set jobs" and "unmoved r"
  shows "contents (m(job_key (jr_id r) \<mapsto> b)) jobs = contents m jobs"
proof -
  have "jobMatrices (Some (m(job_key (jr_id r) \<mapsto> b))) j = jobMatrices (Some m) j" if "j \<in> set jobs" for j
  proof (cases "j = r")
    case False
    then have "jr_id j \<noteq> jr_id r" using assms(1,2) that by (auto simp: own_keys_def distinct_map dest: inj_onD)
    then show ?thesis using assms(1) that by (auto simp: own_keys_def jobMatrices_def store_get_def split: option.splits)
  qed (use assms(3) in \<open>auto simp: unmoved_def jobMatrices_def\<close>)
  then show ?thesis by (simp add: contents_def)
qed

lemma move_keeps:
  assumes "own_keys jobs" and "r \<in> set jobs" and "unmoved r"
  defines "key \<equiv> job_key (jr_id r)"
  defines "jobs' \<equiv> update_where (unmoved_at (jr_id r)) (move_artifact key) jobs"
  shows "contents (m(key \<mapsto> body_of r)) jobs' = contents m jobs" and "own_keys jobs'"
proof -
  have only: "j = r" if "j \<in> set jobs" "unmoved_at (jr_id r) j" for j
    using that assms(1,2) by (auto simp: own_keys_def unmoved_at_def distinct_map dest: inj_onD)
  have "jobMatrices (Some (m(key \<mapsto> body_of r))) (move_artifact key r) = jobMatrices (Some m) r"
    using assms(3) by (auto simp: unmoved_def jobMatrices_def move_artifact_def body_of_def store_get_def)
  then have "contents (m(key \<mapsto> body_of r)) jobs' = contents (m(key \<mapsto> body_of r)) jobs"
    using only put_keeps[OF assms(1-3), of m "body_of r"]
    by (auto simp: jobs'_def contents_def update_where_def move_artifact_def key_def)
  then show "contents (m(key \<mapsto> body_of r)) jobs' = contents m jobs" using put_keeps[OF assms(1-3)] by (simp add: key_def)
  have "map jr_id jobs' = map jr_id jobs" by (auto simp: jobs'_def update_where_def move_artifact_def)
  moreover have "\<forall>j \<in> set jobs'. jb_artifact j = None \<or> jb_artifact j = Some (job_key (jr_id j))"
    using assms(1) by (auto simp: own_keys_def jobs'_def update_where_def move_artifact_def key_def unmoved_at_def)
  ultimately show "own_keys jobs'" using assms(1) by (simp add: own_keys_def)
qed

lemma move_loop_keeps:
  assumes "own_keys jobs" and "distinct (map jr_id rs)" and "\<forall>r \<in> set rs. r \<in> set jobs \<and> unmoved r"
    and "move_loop outcome rs (m, jobs) = ((m', jobs'), k)"
  shows "contents m' jobs' = contents m jobs \<and> own_keys jobs'"
  using assms
proof (induction rs arbitrary: m jobs k)
  case (Cons r rs)
  let ?key = "job_key (jr_id r)"
  have r: "r \<in> set jobs" "unmoved r" using Cons.prems(3) by auto
  note put = put_keeps[OF Cons.prems(1) r, of m "body_of r"] and mv = move_keeps[OF Cons.prems(1) r]
  show ?case
  proof (cases "outcome ?key")
    case PutOk
    let ?jobs = "update_where (unmoved_at (jr_id r)) (move_artifact ?key) jobs"
    obtain k' where l: "move_loop outcome rs (m(?key \<mapsto> body_of r), ?jobs) = ((m', jobs'), k')"
      using Cons.prems(4) PutOk by (auto simp: Let_def split: prod.splits)
    have u: "\<forall>x \<in> set rs. x \<in> set ?jobs \<and> unmoved x"
    proof
      fix x assume x: "x \<in> set rs"
      have "\<not> unmoved_at (jr_id r) x" using Cons.prems(2) x by (simp add: unmoved_at_def) (metis imageI)
      then have "x \<in> set ?jobs" using Cons.prems(3) x by (auto simp: update_where_def image_iff intro!: bexI[of _ x])
      then show "x \<in> set ?jobs \<and> unmoved x" using Cons.prems(3) x by simp
    qed
    have d: "distinct (map jr_id rs)" using Cons.prems(2) by simp
    show ?thesis using Cons.IH[OF mv(2) d u l] unfolding mv(1) .
  next
    case PutFailed
    have u: "\<forall>x \<in> set rs. x \<in> set jobs \<and> unmoved x" and d: "distinct (map jr_id rs)"
      and l: "move_loop outcome rs (m, jobs) = ((m', jobs'), k)" using Cons.prems(2-4) PutFailed by simp_all
    show ?thesis by (rule Cons.IH[OF Cons.prems(1) d u l])
  next
    case RegisterFailed
    have u: "\<forall>x \<in> set rs. x \<in> set jobs \<and> unmoved x" and d: "distinct (map jr_id rs)"
      and l: "move_loop outcome rs (m(?key \<mapsto> body_of r), jobs) = ((m', jobs'), k)" using Cons.prems(2-4) RegisterFailed by (simp_all add: Let_def)
    show ?thesis using Cons.IH[OF Cons.prems(1) d u l] unfolding put .
  qed
qed simp

text \<open>
  C28. Moving finished jobs to the artifact store loses nothing: whatever puts and registrations fail on the way, every job
  shows the same matrices and result after the pass as before it, read from its row or from the store. The hypothesis (ids are
  distinct and a job's artifact, if any, has that job's key) holds again after the pass, so any number of passes keeps them.
\<close>

theorem artifacts_keep_matrices:
  assumes "js_store st = Some m" and "own_keys (js_jobs st)" and "moveJobArtifacts outcome limit st = (st', k)"
  shows "map (\<lambda>j. (jr_id j, jobMatrices (js_store st') j)) (js_jobs st') = map (\<lambda>j. (jr_id j, jobMatrices (js_store st) j)) (js_jobs st)
    \<and> own_keys (js_jobs st')"
proof -
  let ?rs = "take limit (sort_by (\<lambda>a b. completed a - completed b) (filter unmoved (js_jobs st)))"
  obtain m' jobs' where loop: "move_loop outcome ?rs (m, js_jobs st) = ((m', jobs'), k)" and st': "st' = st\<lparr>js_store := Some m', js_jobs := jobs'\<rparr>"
    using assms(1,3) by (auto simp: moveJobArtifacts_def Let_def split: prod.splits)
  let ?sorted = "sort_by (\<lambda>a b. completed a - completed b) (filter unmoved (js_jobs st))"
  have ids: "distinct (js_jobs st)" "inj_on jr_id (set (js_jobs st))" using assms(2) by (auto simp: own_keys_def distinct_map)
  have sorted: "set ?sorted = set (filter unmoved (js_jobs st))" "distinct ?sorted" using sort_by_props[of _ "filter unmoved (js_jobs st)"] ids(1) by auto
  have "distinct (map jr_id ?sorted)" using ids(2) sorted by (auto simp: distinct_map intro: inj_on_subset)
  then have "distinct (map jr_id ?rs)" by (metis distinct_take take_map)
  moreover have "\<forall>r \<in> set ?rs. r \<in> set (js_jobs st) \<and> unmoved r"
    using sorted(1) by (auto dest: in_set_takeD)
  ultimately have "contents m' jobs' = contents m (js_jobs st) \<and> own_keys jobs'" by (rule move_loop_keeps[OF assms(2) _ _ loop])
  then show ?thesis by (simp add: contents_def st' assms(1))
qed

definition toy_finished :: "unit jobsState" where
  "toy_finished = toy_start\<lparr>js_store := Some (\<lambda>_. None), js_jobs := [toy_job\<lparr>jr_status := JobDone, jb_completedAt := Some 5\<rparr>]\<rparr>"

theorem artifacts_keep_matrices_witness:
  "map (\<lambda>j. jobMatrices (js_store (fst (moveJobArtifacts (\<lambda>_. PutOk) 10 toy_finished))) j) (js_jobs (fst (moveJobArtifacts (\<lambda>_. PutOk) 10 toy_finished)))
    = [Some \<lparr>jm_n = PROTOCOL_N, jm_matrixA = [], jm_matrixB = [], jm_matrixC = None\<rparr>]"
proof -
  have "own_keys (js_jobs toy_finished)" "js_store toy_finished = Some (\<lambda>_. None)"
    "map (\<lambda>j. (jr_id j, jobMatrices (js_store toy_finished) j)) (js_jobs toy_finished)
      = [([], Some \<lparr>jm_n = PROTOCOL_N, jm_matrixA = [], jm_matrixB = [], jm_matrixC = None\<rparr>)]"
    by (simp_all add: toy_finished_def own_keys_def toy_job_def protocol_job_def new_job_def jobMatrices_def)
  with artifacts_keep_matrices[of toy_finished "\<lambda>_. None" "\<lambda>_. PutOk" 10 "fst (moveJobArtifacts (\<lambda>_. PutOk) 10 toy_finished)" "snd (moveJobArtifacts (\<lambda>_. PutOk) 10 toy_finished)"]
  have "map (\<lambda>j. (jr_id j, jobMatrices (js_store (fst (moveJobArtifacts (\<lambda>_. PutOk) 10 toy_finished))) j)) (js_jobs (fst (moveJobArtifacts (\<lambda>_. PutOk) 10 toy_finished)))
    = [([], Some \<lparr>jm_n = PROTOCOL_N, jm_matrixA = [], jm_matrixB = [], jm_matrixC = None\<rparr>)]" by simp
  then show ?thesis by auto
qed

end
