(* ===== verification/RelayProtocol.thy ===== *)
theory RelayProtocol
  imports EpochMerkle
begin

unbundle bit_operations_syntax

text \<open>
  The wire protocol between the relay and a node agent (\<^verbatim>\<open>shared/relay-protocol.ts\<close>): the control messages, which are JSON
  text, and the binary body frames. A JSON value is a \<open>jsval\<close>; \<open>stringify\<close> is \<^verbatim>\<open>JSON.stringify\<close> on the values the
  protocol sends, and \<^verbatim>\<open>JSON.parse\<close> is an argument of the parsers (\<open>None\<close>: it throws). Text is a list of bytes, as in
  every theory of the development.
\<close>

subsection \<open>Limits\<close>

definition MAX_FRAME_BYTES :: nat where "MAX_FRAME_BYTES = 64 * 1024"
definition WINDOW_BYTES :: nat where "WINDOW_BYTES = 512 * 1024"
definition MAX_STREAMS :: nat where "MAX_STREAMS = 64"
definition MAX_STREAMS_PER_DEP :: nat where "MAX_STREAMS_PER_DEP = 16"
definition PROBE_SLOTS :: nat where "PROBE_SLOTS = 4"
definition MAX_PATH_CHARS :: nat where "MAX_PATH_CHARS = 8192"
definition MAX_REQUEST_HEADERS :: nat where "MAX_REQUEST_HEADERS = 128"
definition MAX_CONTROL_CHARS :: nat where "MAX_CONTROL_CHARS = 64 * 1024"

datatype trafficClass = SiteClass | EndpointClass | StorageClass

fun BODY_CAP_BYTES :: "trafficClass \<Rightarrow> nat" where
  "BODY_CAP_BYTES SiteClass = 1024 * 1024"
| "BODY_CAP_BYTES EndpointClass = 16 * 1024 * 1024"
| "BODY_CAP_BYTES StorageClass = 1024 * 1024"

text \<open>\<^verbatim>\<open>METHOD\<close> and \<^verbatim>\<open>DEP\<close>.\<close>

definition is_method :: "string \<Rightarrow> bool" where
  "is_method m \<longleftrightarrow> 3 \<le> length m \<and> length m \<le> 7 \<and> list_all (\<lambda>c. 65 \<le> (of_char c :: nat) \<and> (of_char c :: nat) \<le> 90) m"

definition dep_char :: "char \<Rightarrow> bool" where
  "dep_char c \<longleftrightarrow> (let n = of_char c :: nat in 65 \<le> n \<and> n \<le> 90 \<or> 97 \<le> n \<and> n \<le> 122 \<or> 48 \<le> n \<and> n \<le> 57 \<or> n = 95 \<or> n = 45)"

definition is_dep :: "string \<Rightarrow> bool" where
  "is_dep d \<longleftrightarrow> 1 \<le> length d \<and> length d \<le> 64 \<and> list_all dep_char d"

subsection \<open>Messages\<close>

datatype errCode = NotServing | Upstream | TooLarge | TimedOut | Busy | BadRequest

fun err_text :: "errCode \<Rightarrow> string" where
  "err_text NotServing = ''not_serving''"
| "err_text Upstream = ''upstream''"
| "err_text TooLarge = ''too_large''"
| "err_text TimedOut = ''timeout''"
| "err_text Busy = ''busy''"
| "err_text BadRequest = ''bad_request''"

definition ERR_CODES :: "errCode list" where
  "ERR_CODES = [NotServing, Upstream, TooLarge, TimedOut, Busy, BadRequest]"

definition err_of :: "string \<Rightarrow> errCode option" where
  "err_of t = find (\<lambda>c. err_text c = t) ERR_CODES"

type_synonym header = "string \<times> string"

datatype hubMessage = HubReq nat string string string "header list" | HubEnd nat | HubErr nat errCode | HubCancel nat | HubAck nat nat

datatype nodeMessage = NodeRes nat nat "header list" | NodeEnd nat | NodeErr nat errCode "string option" | NodeAck nat nat

fun node_stream :: "nodeMessage \<Rightarrow> nat" where
  "node_stream (NodeRes s st h) = s"
| "node_stream (NodeEnd s) = s"
| "node_stream (NodeErr s c m) = s"
| "node_stream (NodeAck s n) = s"

subsection \<open>JSON values\<close>

datatype jsval = JNull | JBool bool | JNum rat | JStr string | JArr "jsval list" | JObj "(string \<times> jsval) list"

text \<open>A property read: \<open>None\<close> is \<^verbatim>\<open>undefined\<close>.\<close>

definition js_get :: "(string \<times> jsval) list \<Rightarrow> string \<Rightarrow> jsval option" where
  "js_get ob k = map_of ob k"

fun as_integer :: "jsval option \<Rightarrow> int option" where
  "as_integer (Some (JNum q)) = (if of_int \<lfloor>q\<rfloor> = q then Some \<lfloor>q\<rfloor> else None)"
| "as_integer _ = None"

fun as_string :: "jsval option \<Rightarrow> string option" where
  "as_string (Some (JStr s)) = Some s"
| "as_string _ = None"

text \<open>\<^verbatim>\<open>isStream\<close> and \<^verbatim>\<open>isCount\<close>, with the number they accept.\<close>

definition isStream :: "jsval option \<Rightarrow> nat option" where
  "isStream v = (case as_integer v of None \<Rightarrow> None | Some i \<Rightarrow> if 0 < i \<and> i \<le> 4294967295 then Some (nat i) else None)"

definition isCount :: "jsval option \<Rightarrow> nat option" where
  "isCount v = (case as_integer v of None \<Rightarrow> None | Some i \<Rightarrow> if 0 \<le> i \<and> i \<le> 4294967295 then Some (nat i) else None)"

fun as_header :: "jsval \<Rightarrow> header option" where
  "as_header (JArr [JStr k, JStr v]) = Some (k, v)"
| "as_header _ = None"

fun isHeaders :: "jsval option \<Rightarrow> header list option" where
  "isHeaders (Some (JArr xs)) = (if length xs \<le> MAX_REQUEST_HEADERS then opt_all (map as_header xs) else None)"
| "isHeaders _ = None"

subsection \<open>Parsing\<close>

text \<open>\<^verbatim>\<open>parseJson\<close>: only an object of at most \<^verbatim>\<open>MAX_CONTROL_CHARS\<close> characters.\<close>

definition parseJson :: "(string \<Rightarrow> jsval option) \<Rightarrow> string \<Rightarrow> (string \<times> jsval) list option" where
  "parseJson parse text =
     (if MAX_CONTROL_CHARS < length text then None
      else (case parse text of Some (JObj ob) \<Rightarrow> Some ob | _ \<Rightarrow> None))"

definition parse_req :: "nat \<Rightarrow> (string \<times> jsval) list \<Rightarrow> hubMessage option" where
  "parse_req s m =
     (case (as_string (js_get m ''dep''), as_string (js_get m ''m''), as_string (js_get m ''path''), isHeaders (js_get m ''h'')) of
        (Some dep, Some meth, Some path, Some h) \<Rightarrow>
          if is_dep dep \<and> is_method meth \<and> take 1 path = ''/'' \<and> length path \<le> MAX_PATH_CHARS then Some (HubReq s dep meth path h) else None
      | _ \<Rightarrow> None)"

definition parse_err :: "(string \<times> jsval) list \<Rightarrow> errCode option" where
  "parse_err m = Option.bind (as_string (js_get m ''code'')) err_of"

definition parseHubMessage :: "(string \<Rightarrow> jsval option) \<Rightarrow> string \<Rightarrow> hubMessage option" where
  "parseHubMessage parse text =
     (case parseJson parse text of None \<Rightarrow> None | Some m \<Rightarrow>
      (case isStream (js_get m ''s'') of None \<Rightarrow> None | Some s \<Rightarrow>
      (case as_string (js_get m ''t'') of None \<Rightarrow> None | Some t \<Rightarrow>
        if t = ''req'' then parse_req s m
        else if t = ''end'' then Some (HubEnd s)
        else if t = ''cancel'' then Some (HubCancel s)
        else if t = ''err'' then map_option (HubErr s) (parse_err m)
        else if t = ''ack'' then map_option (HubAck s) (isCount (js_get m ''n''))
        else None)))"

definition parse_res :: "nat \<Rightarrow> (string \<times> jsval) list \<Rightarrow> nodeMessage option" where
  "parse_res s m =
     (case (as_integer (js_get m ''status''), isHeaders (js_get m ''h'')) of
        (Some status, Some h) \<Rightarrow> if 100 \<le> status \<and> status \<le> 599 then Some (NodeRes s (nat status) h) else None
      | _ \<Rightarrow> None)"

definition parseNodeMessage :: "(string \<Rightarrow> jsval option) \<Rightarrow> string \<Rightarrow> nodeMessage option" where
  "parseNodeMessage parse text =
     (case parseJson parse text of None \<Rightarrow> None | Some m \<Rightarrow>
      (case isStream (js_get m ''s'') of None \<Rightarrow> None | Some s \<Rightarrow>
      (case as_string (js_get m ''t'') of None \<Rightarrow> None | Some t \<Rightarrow>
        if t = ''res'' then parse_res s m
        else if t = ''end'' then Some (NodeEnd s)
        else if t = ''err'' then map_option (\<lambda>c. NodeErr s c (map_option (take 300) (as_string (js_get m ''message'')))) (parse_err m)
        else if t = ''ack'' then map_option (NodeAck s) (isCount (js_get m ''n''))
        else None)))"

text \<open>\<^verbatim>\<open>/^{"t":"req","s":(\d{1,10}),/\<close>: the digits, at least one and at most ten of them, then a comma.\<close>

definition REQ_PREFIX :: string where
  "REQ_PREFIX = ''{\"t\":\"req\",\"s\":''"

definition is_digit :: "char \<Rightarrow> bool" where
  "is_digit c \<longleftrightarrow> (let n = of_char c :: nat in 48 \<le> n \<and> n \<le> 57)"

definition dec_val :: "string \<Rightarrow> nat" where
  "dec_val ds = foldl (\<lambda>a c. 10 * a + (of_char c - 48)) 0 ds"

definition rejectedRequestStream :: "string \<Rightarrow> nat option" where
  "rejectedRequestStream text =
     (if take (length REQ_PREFIX) text \<noteq> REQ_PREFIX then None
      else (let rest = drop (length REQ_PREFIX) text; ds = takeWhile is_digit rest in
        if 1 \<le> length ds \<and> length ds \<le> 10 \<and> take 1 (drop (length ds) rest) = '','' then isStream (Some (JNum (of_nat (dec_val ds)))) else None))"

subsection \<open>Printing\<close>

text \<open>\<^verbatim>\<open>JSON.stringify\<close>: quotes, backslashes and control characters of a string are escaped; numbers are naturals here.\<close>

definition esc_char :: "char \<Rightarrow> string" where
  "esc_char c = (let n = of_char c :: nat in
     if n = 34 \<or> n = 92 then [CHR 0x5C, c]
     else if n = 8 then [CHR 0x5C, CHR ''b''] else if n = 9 then [CHR 0x5C, CHR ''t''] else if n = 10 then [CHR 0x5C, CHR ''n'']
     else if n = 12 then [CHR 0x5C, CHR ''f''] else if n = 13 then [CHR 0x5C, CHR ''r'']
     else if n < 32 then CHR 0x5C # ''u00'' @ [hex_digit (n div 16), hex_digit (n mod 16)]
     else [c])"

definition quote :: "string \<Rightarrow> string" where
  "quote s = CHR 0x22 # concat (map esc_char s) @ [CHR 0x22]"

fun commas :: "string list \<Rightarrow> string" where
  "commas [] = []"
| "commas [x] = x"
| "commas (x # y # xs) = x @ '','' @ commas (y # xs)"

fun stringify :: "jsval \<Rightarrow> string" where
  "stringify JNull = ''null''"
| "stringify (JBool b) = (if b then ''true'' else ''false'')"
| "stringify (JNum q) = dec_digits (nat \<lfloor>q\<rfloor>)"
| "stringify (JStr s) = quote s"
| "stringify (JArr xs) = ''['' @ commas (map stringify xs) @ '']''"
| "stringify (JObj ob) = ''{'' @ commas (map (\<lambda>p. quote (fst p) @ '':'' @ stringify (snd p)) ob) @ ''}''"

definition jnum :: "nat \<Rightarrow> jsval" where
  "jnum n = JNum (of_nat n)"

definition headers_json :: "header list \<Rightarrow> jsval" where
  "headers_json h = JArr (map (\<lambda>p. JArr [JStr (fst p), JStr (snd p)]) h)"

text \<open>The object literals both sides send.\<close>

fun hub_json :: "hubMessage \<Rightarrow> jsval" where
  "hub_json (HubReq s dep m path h) =
     JObj [(''t'', JStr ''req''), (''s'', jnum s), (''dep'', JStr dep), (''m'', JStr m), (''path'', JStr path), (''h'', headers_json h)]"
| "hub_json (HubEnd s) = JObj [(''t'', JStr ''end''), (''s'', jnum s)]"
| "hub_json (HubErr s c) = JObj [(''t'', JStr ''err''), (''s'', jnum s), (''code'', JStr (err_text c))]"
| "hub_json (HubCancel s) = JObj [(''t'', JStr ''cancel''), (''s'', jnum s)]"
| "hub_json (HubAck s n) = JObj [(''t'', JStr ''ack''), (''s'', jnum s), (''n'', jnum n)]"

fun node_json :: "nodeMessage \<Rightarrow> jsval" where
  "node_json (NodeRes s status h) = JObj [(''t'', JStr ''res''), (''s'', jnum s), (''status'', jnum status), (''h'', headers_json h)]"
| "node_json (NodeEnd s) = JObj [(''t'', JStr ''end''), (''s'', jnum s)]"
| "node_json (NodeErr s c m) = JObj ([(''t'', JStr ''err''), (''s'', jnum s), (''code'', JStr (err_text c))]
     @ (case m of None \<Rightarrow> [] | Some x \<Rightarrow> if x = [] then [] else [(''message'', JStr (take 300 x))]))"
| "node_json (NodeAck s n) = JObj [(''t'', JStr ''ack''), (''s'', jnum s), (''n'', jnum n)]"

subsection \<open>Body frames\<close>

definition u32_bytes :: "32 word \<Rightarrow> bytes" where
  "u32_bytes w = map (\<lambda>k. ucast (drop_bit k w)) [24, 16, 8, 0]"

definition u32_of :: "bytes \<Rightarrow> 32 word" where
  "u32_of bs = foldl (\<lambda>a b. push_bit 8 a OR ucast b) 0 bs"

definition stream_ok :: "nat \<Rightarrow> bool" where
  "stream_ok s \<longleftrightarrow> 0 < s \<and> s \<le> 4294967295"

text \<open>\<open>None\<close>: a \<^verbatim>\<open>RangeError\<close>.\<close>

definition encodeData :: "nat \<Rightarrow> bytes \<Rightarrow> bytes option" where
  "encodeData s payload =
     (if \<not> stream_ok s then None else if MAX_FRAME_BYTES < length payload then None else Some (u32_bytes (of_nat s) @ payload))"

definition decodeData :: "bytes \<Rightarrow> (nat \<times> bytes) option" where
  "decodeData frame =
     (if length frame < 4 \<or> 4 + MAX_FRAME_BYTES < length frame then None
      else (let s = unat (u32_of (take 4 frame)) in if stream_ok s then Some (s, drop 4 frame) else None))"

function chunks :: "bytes \<Rightarrow> bytes list" where
  "chunks d = (if d = [] then [] else take MAX_FRAME_BYTES d # chunks (drop MAX_FRAME_BYTES d))"
  by pat_completeness auto
termination
  by (relation "measure length") (auto simp: MAX_FRAME_BYTES_def)

declare chunks.simps [simp del]

subsection \<open>Forwarded headers\<close>

definition DROP :: "string list" where
  "DROP = [''connection'', ''keep-alive'', ''proxy-connection'', ''transfer-encoding'', ''upgrade'', ''te'', ''trailer'',
     ''proxy-authorization'', ''proxy-authenticate'', ''host'', ''content-length'']"

definition starts_with :: "string \<Rightarrow> string \<Rightarrow> bool" where
  "starts_with s p \<longleftrightarrow> take (length p) s = p"

definition forwardable :: "bool \<Rightarrow> string \<Rightarrow> bool" where
  "forwardable keepLength key \<longleftrightarrow> (key = ''content-length'' \<and> keepLength)
     \<or> \<not> (key \<in> set DROP \<or> starts_with key ''x-relay-'' \<or> starts_with key ''cf-'')"

definition forwardableHeaders :: "bool \<Rightarrow> header list \<Rightarrow> header list" where
  "forwardableHeaders keepLength h = filter (\<lambda>p. forwardable keepLength (fst p)) (map (\<lambda>p. (toLowerCase (fst p), snd p)) h)"

subsection \<open>Frames survive the wire\<close>

lemma length_u32 [simp]: "length (u32_bytes w) = 4"
  by (simp add: u32_bytes_def)

lemma byte_bits: "bit (b :: byte) n \<Longrightarrow> n < 8"
  using bit_imp_le_length[of b n] by simp

lemma byte_high: "8 \<le> n \<Longrightarrow> \<not> bit (b :: byte) n"
  using byte_bits[of b n] by auto

lemma u32_of_bytes [simp]: "u32_of (u32_bytes w) = w"
proof (rule bit_word_eqI)
  fix n assume n: "n < LENGTH(32)"
  then consider "n < 8" | "8 \<le> n" "n < 16" | "16 \<le> n" "n < 24" | "24 \<le> n" "n < 32" by fastforce
  then show "bit (u32_of (u32_bytes w)) n = bit w n"
    by cases (auto simp: u32_of_def u32_bytes_def bit_simps)
qed

lemma u32_bytes_of4: "u32_bytes (u32_of [a, b, c, d]) = [a, b, c, d]"
  by (auto simp: u32_of_def u32_bytes_def bit_simps byte_high intro!: bit_word_eqI)

lemma u32_bytes_of: "length bs = 4 \<Longrightarrow> u32_bytes (u32_of bs) = bs"
  by (auto simp: length_Suc_conv numeral_eq_Suc u32_bytes_of4)

lemma encode_decode: "encodeData s p = Some f \<Longrightarrow> decodeData f = Some (s, p)"
proof -
  assume e: "encodeData s p = Some f"
  then have ok: "stream_ok s" "length p \<le> MAX_FRAME_BYTES" and f: "f = u32_bytes (of_nat s) @ p"
    by (auto simp: encodeData_def split: if_splits)
  have "s < 2 ^ 32" using ok(1) by (simp add: stream_ok_def)
  then have "unat (of_nat s :: 32 word) = s" by (simp add: unat_of_nat take_bit_nat_eq_self)
  then show ?thesis using ok by (simp add: decodeData_def f)
qed

lemma decode_encode: "decodeData f = Some (s, p) \<Longrightarrow> encodeData s p = Some f"
proof -
  assume d: "decodeData f = Some (s, p)"
  then have l: "4 \<le> length f" "length f \<le> 4 + MAX_FRAME_BYTES" and s: "s = unat (u32_of (take 4 f))" "stream_ok s" and p: "p = drop 4 f"
    by (auto simp: decodeData_def Let_def split: if_splits)
  have "u32_bytes (of_nat s) = take 4 f" using u32_bytes_of[of "take 4 f"] l(1) by (simp add: s(1))
  then show ?thesis using l s(2) by (simp add: encodeData_def p)
qed

lemma concat_chunks [simp]: "concat (chunks d) = d"
  by (induction d rule: chunks.induct) (simp add: chunks.simps)

lemma chunks_sizes: "c \<in> set (chunks d) \<Longrightarrow> 0 < length c \<and> length c \<le> MAX_FRAME_BYTES"
proof (induction d rule: chunks.induct)
  case (1 d)
  have "chunks [] = []" by (simp add: chunks.simps)
  then show ?case using 1 by (cases "d = []") (auto simp: chunks.simps[of d] MAX_FRAME_BYTES_def)
qed

text \<open>
  C24. Body frames survive the wire: a body that is cut into chunks, framed, sent and decoded arrives as the same bytes
  under the same stream id, no frame is empty or larger than the limit, and the framing has one encoding only: a frame that
  decodes is the encoding of what it decodes to.
\<close>

theorem frames_roundtrip:
  assumes "stream_ok s"
  shows "(\<exists>frames. map (encodeData s) (chunks d) = map Some frames \<and> concat (map (\<lambda>f. snd (the (decodeData f))) frames) = d
      \<and> (\<forall>f \<in> set frames. \<exists>p. decodeData f = Some (s, p) \<and> 0 < length p \<and> length p \<le> MAX_FRAME_BYTES))
    \<and> (\<forall>f t p. decodeData f = Some (t, p) \<longrightarrow> encodeData t p = Some f)"
proof -
  let ?f = "\<lambda>c. u32_bytes (of_nat s) @ c"
  have enc: "encodeData s c = Some (?f c)" "decodeData (?f c) = Some (s, c)" if "c \<in> set (chunks d)" for c
    using chunks_sizes[OF that] assms encode_decode[of s c "?f c"] by (auto simp: encodeData_def)
  have "map (encodeData s) (chunks d) = map Some (map ?f (chunks d))" using enc(1) by simp
  moreover have "concat (map (\<lambda>f. snd (the (decodeData f))) (map ?f (chunks d))) = d"
  proof -
    have "map (\<lambda>f. snd (the (decodeData f))) (map ?f (chunks d)) = chunks d" using enc(2) by (simp add: map_idI)
    then show ?thesis by simp
  qed
  moreover have "\<forall>f \<in> set (map ?f (chunks d)). \<exists>p. decodeData f = Some (s, p) \<and> 0 < length p \<and> length p \<le> MAX_FRAME_BYTES"
    using enc(2) chunks_sizes by auto
  ultimately show ?thesis using decode_encode by blast
qed

theorem frames_roundtrip_witness:
  "\<exists>frames. map (encodeData 7) (chunks [1, 2]) = map Some frames \<and> concat (map (\<lambda>f. snd (the (decodeData f))) frames) = [1, 2]"
  using frames_roundtrip[of 7 "[1, 2]"] by (auto simp: stream_ok_def)

subsection \<open>Control messages survive the wire\<close>

definition headers_ok :: "header list \<Rightarrow> bool" where
  "headers_ok h \<longleftrightarrow> length h \<le> MAX_REQUEST_HEADERS"

fun hub_wf :: "hubMessage \<Rightarrow> bool" where
  "hub_wf (HubReq s dep m path h) \<longleftrightarrow> stream_ok s \<and> is_dep dep \<and> is_method m \<and> take 1 path = ''/'' \<and> length path \<le> MAX_PATH_CHARS
     \<and> headers_ok h"
| "hub_wf (HubEnd s) \<longleftrightarrow> stream_ok s"
| "hub_wf (HubErr s c) \<longleftrightarrow> stream_ok s"
| "hub_wf (HubCancel s) \<longleftrightarrow> stream_ok s"
| "hub_wf (HubAck s n) \<longleftrightarrow> stream_ok s \<and> n \<le> 4294967295"

fun node_wf :: "nodeMessage \<Rightarrow> bool" where
  "node_wf (NodeRes s status h) \<longleftrightarrow> stream_ok s \<and> 100 \<le> status \<and> status \<le> 599 \<and> headers_ok h"
| "node_wf (NodeEnd s) \<longleftrightarrow> stream_ok s"
| "node_wf (NodeErr s c m) \<longleftrightarrow> stream_ok s \<and> (case m of None \<Rightarrow> True | Some x \<Rightarrow> x \<noteq> [] \<and> length x \<le> 300)"
| "node_wf (NodeAck s n) \<longleftrightarrow> stream_ok s \<and> n \<le> 4294967295"

lemma floor_nat [simp]: "\<lfloor>of_nat n :: rat\<rfloor> = int n"
  by (metis floor_of_int of_int_of_nat_eq)

lemma as_integer_jnum [simp]: "as_integer (Some (jnum n)) = Some (int n)"
  by (simp add: jnum_def)

lemma isStream_jnum [simp]: "isStream (Some (jnum s)) = (if stream_ok s then Some s else None)"
  by (auto simp: isStream_def stream_ok_def)

lemma isCount_jnum [simp]: "isCount (Some (jnum n)) = (if n \<le> 4294967295 then Some n else None)"
  by (auto simp: isCount_def)

lemma isHeaders_json [simp]: "isHeaders (Some (headers_json h)) = (if headers_ok h then Some h else None)"
  by (simp add: headers_json_def headers_ok_def o_def)

lemma err_of_text [simp]: "err_of (err_text c) = Some c"
  by (cases c) (simp_all add: err_of_def ERR_CODES_def)

lemmas parse_defs = parseHubMessage_def parseNodeMessage_def parseJson_def parse_req_def parse_res_def parse_err_def js_get_def

text \<open>
  C23. Control messages survive the wire in both directions: whatever well-formed message one side prints, if it fits in one
  text frame and the platform's \<^verbatim>\<open>JSON.parse\<close> inverts its \<^verbatim>\<open>JSON.stringify\<close> on it, the other side parses exactly that
  message.
\<close>

theorem messages_roundtrip:
  assumes "hub_wf m" and "node_wf r"
    and "parse (stringify (hub_json m)) = Some (hub_json m)" and "parse (stringify (node_json r)) = Some (node_json r)"
    and "length (stringify (hub_json m)) \<le> MAX_CONTROL_CHARS" and "length (stringify (node_json r)) \<le> MAX_CONTROL_CHARS"
  shows "parseHubMessage parse (stringify (hub_json m)) = Some m \<and> parseNodeMessage parse (stringify (node_json r)) = Some r"
proof
  show "parseHubMessage parse (stringify (hub_json m)) = Some m"
    using assms(1,3,5) by (cases m) (simp_all add: parse_defs del: stringify.simps)
  show "parseNodeMessage parse (stringify (node_json r)) = Some r"
    using assms(2,4,6) by (cases r) (auto simp: parse_defs simp del: stringify.simps split: option.splits)
qed

theorem messages_roundtrip_witness:
  "\<exists>parse. parseHubMessage parse (stringify (hub_json (HubAck 1 5))) = Some (HubAck 1 5)
    \<and> parseNodeMessage parse (stringify (node_json (NodeEnd 2))) = Some (NodeEnd 2)"
proof -
  let ?parse = "\<lambda>t. if t = stringify (hub_json (HubAck 1 5)) then Some (hub_json (HubAck 1 5))
    else if t = stringify (node_json (NodeEnd 2)) then Some (node_json (NodeEnd 2)) else None"
  have "stringify (hub_json (HubAck 1 5)) \<noteq> stringify (node_json (NodeEnd 2))"
    "length (stringify (hub_json (HubAck 1 5))) = 23" "length (stringify (node_json (NodeEnd 2))) = 17" by code_simp+
  then show ?thesis
    using messages_roundtrip[of "HubAck 1 5" "NodeEnd 2" ?parse]
    by (intro exI[of _ ?parse]) (simp add: stream_ok_def MAX_CONTROL_CHARS_def del: stringify.simps hub_json.simps node_json.simps)
qed

subsection \<open>Requests the node cannot parse\<close>

lemma digit_hex:
  assumes "n < 10"
  shows "is_digit (hex_digit n) \<and> of_char (hex_digit n) - 48 = n"
proof -
  have "n = 0 \<or> n = 1 \<or> n = 2 \<or> n = 3 \<or> n = 4 \<or> n = 5 \<or> n = 6 \<or> n = 7 \<or> n = 8 \<or> n = 9" using assms by (auto simp: numeral_eq_Suc less_Suc_eq)
  then show ?thesis by (elim disjE) (simp_all add: is_digit_def hex_digit_def)
qed

lemma digits_props: "list_all is_digit (dec_digits n) \<and> dec_digits n \<noteq> [] \<and> dec_val (dec_digits n) = n"
proof (induction n rule: dec_digits.induct)
  case (1 n)
  show ?case
  proof (cases "n < 10")
    case True
    then show ?thesis using digit_hex[of n] by (simp add: dec_digits.simps[of n] dec_val_def)
  next
    case False
    have "dec_val (ds @ [c]) = 10 * dec_val ds + (of_char c - 48)" for ds c by (simp add: dec_val_def)
    then show ?thesis using 1 False digit_hex[of "n mod 10"] by (simp add: dec_digits.simps[of n])
  qed
qed

lemma digits_length: "n < 10 ^ k \<Longrightarrow> 0 < k \<Longrightarrow> length (dec_digits n) \<le> k"
proof (induction k arbitrary: n)
  case (Suc k)
  show ?case
  proof (cases "n < 10")
    case True
    then show ?thesis by (simp add: dec_digits.simps[of n])
  next
    case False
    then have "0 < k" using Suc.prems(1) by (cases k) auto
    moreover have "n div 10 < 10 ^ k" using Suc.prems(1) by (simp add: less_mult_imp_div_less mult.commute)
    ultimately show ?thesis using Suc.IH[of "n div 10"] False by (simp add: dec_digits.simps[of n])
  qed
qed simp

lemma req_text: "\<exists>rest. stringify (hub_json (HubReq s dep m path h)) = REQ_PREFIX @ dec_digits s @ '','' @ rest"
proof -
  have "quote ''t'' = [CHR 0x22, CHR ''t'', CHR 0x22]" "quote ''s'' = [CHR 0x22, CHR ''s'', CHR 0x22]" "quote ''req'' = CHR 0x22 # ''req'' @ [CHR 0x22]"
    by code_simp+
  then show ?thesis by (simp add: REQ_PREFIX_def jnum_def)
qed

text \<open>
  No request is dropped in silence: whatever path, method and headers a \<^verbatim>\<open>req\<close> frame of the hub carries, even ones the
  node's parser refuses, the node recovers its stream id and can answer \<^verbatim>\<open>bad_request\<close>.
\<close>

theorem rejected_request_found:
  assumes "stream_ok s"
  shows "rejectedRequestStream (stringify (hub_json (HubReq s dep m path h))) = Some s"
proof -
  obtain rest where t: "stringify (hub_json (HubReq s dep m path h)) = REQ_PREFIX @ dec_digits s @ '','' @ rest" using req_text by blast
  note d = digits_props[of s]
  have "takeWhile is_digit (dec_digits s @ '','' @ rest) = dec_digits s"
    using d by (simp add: takeWhile_append2 list_all_iff is_digit_def)
  moreover have "length (dec_digits s) \<le> 10" using digits_length[of s 10] assms by (simp add: stream_ok_def)
  moreover have "1 \<le> length (dec_digits s)" using d by (cases "dec_digits s") auto
  moreover have "isStream (Some (JNum (of_nat s))) = Some s" using isStream_jnum[of s] assms by (simp add: jnum_def)
  ultimately show ?thesis unfolding t rejectedRequestStream_def Let_def using d by simp
qed

theorem rejected_request_found_witness: "rejectedRequestStream (stringify (hub_json (HubReq 7 ''!'' ''get'' ''x'' []))) = Some 7"
  by (rule rejected_request_found) (simp add: stream_ok_def)

end
