(* ===== verification/RelayHub.thy ===== *)
theory RelayHub
  imports RelayProtocol
begin

text \<open>
  The hub side of the relay (\<^verbatim>\<open>relay/src/hub.ts\<close>): HTTP requests as streams over a node's socket. The stream objects live in
  a store (\<open>hb_objs\<close>) because closures keep an object after \<^verbatim>\<open>forget\<close> has removed it from the map \<open>hb_streams\<close>, and because an
  id can be taken again. Each asynchronous part is a step of its own: a chunk read from the client, one turn of the pump, one
  message of the node, one link of the promise chain that writes to the client, a timer, a client that goes away, the close of the
  socket. \<open>up\<close> says whether \<^verbatim>\<open>send\<close> works or throws. A text message is kept as the message it encodes. A check of the window and
  the send that follows it are one step: between them no other code adds to the stream's unacked bytes.
\<close>

subsection \<open>State\<close>

datatype relayError = Offline | Code errCode

fun ERROR_STATUS :: "relayError \<Rightarrow> nat" where
  "ERROR_STATUS Offline = 503"
| "ERROR_STATUS (Code Busy) = 503"
| "ERROR_STATUS (Code TimedOut) = 504"
| "ERROR_STATUS (Code TooLarge) = 413"
| "ERROR_STATUS (Code NotServing) = 502"
| "ERROR_STATUS (Code Upstream) = 502"
| "ERROR_STATUS (Code BadRequest) = 400"

definition NULL_BODY :: "nat list" where
  "NULL_BODY = [101, 103, 204, 205, 304]"

datatype head_value = HeadResponse nat "header list" | HeadError relayError

datatype chain_op = WriteBody bytes | CloseBody | AbortBody relayError

datatype body_end = BodyClosed | BodyAborted relayError

text \<open>
  Where the pump of a stream stands, with the request bytes it has counted: it reads the client's body, it has parts of a chunk
  left, it has counted a part and looks at the window, it waits in \<^verbatim>\<open>waiters\<close>, or it has returned.
\<close>

datatype pump = PumpReading nat | PumpParts nat "bytes list" | PumpWindow nat bytes "bytes list" | PumpBlocked nat bytes "bytes list"
  | PumpDone

record hstream =
  hs_id :: nat
  hs_dep :: string
  hs_cap :: nat
  hs_head :: "head_value option"
  hs_chain :: "chain_op list"
  hs_unacked :: nat
  hs_waiters :: "nat list"
  hs_idle :: bool
  hs_headTimer :: bool
  hs_closed :: bool
  hs_pump :: pump
  hs_body :: bytes
  hs_end :: "body_end option"

datatype wire = TextMsg hubMessage | BinMsg bytes

record hub =
  hb_streams :: "(nat \<times> nat) list"
  hb_next :: nat
  hb_objs :: "hstream list"
  hb_sent :: "wire list"

definition new_hub :: hub where
  "new_hub = \<lparr>hb_streams = [], hb_next = 1, hb_objs = [], hb_sent = []\<rparr>"

definition stream_of :: "hub \<Rightarrow> nat \<Rightarrow> nat option" where
  "stream_of h s = map_of (hb_streams h) s"

definition upd :: "nat \<Rightarrow> (hstream \<Rightarrow> hstream) \<Rightarrow> hub \<Rightarrow> hub" where
  "upd k f h = h\<lparr>hb_objs := (hb_objs h)[k := f (hb_objs h ! k)]\<rparr>"

definition sendCtl :: "hubMessage \<Rightarrow> hub \<Rightarrow> hub" where
  "sendCtl m h = h\<lparr>hb_sent := hb_sent h @ [TextMsg m]\<rparr>"

subsection \<open>Closing a stream\<close>

definition wake_pump :: "hstream \<Rightarrow> hstream" where
  "wake_pump st = (case hs_pump st of PumpBlocked t p ps \<Rightarrow> st\<lparr>hs_pump := PumpWindow t p ps\<rparr> | _ \<Rightarrow> st)"

text \<open>\<^verbatim>\<open>for (const w of st.waiters.splice(0)) w()\<close>\<close>

definition wake :: "nat \<Rightarrow> hub \<Rightarrow> hub" where
  "wake k h = upd k (\<lambda>st. st\<lparr>hs_waiters := []\<rparr>) (fold (\<lambda>w. upd w wake_pump) (hs_waiters (hb_objs h ! k)) h)"

definition close_obj :: "hstream \<Rightarrow> hstream" where
  "close_obj st = st\<lparr>hs_closed := True, hs_idle := False, hs_headTimer := False\<rparr>"

definition forget :: "nat \<Rightarrow> hub \<Rightarrow> hub" where
  "forget s h = (case stream_of h s of None \<Rightarrow> h
     | Some k \<Rightarrow> (wake k (upd k close_obj h))\<lparr>hb_streams := filter (\<lambda>p. fst p \<noteq> s) (hb_streams h)\<rparr>)"

definition set_head :: "head_value \<Rightarrow> hstream \<Rightarrow> hstream" where
  "set_head v st = (if hs_head st = None then st\<lparr>hs_head := Some v, hs_headTimer := False\<rparr> else st)"

definition chain_add :: "chain_op \<Rightarrow> hstream \<Rightarrow> hstream" where
  "chain_add c st = st\<lparr>hs_chain := hs_chain st @ [c]\<rparr>"

definition touch :: "nat \<Rightarrow> hub \<Rightarrow> hub" where
  "touch s h = (case stream_of h s of None \<Rightarrow> h | Some k \<Rightarrow> upd k (\<lambda>st. st\<lparr>hs_idle := True\<rparr>) h)"

definition cancel :: "bool \<Rightarrow> nat \<Rightarrow> hub \<Rightarrow> hub" where
  "cancel up s h = (case stream_of h s of None \<Rightarrow> h
     | Some k \<Rightarrow> if hs_closed (hb_objs h ! k) then h else forget s (if up then sendCtl (HubCancel s) h else h))"

definition fail :: "bool \<Rightarrow> nat \<Rightarrow> relayError \<Rightarrow> bool \<Rightarrow> hub \<Rightarrow> hub" where
  "fail up s e tellNode h = (case stream_of h s of None \<Rightarrow> h
     | Some k \<Rightarrow> if hs_closed (hb_objs h ! k) then h
         else forget s (upd k (if hs_head (hb_objs h ! k) = None then set_head (HeadError e) else chain_add (AbortBody e))
                (if tellNode \<and> up then sendCtl (HubCancel s) h else h)))"

definition finish :: "nat \<Rightarrow> bool \<Rightarrow> hub \<Rightarrow> hub" where
  "finish s closeBody h = (case stream_of h s of None \<Rightarrow> h
     | Some k \<Rightarrow> forget s (if closeBody then upd k (chain_add CloseBody) h else h))"

subsection \<open>The request body\<close>

definition set_pump :: "pump \<Rightarrow> nat \<Rightarrow> hub \<Rightarrow> hub" where
  "set_pump p k = upd k (\<lambda>st. st\<lparr>hs_pump := p\<rparr>)"

definition pump_fail :: "bool \<Rightarrow> nat \<Rightarrow> relayError \<Rightarrow> hub \<Rightarrow> hub" where
  "pump_fail up k e h = set_pump PumpDone k (fail up (hs_id (hb_objs h ! k)) e True h)"

text \<open>The body has been read to its end.\<close>

definition pump_end :: "bool \<Rightarrow> nat \<Rightarrow> hub \<Rightarrow> hub" where
  "pump_end up k h =
     (let s = hs_id (hb_objs h ! k); live = (case stream_of h s of None \<Rightarrow> False | Some j \<Rightarrow> \<not> hs_closed (hb_objs h ! j)) in
      if \<not> live then set_pump PumpDone k h
      else if up then set_pump PumpDone k (sendCtl (HubEnd s) h)
      else pump_fail up k Offline h)"

text \<open>The reader delivers a chunk; the next part of it is counted against the cap; the part is sent when it fits in the window.\<close>

definition pump_read :: "nat \<Rightarrow> bytes \<Rightarrow> hub \<Rightarrow> hub" where
  "pump_read k data h = (case hs_pump (hb_objs h ! k) of PumpReading t \<Rightarrow> set_pump (PumpParts t (chunks data)) k h | _ \<Rightarrow> h)"

definition pump_take :: "bool \<Rightarrow> nat \<Rightarrow> hub \<Rightarrow> hub" where
  "pump_take up k h = (case hs_pump (hb_objs h ! k) of
       PumpParts t [] \<Rightarrow> set_pump (PumpReading t) k h
     | PumpParts t (p # ps) \<Rightarrow>
         if hs_cap (hb_objs h ! k) < t + length p then pump_fail up k (Code TooLarge) h
         else set_pump (PumpWindow (t + length p) p ps) k h
     | _ \<Rightarrow> h)"

definition pump_send :: "bool \<Rightarrow> nat \<Rightarrow> hub \<Rightarrow> hub" where
  "pump_send up k h = (case hs_pump (hb_objs h ! k) of
       PumpWindow t p ps \<Rightarrow>
         (let s = hs_id (hb_objs h ! k) in case stream_of h s of
            None \<Rightarrow> set_pump PumpDone k h
          | Some j \<Rightarrow>
              if hs_closed (hb_objs h ! j) then set_pump PumpDone k h
              else if hs_unacked (hb_objs h ! j) + length p \<le> WINDOW_BYTES
              then (let h1 = upd j (\<lambda>st. st\<lparr>hs_unacked := hs_unacked st + length p\<rparr>) h in
                    case (if up then encodeData s p else None) of
                      None \<Rightarrow> pump_fail up k Offline h1
                    | Some f \<Rightarrow> touch s (set_pump (PumpParts t ps) k (h1\<lparr>hb_sent := hb_sent h1 @ [BinMsg f]\<rparr>)))
              else upd j (\<lambda>st. st\<lparr>hs_waiters := hs_waiters st @ [k]\<rparr>) (set_pump (PumpBlocked t p ps) k h))
     | _ \<Rightarrow> h)"

text \<open>The reader throws, or reports that it is done.\<close>

definition pump_close :: "bool \<Rightarrow> bool \<Rightarrow> nat \<Rightarrow> hub \<Rightarrow> hub" where
  "pump_close up threw k h = (case hs_pump (hb_objs h ! k) of
     PumpReading t \<Rightarrow> if threw then pump_fail up k Offline h else pump_end up k h | _ \<Rightarrow> h)"

subsection \<open>A request\<close>

record proxyRequest =
  pr_dep :: string
  pr_cls :: trafficClass
  pr_probe :: bool
  pr_method :: string
  pr_path :: string
  pr_headers :: "header list"
  pr_body :: bool

text \<open>\<^verbatim>\<open>id()\<close>: the loop returns within one turn more than there are open streams.\<close>

definition next_id :: "nat \<Rightarrow> nat" where
  "next_id n = (if 4294967280 \<le> n then 1 else n + 1)"

fun id_loop :: "nat \<Rightarrow> nat list \<Rightarrow> nat \<Rightarrow> (nat \<times> nat) option" where
  "id_loop 0 used n = None"
| "id_loop (Suc fuel) used n = (if n \<notin> set used then Some (n, next_id n) else id_loop fuel used (next_id n))"

definition fresh_id :: "hub \<Rightarrow> (nat \<times> nat) option" where
  "fresh_id h = id_loop (Suc (length (hb_streams h))) (map fst (hb_streams h)) (hb_next h)"

definition of_dep :: "string \<Rightarrow> hub \<Rightarrow> nat" where
  "of_dep dep h = length (filter (\<lambda>p. hs_dep (hb_objs h ! snd p) = dep) (hb_streams h))"

text \<open>\<open>num\<close> is \<^verbatim>\<open>Number\<close> on a text, \<open>None\<close> for \<^verbatim>\<open>NaN\<close>.\<close>

definition declared_over :: "(string \<Rightarrow> rat option) \<Rightarrow> nat \<Rightarrow> header list \<Rightarrow> bool" where
  "declared_over num cap h \<longleftrightarrow> list_ex (\<lambda>p. toLowerCase (fst p) = ''content-length''
     \<and> (case num (snd p) of None \<Rightarrow> False | Some q \<Rightarrow> of_nat cap < q)) h"

definition new_stream :: "nat \<Rightarrow> proxyRequest \<Rightarrow> hstream" where
  "new_stream s req = \<lparr>hs_id = s, hs_dep = pr_dep req, hs_cap = BODY_CAP_BYTES (pr_cls req), hs_head = None, hs_chain = [], hs_unacked = 0,
     hs_waiters = [], hs_idle = False, hs_headTimer = False, hs_closed = False, hs_pump = PumpDone, hs_body = [], hs_end = None\<rparr>"

definition busy_for :: "proxyRequest \<Rightarrow> hub \<Rightarrow> bool" where
  "busy_for req h \<longleftrightarrow> (if pr_probe req then MAX_STREAMS else MAX_STREAMS - PROBE_SLOTS) \<le> length (hb_streams h)
     \<or> \<not> pr_probe req \<and> MAX_STREAMS_PER_DEP \<le> of_dep (pr_dep req) h"

definition bad_request :: "proxyRequest \<Rightarrow> bool" where
  "bad_request req \<longleftrightarrow> \<not> is_method (pr_method req) \<or> MAX_PATH_CHARS < length (pr_path req)
     \<or> MAX_REQUEST_HEADERS < length (forwardableHeaders True (pr_headers req))"

definition req_message :: "nat \<Rightarrow> proxyRequest \<Rightarrow> hubMessage" where
  "req_message s req = HubReq s (pr_dep req) (pr_method req) (pr_path req) (forwardableHeaders True (pr_headers req))"

definition open_stream :: "nat \<Rightarrow> nat \<Rightarrow> proxyRequest \<Rightarrow> hub \<Rightarrow> hub" where
  "open_stream s nxt req h = h\<lparr>hb_next := nxt, hb_streams := hb_streams h @ [(s, length (hb_objs h))], hb_objs := hb_objs h @ [new_stream s req]\<rparr>"

text \<open>The request is on its way: the head timer and the idle timer run, and the pump starts; without a body it ends at once.\<close>

definition start_stream :: "bool \<Rightarrow> nat \<Rightarrow> hub \<Rightarrow> hub" where
  "start_stream has_body k h =
     (let h1 = upd k (\<lambda>st. st\<lparr>hs_headTimer := True, hs_idle := True, hs_pump := PumpReading 0\<rparr>) h in if has_body then h1 else pump_end True k h1)"

text \<open>\<open>Inl\<close>: the relay error returned at once. \<open>Inr k\<close>: the request waits for the head of object \<open>k\<close>.\<close>

definition proxy :: "(string \<Rightarrow> rat option) \<Rightarrow> bool \<Rightarrow> proxyRequest \<Rightarrow> hub \<Rightarrow> hub \<times> (relayError + nat)" where
  "proxy num up req h =
     (if busy_for req h then (h, Inl (Code Busy))
      else if bad_request req then (h, Inl (Code BadRequest))
      else if declared_over num (BODY_CAP_BYTES (pr_cls req)) (pr_headers req) then (h, Inl (Code TooLarge))
      else (case fresh_id h of None \<Rightarrow> (h, Inl Offline) | Some (s, nxt) \<Rightarrow>
        (let h1 = open_stream s nxt req h; m = req_message s req; k = length (hb_objs h) in
         if MAX_CONTROL_CHARS < length (stringify (hub_json m)) then (forget s h1, Inl (Code BadRequest))
         else if \<not> up then (forget s h1, Inl Offline)
         else (start_stream (pr_body req) k (sendCtl m h1), Inr k))))"

subsection \<open>Messages of the node\<close>

definition on_data :: "bytes \<Rightarrow> hub \<Rightarrow> hub" where
  "on_data frame h = (case decodeData frame of None \<Rightarrow> h
     | Some (s, d) \<Rightarrow> (case stream_of h s of None \<Rightarrow> h
         | Some k \<Rightarrow> if hs_closed (hb_objs h ! k) \<or> hs_head (hb_objs h ! k) = None then h
             else upd k (chain_add (WriteBody d)) (touch s h)))"

text \<open>\<^verbatim>\<open>new Response(null, { status })\<close> throws below 200: the message has then only reset the idle timer. The pairs
  are those handed to \<^verbatim>\<open>Headers\<close>, which drops the ones it finds invalid.\<close>

definition on_res :: "nat \<Rightarrow> nat \<Rightarrow> nat \<Rightarrow> header list \<Rightarrow> hub \<Rightarrow> hub" where
  "on_res k s status hdrs h =
     (if status < 200 then h
      else (let h1 = upd k (set_head (HeadResponse status hdrs)) h in if status \<in> set NULL_BODY then finish s True h1 else h1))"

definition on_ack :: "nat \<Rightarrow> nat \<Rightarrow> hub \<Rightarrow> hub" where
  "on_ack k n h = wake k (upd k (\<lambda>st. st\<lparr>hs_unacked := hs_unacked st - n\<rparr>) h)"

definition on_node :: "bool \<Rightarrow> nodeMessage \<Rightarrow> hub \<Rightarrow> hub" where
  "on_node up m h = (case stream_of h (node_stream m) of None \<Rightarrow> h
     | Some k \<Rightarrow> if hs_closed (hb_objs h ! k) then h
         else (let h1 = touch (node_stream m) h in
           case m of
             NodeRes s status hdrs \<Rightarrow> on_res k s status hdrs h1
           | NodeEnd s \<Rightarrow> finish s False (upd k (chain_add CloseBody) h1)
           | NodeErr s code txt \<Rightarrow> fail up s (Code code) False h1
           | NodeAck s n \<Rightarrow> on_ack k n h1))"

definition onMessage :: "(string \<Rightarrow> jsval option) \<Rightarrow> bool \<Rightarrow> string + bytes \<Rightarrow> hub \<Rightarrow> hub" where
  "onMessage parse up msg h = (case msg of
       Inr frame \<Rightarrow> on_data frame h
     | Inl text \<Rightarrow> (case parseNodeMessage parse text of None \<Rightarrow> h | Some m \<Rightarrow> on_node up m h))"

subsection \<open>The response body, timers and ends\<close>

text \<open>One link of \<^verbatim>\<open>st.chain\<close>; \<open>ok\<close>: the client's stream takes it.\<close>

definition chain_step :: "bool \<Rightarrow> bool \<Rightarrow> nat \<Rightarrow> hub \<Rightarrow> hub" where
  "chain_step up ok k h =
     (let st = hb_objs h ! k; s = hs_id st in
      case hs_chain st of [] \<Rightarrow> h
      | WriteBody d # rest \<Rightarrow>
          if \<not> ok then cancel up s (upd k (\<lambda>st. st\<lparr>hs_chain := rest\<rparr>) h)
          else (let h1 = upd k (\<lambda>st. st\<lparr>hs_chain := rest, hs_body := hs_body st @ d\<rparr>) h in
                if hs_closed st then h1 else if up then sendCtl (HubAck s (length d)) h1 else cancel up s h1)
      | CloseBody # rest \<Rightarrow> upd k (\<lambda>st. st\<lparr>hs_chain := rest, hs_end := (if ok \<and> hs_end st = None then Some BodyClosed else hs_end st)\<rparr>) h
      | AbortBody e # rest \<Rightarrow> upd k (\<lambda>st. st\<lparr>hs_chain := rest, hs_end := (if ok \<and> hs_end st = None then Some (BodyAborted e) else hs_end st)\<rparr>) h)"

definition head_timeout :: "bool \<Rightarrow> nat \<Rightarrow> hub \<Rightarrow> hub" where
  "head_timeout up k h = (if hs_headTimer (hb_objs h ! k) then fail up (hs_id (hb_objs h ! k)) (Code TimedOut) True h else h)"

definition idle_timeout :: "bool \<Rightarrow> nat \<Rightarrow> hub \<Rightarrow> hub" where
  "idle_timeout up k h = (if hs_idle (hb_objs h ! k) then fail up (hs_id (hb_objs h ! k)) (Code TimedOut) True h else h)"

definition client_gone :: "bool \<Rightarrow> nat \<Rightarrow> hub \<Rightarrow> hub" where
  "client_gone up k h = cancel up (hs_id (hb_objs h ! k)) h"

definition onClose :: "hub \<Rightarrow> hub" where
  "onClose h = fold (\<lambda>s. fail False s Offline False) (map fst (hb_streams h)) h"

end
