(* ===== verification/RelayHubInv.thy ===== *)
theory RelayHubInv
  imports RelayHub
begin

text \<open>
  The hub as a state machine: its events, the state after any sequence of them, and what holds there. A stream in the map is open
  and its timers run; a pump that waits is registered with a stream whose window has no room for its part; ids are unique and one
  is always free; slots are kept for probes.
\<close>

subsection \<open>Events\<close>

datatype hub_event =
    EvProxy bool proxyRequest
  | EvRead nat bytes
  | EvTake bool nat
  | EvSend bool nat
  | EvReadEnd bool bool nat
  | EvMessage bool "string + bytes"
  | EvChain bool bool nat
  | EvHeadTimeout bool nat
  | EvIdleTimeout bool nat
  | EvClientGone bool nat
  | EvSocketClosed

text \<open>The object an event is about, if any: it has to exist.\<close>

fun ev_object :: "hub_event \<Rightarrow> nat option" where
  "ev_object (EvRead k d) = Some k"
| "ev_object (EvTake up k) = Some k"
| "ev_object (EvSend up k) = Some k"
| "ev_object (EvReadEnd up threw k) = Some k"
| "ev_object (EvChain up ok k) = Some k"
| "ev_object (EvHeadTimeout up k) = Some k"
| "ev_object (EvIdleTimeout up k) = Some k"
| "ev_object (EvClientGone up k) = Some k"
| "ev_object _ = None"

fun hub_event_fun :: "(string \<Rightarrow> rat option) \<Rightarrow> (string \<Rightarrow> jsval option) \<Rightarrow> hub_event \<Rightarrow> hub \<Rightarrow> hub" where
  "hub_event_fun num parse (EvProxy up req) h = fst (proxy num up req h)"
| "hub_event_fun num parse (EvRead k d) h = pump_read k d h"
| "hub_event_fun num parse (EvTake up k) h = pump_take up k h"
| "hub_event_fun num parse (EvSend up k) h = pump_send up k h"
| "hub_event_fun num parse (EvReadEnd up threw k) h = pump_close up threw k h"
| "hub_event_fun num parse (EvMessage up msg) h = onMessage parse up msg h"
| "hub_event_fun num parse (EvChain up ok k) h = chain_step up ok k h"
| "hub_event_fun num parse (EvHeadTimeout up k) h = head_timeout up k h"
| "hub_event_fun num parse (EvIdleTimeout up k) h = idle_timeout up k h"
| "hub_event_fun num parse (EvClientGone up k) h = client_gone up k h"
| "hub_event_fun num parse EvSocketClosed h = onClose h"

definition exists_object :: "hub_event \<Rightarrow> hub \<Rightarrow> bool" where
  "exists_object ev h \<longleftrightarrow> (case ev_object ev of None \<Rightarrow> True | Some k \<Rightarrow> k < length (hb_objs h))"

definition hub_apply :: "(string \<Rightarrow> rat option) \<Rightarrow> (string \<Rightarrow> jsval option) \<Rightarrow> hub_event \<Rightarrow> hub \<Rightarrow> hub" where
  "hub_apply num parse ev h = (if exists_object ev h then hub_event_fun num parse ev h else h)"

text \<open>
  The state after a sequence of events (the last one first), and for every object the request it was created for and whether that
  request was accepted, that is, waits for a head.
\<close>

definition opened_by :: "(string \<Rightarrow> rat option) \<Rightarrow> hub_event \<Rightarrow> hub \<Rightarrow> (proxyRequest \<times> bool) list" where
  "opened_by num ev h = (case ev of EvProxy up req \<Rightarrow>
       if length (hb_objs h) < length (hb_objs (fst (proxy num up req h))) then [(req, case snd (proxy num up req h) of Inl e \<Rightarrow> False | Inr k \<Rightarrow> True)] else []
     | _ \<Rightarrow> [])"

fun hub_run :: "(string \<Rightarrow> rat option) \<Rightarrow> (string \<Rightarrow> jsval option) \<Rightarrow> hub_event list \<Rightarrow> hub \<times> (proxyRequest \<times> bool) list" where
  "hub_run num parse [] = (new_hub, [])"
| "hub_run num parse (ev # evs) =
     (let (h, reqs) = hub_run num parse evs in (hub_apply num parse ev h, reqs @ opened_by num ev h))"

subsection \<open>Basic facts of the store\<close>

lemma upd_sel [simp]:
  "hb_streams (upd k f h) = hb_streams h" "hb_next (upd k f h) = hb_next h" "hb_sent (upd k f h) = hb_sent h"
  "length (hb_objs (upd k f h)) = length (hb_objs h)" "stream_of (upd k f h) s = stream_of h s"
  by (simp_all add: upd_def stream_of_def)

lemma sendCtl_sel [simp]:
  "hb_streams (sendCtl m h) = hb_streams h" "hb_next (sendCtl m h) = hb_next h" "hb_objs (sendCtl m h) = hb_objs h"
  "stream_of (sendCtl m h) s = stream_of h s" "hb_sent (sendCtl m h) = hb_sent h @ [TextMsg m]"
  by (simp_all add: sendCtl_def stream_of_def)

lemma upd_obj: "i < length (hb_objs h) \<Longrightarrow> hb_objs (upd k f h) ! i = (if i = k then f (hb_objs h ! k) else hb_objs h ! i)"
  by (simp add: upd_def nth_list_update)

lemma wake_pump_sel [simp]:
  "hs_id (wake_pump st) = hs_id st" "hs_dep (wake_pump st) = hs_dep st" "hs_cap (wake_pump st) = hs_cap st"
  "hs_head (wake_pump st) = hs_head st" "hs_closed (wake_pump st) = hs_closed st" "hs_waiters (wake_pump st) = hs_waiters st"
  "hs_unacked (wake_pump st) = hs_unacked st" "hs_idle (wake_pump st) = hs_idle st" "hs_headTimer (wake_pump st) = hs_headTimer st"
  "hs_chain (wake_pump st) = hs_chain st" "hs_body (wake_pump st) = hs_body st" "hs_end (wake_pump st) = hs_end st"
  by (simp_all add: wake_pump_def split: pump.splits)

lemma wake_pump_unblocked [simp]: "hs_pump (wake_pump st) \<noteq> PumpBlocked t p ps"
  by (simp add: wake_pump_def split: pump.splits)

lemma wake_pump_idem [simp]: "wake_pump (wake_pump st) = wake_pump st"
  by (simp add: wake_pump_def split: pump.splits)

lemma fold_wake:
  "hb_streams (fold (\<lambda>w. upd w wake_pump) ws h) = hb_streams h \<and> hb_next (fold (\<lambda>w. upd w wake_pump) ws h) = hb_next h
   \<and> hb_sent (fold (\<lambda>w. upd w wake_pump) ws h) = hb_sent h
   \<and> length (hb_objs (fold (\<lambda>w. upd w wake_pump) ws h)) = length (hb_objs h)
   \<and> (\<forall>i < length (hb_objs h). hb_objs (fold (\<lambda>w. upd w wake_pump) ws h) ! i
        = (if i \<in> set ws then wake_pump (hb_objs h ! i) else hb_objs h ! i))"
proof (induction ws arbitrary: h)
  case (Cons w ws)
  show ?case using Cons.IH[of "upd w wake_pump h"] by (auto simp: upd_obj)
qed simp

lemma wake_sel [simp]:
  "hb_streams (wake k h) = hb_streams h" "hb_next (wake k h) = hb_next h" "hb_sent (wake k h) = hb_sent h"
  "length (hb_objs (wake k h)) = length (hb_objs h)" "stream_of (wake k h) s = stream_of h s"
  using fold_wake[of "hs_waiters (hb_objs h ! k)" h] by (simp_all add: wake_def stream_of_def)

lemma wake_obj:
  "i < length (hb_objs h) \<Longrightarrow> hb_objs (wake k h) ! i
   = (let x = (if i \<in> set (hs_waiters (hb_objs h ! k)) then wake_pump (hb_objs h ! i) else hb_objs h ! i) in if i = k then x\<lparr>hs_waiters := []\<rparr> else x)"
  using fold_wake[of "hs_waiters (hb_objs h ! k)" h] by (simp add: wake_def upd_obj)

lemma forget_sel [simp]:
  "hb_next (forget s h) = hb_next h" "hb_sent (forget s h) = hb_sent h" "length (hb_objs (forget s h)) = length (hb_objs h)"
  by (simp_all add: forget_def split: option.splits)

lemma forget_streams: "hb_streams (forget s h) = filter (\<lambda>p. fst p \<noteq> s) (hb_streams h)"
  by (auto simp: forget_def stream_of_def map_of_eq_None_iff image_iff intro!: filter_True[symmetric] split: option.splits)

lemma forget_obj:
  assumes "stream_of h s = Some k" and "k < length (hb_objs h)" and "i < length (hb_objs h)"
  shows "hb_objs (forget s h) ! i = (let x = (if i \<in> set (hs_waiters (hb_objs h ! k)) then wake_pump (hb_objs h ! i) else hb_objs h ! i) in
    if i = k then close_obj (x\<lparr>hs_waiters := []\<rparr>) else x)"
  using assms by (auto simp: forget_def wake_obj upd_obj close_obj_def Let_def wake_pump_def split: pump.splits)

lemma stream_of_forget: "stream_of (forget s h) t = (if t = s then None else stream_of h t)"
proof -
  have "map_of (filter (\<lambda>p. fst p \<noteq> s) xs) t = (if t = s then None else map_of xs t)" for xs :: "(nat \<times> nat) list"
    by (induction xs) auto
  then show ?thesis by (simp add: stream_of_def forget_streams)
qed

subsection \<open>The invariant\<close>

fun parts_of :: "pump \<Rightarrow> bytes list" where
  "parts_of (PumpParts t ps) = ps"
| "parts_of (PumpWindow t p ps) = p # ps"
| "parts_of (PumpBlocked t p ps) = p # ps"
| "parts_of _ = []"

definition parts_ok :: "pump \<Rightarrow> bool" where
  "parts_ok p \<longleftrightarrow> (\<forall>x \<in> set (parts_of p). 0 < length x \<and> length x \<le> MAX_FRAME_BYTES)"

text \<open>One object on its own.\<close>

definition stream_inv :: "hstream \<Rightarrow> bool" where
  "stream_inv st \<longleftrightarrow> hs_unacked st \<le> WINDOW_BYTES \<and> parts_ok (hs_pump st) \<and> stream_ok (hs_id st)
     \<and> (if hs_closed st then \<not> hs_idle st \<and> \<not> hs_headTimer st \<and> hs_waiters st = []
        else hs_idle st \<and> (hs_headTimer st \<longleftrightarrow> hs_head st = None) \<and> (hs_chain st \<noteq> [] \<longrightarrow> hs_head st \<noteq> None))"

text \<open>A waiting pump is registered where its id leads, and there is no room for its part.\<close>

definition registered :: "hub \<Rightarrow> nat \<Rightarrow> bool" where
  "registered h k \<longleftrightarrow> (\<forall>t p ps. hs_pump (hb_objs h ! k) = PumpBlocked t p ps \<longrightarrow>
     (\<exists>j. stream_of h (hs_id (hb_objs h ! k)) = Some j \<and> k \<in> set (hs_waiters (hb_objs h ! j))
        \<and> WINDOW_BYTES < hs_unacked (hb_objs h ! j) + length p))"

definition hub_inv :: "hub \<Rightarrow> bool" where
  "hub_inv h \<longleftrightarrow> distinct (map fst (hb_streams h)) \<and> 1 \<le> hb_next h \<and> hb_next h \<le> 4294967280
     \<and> (\<forall>p \<in> set (hb_streams h). snd p < length (hb_objs h) \<and> hs_id (hb_objs h ! snd p) = fst p \<and> \<not> hs_closed (hb_objs h ! snd p))
     \<and> (\<forall>k < length (hb_objs h). \<not> hs_closed (hb_objs h ! k) \<longrightarrow> (hs_id (hb_objs h ! k), k) \<in> set (hb_streams h))
     \<and> (\<forall>k < length (hb_objs h). stream_inv (hb_objs h ! k) \<and> registered h k)"

lemma hub_invD:
  assumes "hub_inv h"
  shows "distinct (map fst (hb_streams h))" "1 \<le> hb_next h" "hb_next h \<le> 4294967280"
    "\<And>s k. (s, k) \<in> set (hb_streams h) \<Longrightarrow> k < length (hb_objs h) \<and> hs_id (hb_objs h ! k) = s \<and> \<not> hs_closed (hb_objs h ! k)"
    "\<And>k. k < length (hb_objs h) \<Longrightarrow> \<not> hs_closed (hb_objs h ! k) \<Longrightarrow> (hs_id (hb_objs h ! k), k) \<in> set (hb_streams h)"
    "\<And>k. k < length (hb_objs h) \<Longrightarrow> stream_inv (hb_objs h ! k)" "\<And>k. k < length (hb_objs h) \<Longrightarrow> registered h k"
  using assms by (force simp: hub_inv_def)+

lemma open_stream_of:
  assumes "hub_inv h" and "stream_of h s = Some k"
  shows "k < length (hb_objs h)" "hs_id (hb_objs h ! k) = s" "\<not> hs_closed (hb_objs h ! k)"
  using hub_invD(4)[OF assms(1), of s k] assms(2) map_of_SomeD[of "hb_streams h" s k] by (auto simp: stream_of_def)

lemma open_iff:
  assumes "hub_inv h" and "k < length (hb_objs h)"
  shows "\<not> hs_closed (hb_objs h ! k) \<longleftrightarrow> stream_of h (hs_id (hb_objs h ! k)) = Some k"
  using hub_invD(1,5)[OF assms(1)] assms(2) open_stream_of[OF assms(1)] by (auto simp: stream_of_def)

text \<open>
  An update of one object that keeps what the other objects rely on, and leaves its pump alone or not waiting.
\<close>

definition local_upd :: "(hstream \<Rightarrow> hstream) \<Rightarrow> hstream \<Rightarrow> bool" where
  "local_upd f st \<longleftrightarrow> hs_id (f st) = hs_id st \<and> hs_closed (f st) = hs_closed st \<and> hs_waiters (f st) = hs_waiters st
     \<and> hs_unacked st \<le> hs_unacked (f st)
     \<and> (hs_pump (f st) = hs_pump st \<or> (\<forall>t p ps. hs_pump (f st) \<noteq> PumpBlocked t p ps))"

lemma inv_upd:
  assumes inv: "hub_inv h" and k: "k < length (hb_objs h)" and loc: "local_upd f (hb_objs h ! k)" and ok: "stream_inv (f (hb_objs h ! k))"
  shows "hub_inv (upd k f h)"
proof -
  note D = hub_invD[OF inv]
  have sel: "hs_id (hb_objs (upd k f h) ! i) = hs_id (hb_objs h ! i)" "hs_closed (hb_objs (upd k f h) ! i) = hs_closed (hb_objs h ! i)"
    "hs_waiters (hb_objs (upd k f h) ! i) = hs_waiters (hb_objs h ! i)"
    "hs_unacked (hb_objs h ! i) \<le> hs_unacked (hb_objs (upd k f h) ! i)" if "i < length (hb_objs h)" for i
    using that loc by (auto simp: upd_obj local_upd_def)
  have reg: "registered (upd k f h) i" if i: "i < length (hb_objs h)" for i
    unfolding registered_def
  proof (intro allI impI)
    fix t p ps assume b: "hs_pump (hb_objs (upd k f h) ! i) = PumpBlocked t p ps"
    then have "hs_pump (hb_objs h ! i) = PumpBlocked t p ps" using i loc by (auto simp: upd_obj local_upd_def split: if_splits)
    then obtain j where j: "stream_of h (hs_id (hb_objs h ! i)) = Some j" "i \<in> set (hs_waiters (hb_objs h ! j))"
      "WINDOW_BYTES < hs_unacked (hb_objs h ! j) + length p" using D(7)[OF i] by (auto simp: registered_def)
    moreover have "j < length (hb_objs h)" using open_stream_of(1)[OF inv j(1)] .
    ultimately show "\<exists>j. stream_of (upd k f h) (hs_id (hb_objs (upd k f h) ! i)) = Some j \<and> i \<in> set (hs_waiters (hb_objs (upd k f h) ! j))
        \<and> WINDOW_BYTES < hs_unacked (hb_objs (upd k f h) ! j) + length p"
      using sel[OF i] sel[of j] by (auto intro!: exI[of _ j])
  qed
  have "stream_inv (hb_objs (upd k f h) ! i)" if "i < length (hb_objs h)" for i using that D(6) ok by (simp add: upd_obj)
  then show ?thesis using D(1-5) sel reg by (auto simp: hub_inv_def)
qed

lemma inv_sendCtl [simp]: "hub_inv (sendCtl m h) = hub_inv h"
  by (simp add: hub_inv_def registered_def)

lemma parts_wake [simp]: "parts_ok (hs_pump (wake_pump st)) = parts_ok (hs_pump st)"
  by (cases "hs_pump st") (simp_all add: wake_pump_def parts_ok_def)

lemma inv_forget:
  assumes inv: "hub_inv h"
  shows "hub_inv (forget s h)"
proof (cases "stream_of h s")
  case None
  then show ?thesis using inv by (simp add: forget_def)
next
  case (Some k)
  note D = hub_invD[OF inv] and k = open_stream_of[OF inv Some]
  note obj = forget_obj[OF Some k(1)]
  have sel: "hs_id (hb_objs (forget s h) ! i) = hs_id (hb_objs h ! i)" "hs_unacked (hb_objs (forget s h) ! i) = hs_unacked (hb_objs h ! i)"
    "hs_closed (hb_objs (forget s h) ! i) = (i = k \<or> hs_closed (hb_objs h ! i))"
    "i \<noteq> k \<Longrightarrow> hs_waiters (hb_objs (forget s h) ! i) = hs_waiters (hb_objs h ! i)" if "i < length (hb_objs h)" for i
    using obj[OF that] by (simp_all add: Let_def close_obj_def)
  have sts: "set (hb_streams (forget s h)) = set (hb_streams h) - {(s, k)}"
    using D(1) Some by (auto simp: forget_streams stream_of_def dest: map_of_SomeD eq_key_imp_eq_value)
  have "distinct (map fst (hb_streams (forget s h)))" using D(1) by (auto simp: forget_streams intro: distinct_map_filter)
  moreover have "registered (forget s h) i" if i: "i < length (hb_objs h)" for i
    unfolding registered_def
  proof (intro allI impI)
    fix t p ps assume b: "hs_pump (hb_objs (forget s h) ! i) = PumpBlocked t p ps"
    then have b': "hs_pump (hb_objs h ! i) = PumpBlocked t p ps" "i \<notin> set (hs_waiters (hb_objs h ! k))"
      using obj[OF i] by (auto simp: Let_def close_obj_def split: if_splits)
    then obtain j where j: "stream_of h (hs_id (hb_objs h ! i)) = Some j" "i \<in> set (hs_waiters (hb_objs h ! j))"
      "WINDOW_BYTES < hs_unacked (hb_objs h ! j) + length p" using D(7)[OF i] by (auto simp: registered_def)
    then have "j \<noteq> k" using b'(2) by auto
    then have "hs_id (hb_objs h ! i) \<noteq> s" using j(1) Some by auto
    then show "\<exists>j. stream_of (forget s h) (hs_id (hb_objs (forget s h) ! i)) = Some j \<and> i \<in> set (hs_waiters (hb_objs (forget s h) ! j))
        \<and> WINDOW_BYTES < hs_unacked (hb_objs (forget s h) ! j) + length p"
      using j sel[OF i] sel[OF open_stream_of(1)[OF inv j(1)]] \<open>j \<noteq> k\<close> by (auto simp: stream_of_forget intro!: exI[of _ j])
  qed
  moreover have "stream_inv (hb_objs (forget s h) ! i)" if i: "i < length (hb_objs h)" for i
    using obj[OF i] D(6)[OF i] by (auto simp: stream_inv_def Let_def close_obj_def)
  moreover have "snd p < length (hb_objs h) \<and> hs_id (hb_objs (forget s h) ! snd p) = fst p \<and> \<not> hs_closed (hb_objs (forget s h) ! snd p)"
    if "p \<in> set (hb_streams (forget s h))" for p
  proof -
    have p: "p \<in> set (hb_streams h)" "p \<noteq> (s, k)" using that sts by auto
    then have "snd p \<noteq> k" using D(4)[of "fst p" "snd p"] k(2) by (metis prod.collapse)
    then show ?thesis using D(4)[of "fst p" "snd p"] p sel[of "snd p"] by simp
  qed
  moreover have "(hs_id (hb_objs (forget s h) ! i), i) \<in> set (hb_streams (forget s h))"
    if "i < length (hb_objs h)" "\<not> hs_closed (hb_objs (forget s h) ! i)" for i
    using that sel[OF that(1)] D(5)[of i] sts by auto
  ultimately show ?thesis using D(2,3) by (simp add: hub_inv_def)
qed

lemma stream_inv_upd: "hub_inv h \<Longrightarrow> k < length (hb_objs h) \<Longrightarrow> stream_inv (hb_objs h ! k)"
  by (rule hub_invD(6))

lemma inv_touch: "hub_inv h \<Longrightarrow> hub_inv (touch s h)"
  using open_stream_of[of h s] hub_invD(6)[of h]
  by (auto simp: touch_def local_upd_def stream_inv_def intro!: inv_upd split: option.splits if_splits)

lemma touch_sel [simp]: "hb_streams (touch s h) = hb_streams h" "length (hb_objs (touch s h)) = length (hb_objs h)"
  "stream_of (touch s h) t = stream_of h t" "hb_next (touch s h) = hb_next h"
  by (simp_all add: touch_def split: option.splits)

lemma inv_cancel: "hub_inv h \<Longrightarrow> hub_inv (cancel up s h)"
  by (auto simp: cancel_def intro!: inv_forget split: option.splits)

lemma inv_set_head: "hub_inv h \<Longrightarrow> k < length (hb_objs h) \<Longrightarrow> hub_inv (upd k (set_head v) h)"
  using hub_invD(6)[of h k] by (intro inv_upd) (auto simp: local_upd_def set_head_def stream_inv_def)

lemma inv_chain_add: "hub_inv h \<Longrightarrow> k < length (hb_objs h) \<Longrightarrow> hs_closed (hb_objs h ! k) \<or> hs_head (hb_objs h ! k) \<noteq> None
    \<Longrightarrow> hub_inv (upd k (chain_add c) h)"
  using hub_invD(6)[of h k] by (intro inv_upd) (auto simp: local_upd_def chain_add_def stream_inv_def)

lemma inv_fail: "hub_inv h \<Longrightarrow> hub_inv (fail up s e tell h)"
  using open_stream_of(1)[of h s]
  by (auto simp: fail_def intro!: inv_forget inv_set_head inv_chain_add split: option.splits)

text \<open>A link that is added to the chain just before the stream is forgotten is as good as added afterwards.\<close>

lemma inv_forget_chain:
  assumes inv: "hub_inv h" and k: "stream_of h s = Some k"
  shows "hub_inv (forget s (upd k (chain_add c) h))"
proof -
  note ko = open_stream_of[OF inv k]
  have len: "length (hb_objs (forget s (upd k (chain_add c) h))) = length (hb_objs (upd k (chain_add c) (forget s h)))" by simp
  have k2: "stream_of (upd k (chain_add c) h) s = Some k" using k by simp
  have obj: "hb_objs (forget s (upd k (chain_add c) h)) ! i = hb_objs (upd k (chain_add c) (forget s h)) ! i" if i: "i < length (hb_objs h)" for i
    using i forget_obj[OF k ko(1) i] forget_obj[OF k ko(1) ko(1)] forget_obj[OF k2, of i] ko(1)
    by (simp add: upd_obj Let_def close_obj_def chain_add_def wake_pump_def split: pump.split)
  have objs: "hb_objs (forget s (upd k (chain_add c) h)) = hb_objs (upd k (chain_add c) (forget s h))"
    using obj by (intro nth_equalityI len) simp
  have eq: "forget s (upd k (chain_add c) h) = upd k (chain_add c) (forget s h)"
    using objs by (intro hub.equality) (simp_all add: forget_streams)
  have "hs_closed (hb_objs (forget s h) ! k)" using forget_obj[OF k ko(1,1)] by (simp add: Let_def close_obj_def)
  then show ?thesis unfolding eq using ko(1) by (intro inv_chain_add inv_forget inv) simp_all
qed

lemma inv_finish: "hub_inv h \<Longrightarrow> hub_inv (finish s c h)"
  using inv_forget[of h s] inv_forget_chain[of h s] by (simp add: finish_def split: option.split)

lemma inv_set_pump:
  assumes "hub_inv h" and "k < length (hb_objs h)" and "parts_ok p" and "\<And>t q qs. p \<noteq> PumpBlocked t q qs"
  shows "hub_inv (set_pump p k h)"
  using hub_invD(6)[OF assms(1,2)] assms unfolding set_pump_def
  by (intro inv_upd) (auto simp: local_upd_def stream_inv_def)

lemma length_cancel [simp]: "length (hb_objs (cancel up s h)) = length (hb_objs h)"
  by (simp add: cancel_def split: option.splits)

lemma length_fail [simp]: "length (hb_objs (fail up s e tell h)) = length (hb_objs h)"
  by (simp add: fail_def split: option.splits)

lemma length_finish [simp]: "length (hb_objs (finish s c h)) = length (hb_objs h)"
  by (simp add: finish_def split: option.splits)

lemma length_set_pump [simp]: "length (hb_objs (set_pump p k h)) = length (hb_objs h)"
  by (simp add: set_pump_def)

lemma parts_done [simp]: "parts_ok PumpDone" "parts_ok (PumpReading t)"
  by (simp_all add: parts_ok_def)

lemma inv_pump_fail: "hub_inv h \<Longrightarrow> k < length (hb_objs h) \<Longrightarrow> hub_inv (pump_fail up k e h)"
  unfolding pump_fail_def by (intro inv_set_pump inv_fail) simp_all

lemma inv_pump_end: "hub_inv h \<Longrightarrow> k < length (hb_objs h) \<Longrightarrow> hub_inv (pump_end up k h)"
  by (auto simp: pump_end_def Let_def intro!: inv_set_pump inv_pump_fail)

lemma parts_chunks: "parts_ok (PumpParts t (chunks d))"
  using chunks_sizes by (simp add: parts_ok_def)

lemma inv_pump_read: "hub_inv h \<Longrightarrow> k < length (hb_objs h) \<Longrightarrow> hub_inv (pump_read k d h)"
  by (auto simp: pump_read_def parts_chunks intro!: inv_set_pump split: pump.splits)

lemma parts_now: "hub_inv h \<Longrightarrow> k < length (hb_objs h) \<Longrightarrow> parts_ok (hs_pump (hb_objs h ! k))"
  using hub_invD(6) by (auto simp: stream_inv_def)

lemma inv_pump_take: "hub_inv h \<Longrightarrow> k < length (hb_objs h) \<Longrightarrow> hub_inv (pump_take up k h)"
  using parts_now[of h k]
  by (auto simp: pump_take_def parts_ok_def intro!: inv_set_pump inv_pump_fail split: pump.splits list.splits)

lemma inv_sent [simp]: "hub_inv (h\<lparr>hb_sent := w\<rparr>) = hub_inv h"
  by (simp add: hub_inv_def registered_def stream_of_def)

lemma inv_waiter:
  assumes inv: "hub_inv h" and k: "k < length (hb_objs h)" and j: "stream_of h (hs_id (hb_objs h ! k)) = Some j"
    and full: "WINDOW_BYTES < hs_unacked (hb_objs h ! j) + length p" and p: "parts_ok (PumpBlocked t p ps)"
  shows "hub_inv (upd j (\<lambda>st. st\<lparr>hs_waiters := hs_waiters st @ [k]\<rparr>) (set_pump (PumpBlocked t p ps) k h))"
proof -
  let ?h = "upd j (\<lambda>st. st\<lparr>hs_waiters := hs_waiters st @ [k]\<rparr>) (set_pump (PumpBlocked t p ps) k h)"
  note D = hub_invD[OF inv] and jo = open_stream_of[OF inv j]
  have obj: "hb_objs ?h ! i = (let x = (if i = k then (hb_objs h ! k)\<lparr>hs_pump := PumpBlocked t p ps\<rparr> else hb_objs h ! i) in
      if i = j then x\<lparr>hs_waiters := hs_waiters x @ [k]\<rparr> else x)" if "i < length (hb_objs h)" for i
    using that jo(1) by (auto simp: upd_obj set_pump_def Let_def)
  have sel: "hs_id (hb_objs ?h ! i) = hs_id (hb_objs h ! i)" "hs_unacked (hb_objs ?h ! i) = hs_unacked (hb_objs h ! i)"
    "hs_closed (hb_objs ?h ! i) = hs_closed (hb_objs h ! i)" "set (hs_waiters (hb_objs h ! i)) \<subseteq> set (hs_waiters (hb_objs ?h ! i))"
    if "i < length (hb_objs h)" for i
    using obj[OF that] by (auto simp: Let_def)
  have "registered ?h i" if i: "i < length (hb_objs h)" for i
    unfolding registered_def
  proof (intro allI impI)
    fix t' q qs assume b: "hs_pump (hb_objs ?h ! i) = PumpBlocked t' q qs"
    show "\<exists>j. stream_of ?h (hs_id (hb_objs ?h ! i)) = Some j \<and> i \<in> set (hs_waiters (hb_objs ?h ! j)) \<and> WINDOW_BYTES < hs_unacked (hb_objs ?h ! j) + length q"
    proof (cases "i = k")
      case True
      then have "q = p" "k \<in> set (hs_waiters (hb_objs ?h ! j))" using b obj[OF i] obj[OF jo(1)] by (auto simp: Let_def split: if_splits)
      then show ?thesis using True j full sel[OF i] sel(2)[OF jo(1)] by (simp add: set_pump_def)
    next
      case False
      then have "hs_pump (hb_objs h ! i) = PumpBlocked t' q qs" using b obj[OF i] by (auto simp: Let_def split: if_splits)
      then obtain j' where j': "stream_of h (hs_id (hb_objs h ! i)) = Some j'" "i \<in> set (hs_waiters (hb_objs h ! j'))"
        "WINDOW_BYTES < hs_unacked (hb_objs h ! j') + length q" using D(7)[OF i] by (auto simp: registered_def)
      then show ?thesis using sel[OF i] sel[OF open_stream_of(1)[OF inv j'(1)]] by (auto simp: set_pump_def intro!: exI[of _ j'])
    qed
  qed
  moreover have "stream_inv (hb_objs ?h ! i)" if i: "i < length (hb_objs h)" for i
    using obj[OF i] D(6)[OF i] p jo(3) by (auto simp: stream_inv_def Let_def)
  ultimately show ?thesis using D(1-5) sel by (auto simp: hub_inv_def set_pump_def)
qed

lemma inv_pump_send: "hub_inv h \<Longrightarrow> k < length (hb_objs h) \<Longrightarrow> hub_inv (pump_send up k h)"
proof (cases "hs_pump (hb_objs h ! k)")
  case (PumpWindow t p ps)
  assume inv: "hub_inv h" and k: "k < length (hb_objs h)"
  have parts: "parts_ok (PumpParts t ps)" "parts_ok (PumpBlocked t p ps)" using parts_now[OF inv k] by (auto simp: PumpWindow parts_ok_def)
  show ?thesis
  proof (cases "stream_of h (hs_id (hb_objs h ! k))")
    case None
    then show ?thesis using inv k by (simp add: pump_send_def PumpWindow inv_set_pump)
  next
    case (Some j)
    note jo = open_stream_of[OF inv Some]
    let ?h1 = "upd j (\<lambda>st. st\<lparr>hs_unacked := hs_unacked st + length p\<rparr>) h"
    have h1: "hub_inv ?h1" if "hs_unacked (hb_objs h ! j) + length p \<le> WINDOW_BYTES"
      using hub_invD(6)[OF inv jo(1)] that by (intro inv_upd[OF inv jo(1)]) (auto simp: local_upd_def stream_inv_def)
    show ?thesis
      using inv k parts Some jo(3) h1
      by (auto simp: pump_send_def PumpWindow Let_def intro!: inv_set_pump inv_pump_fail inv_touch inv_waiter split: option.splits)
  qed
qed (simp_all add: pump_send_def)

lemma inv_pump_close: "hub_inv h \<Longrightarrow> k < length (hb_objs h) \<Longrightarrow> hub_inv (pump_close up threw k h)"
  by (auto simp: pump_close_def intro!: inv_pump_fail inv_pump_end split: pump.splits)

lemma touch_obj: "k < length (hb_objs h) \<Longrightarrow> hs_closed (hb_objs (touch s h) ! k) = hs_closed (hb_objs h ! k)
    \<and> hs_head (hb_objs (touch s h) ! k) = hs_head (hb_objs h ! k)"
  by (simp add: touch_def upd_obj split: option.split)

lemma inv_on_data: "hub_inv h \<Longrightarrow> hub_inv (on_data f h)"
  using open_stream_of(1)[of h]
  by (auto simp: on_data_def touch_obj intro!: inv_chain_add inv_touch split: option.splits)

lemma inv_on_ack:
  assumes inv: "hub_inv h" and k: "k < length (hb_objs h)" "\<not> hs_closed (hb_objs h ! k)"
  shows "hub_inv (on_ack k n h)"
proof -
  let ?h1 = "upd k (\<lambda>st. st\<lparr>hs_unacked := hs_unacked st - n\<rparr>) h"
  note D = hub_invD[OF inv]
  have obj: "hb_objs (on_ack k n h) ! i = (let x = (if i = k then (hb_objs h ! k)\<lparr>hs_unacked := hs_unacked (hb_objs h ! k) - n\<rparr> else hb_objs h ! i);
      y = (if i \<in> set (hs_waiters (hb_objs h ! k)) then wake_pump x else x) in if i = k then y\<lparr>hs_waiters := []\<rparr> else y)"
    if "i < length (hb_objs h)" for i
    using that k(1) by (simp add: on_ack_def wake_obj upd_obj Let_def)
  have sel: "hs_id (hb_objs (on_ack k n h) ! i) = hs_id (hb_objs h ! i)"
    "hs_closed (hb_objs (on_ack k n h) ! i) = hs_closed (hb_objs h ! i)"
    "i \<noteq> k \<Longrightarrow> hs_unacked (hb_objs (on_ack k n h) ! i) = hs_unacked (hb_objs h ! i)"
    "i \<noteq> k \<Longrightarrow> hs_waiters (hb_objs (on_ack k n h) ! i) = hs_waiters (hb_objs h ! i)" if "i < length (hb_objs h)" for i
    using obj[OF that] by (simp_all add: Let_def)
  have st: "hb_streams (on_ack k n h) = hb_streams h" "hb_next (on_ack k n h) = hb_next h" "length (hb_objs (on_ack k n h)) = length (hb_objs h)"
    "stream_of (on_ack k n h) s = stream_of h s" for s
    by (simp_all add: on_ack_def)
  have "registered (on_ack k n h) i" if i: "i < length (hb_objs h)" for i
    unfolding registered_def
  proof (intro allI impI)
    fix t p ps assume "hs_pump (hb_objs (on_ack k n h) ! i) = PumpBlocked t p ps"
    then have b: "hs_pump (hb_objs h ! i) = PumpBlocked t p ps" "i \<notin> set (hs_waiters (hb_objs h ! k))"
      using obj[OF i] by (auto simp: Let_def split: if_splits)
    then obtain j where j: "stream_of h (hs_id (hb_objs h ! i)) = Some j" "i \<in> set (hs_waiters (hb_objs h ! j))"
      "WINDOW_BYTES < hs_unacked (hb_objs h ! j) + length p" using D(7)[OF i] by (auto simp: registered_def)
    moreover have "j \<noteq> k" using j(2) b(2) by auto
    ultimately show "\<exists>j. stream_of (on_ack k n h) (hs_id (hb_objs (on_ack k n h) ! i)) = Some j
        \<and> i \<in> set (hs_waiters (hb_objs (on_ack k n h) ! j)) \<and> WINDOW_BYTES < hs_unacked (hb_objs (on_ack k n h) ! j) + length p"
      using sel[OF i] sel[OF open_stream_of(1)[OF inv j(1)]] st(4) by (auto intro!: exI[of _ j])
  qed
  moreover have "stream_inv (hb_objs (on_ack k n h) ! i)" if i: "i < length (hb_objs h)" for i
    using obj[OF i] D(6)[OF i] k(2) by (auto simp: stream_inv_def Let_def)
  ultimately show ?thesis using D(1-5) sel st by (auto simp: hub_inv_def)
qed

lemma inv_on_node: "hub_inv h \<Longrightarrow> hub_inv (on_node up m h)"
proof (cases "stream_of h (node_stream m)")
  case (Some k)
  assume inv: "hub_inv h"
  let ?h1 = "touch (node_stream m) h"
  note ko = open_stream_of[OF inv Some] and t = inv_touch[OF inv, of "node_stream m"]
  have closed: "\<not> hs_closed (hb_objs ?h1 ! k)" using ko by (simp add: touch_obj)
  have k1: "stream_of ?h1 (node_stream m) = Some k" using Some by simp
  have "hub_inv (finish (node_stream m) False (upd k (chain_add CloseBody) ?h1))"
    using inv_forget_chain[OF t k1] Some by (simp add: finish_def)
  moreover have "hub_inv (on_res k s status hdrs ?h1)" for s status hdrs
    using inv_set_head[OF t] inv_finish ko(1) t by (simp add: on_res_def Let_def)
  ultimately have "hub_inv (case m of NodeRes s status hdrs \<Rightarrow> on_res k s status hdrs ?h1
      | NodeEnd s \<Rightarrow> finish s False (upd k (chain_add CloseBody) ?h1) | NodeErr s code txt \<Rightarrow> fail up s (Code code) False ?h1
      | NodeAck s n \<Rightarrow> on_ack k n ?h1)"
    using ko(1) t closed by (cases m) (simp_all add: inv_fail inv_on_ack)
  then show ?thesis using ko(3) by (simp only: on_node_def Some Let_def option.case if_False)
qed (simp add: on_node_def)

lemma inv_onMessage: "hub_inv h \<Longrightarrow> hub_inv (onMessage parse up msg h)"
  by (auto simp: onMessage_def intro!: inv_on_data inv_on_node split: sum.splits option.splits)

lemma inv_chain: "hub_inv h \<Longrightarrow> k < length (hb_objs h) \<Longrightarrow> hub_inv (chain_step up ok k h)"
proof -
  assume inv: "hub_inv h" and k: "k < length (hb_objs h)"
  let ?st = "hb_objs h ! k"
  have u: "hub_inv (upd k f h)" if "hs_id (f ?st) = hs_id ?st \<and> hs_closed (f ?st) = hs_closed ?st \<and> hs_waiters (f ?st) = hs_waiters ?st
      \<and> hs_unacked (f ?st) = hs_unacked ?st \<and> hs_pump (f ?st) = hs_pump ?st \<and> hs_idle (f ?st) = hs_idle ?st
      \<and> hs_headTimer (f ?st) = hs_headTimer ?st \<and> hs_head (f ?st) = hs_head ?st \<and> hs_chain ?st \<noteq> []" for f
    using hub_invD(6)[OF inv k] that by (intro inv_upd[OF inv k]) (auto simp: local_upd_def stream_inv_def)
  show ?thesis using inv by (auto simp: chain_step_def Let_def intro!: inv_cancel u split: list.splits chain_op.splits)
qed

lemma inv_onClose: "hub_inv h \<Longrightarrow> hub_inv (onClose h)"
proof -
  have "hub_inv h \<Longrightarrow> hub_inv (fold (\<lambda>s. fail False s Offline False) ss h)" for ss h
    by (induction ss arbitrary: h) (auto intro: inv_fail)
  then show "hub_inv h \<Longrightarrow> hub_inv (onClose h)" by (simp add: onClose_def)
qed

subsection \<open>A free id\<close>

lemma next_id_range: "1 \<le> n \<Longrightarrow> n \<le> 4294967280 \<Longrightarrow> 1 \<le> next_id n \<and> next_id n \<le> 4294967280"
  by (auto simp: next_id_def)

lemma next_id_pow: "m < 4294967280 \<Longrightarrow> (next_id ^^ i) (Suc m) = Suc ((m + i) mod 4294967280)"
proof (induction i)
  case (Suc i)
  have "(m + i) mod 4294967280 < 4294967280" by simp
  then have "next_id (Suc ((m + i) mod 4294967280)) = Suc (Suc (m + i) mod 4294967280)" by (auto simp: next_id_def mod_Suc)
  then show ?case using Suc by simp
qed simp

lemma mod_shift_eq:
  assumes "(a + i) mod q = (a + j) mod q" and "i < q" and "j < (q :: nat)"
  shows "i = j"
proof -
  obtain q1 q2 where "a + i + q * q1 = a + j + q * q2" using assms(1) by (auto simp: nat_mod_eq_iff)
  then have "i + q * q1 = j + q * q2" by simp
  then have "(i + q * q1) mod q = (j + q * q2) mod q" by simp
  then show ?thesis using assms(2,3) by simp
qed

lemma id_loop_None: "id_loop fuel used n = None \<Longrightarrow> i < fuel \<Longrightarrow> (next_id ^^ i) n \<in> set used"
proof (induction fuel used n arbitrary: i rule: id_loop.induct)
  case (2 fuel used n)
  show ?case
  proof (cases i)
    case 0
    then show ?thesis using 2(2) by (auto split: if_splits)
  next
    case (Suc j)
    have "(next_id ^^ j) (next_id n) \<in> set used" using 2 Suc by (auto split: if_splits)
    then show ?thesis by (simp add: Suc funpow_swap1)
  qed
qed simp

lemma id_loop_Some: "id_loop fuel used n = Some (s, nxt) \<Longrightarrow> 1 \<le> n \<Longrightarrow> n \<le> 4294967280
    \<Longrightarrow> s \<notin> set used \<and> 1 \<le> s \<and> s \<le> 4294967280 \<and> 1 \<le> nxt \<and> nxt \<le> 4294967280"
proof (induction fuel used n rule: id_loop.induct)
  case (2 fuel used n)
  then show ?case using next_id_range[of n] by (auto split: if_splits)
qed simp

lemma fresh_id_ex:
  assumes "hub_inv h" and "length (hb_streams h) < 4294967280"
  shows "\<exists>s nxt. fresh_id h = Some (s, nxt)"
proof (rule ccontr)
  assume "\<nexists>s nxt. fresh_id h = Some (s, nxt)"
  then have none: "id_loop (Suc (length (hb_streams h))) (map fst (hb_streams h)) (hb_next h) = None"
    by (cases "fresh_id h") (auto simp: fresh_id_def)
  let ?f = "\<lambda>i. (next_id ^^ i) (hb_next h)" and ?n = "Suc (length (hb_streams h))"
  obtain m where m: "hb_next h = Suc m" "m < 4294967280" using hub_invD(2,3)[OF assms(1)] by (cases "hb_next h") auto
  have pow: "?f i = Suc ((m + i) mod 4294967280)" for i unfolding m(1) by (rule next_id_pow[OF m(2)])
  have "inj_on ?f {..<?n}"
  proof (rule inj_onI)
    fix i j assume ij: "i \<in> {..<?n}" "j \<in> {..<?n}" "?f i = ?f j"
    then have "(m + i) mod 4294967280 = (m + j) mod 4294967280" using pow by simp
    then show "i = j" by (rule mod_shift_eq) (use ij assms(2) in auto)
  qed
  then have "card (?f ` {..<?n}) = ?n" by (simp add: card_image)
  moreover have "?f ` {..<?n} \<subseteq> set (map fst (hb_streams h))" using id_loop_None[OF none] by auto
  then have "card (?f ` {..<?n}) \<le> length (hb_streams h)" by (metis card_length card_mono finite_set length_map le_trans)
  ultimately show False by simp
qed

end
