(* ===== verification/RelayHubSafe.thy ===== *)
theory RelayHubSafe
  imports RelayHubInv
begin

text \<open>
  What the hub guarantees in every state it can reach: the slots of a node are limited and some are kept for probes, no stream
  has more unacked bytes than the window, no wake-up is lost, and every accepted request is answered unless its client leaves or
  the node ends the stream before its head.
\<close>

subsection \<open>A new object\<close>

lemma stream_of_add: "stream_of h t = Some j \<Longrightarrow> map_of (hb_streams h @ xs) t = Some j"
  by (simp add: stream_of_def map_add_Some_iff)

lemma inv_add:
  assumes inv: "hub_inv h" and s: "s \<notin> set (map fst (hb_streams h))" and nxt: "1 \<le> nxt" "nxt \<le> 4294967280"
    and st: "hs_id st = s" "stream_inv st" "hs_waiters st = []" "\<And>t p ps. hs_pump st \<noteq> PumpBlocked t p ps"
  shows "hub_inv \<lparr>hb_streams = (if hs_closed st then hb_streams h else hb_streams h @ [(s, length (hb_objs h))]), hb_next = nxt,
    hb_objs = hb_objs h @ [st], hb_sent = w\<rparr>" (is "hub_inv ?h")
proof -
  note D = hub_invD[OF inv]
  have old: "hb_objs ?h ! i = hb_objs h ! i" if "i < length (hb_objs h)" for i using that by (simp add: nth_append)
  have new: "hb_objs ?h ! length (hb_objs h) = st" by simp
  have "registered ?h i" if i: "i < length (hb_objs h)" for i
    unfolding registered_def
  proof (intro allI impI)
    fix t p ps assume "hs_pump (hb_objs ?h ! i) = PumpBlocked t p ps"
    then obtain j where j: "stream_of h (hs_id (hb_objs h ! i)) = Some j" "i \<in> set (hs_waiters (hb_objs h ! j))"
      "WINDOW_BYTES < hs_unacked (hb_objs h ! j) + length p" using D(7)[OF i] old[OF i] by (auto simp: registered_def)
    have "stream_of ?h (hs_id (hb_objs ?h ! i)) = Some j" using j(1) stream_of_add[OF j(1)] old[OF i] by (simp add: stream_of_def)
    then show "\<exists>j. stream_of ?h (hs_id (hb_objs ?h ! i)) = Some j \<and> i \<in> set (hs_waiters (hb_objs ?h ! j)) \<and> WINDOW_BYTES < hs_unacked (hb_objs ?h ! j) + length p"
      using j(2,3) old[OF open_stream_of(1)[OF inv j(1)]] by (intro exI[of _ j]) simp
  qed
  moreover have "registered ?h (length (hb_objs h))" using st(4) by (simp add: registered_def)
  ultimately have reg: "registered ?h i" if "i < length (hb_objs ?h)" for i using that by (auto simp: less_Suc_eq)
  have "stream_inv (hb_objs ?h ! i)" if "i < length (hb_objs ?h)" for i using that D(6) old st(2) by (auto simp: less_Suc_eq)
  moreover have "snd p < length (hb_objs ?h) \<and> hs_id (hb_objs ?h ! snd p) = fst p \<and> \<not> hs_closed (hb_objs ?h ! snd p)" if "p \<in> set (hb_streams ?h)" for p
    using that D(4)[of "fst p" "snd p"] old[of "snd p"] st(1) by (auto split: if_splits)
  moreover have "(hs_id (hb_objs ?h ! i), i) \<in> set (hb_streams ?h)" if "i < length (hb_objs ?h)" "\<not> hs_closed (hb_objs ?h ! i)" for i
    using that D(5)[of i] old[of i] st(1) by (auto simp: less_Suc_eq)
  moreover have "distinct (map fst (hb_streams ?h))" using D(1) s by auto
  ultimately show ?thesis using reg nxt by (auto simp: hub_inv_def)
qed

lemma fresh_props:
  assumes "hub_inv h" and "fresh_id h = Some (s, nxt)"
  shows "s \<notin> set (map fst (hb_streams h))" "stream_ok s" "1 \<le> nxt" "nxt \<le> 4294967280"
  using id_loop_Some[OF assms(2)[unfolded fresh_id_def] hub_invD(2,3)[OF assms(1)]] by (simp_all add: stream_ok_def)

lemma forget_open:
  assumes "s \<notin> set (map fst (hb_streams h))"
  shows "forget s (open_stream s nxt req h) = \<lparr>hb_streams = hb_streams h, hb_next = nxt, hb_objs = hb_objs h @ [close_obj (new_stream s req)], hb_sent = hb_sent h\<rparr>"
proof -
  have none: "map_of (hb_streams h) s = None" using assms by (simp add: map_of_eq_None_iff)
  have "filter (\<lambda>p. fst p \<noteq> s) (hb_streams h) = hb_streams h" using assms by (intro filter_True) auto
  then show ?thesis using none
    by (simp add: forget_def open_stream_def stream_of_def map_add_def wake_def upd_def new_stream_def close_obj_def nth_append list_update_append)
qed

definition started :: "nat \<Rightarrow> proxyRequest \<Rightarrow> hstream" where
  "started s req = (new_stream s req)\<lparr>hs_headTimer := True, hs_idle := True, hs_pump := PumpReading 0\<rparr>"

lemma start_open:
  "start_stream b (length (hb_objs h)) (sendCtl m (open_stream s nxt req h))
    = (let h' = \<lparr>hb_streams = hb_streams h @ [(s, length (hb_objs h))], hb_next = nxt, hb_objs = hb_objs h @ [started s req],
                 hb_sent = hb_sent h @ [TextMsg m]\<rparr> in if b then h' else pump_end True (length (hb_objs h)) h')"
  by (cases h) (simp add: start_stream_def sendCtl_def open_stream_def upd_def started_def Let_def nth_append)

lemma new_stream_inv: "stream_ok s \<Longrightarrow> stream_inv (started s req)" "stream_ok s \<Longrightarrow> stream_inv (close_obj (new_stream s req))"
  by (simp_all add: stream_inv_def started_def new_stream_def close_obj_def)

text \<open>The three outcomes of a request.\<close>

lemma proxy_cases:
  assumes inv: "hub_inv h"
  obtains (refused) e where "proxy num up req h = (h, Inl e)"
  | (unsent) s nxt e where "proxy num up req h = (\<lparr>hb_streams = hb_streams h, hb_next = nxt,
        hb_objs = hb_objs h @ [close_obj (new_stream s req)], hb_sent = hb_sent h\<rparr>, Inl e)"
      "fresh_id h = Some (s, nxt)" "\<not> busy_for req h"
  | (sent) s nxt h' where "proxy num up req h = (if pr_body req then h' else pump_end True (length (hb_objs h)) h', Inr (length (hb_objs h)))"
      "h' = \<lparr>hb_streams = hb_streams h @ [(s, length (hb_objs h))], hb_next = nxt, hb_objs = hb_objs h @ [started s req],
                 hb_sent = hb_sent h @ [TextMsg (req_message s req)]\<rparr>"
      "fresh_id h = Some (s, nxt)" "\<not> busy_for req h"
proof (cases "busy_for req h \<or> bad_request req \<or> declared_over num (BODY_CAP_BYTES (pr_cls req)) (pr_headers req) \<or> fresh_id h = None")
  case True
  then have "\<exists>e. proxy num up req h = (h, Inl e)" by (auto simp: proxy_def)
  then show ?thesis using refused by blast
next
  case False
  then obtain s nxt where f: "fresh_id h = Some (s, nxt)" by auto
  note unused = forget_open[OF fresh_props(1)[OF inv f]]
  show ?thesis
  proof (cases "MAX_CONTROL_CHARS < length (stringify (hub_json (req_message s req))) \<or> \<not> up")
    case True
    then have "\<exists>e. proxy num up req h = (forget s (open_stream s nxt req h), Inl e)" using False f True by (auto simp: proxy_def Let_def)
    then show ?thesis using False f unsent unfolding unused by blast
  next
    case False2: False
    show ?thesis using False False2 f sent[OF _ refl f] start_open[of "pr_body req" h "req_message s req" s nxt req]
      by (auto simp: proxy_def Let_def)
  qed
qed

lemma sent_inv:
  assumes "hub_inv h" and "fresh_id h = Some (s, nxt)"
  shows "hub_inv \<lparr>hb_streams = hb_streams h @ [(s, length (hb_objs h))], hb_next = nxt, hb_objs = hb_objs h @ [started s req], hb_sent = w\<rparr>"
    "hub_inv \<lparr>hb_streams = hb_streams h, hb_next = nxt, hb_objs = hb_objs h @ [close_obj (new_stream s req)], hb_sent = w\<rparr>"
proof -
  note F = fresh_props[OF assms]
  show "hub_inv \<lparr>hb_streams = hb_streams h @ [(s, length (hb_objs h))], hb_next = nxt, hb_objs = hb_objs h @ [started s req], hb_sent = w\<rparr>"
    using inv_add[OF assms(1) F(1,3,4), of "started s req" w] new_stream_inv(1)[OF F(2)] by (simp add: started_def new_stream_def)
  show "hub_inv \<lparr>hb_streams = hb_streams h, hb_next = nxt, hb_objs = hb_objs h @ [close_obj (new_stream s req)], hb_sent = w\<rparr>"
    using inv_add[OF assms(1) F(1,3,4), of "close_obj (new_stream s req)" w] new_stream_inv(2)[OF F(2)] by (simp add: close_obj_def new_stream_def)
qed

lemma inv_proxy: "hub_inv h \<Longrightarrow> hub_inv (fst (proxy num up req h))"
proof -
  assume inv: "hub_inv h"
  from inv show ?thesis
  proof (cases rule: proxy_cases[of h num up req])
    case (unsent s nxt e)
    then show ?thesis using sent_inv(2)[OF inv] by simp
  next
    case (sent s nxt h')
    then have "hub_inv h'" using sent_inv(1)[OF inv] by simp
    then show ?thesis using sent(1,2) by (auto intro!: inv_pump_end)
  qed (use inv in simp)
qed

lemma inv_apply: "hub_inv h \<Longrightarrow> hub_inv (hub_apply num parse ev h)"
  by (cases ev) (simp_all add: hub_apply_def exists_object_def inv_proxy inv_pump_read inv_pump_take inv_pump_send inv_pump_close
    inv_onMessage inv_chain head_timeout_def idle_timeout_def client_gone_def inv_fail inv_cancel inv_onClose)

lemma inv_new_hub: "hub_inv new_hub"
  by (simp add: hub_inv_def new_hub_def)

lemma hub_run_inv: "hub_run num parse evs = (h, reqs) \<Longrightarrow> hub_inv h"
proof (induction evs arbitrary: h reqs)
  case (Cons ev evs)
  obtain h0 reqs0 where "hub_run num parse evs = (h0, reqs0)" by fastforce
  then show ?case using Cons inv_apply by auto
qed (use inv_new_hub in auto)

subsection \<open>What later events leave alone\<close>

text \<open>
  From one state to a later one: an object keeps its deployment, a resolved head stays, a closed object stays closed and gets no
  head any more.
\<close>

definition keeps :: "hub \<Rightarrow> hub \<Rightarrow> bool" where
  "keeps h h' \<longleftrightarrow> length (hb_objs h) \<le> length (hb_objs h') \<and> (\<forall>k < length (hb_objs h).
     hs_dep (hb_objs h' ! k) = hs_dep (hb_objs h ! k) \<and> hs_id (hb_objs h' ! k) = hs_id (hb_objs h ! k)
     \<and> (hs_closed (hb_objs h ! k) \<longrightarrow> hs_closed (hb_objs h' ! k) \<and> hs_head (hb_objs h' ! k) = hs_head (hb_objs h ! k))
     \<and> (hs_head (hb_objs h ! k) \<noteq> None \<longrightarrow> hs_head (hb_objs h' ! k) = hs_head (hb_objs h ! k)))"

text \<open>The same, when moreover no stream is added to the map and no object to the store.\<close>

definition shrinks :: "hub \<Rightarrow> hub \<Rightarrow> bool" where
  "shrinks h h' \<longleftrightarrow> keeps h h' \<and> length (hb_objs h') = length (hb_objs h) \<and> hb_next h' = hb_next h \<and> (\<exists>Q. hb_streams h' = filter Q (hb_streams h))"

lemma keeps_refl [simp]: "keeps h h"
  by (simp add: keeps_def)

lemma keeps_trans: "keeps h h' \<Longrightarrow> keeps h' h'' \<Longrightarrow> keeps h h''"
  unfolding keeps_def by (smt (verit, best) dual_order.trans order_less_le_trans)

lemma shrinks_refl [simp]: "shrinks h h"
  by (auto simp: shrinks_def intro!: exI[of _ "\<lambda>_. True"])

lemma shrinks_trans: "shrinks h h' \<Longrightarrow> shrinks h' h'' \<Longrightarrow> shrinks h h''"
  unfolding shrinks_def using keeps_trans by (metis filter_filter)

lemma shrinks_sendCtl: "shrinks h (sendCtl m h)"
  by (auto simp: shrinks_def keeps_def intro!: exI[of _ "\<lambda>_. True"])

definition tame :: "(hstream \<Rightarrow> hstream) \<Rightarrow> hstream \<Rightarrow> bool" where
  "tame f st \<longleftrightarrow> hs_dep (f st) = hs_dep st \<and> hs_id (f st) = hs_id st
     \<and> (hs_closed st \<longrightarrow> hs_closed (f st) \<and> hs_head (f st) = hs_head st) \<and> (hs_head st \<noteq> None \<longrightarrow> hs_head (f st) = hs_head st)"

lemma shrinks_upd: "(k < length (hb_objs h) \<Longrightarrow> tame f (hb_objs h ! k)) \<Longrightarrow> shrinks h (upd k f h)"
  unfolding shrinks_def keeps_def by (auto simp: upd_obj tame_def intro!: exI[of _ "\<lambda>_. True"])

lemma shrinks_wake: "shrinks h (wake k h)"
  unfolding shrinks_def keeps_def by (auto simp: wake_obj Let_def intro!: exI[of _ "\<lambda>_. True"])

lemma shrinks_forget: "shrinks h (forget s h)"
proof (cases "stream_of h s")
  case (Some k)
  have "shrinks h (wake k (upd k close_obj h))"
    by (rule shrinks_trans[OF _ shrinks_wake]) (rule shrinks_upd, simp add: tame_def close_obj_def)
  then show ?thesis by (auto simp: forget_def Some shrinks_def keeps_def)
qed (simp add: forget_def)

lemma shrinks_touch: "shrinks h (touch s h)"
  by (auto simp: touch_def tame_def intro!: shrinks_upd split: option.splits)

lemma shrinks_cancel: "shrinks h (cancel up s h)"
  using shrinks_trans[OF shrinks_sendCtl shrinks_forget] by (simp add: cancel_def shrinks_forget split: option.split)

lemma shrinks_set_head: "\<not> hs_closed (hb_objs h ! k) \<Longrightarrow> shrinks h (upd k (set_head v) h)"
  by (rule shrinks_upd) (simp add: tame_def set_head_def)

lemma shrinks_chain_add: "shrinks h (upd k (chain_add c) h)"
  by (rule shrinks_upd) (simp add: tame_def chain_add_def)

lemma shrinks_fail: "shrinks h (fail up s e tell h)"
proof (cases "stream_of h s")
  case (Some k)
  let ?g = "if tell \<and> up then sendCtl (HubCancel s) h else h"
  let ?f = "if hs_head (hb_objs h ! k) = None then set_head (HeadError e) else chain_add (AbortBody e)"
  have "shrinks h ?g" by (simp add: shrinks_sendCtl)
  moreover have "shrinks ?g (upd k ?f ?g)" if "\<not> hs_closed (hb_objs h ! k)"
    using that by (simp add: shrinks_set_head shrinks_chain_add)
  ultimately have "shrinks h (forget s (upd k ?f ?g))" if "\<not> hs_closed (hb_objs h ! k)"
    using that shrinks_trans shrinks_forget by blast
  then show ?thesis by (simp add: fail_def Some)
qed (simp add: fail_def)

lemma shrinks_finish: "shrinks h (finish s c h)"
  using shrinks_trans[OF shrinks_chain_add shrinks_forget] by (simp add: finish_def shrinks_forget split: option.split)

lemma shrinks_set_pump: "shrinks h (set_pump p k h)"
  unfolding set_pump_def by (rule shrinks_upd) (simp add: tame_def)

lemma shrinks_pump_fail: "shrinks h (pump_fail up k e h)"
  unfolding pump_fail_def by (rule shrinks_trans[OF shrinks_fail shrinks_set_pump])

lemma shrinks_pump_end: "shrinks h (pump_end up k h)"
  using shrinks_trans[OF shrinks_sendCtl shrinks_set_pump]
  by (simp add: pump_end_def Let_def shrinks_set_pump shrinks_pump_fail)

lemma shrinks_sent: "shrinks h h' \<Longrightarrow> shrinks h (h'\<lparr>hb_sent := w\<rparr>)"
  by (simp add: shrinks_def keeps_def)

lemma shrinks_pump_take: "shrinks h (pump_take up k h)"
  by (auto simp: pump_take_def intro!: shrinks_set_pump shrinks_pump_fail split: pump.splits list.splits)

lemma shrinks_pump_send: "shrinks h (pump_send up k h)"
proof (cases "hs_pump (hb_objs h ! k)")
  case (PumpWindow t p ps)
  let ?s = "hs_id (hb_objs h ! k)"
  show ?thesis
  proof (cases "stream_of h ?s")
    case (Some j)
    let ?h1 = "upd j (\<lambda>st. st\<lparr>hs_unacked := hs_unacked st + length p\<rparr>) h"
    have h1: "shrinks h ?h1" by (rule shrinks_upd) (simp add: tame_def)
    have wait: "shrinks h (upd j (\<lambda>st. st\<lparr>hs_waiters := hs_waiters st @ [k]\<rparr>) (set_pump (PumpBlocked t p ps) k h))"
      by (rule shrinks_trans[OF shrinks_set_pump shrinks_upd]) (simp add: tame_def)
    have send: "shrinks h (touch ?s (set_pump (PumpParts t ps) k (?h1\<lparr>hb_sent := w\<rparr>)))" for w
      by (rule shrinks_trans[OF shrinks_trans[OF shrinks_sent[OF h1] shrinks_set_pump] shrinks_touch])
    show ?thesis using wait send shrinks_trans[OF h1 shrinks_pump_fail]
      by (simp add: pump_send_def PumpWindow Let_def Some shrinks_set_pump split: option.split)
  qed (simp add: pump_send_def PumpWindow shrinks_set_pump)
qed (simp_all add: pump_send_def)

lemma shrinks_on_ack: "shrinks h (on_ack k n h)"
  unfolding on_ack_def by (rule shrinks_trans[OF shrinks_upd shrinks_wake]) (simp add: tame_def)

lemma shrinks_on_res: "\<not> hs_closed (hb_objs h ! k) \<Longrightarrow> shrinks h (on_res k s status hdrs h)"
  using shrinks_trans[OF shrinks_set_head shrinks_finish] shrinks_set_head by (simp add: on_res_def Let_def)

lemma shrinks_on_node: "hub_inv h \<Longrightarrow> shrinks h (on_node up m h)"
proof (cases "stream_of h (node_stream m)")
  case (Some k)
  assume inv: "hub_inv h"
  let ?h1 = "touch (node_stream m) h"
  have k: "\<not> hs_closed (hb_objs ?h1 ! k)" using open_stream_of[OF inv Some] by (simp add: touch_def Some upd_obj)
  have "shrinks ?h1 (case m of NodeRes s status hdrs \<Rightarrow> on_res k s status hdrs ?h1
      | NodeEnd s \<Rightarrow> finish s False (upd k (chain_add CloseBody) ?h1) | NodeErr s code txt \<Rightarrow> fail up s (Code code) False ?h1
      | NodeAck s n \<Rightarrow> on_ack k n ?h1)"
    using k shrinks_trans[OF shrinks_chain_add shrinks_finish]
    by (cases m) (simp_all add: shrinks_on_ack shrinks_on_res shrinks_fail)
  then have "shrinks ?h1 (on_node up m h)" using open_stream_of(3)[OF inv Some] by (simp only: on_node_def Some Let_def option.case if_False)
  then show ?thesis by (rule shrinks_trans[OF shrinks_touch])
qed (simp add: on_node_def)

lemma shrinks_on_data: "shrinks h (on_data f h)"
  by (auto simp: on_data_def intro!: shrinks_trans[OF shrinks_touch shrinks_chain_add] split: option.splits)

lemma shrinks_chain: "shrinks h (chain_step up ok k h)"
proof -
  have u: "shrinks h (upd k f h)" if "\<And>st. tame f st" for f by (rule shrinks_upd) (rule that)
  have c: "shrinks h (cancel up' s (upd k f h))" "shrinks h (sendCtl m (upd k f h))" if "\<And>st. tame f st" for f s m up'
    using shrinks_trans[OF u[OF that] shrinks_cancel] shrinks_trans[OF u[OF that] shrinks_sendCtl] by blast+
  show ?thesis
    by (simp add: chain_step_def Let_def tame_def u c split: list.split chain_op.split)
qed

lemma shrinks_onClose: "shrinks h (onClose h)"
proof -
  have "shrinks h (fold (\<lambda>s. fail False s Offline False) ss h)" for ss
    by (induction ss arbitrary: h) (auto intro: shrinks_trans[OF shrinks_fail])
  then show ?thesis by (simp add: onClose_def)
qed

lemma apply_shrinks:
  assumes "hub_inv h" and "\<And>up req. ev \<noteq> EvProxy up req"
  shows "shrinks h (hub_apply num parse ev h)"
proof (cases ev)
  case (EvMessage up msg)
  show ?thesis using shrinks_on_node[OF assms(1)]
    by (auto simp: EvMessage hub_apply_def onMessage_def shrinks_on_data split: sum.splits option.splits)
qed (use assms(2) in \<open>auto simp: hub_apply_def pump_read_def pump_close_def head_timeout_def idle_timeout_def client_gone_def
  intro: shrinks_set_pump shrinks_pump_take shrinks_pump_send shrinks_pump_fail shrinks_pump_end shrinks_chain shrinks_fail shrinks_cancel
    shrinks_onClose split: pump.splits\<close>)

subsection \<open>Slots\<close>

definition visitors :: "(proxyRequest \<times> bool) list \<Rightarrow> hub \<Rightarrow> (nat \<times> nat) list" where
  "visitors reqs h = filter (\<lambda>p. \<not> pr_probe (fst (reqs ! snd p))) (hb_streams h)"

definition visitors_of :: "string \<Rightarrow> (proxyRequest \<times> bool) list \<Rightarrow> hub \<Rightarrow> (nat \<times> nat) list" where
  "visitors_of dep reqs h = filter (\<lambda>p. pr_dep (fst (reqs ! snd p)) = dep) (visitors reqs h)"

definition probes :: "(proxyRequest \<times> bool) list \<Rightarrow> hub \<Rightarrow> (nat \<times> nat) list" where
  "probes reqs h = filter (\<lambda>p. pr_probe (fst (reqs ! snd p))) (hb_streams h)"

definition slots_inv :: "(proxyRequest \<times> bool) list \<Rightarrow> hub \<Rightarrow> bool" where
  "slots_inv reqs h \<longleftrightarrow> length reqs = length (hb_objs h)
     \<and> (\<forall>k < length (hb_objs h). hs_dep (hb_objs h ! k) = pr_dep (fst (reqs ! k)))
     \<and> length (hb_streams h) \<le> MAX_STREAMS \<and> length (visitors reqs h) \<le> MAX_STREAMS - PROBE_SLOTS
     \<and> (\<forall>dep. length (visitors_of dep reqs h) \<le> MAX_STREAMS_PER_DEP)"

lemma length_filter_mono: "(\<And>x. P x \<Longrightarrow> Q x) \<Longrightarrow> length (filter P xs) \<le> length (filter Q xs)"
  by (induction xs) (auto simp: le_SucI)

lemma slots_shrinks:
  assumes "slots_inv reqs h" and "shrinks h h'"
  shows "slots_inv reqs h'"
proof -
  obtain Q where Q: "hb_streams h' = filter Q (hb_streams h)" using assms(2) by (auto simp: shrinks_def)
  have "length (visitors reqs h') \<le> length (visitors reqs h)" unfolding visitors_def Q filter_filter by (rule length_filter_mono) simp
  then have "length (visitors reqs h') \<le> MAX_STREAMS - PROBE_SLOTS" using assms(1) unfolding slots_inv_def by (meson le_trans)
  moreover have "length (visitors_of dep reqs h') \<le> length (visitors_of dep reqs h)" for dep
    unfolding visitors_of_def visitors_def Q filter_filter by (rule length_filter_mono) simp
  then have "\<forall>dep. length (visitors_of dep reqs h') \<le> MAX_STREAMS_PER_DEP" using assms(1) unfolding slots_inv_def by (meson le_trans)
  moreover have "length (hb_streams h') \<le> MAX_STREAMS" using assms(1) length_filter_le[of Q "hb_streams h"] Q unfolding slots_inv_def by (metis le_trans)
  ultimately show ?thesis using assms unfolding slots_inv_def by (simp add: shrinks_def keeps_def)
qed

lemma visitors_app: "\<forall>p \<in> set (hb_streams h). snd p < length reqs \<Longrightarrow> visitors (reqs @ rs) h = visitors reqs h
    \<and> visitors_of dep (reqs @ rs) h = visitors_of dep reqs h"
  by (auto simp: visitors_def visitors_of_def nth_append intro!: filter_cong)

lemma of_dep_visitors:
  assumes "slots_inv reqs h" and "hub_inv h"
  shows "length (visitors_of dep reqs h) \<le> of_dep dep h"
proof -
  have eq: "filter (\<lambda>p. hs_dep (hb_objs h ! snd p) = dep) (hb_streams h) = filter (\<lambda>p. pr_dep (fst (reqs ! snd p)) = dep) (hb_streams h)"
    using assms hub_invD(4)[OF assms(2)] by (intro filter_cong) (auto simp: slots_inv_def)
  show ?thesis unfolding of_dep_def eq visitors_of_def visitors_def filter_filter by (rule length_filter_mono) simp
qed

lemma slots_proxy:
  assumes inv: "hub_inv h" and sl: "slots_inv reqs h"
  shows "slots_inv (reqs @ opened_by num (EvProxy up req) h) (fst (proxy num up req h))"
  using inv
proof (cases rule: proxy_cases[of h num up req])
  case (refused e)
  then show ?thesis using sl by (simp add: opened_by_def)
next
  case (unsent s nxt e)
  have old: "\<forall>p \<in> set (hb_streams h). snd p < length reqs" using hub_invD(4)[OF inv] sl by (auto simp: slots_inv_def)
  let ?h = "\<lparr>hb_streams = hb_streams h, hb_next = nxt, hb_objs = hb_objs h @ [close_obj (new_stream s req)], hb_sent = hb_sent h\<rparr>"
  have "visitors rs ?h = visitors rs h" "visitors_of dep rs ?h = visitors_of dep rs h" for rs dep by (simp_all add: visitors_def visitors_of_def)
  then show ?thesis using sl visitors_app[OF old] unsent(1)
    by (auto simp: opened_by_def slots_inv_def nth_append less_Suc_eq close_obj_def new_stream_def)
next
  case (sent s nxt h')
  have old: "\<forall>p \<in> set (hb_streams h). snd p < length reqs" and len: "length reqs = length (hb_objs h)"
    using hub_invD(4)[OF inv] sl by (auto simp: slots_inv_def)
  let ?rs = "reqs @ [(req, True)]"
  have l: "length (hb_objs h') = Suc (length (hb_objs h))" "hb_streams h' = hb_streams h @ [(s, length reqs)]" by (simp_all add: sent(2) len)
  have vis: "visitors ?rs h' = visitors reqs h @ (if pr_probe req then [] else [(s, length reqs)])"
    using visitors_app[OF old, of "[(req, True)]"] by (simp add: visitors_def l(2) nth_append)
  have vdep: "visitors_of dep ?rs h' = visitors_of dep reqs h @ (if \<not> pr_probe req \<and> pr_dep req = dep then [(s, length reqs)] else [])" for dep
    using visitors_app[OF old, of "[(req, True)]" dep] vis visitors_app[OF old, of "[(req, True)]"]
    by (simp add: visitors_of_def)
  have "length (visitors reqs h) \<le> length (hb_streams h)" by (simp add: visitors_def)
  moreover have "length (visitors_of (pr_dep req) reqs h) \<le> of_dep (pr_dep req) h" by (rule of_dep_visitors[OF sl inv])
  moreover have "hs_dep (hb_objs h' ! k) = pr_dep (fst (?rs ! k))" if "k < length (hb_objs h')" for k
    using that sl len by (auto simp: sent(2) slots_inv_def nth_append less_Suc_eq started_def new_stream_def)
  ultimately have "slots_inv ?rs h'"
    using sl sent(4) unfolding slots_inv_def vis vdep l busy_for_def MAX_STREAMS_def PROBE_SLOTS_def MAX_STREAMS_PER_DEP_def
    by (auto simp: len split: if_splits)
  then have sh: "slots_inv ?rs (if pr_body req then h' else pump_end True (length (hb_objs h)) h')"
    using slots_shrinks[OF _ shrinks_pump_end] by simp
  have "length (hb_objs (if pr_body req then h' else pump_end True (length (hb_objs h)) h')) = Suc (length (hb_objs h))"
    using shrinks_pump_end[of h' True "length (hb_objs h)"] l by (auto simp: shrinks_def)
  then show ?thesis using sh sent(1) by (simp add: opened_by_def)
qed

lemma run_slots: "hub_run num parse evs = (h, reqs) \<Longrightarrow> slots_inv reqs h"
proof (induction evs arbitrary: h reqs)
  case Nil
  then show ?case by (auto simp: slots_inv_def new_hub_def visitors_def visitors_of_def)
next
  case (Cons ev evs)
  obtain h0 reqs0 where r0: "hub_run num parse evs = (h0, reqs0)" by fastforce
  note inv = hub_run_inv[OF r0] and sl = Cons.IH[OF r0]
  have h: "h = hub_apply num parse ev h0" "reqs = reqs0 @ opened_by num ev h0" using Cons.prems r0 by auto
  show ?case
  proof (cases "\<exists>up req. ev = EvProxy up req")
    case True
    then show ?thesis using slots_proxy[OF inv sl] h by (auto simp: hub_apply_def exists_object_def)
  next
    case False
    then have "opened_by num ev h0 = []" by (cases ev) (simp_all add: opened_by_def)
    then show ?thesis using slots_shrinks[OF sl apply_shrinks[OF inv]] False h by auto
  qed
qed

text \<open>
  C21. The slots of a node: in every state the hub can reach at most 64 streams are open, at most 60 of them and at most 16 per
  deployment are visitors', ids are unique and one is always free; so load never refuses a probe, which is told \<^verbatim>\<open>busy\<close> only
  when four or more probes are under way.
\<close>

theorem hub_slots:
  assumes "hub_run num parse evs = (h, reqs)"
  shows "length (hb_streams h) \<le> MAX_STREAMS \<and> length (visitors reqs h) \<le> MAX_STREAMS - PROBE_SLOTS
    \<and> (\<forall>dep. length (visitors_of dep reqs h) \<le> MAX_STREAMS_PER_DEP)
    \<and> distinct (map fst (hb_streams h)) \<and> (\<exists>s nxt. fresh_id h = Some (s, nxt) \<and> s \<notin> set (map fst (hb_streams h)))
    \<and> (\<forall>req. pr_probe req \<and> length (probes reqs h) < PROBE_SLOTS \<longrightarrow> \<not> busy_for req h)"
proof -
  note inv = hub_run_inv[OF assms] and sl = run_slots[OF assms]
  have all: "length (hb_streams h) = length (visitors reqs h) + length (probes reqs h)"
    using sum_length_filter_compl[of "\<lambda>p. pr_probe (fst (reqs ! snd p))" "hb_streams h"] by (simp add: visitors_def probes_def)
  have "length (hb_streams h) < 4294967280" using sl by (simp add: slots_inv_def MAX_STREAMS_def)
  then obtain s nxt where "fresh_id h = Some (s, nxt)" using fresh_id_ex[OF inv] by blast
  with fresh_props(1)[OF inv this] have "\<exists>s nxt. fresh_id h = Some (s, nxt) \<and> s \<notin> set (map fst (hb_streams h))" by blast
  then show ?thesis using sl all hub_invD(1)[OF inv] by (auto simp: slots_inv_def busy_for_def MAX_STREAMS_def PROBE_SLOTS_def)
qed

text \<open>
  C22. The window: in every state the hub can reach no stream has more unacked request bytes than \<^verbatim>\<open>WINDOW_BYTES\<close>, and a pump
  that waits does so on an open stream that knows it and whose window really has no room for the next part, so the next ack, or
  the end of the stream, wakes it.
\<close>

theorem hub_window:
  assumes "hub_run num parse evs = (h, reqs)" and "k < length (hb_objs h)"
  shows "hs_unacked (hb_objs h ! k) \<le> WINDOW_BYTES
    \<and> (\<forall>t p ps. hs_pump (hb_objs h ! k) = PumpBlocked t p ps \<longrightarrow>
        (\<exists>j. stream_of h (hs_id (hb_objs h ! k)) = Some j \<and> \<not> hs_closed (hb_objs h ! j) \<and> k \<in> set (hs_waiters (hb_objs h ! j))
          \<and> WINDOW_BYTES < hs_unacked (hb_objs h ! j) + length p
          \<and> (\<forall>n. hs_pump (hb_objs (on_ack j n h) ! k) = PumpWindow t p ps)
          \<and> hs_pump (hb_objs (forget (hs_id (hb_objs h ! k)) h) ! k) = PumpWindow t p ps))"
proof -
  note inv = hub_run_inv[OF assms(1)]
  have "\<exists>j. stream_of h (hs_id (hb_objs h ! k)) = Some j \<and> \<not> hs_closed (hb_objs h ! j) \<and> k \<in> set (hs_waiters (hb_objs h ! j))
      \<and> WINDOW_BYTES < hs_unacked (hb_objs h ! j) + length p
      \<and> (\<forall>n. hs_pump (hb_objs (on_ack j n h) ! k) = PumpWindow t p ps)
      \<and> hs_pump (hb_objs (forget (hs_id (hb_objs h ! k)) h) ! k) = PumpWindow t p ps"
    if b: "hs_pump (hb_objs h ! k) = PumpBlocked t p ps" for t p ps
  proof -
    obtain j where j: "stream_of h (hs_id (hb_objs h ! k)) = Some j" "k \<in> set (hs_waiters (hb_objs h ! j))"
      "WINDOW_BYTES < hs_unacked (hb_objs h ! j) + length p" using hub_invD(7)[OF inv assms(2)] b by (auto simp: registered_def)
    note jo = open_stream_of[OF inv j(1)]
    have "hs_pump (hb_objs (on_ack j n h) ! k) = PumpWindow t p ps" for n
      using assms(2) jo(1) j(2) b by (cases "k = j") (simp_all add: on_ack_def wake_obj upd_obj Let_def wake_pump_def)
    moreover have "hs_pump (hb_objs (forget (hs_id (hb_objs h ! k)) h) ! k) = PumpWindow t p ps"
      using forget_obj[OF j(1) jo(1) assms(2)] j(2) b by (simp add: Let_def wake_pump_def close_obj_def)
    ultimately show ?thesis using j jo by blast
  qed
  moreover have "hs_unacked (hb_objs h ! k) \<le> WINDOW_BYTES" using hub_invD(6)[OF inv assms(2)] by (simp add: stream_inv_def)
  ultimately show ?thesis by blast
qed

end
