(* ===== verification/RelayAnswers.thy ===== *)
theory RelayAnswers
  imports RelayHubSafe
begin

text \<open>
  Every accepted request is answered, unless its client leaves or the node ends the stream before its head; what happens then.
\<close>

subsection \<open>Ids\<close>

text \<open>Until the ids wrap, object \<open>k\<close> has the id \<open>k + 1\<close>: no id is taken twice.\<close>

definition ids_inv :: "hub \<Rightarrow> bool" where
  "ids_inv h \<longleftrightarrow> (length (hb_objs h) < 4294967280 \<longrightarrow>
     hb_next h = Suc (length (hb_objs h)) \<and> (\<forall>k < length (hb_objs h). hs_id (hb_objs h ! k) = Suc k))"

lemma ids_shrinks: "ids_inv h \<Longrightarrow> shrinks h h' \<Longrightarrow> ids_inv h'"
  by (auto simp: ids_inv_def shrinks_def keeps_def)

lemma ids_fresh:
  assumes inv: "hub_inv h" and ids: "ids_inv h" and small: "length (hb_objs h) < 4294967280" and f: "fresh_id h = Some (s, nxt)"
  shows "s = Suc (length (hb_objs h))" "nxt = next_id s"
proof -
  have n: "hb_next h = Suc (length (hb_objs h))" using ids small by (simp add: ids_inv_def)
  have "t \<le> length (hb_objs h)" if t: "t \<in> set (map fst (hb_streams h))" for t
  proof -
    obtain k where "(t, k) \<in> set (hb_streams h)" using t by auto
    then have "k < length (hb_objs h)" "hs_id (hb_objs h ! k) = t" using hub_invD(4)[OF inv] by auto
    then show ?thesis using ids small by (auto simp: ids_inv_def)
  qed
  then have "hb_next h \<notin> set (map fst (hb_streams h))" using n by fastforce
  then show "s = Suc (length (hb_objs h))" "nxt = next_id s" using f n by (auto simp: fresh_id_def)
qed

lemma ids_add:
  assumes "hub_inv h" and "ids_inv h" and "fresh_id h = Some (s, nxt)" and "hs_id st = s"
  shows "ids_inv \<lparr>hb_streams = sts, hb_next = nxt, hb_objs = hb_objs h @ [st], hb_sent = w\<rparr>"
proof (cases "Suc (length (hb_objs h)) < 4294967280")
  case True
  then have "s = Suc (length (hb_objs h))" "nxt = next_id s" using ids_fresh[OF assms(1,2) _ assms(3)] by simp_all
  then show ?thesis using True assms(2,4) by (auto simp: ids_inv_def next_id_def nth_append less_Suc_eq)
qed (simp add: ids_inv_def)

lemma ids_proxy: "hub_inv h \<Longrightarrow> ids_inv h \<Longrightarrow> ids_inv (fst (proxy num up req h))"
proof -
  assume inv: "hub_inv h" and ids: "ids_inv h"
  from inv show ?thesis
  proof (cases rule: proxy_cases[of h num up req])
    case (unsent s nxt e)
    then show ?thesis using ids_add[OF inv ids unsent(2)] by (simp add: close_obj_def new_stream_def)
  next
    case (sent s nxt h')
    then have "ids_inv h'" using ids_add[OF inv ids sent(3)] by (simp add: started_def new_stream_def)
    then show ?thesis using sent(1) ids_shrinks[OF _ shrinks_pump_end] by simp
  qed (use ids in simp)
qed

lemma not_proxy_shrinks: "hub_inv h \<Longrightarrow> \<nexists>up req. ev = EvProxy up req \<Longrightarrow> shrinks h (hub_apply num parse ev h)"
  using apply_shrinks by blast

lemma run_ids: "hub_run num parse evs = (h, reqs) \<Longrightarrow> ids_inv h"
proof (induction evs arbitrary: h reqs)
  case (Cons ev evs)
  obtain h0 reqs0 where r0: "hub_run num parse evs = (h0, reqs0)" by fastforce
  note inv = hub_run_inv[OF r0] and ids = Cons.IH[OF r0]
  have h: "h = hub_apply num parse ev h0" using Cons.prems r0 by auto
  show ?case
  proof (cases "\<exists>up req. ev = EvProxy up req")
    case True
    then show ?thesis using ids_proxy[OF inv ids] h by (auto simp: hub_apply_def exists_object_def)
  qed (use ids_shrinks[OF ids] not_proxy_shrinks[OF inv] h in auto)
qed (auto simp: ids_inv_def new_hub_def)

subsection \<open>Objects closed without a head\<close>

definition mute :: "hub \<Rightarrow> nat \<Rightarrow> bool" where
  "mute h k \<longleftrightarrow> hs_closed (hb_objs h ! k) \<and> hs_head (hb_objs h ! k) = None"

definition waiting :: "hub \<Rightarrow> nat \<Rightarrow> bool" where
  "waiting h k \<longleftrightarrow> k < length (hb_objs h) \<and> \<not> hs_closed (hb_objs h ! k) \<and> hs_head (hb_objs h ! k) = None"

text \<open>Nothing is closed without a head between the two states.\<close>

definition speaks :: "hub \<Rightarrow> hub \<Rightarrow> bool" where
  "speaks h h' \<longleftrightarrow> length (hb_objs h') = length (hb_objs h) \<and> (\<forall>k < length (hb_objs h). mute h' k \<longrightarrow> mute h k)"

lemma speaks_refl [simp]: "speaks h h"
  by (simp add: speaks_def)

lemma speaks_trans: "speaks h h' \<Longrightarrow> speaks h' h'' \<Longrightarrow> speaks h h''"
  by (simp add: speaks_def)

lemma speaks_upd: "(\<And>st. hs_closed (f st) = hs_closed st \<and> (hs_head (f st) = None \<longrightarrow> hs_head st = None)) \<Longrightarrow> speaks h (upd k f h)"
  by (auto simp: speaks_def mute_def upd_obj)

lemma speaks_sel: "speaks h (sendCtl m h)" "speaks h (h\<lparr>hb_sent := w\<rparr>)" "speaks h (set_pump p k h)" "speaks h (touch s h)"
  "speaks h (upd k (chain_add c) h)" "speaks h (upd k (set_head v) h)"
  by (auto simp: set_pump_def touch_def chain_add_def set_head_def split: option.splits if_splits intro!: speaks_upd)
    (simp_all add: speaks_def mute_def)

lemma speaks_wake: "speaks h (wake k h)"
  by (auto simp: speaks_def mute_def wake_obj Let_def split: if_splits)

lemma speaks_forget: "(\<And>j. stream_of h s = Some j \<Longrightarrow> j < length (hb_objs h) \<and> hs_head (hb_objs h ! j) \<noteq> None) \<Longrightarrow> speaks h (forget s h)"
proof (cases "stream_of h s")
  case (Some j)
  assume "\<And>j. stream_of h s = Some j \<Longrightarrow> j < length (hb_objs h) \<and> hs_head (hb_objs h ! j) \<noteq> None"
  then have j: "j < length (hb_objs h)" "hs_head (hb_objs h ! j) \<noteq> None" using Some by auto
  show ?thesis using j(2) unfolding speaks_def
    by (auto simp: mute_def forget_obj[OF Some j(1)] Let_def close_obj_def split: if_splits)
qed (simp add: forget_def)

lemma speaks_cancel: "hub_inv h \<Longrightarrow> (\<And>j. stream_of h s = Some j \<Longrightarrow> hs_head (hb_objs h ! j) \<noteq> None) \<Longrightarrow> speaks h (cancel up s h)"
proof -
  assume inv: "hub_inv h" and head: "\<And>j. stream_of h s = Some j \<Longrightarrow> hs_head (hb_objs h ! j) \<noteq> None"
  have a: "speaks h (forget s h)"
    using head open_stream_of(1)[OF inv] by (intro speaks_forget) blast
  have b: "speaks (sendCtl (HubCancel s) h) (forget s (sendCtl (HubCancel s) h))"
    using head open_stream_of(1)[OF inv] by (intro speaks_forget) simp
  show ?thesis using a speaks_trans[OF speaks_sel(1) b] by (simp add: cancel_def split: option.split)
qed

lemma speaks_fail: "hub_inv h \<Longrightarrow> speaks h (fail up s e tell h)"
proof (cases "stream_of h s")
  case (Some k)
  assume inv: "hub_inv h"
  note ko = open_stream_of[OF inv Some]
  let ?g = "if tell \<and> up then sendCtl (HubCancel s) h else h"
  let ?f = "if hs_head (hb_objs h ! k) = None then set_head (HeadError e) else chain_add (AbortBody e)"
  have g: "hb_objs ?g = hb_objs h" "stream_of ?g s = Some k" using Some by simp_all
  have a: "speaks (upd k ?f ?g) (forget s (upd k ?f ?g))"
    using g ko(1) by (intro speaks_forget) (auto simp: upd_obj set_head_def chain_add_def)
  have b: "speaks ?g (upd k ?f ?g)" "speaks h ?g" by (simp_all add: speaks_sel)
  show ?thesis using speaks_trans[OF speaks_trans[OF b(2,1)] a] ko(3) by (simp only: fail_def Some option.case if_False)
qed (simp add: fail_def)

lemma speaks_pump_fail: "hub_inv h \<Longrightarrow> speaks h (pump_fail up k e h)"
  unfolding pump_fail_def by (rule speaks_trans[OF speaks_fail speaks_sel(3)])

lemma speaks_pump_end: "hub_inv h \<Longrightarrow> speaks h (pump_end up k h)"
  using speaks_trans[OF speaks_sel(1) speaks_sel(3)]
  by (simp add: pump_end_def Let_def speaks_sel speaks_pump_fail)

lemma speaks_pump_take: "hub_inv h \<Longrightarrow> speaks h (pump_take up k h)"
  by (auto simp: pump_take_def intro!: speaks_sel(3) speaks_pump_fail split: pump.splits list.splits)

lemma speaks_pump_send: "hub_inv h \<Longrightarrow> speaks h (pump_send up k h)"
proof (cases "hs_pump (hb_objs h ! k)")
  case (PumpWindow t p ps)
  assume inv: "hub_inv h"
  let ?s = "hs_id (hb_objs h ! k)"
  show ?thesis
  proof (cases "stream_of h ?s")
    case (Some j)
    note jo = open_stream_of[OF inv Some]
    let ?h1 = "upd j (\<lambda>st. st\<lparr>hs_unacked := hs_unacked st + length p\<rparr>) h"
    have h1: "speaks h ?h1" by (rule speaks_upd) simp
    have fit: "hub_inv ?h1" if "hs_unacked (hb_objs h ! j) + length p \<le> WINDOW_BYTES"
      using hub_invD(6)[OF inv jo(1)] that by (intro inv_upd[OF inv jo(1)]) (auto simp: local_upd_def stream_inv_def)
    have wait: "speaks h (upd j (\<lambda>st. st\<lparr>hs_waiters := hs_waiters st @ [k]\<rparr>) (set_pump (PumpBlocked t p ps) k h))"
      by (rule speaks_trans[OF speaks_sel(3) speaks_upd]) simp
    have send: "speaks h (touch ?s (set_pump (PumpParts t ps) k (?h1\<lparr>hb_sent := w\<rparr>)))" for w
      by (rule speaks_trans[OF speaks_trans[OF speaks_trans[OF h1 speaks_sel(2)] speaks_sel(3)] speaks_sel(4)])
    show ?thesis using wait send speaks_trans[OF h1 speaks_pump_fail[OF fit]]
      by (simp add: pump_send_def PumpWindow Let_def Some speaks_sel split: option.split)
  qed (simp add: pump_send_def PumpWindow speaks_sel)
qed (simp_all add: pump_send_def)

lemma speaks_onClose: "hub_inv h \<Longrightarrow> speaks h (onClose h)"
proof -
  have "hub_inv h \<Longrightarrow> speaks h (fold (\<lambda>s. fail False s Offline False) ss h)" for ss
  proof (induction ss arbitrary: h)
    case (Cons s ss)
    then show ?case using speaks_trans[OF speaks_fail Cons.IH[OF inv_fail]] by simp
  qed simp
  then show "hub_inv h \<Longrightarrow> speaks h (onClose h)" by (simp add: onClose_def)
qed

lemma speaks_chain:
  assumes inv: "hub_inv h" and ids: "ids_inv h" and small: "length (hb_objs h) < 4294967280" and k: "k < length (hb_objs h)"
  shows "speaks h (chain_step up ok k h)"
proof -
  let ?st = "hb_objs h ! k"
  have u: "speaks h (upd k f h)" if "\<And>st. hs_closed (f st) = hs_closed st \<and> hs_head (f st) = hs_head st" for f
    by (rule speaks_upd) (simp add: that)
  have c: "speaks h (cancel up' (hs_id ?st) (upd k f h))"
    if f: "\<And>st. hs_closed (f st) = hs_closed st \<and> hs_head (f st) = hs_head st" and i: "hub_inv (upd k f h)" and ne: "hs_chain ?st \<noteq> []" for f up'
  proof (rule speaks_trans[OF u[OF f] speaks_cancel[OF i]])
    fix j assume "stream_of (upd k f h) (hs_id ?st) = Some j"
    then have j: "stream_of h (hs_id ?st) = Some j" by simp
    note jo = open_stream_of[OF inv j]
    have "j = k" using ids small jo(1,2) k by (auto simp: ids_inv_def)
    then show "hs_head (hb_objs (upd k f h) ! j) \<noteq> None" using jo(3) ne hub_invD(6)[OF inv k] k f by (simp add: upd_obj stream_inv_def)
  qed
  have i: "hub_inv (upd k f h)" if "hs_id (f ?st) = hs_id ?st \<and> hs_closed (f ?st) = hs_closed ?st \<and> hs_waiters (f ?st) = hs_waiters ?st
      \<and> hs_unacked (f ?st) = hs_unacked ?st \<and> hs_pump (f ?st) = hs_pump ?st \<and> hs_idle (f ?st) = hs_idle ?st
      \<and> hs_headTimer (f ?st) = hs_headTimer ?st \<and> hs_head (f ?st) = hs_head ?st \<and> hs_chain ?st \<noteq> []" for f
    using hub_invD(6)[OF inv k] that by (intro inv_upd[OF inv k]) (auto simp: local_upd_def stream_inv_def)
  have s: "speaks h (sendCtl m (upd k f h))" if "\<And>st. hs_closed (f st) = hs_closed st \<and> hs_head (f st) = hs_head st" for f m
    by (rule speaks_trans[OF u[OF that] speaks_sel(1)])
  show ?thesis by (simp add: chain_step_def Let_def u c i s split: list.split chain_op.split)
qed

lemma mute_forget:
  assumes "hub_inv h" and "k < length (hb_objs h)" and "mute (forget s h) k" and "stream_of h s \<noteq> Some k"
  shows "mute h k"
proof (cases "stream_of h s")
  case (Some j)
  then show ?thesis using assms(3,4) forget_obj[OF Some open_stream_of(1)[OF assms(1) Some] assms(2)]
    by (auto simp: mute_def Let_def split: if_splits)
qed (use assms(3) in \<open>simp add: forget_def\<close>)

lemma mute_cancel:
  assumes "hub_inv h" and "k < length (hb_objs h)" and "mute (cancel up s h) k" and "stream_of h s \<noteq> Some k"
  shows "mute h k"
proof -
  have "mute h k" if "mute (forget s (sendCtl (HubCancel s) h)) k"
    using mute_forget[of "sendCtl (HubCancel s) h" k s] that assms by (simp add: mute_def)
  then show ?thesis using mute_forget[OF assms(1,2) _ assms(4)] assms(3) by (simp add: cancel_def split: option.splits if_splits)
qed

lemma speaks_on_res:
  assumes inv: "hub_inv h" and k: "stream_of h s = Some k"
  shows "speaks h (on_res k s status hdrs h)"
proof -
  note ko = open_stream_of[OF inv k]
  let ?h1 = "upd k (set_head (HeadResponse status hdrs)) h"
  have "speaks (upd k (chain_add CloseBody) ?h1) (forget s (upd k (chain_add CloseBody) ?h1))"
    using ko(1) k by (intro speaks_forget) (auto simp: upd_obj set_head_def chain_add_def)
  note speaks_trans[OF speaks_sel(5) this]
  then have "speaks ?h1 (finish s True ?h1)" using k by (simp add: finish_def)
  note speaks_trans[OF speaks_sel(6) this]
  then show ?thesis using speaks_sel(6) by (simp add: on_res_def Let_def)
qed

text \<open>An event that may leave the request of object \<open>k\<close> without an answer.\<close>

definition unheard :: "(string \<Rightarrow> jsval option) \<Rightarrow> nat \<Rightarrow> hub_event \<Rightarrow> bool" where
  "unheard parse k ev \<longleftrightarrow> (case ev of
     EvClientGone up j \<Rightarrow> j = k
   | EvMessage up msg \<Rightarrow> (case msg of Inl text \<Rightarrow> parseNodeMessage parse text = Some (NodeEnd (Suc k)) | Inr frame \<Rightarrow> False)
   | _ \<Rightarrow> False)"

lemma mute_on_node:
  assumes inv: "hub_inv h" and ids: "ids_inv h" and small: "length (hb_objs h) < 4294967280"
    and k: "k < length (hb_objs h)" and m: "mute (on_node up m h) k" and new: "\<not> mute h k"
  shows "m = NodeEnd (Suc k)"
proof (cases "stream_of h (node_stream m)")
  case None
  then show ?thesis using m new by (simp add: on_node_def)
next
  case (Some j)
  note jo = open_stream_of[OF inv Some] and t = inv_touch[OF inv, of "node_stream m"]
  let ?h1 = "touch (node_stream m) h"
  have j1: "stream_of ?h1 (node_stream m) = Some j" using Some by simp
  have new1: "\<not> mute ?h1 k" using new k speaks_sel(4)[of h "node_stream m"] by (auto simp: speaks_def)
  have k1: "k < length (hb_objs ?h1)" using k by simp
  have quiet: "\<not> mute h2 k" if "speaks ?h1 h2" for h2 using that new1 k1 by (auto simp: speaks_def)
  have eq: "on_node up m h = (case m of NodeRes s status hdrs \<Rightarrow> on_res j s status hdrs ?h1
      | NodeEnd s \<Rightarrow> finish s False (upd j (chain_add CloseBody) ?h1) | NodeErr s code txt \<Rightarrow> fail up s (Code code) False ?h1
      | NodeAck s n \<Rightarrow> on_ack j n ?h1)" using jo(3) by (simp only: on_node_def Some Let_def option.case if_False)
  show ?thesis
  proof (cases m)
    case (NodeEnd s)
    let ?h2 = "upd j (chain_add CloseBody) ?h1"
    have m2: "mute (forget s ?h2) k" using m eq Some by (simp add: NodeEnd finish_def)
    have "j = k"
    proof (rule ccontr)
      assume jk: "j \<noteq> k"
      have "hb_objs (forget s ?h2) ! k = hb_objs (forget s ?h1) ! k \<or> hs_closed (hb_objs (forget s ?h2) ! k) = hs_closed (hb_objs ?h1 ! k)
          \<and> hs_head (hb_objs (forget s ?h2) ! k) = hs_head (hb_objs ?h1 ! k)"
        using forget_obj[of ?h2 s j k] j1 jo(1) k jk by (simp add: NodeEnd Let_def upd_obj)
      moreover have "mute (forget s ?h1) k \<Longrightarrow> mute ?h1 k" using mute_forget[OF t k1] j1 jk by (simp add: NodeEnd)
      ultimately show False using m2 new1 by (auto simp: mute_def)
    qed
    then show ?thesis using NodeEnd ids small k jo(2) by (simp add: ids_inv_def)
  next
    case (NodeRes s status hdrs)
    then show ?thesis using quiet[OF speaks_on_res[OF t]] j1 m eq by simp
  next
    case (NodeErr s code why)
    then show ?thesis using quiet[OF speaks_fail[OF t]] m eq by simp
  next
    case (NodeAck s n)
    have "speaks ?h1 (on_ack j n ?h1)" unfolding on_ack_def by (rule speaks_trans[OF speaks_upd speaks_wake]) simp
    then show ?thesis using quiet m eq NodeAck by simp
  qed
qed

lemma mute_step:
  assumes inv: "hub_inv h" and ids: "ids_inv h" and small: "length (hb_objs h) < 4294967280" and k: "k < length (hb_objs h)"
    and ev: "\<And>up req. ev \<noteq> EvProxy up req" and m: "mute (hub_apply num parse ev h) k" and new: "\<not> mute h k"
  shows "unheard parse k ev"
proof -
  have q: "speaks h (hub_apply num parse ev h) \<Longrightarrow> ?thesis" using m new k by (auto simp: speaks_def)
  have ex: "exists_object ev h" using m new by (cases "exists_object ev h") (simp_all add: hub_apply_def)
  show ?thesis
  proof (cases ev)
    case (EvMessage up msg)
    show ?thesis
    proof (cases msg)
      case (Inl tx)
      show ?thesis
      proof (cases "parseNodeMessage parse tx")
        case (Some n)
        then show ?thesis using mute_on_node[OF inv ids small k _ new] m
          by (simp add: EvMessage Inl unheard_def hub_apply_def exists_object_def onMessage_def)
      qed (use m new in \<open>simp add: EvMessage Inl hub_apply_def onMessage_def exists_object_def\<close>)
    next
      case (Inr f)
      have "speaks h (on_data f h)"
        by (auto simp: on_data_def intro!: speaks_trans[OF speaks_sel(4) speaks_sel(5)] split: option.splits)
      then show ?thesis using q by (simp add: EvMessage Inr hub_apply_def onMessage_def exists_object_def)
    qed
  next
    case (EvClientGone up j)
    then have j: "j < length (hb_objs h)" using ex by (simp add: exists_object_def)
    have "stream_of h (hs_id (hb_objs h ! j)) = Some k"
      using mute_cancel[OF inv k] m new ex by (auto simp: EvClientGone hub_apply_def client_gone_def)
    then have "hs_id (hb_objs h ! k) = hs_id (hb_objs h ! j)" using open_stream_of(2)[OF inv] by simp
    then show ?thesis using ids small j k by (simp add: EvClientGone unheard_def ids_inv_def)
  qed (use q ex ev in \<open>auto simp: hub_apply_def exists_object_def pump_read_def pump_close_def head_timeout_def idle_timeout_def
      speaks_sel speaks_pump_take[OF inv] speaks_pump_send[OF inv] speaks_pump_fail[OF inv] speaks_pump_end[OF inv] speaks_fail[OF inv]
      speaks_onClose[OF inv] speaks_chain[OF inv ids small] split: pump.splits\<close>)
qed

subsection \<open>Runs\<close>

lemma keeps_proxy: "hub_inv h \<Longrightarrow> keeps h (fst (proxy num up req h))"
proof -
  assume inv: "hub_inv h"
  from inv show ?thesis
  proof (cases rule: proxy_cases[of h num up req])
    case (unsent s nxt e)
    then show ?thesis by (simp add: keeps_def nth_append)
  next
    case (sent s nxt h')
    have k: "keeps h h'" by (simp add: sent(2) keeps_def nth_append)
    have "keeps h' (pump_end True (length (hb_objs h)) h')" using shrinks_pump_end by (auto simp: shrinks_def)
    with k have "keeps h (pump_end True (length (hb_objs h)) h')" by (rule keeps_trans)
    then show ?thesis using k sent(1) by simp
  qed simp
qed

lemma keeps_apply: "hub_inv h \<Longrightarrow> keeps h (hub_apply num parse ev h)"
proof (cases "\<exists>up req. ev = EvProxy up req")
  case True
  assume "hub_inv h"
  then show ?thesis using True keeps_proxy by (auto simp: hub_apply_def)
next
  case False
  assume "hub_inv h"
  then show ?thesis using not_proxy_shrinks[of h ev num parse] False by (simp add: shrinks_def)
qed

lemma keeps_run: "keeps (fst (hub_run num parse evs)) (fst (hub_run num parse (later @ evs)))"
proof (induction later)
  case (Cons ev later)
  obtain h reqs where r: "hub_run num parse (later @ evs) = (h, reqs)" by fastforce
  then show ?case using keeps_trans[OF Cons.IH] keeps_apply[OF hub_run_inv[OF r]] by simp
qed simp

text \<open>A request that has no answer: the event at which its stream was dropped is in the history.\<close>

definition dropped :: "(string \<Rightarrow> rat option) \<Rightarrow> (string \<Rightarrow> jsval option) \<Rightarrow> hub_event list \<Rightarrow> nat \<Rightarrow> bool" where
  "dropped num parse evs k \<longleftrightarrow> (\<exists>later ev earlier. evs = later @ ev # earlier \<and> waiting (fst (hub_run num parse earlier)) k \<and> unheard parse k ev)"

lemma dropped_later: "dropped num parse evs k \<Longrightarrow> dropped num parse (ev # evs) k"
  unfolding dropped_def by (metis append_Cons)

lemma mute_dropped:
  assumes "hub_run num parse evs = (h, reqs)" and "length (hb_objs h) < 4294967280" and "k < length (hb_objs h)" and "snd (reqs ! k)" and "mute h k"
  shows "dropped num parse evs k"
  using assms
proof (induction evs arbitrary: h reqs)
  case (Cons ev evs)
  obtain h0 reqs0 where r0: "hub_run num parse evs = (h0, reqs0)" by fastforce
  note inv = hub_run_inv[OF r0] and ids = run_ids[OF r0] and sl = run_slots[OF r0]
  have h: "h = hub_apply num parse ev h0" "reqs = reqs0 @ opened_by num ev h0" using Cons.prems(1) r0 by auto
  have kp: "keeps h0 h" unfolding h(1) by (rule keeps_apply[OF inv])
  have small: "length (hb_objs h0) < 4294967280" using kp Cons.prems(2) by (simp add: keeps_def)
  show ?case
  proof (cases "k < length (hb_objs h0) \<and> mute h0 k")
    case True
    then have "snd (reqs0 ! k)" using Cons.prems(4) h(2) sl by (simp add: slots_inv_def nth_append)
    then show ?thesis using dropped_later[OF Cons.IH[OF r0 small]] True by blast
  next
    case new: False
    show ?thesis
    proof (cases "k < length (hb_objs h0)")
      case True
      have w: "waiting h0 k" using True new kp Cons.prems(5) by (auto simp: waiting_def mute_def keeps_def)
      have "\<And>up req. ev \<noteq> EvProxy up req"
      proof
        fix up req assume "ev = EvProxy up req"
        then have e: "h = fst (proxy num up req h0)" by (simp add: h(1) hub_apply_def exists_object_def)
        from inv have "\<not> mute h k"
        proof (cases rule: proxy_cases[of h0 num up req])
          case (sent s nxt h')
          have "\<not> mute h' k" using w by (simp add: sent(2) mute_def waiting_def nth_append)
          moreover have "speaks h' (pump_end True (length (hb_objs h0)) h')" using speaks_pump_end sent_inv(1)[OF inv sent(3)] sent(2) by simp
          ultimately show ?thesis using e sent(1) True by (auto simp: speaks_def sent(2))
        qed (use e w in \<open>simp_all add: mute_def waiting_def nth_append\<close>)
        then show False using Cons.prems(5) by simp
      qed
      then have "unheard parse k ev" using mute_step[OF inv ids small True] Cons.prems(5) new True unfolding h(1) by blast
      then show ?thesis using w r0 unfolding dropped_def by (intro exI[of _ "[]"] exI[of _ ev] exI[of _ evs]) simp
    next
      case False
      then obtain up req where ev: "ev = EvProxy up req"
        using not_proxy_shrinks[OF inv, of ev num parse] Cons.prems(3) h(1) by (fastforce simp: shrinks_def)
      then have e: "h = fst (proxy num up req h0)" by (simp add: h(1) hub_apply_def exists_object_def)
      from inv show ?thesis
      proof (cases rule: proxy_cases[of h0 num up req])
        case (refused x)
        then show ?thesis using e False Cons.prems(3) by simp
      next
        case (unsent s nxt x)
        then show ?thesis using e False Cons.prems(3,4) h(2) sl by (simp add: ev opened_by_def slots_inv_def nth_append)
      next
        case (sent s nxt h')
        have "k = length (hb_objs h0)" using e sent(1,2) False Cons.prems(3) shrinks_pump_end[of h' True "length (hb_objs h0)"] by (auto simp: shrinks_def split: if_splits)
        then have "\<not> mute h' k" by (simp add: sent(2) mute_def started_def new_stream_def)
        moreover have "speaks h' (pump_end True (length (hb_objs h0)) h')" using speaks_pump_end sent_inv(1)[OF inv sent(3)] sent(2) by simp
        ultimately show ?thesis using Cons.prems(3,5) e sent(1) by (auto simp: speaks_def split: if_splits)
      qed
    qed
  qed
qed (simp add: new_hub_def)

text \<open>
  C20. Every accepted request is answered: in every state the hub can reach (before four billion requests), the head of an
  accepted request has been resolved, or its stream is open with the head timer armed, and when that fires the request is
  answered with a timeout; or, before its head, its client went away or the node sent \<^verbatim>\<open>end\<close> for it.
\<close>

theorem hub_answers:
  assumes "hub_run num parse evs = (h, reqs)" and "length (hb_objs h) < 4294967280" and "k < length (hb_objs h)" and "snd (reqs ! k)"
  shows "hs_head (hb_objs h ! k) \<noteq> None
    \<or> waiting h k \<and> hs_headTimer (hb_objs h ! k)
        \<and> (\<forall>up. hs_head (hb_objs (hub_apply num parse (EvHeadTimeout up k) h) ! k) = Some (HeadError (Code TimedOut)))
    \<or> dropped num parse evs k"
proof (cases "hs_closed (hb_objs h ! k) \<or> hs_head (hb_objs h ! k) \<noteq> None")
  case True
  then show ?thesis using mute_dropped[OF assms] by (auto simp: mute_def)
next
  case False
  note inv = hub_run_inv[OF assms(1)]
  let ?s = "hs_id (hb_objs h ! k)"
  have t: "hs_headTimer (hb_objs h ! k)" using hub_invD(6)[OF inv assms(3)] False by (simp add: stream_inv_def)
  have k: "stream_of h ?s = Some k" using open_iff[OF inv assms(3)] False by simp
  have "hs_head (hb_objs (fail up ?s e tell h) ! k) = Some (HeadError e)" for up e tell
    using False k assms(3) forget_obj[of "upd k (set_head (HeadError e)) (if tell \<and> up then sendCtl (HubCancel ?s) h else h)" ?s k k]
    by (simp add: fail_def Let_def upd_obj set_head_def close_obj_def)
  then show ?thesis using False t assms(3) by (simp add: waiting_def hub_apply_def exists_object_def head_timeout_def)
qed

text \<open>
  C40. The gap: when the node sends \<^verbatim>\<open>end\<close> for a stream whose head has not come, the hub closes the stream and stops its timers
  without resolving the head, and no later event resolves it: the visitor's request is never answered.
\<close>

theorem early_end_unanswered:
  assumes "hub_run num parse evs = (h, reqs)" and "waiting h k" and "parseNodeMessage parse msg = Some (NodeEnd (hs_id (hb_objs h ! k)))"
    and "hub_run num parse (later @ EvMessage up (Inl msg) # evs) = (h', reqs')"
  shows "hs_head (hb_objs h' ! k) = None \<and> hs_closed (hb_objs h' ! k) \<and> \<not> hs_headTimer (hb_objs h' ! k) \<and> \<not> hs_idle (hb_objs h' ! k)"
proof -
  note inv = hub_run_inv[OF assms(1)]
  let ?s = "hs_id (hb_objs h ! k)" and ?h1 = "fst (hub_run num parse (EvMessage up (Inl msg) # evs))"
  have k: "k < length (hb_objs h)" "\<not> hs_closed (hb_objs h ! k)" "hs_head (hb_objs h ! k) = None" using assms(2) by (simp_all add: waiting_def)
  have st: "stream_of h ?s = Some k" using open_iff[OF inv k(1)] k(2) by simp
  have "?h1 = finish ?s False (upd k (chain_add CloseBody) (touch ?s h))"
    using assms(1,3) k st by (simp add: hub_apply_def exists_object_def onMessage_def on_node_def Let_def)
  then have "?h1 = forget ?s (upd k (chain_add CloseBody) (touch ?s h))" using st by (simp add: finish_def)
  then have "hs_closed (hb_objs ?h1 ! k) \<and> hs_head (hb_objs ?h1 ! k) = None \<and> k < length (hb_objs ?h1)"
    using forget_obj[of "upd k (chain_add CloseBody) (touch ?s h)" ?s k k] st k touch_obj[OF k(1), of ?s]
    by (simp add: Let_def close_obj_def upd_obj chain_add_def)
  moreover have "keeps ?h1 h'" using keeps_run[of num parse "EvMessage up (Inl msg) # evs" later] assms(4) by simp
  ultimately have f: "k < length (hb_objs h')" "hs_closed (hb_objs h' ! k)" "hs_head (hb_objs h' ! k) = None" by (auto simp: keeps_def)
  then show ?thesis using hub_invD(6)[OF hub_run_inv[OF assms(4)] f(1)] by (simp add: stream_inv_def)
qed

subsection \<open>Concrete runs\<close>

definition sample_request :: proxyRequest where
  "sample_request = \<lparr>pr_dep = ''7'', pr_cls = SiteClass, pr_probe = False, pr_method = ''GET'', pr_path = ''/'', pr_headers = [], pr_body = False\<rparr>"

definition sample_parse :: "string \<Rightarrow> jsval option" where
  "sample_parse text = Some (JObj [(''t'', JStr ''end''), (''s'', jnum 1)])"

definition sample_run :: "hub \<times> (proxyRequest \<times> bool) list" where
  "sample_run = hub_run (\<lambda>t. None) sample_parse [EvProxy True sample_request]"

lemma sample_length: "\<not> MAX_CONTROL_CHARS < length (stringify (hub_json (req_message 1 sample_request)))"
proof -
  have "quote ''t'' = [CHR 0x22, CHR ''t'', CHR 0x22]" "quote ''s'' = [CHR 0x22, CHR ''s'', CHR 0x22]" "length (quote ''dep'') = 5"
    "length (quote ''m'') = 3" "length (quote ''path'') = 6" "length (quote ''h'') = 3" "length (quote ''req'') = 5" "length (quote ''7'') = 3"
    "length (quote ''GET'') = 5" "length (quote ''/'') = 3" "length (dec_digits (Suc 0)) = 1" by code_simp+
  then show ?thesis
    by (simp add: req_message_def sample_request_def forwardableHeaders_def headers_json_def jnum_def MAX_CONTROL_CHARS_def
      del: dec_digits.simps)
qed

lemma sample_open: "\<not> busy_for sample_request new_hub" "\<not> bad_request sample_request" "fresh_id new_hub = Some (1, 2)"
proof -
  have "is_method ''GET''" by code_simp
  then show "\<not> bad_request sample_request"
    by (simp add: bad_request_def sample_request_def MAX_PATH_CHARS_def MAX_REQUEST_HEADERS_def forwardableHeaders_def)
qed (simp_all add: busy_for_def sample_request_def new_hub_def of_dep_def MAX_STREAMS_def PROBE_SLOTS_def MAX_STREAMS_PER_DEP_def
      fresh_id_def next_id_def)

lemma sample_first: "pr_body sample_request = False" "length (hb_objs new_hub) = 0" "\<not> declared_over num cap (pr_headers sample_request)"
  by (simp_all add: sample_request_def new_hub_def declared_over_def)

lemma sample_run_value:
  "sample_run = (\<lparr>hb_streams = [(1, 0)], hb_next = 2, hb_objs = [(new_stream 1 sample_request)\<lparr>hs_headTimer := True, hs_idle := True\<rparr>],
     hb_sent = [TextMsg (HubReq 1 ''7'' ''GET'' ''/'' []), TextMsg (HubEnd 1)]\<rparr>, [(sample_request, True)])"
proof -
  have "proxy (\<lambda>t. None) True sample_request new_hub
      = (start_stream False 0 (sendCtl (req_message 1 sample_request) (open_stream 1 2 sample_request new_hub)), Inr 0)"
    using sample_open sample_length sample_first
    by (simp only: proxy_def Let_def if_False option.case prod.case if_True simp_thms)
  then show ?thesis
    by (simp add: sample_run_def hub_apply_def exists_object_def opened_by_def start_stream_def sendCtl_def open_stream_def new_hub_def upd_def
      pump_end_def set_pump_def stream_of_def new_stream_def req_message_def sample_request_def forwardableHeaders_def Let_def)
qed

lemma sample_end: "parseNodeMessage sample_parse [] = Some (NodeEnd 1)"
  by (simp add: parseNodeMessage_def parseJson_def sample_parse_def js_get_def isStream_def jnum_def MAX_CONTROL_CHARS_def)

lemma sample_stream: "hb_objs (fst sample_run) ! 0 = (new_stream 1 sample_request)\<lparr>hs_headTimer := True, hs_idle := True\<rparr>"
  by (simp add: sample_run_value)

lemma sample_is: "hub_run (\<lambda>t. None) sample_parse [EvProxy True sample_request] = (fst sample_run, snd sample_run)"
  by (simp add: sample_run_def)

theorem hub_slots_witness: "\<not> busy_for (sample_request\<lparr>pr_probe := True\<rparr>) (fst sample_run) \<and> distinct (map fst (hb_streams (fst sample_run)))"
  using hub_slots[OF sample_is] by (simp add: probes_def sample_run_value sample_request_def PROBE_SLOTS_def)

theorem hub_window_witness: "hs_unacked (hb_objs (fst sample_run) ! 0) \<le> WINDOW_BYTES"
  using hub_window[OF sample_is, of 0] by (simp add: sample_run_value)

theorem hub_answers_witness: "waiting (fst sample_run) 0 \<and> hs_headTimer (hb_objs (fst sample_run) ! 0)
    \<and> hs_head (hb_objs (hub_apply (\<lambda>t. None) sample_parse (EvHeadTimeout True 0) (fst sample_run)) ! 0) = Some (HeadError (Code TimedOut))"
proof -
  have "\<not> dropped (\<lambda>t. None) sample_parse [EvProxy True sample_request] 0"
    by (auto simp: dropped_def Cons_eq_append_conv unheard_def)
  moreover have "hs_head (hb_objs (fst sample_run) ! 0) = None" by (simp add: sample_stream new_stream_def)
  moreover have "snd (snd sample_run ! 0)" "0 < length (hb_objs (fst sample_run))" "length (hb_objs (fst sample_run)) < 4294967280"
    by (simp_all add: sample_run_value)
  ultimately show ?thesis using hub_answers[OF sample_is, of 0] by blast
qed

theorem early_end_unanswered_witness:
  "hs_head (hb_objs (fst (hub_run (\<lambda>t. None) sample_parse [EvHeadTimeout True 0, EvMessage True (Inl []), EvProxy True sample_request])) ! 0) = None"
proof -
  have w: "waiting (fst sample_run) 0" by (simp add: waiting_def sample_stream new_stream_def) (simp add: sample_run_value)
  have p: "parseNodeMessage sample_parse [] = Some (NodeEnd (hs_id (hb_objs (fst sample_run) ! 0)))"
    using sample_end by (simp add: sample_stream new_stream_def)
  show ?thesis using early_end_unanswered[OF sample_is w p, of "[EvHeadTimeout True 0]" True] by (metis append_Cons append_Nil prod.collapse)
qed

end
