(* ===== verification/Spec2Isabelle.thy ===== *)
theory Spec2Isabelle
  imports Bridge Freivalds StorageProof LedgerClaws KeeperLife JobsChecks RelayAnswers
begin

text \<open>
  Verification of Cloudana, a market for verified compute: users pay credits for jobs, provider nodes execute them, an API
  orchestrates (TypeScript, \<^verbatim>\<open>client/api\<close>), what nodes prove is checked by the modules under \<^verbatim>\<open>pouw\<close> and \<^verbatim>\<open>shared\<close>, rewards are
  booked in the API's ledger, HTTP requests reach nodes over a relay
  (\<^verbatim>\<open>relay\<close>), and a keeper (\<^verbatim>\<open>keeper\<close>) posts and pays every epoch on the settlement contract
  (\<^verbatim>\<open>contract/contracts/v2\<close>).

  \<^bold>\<open>How the parts interact.\<close> A user's job is validated, priced and held for (\<open>enqueueWorkJob\<close>), drawn to a node
  (\<open>runAssignment\<close>), handed out (\<open>getActiveAssignment\<close>), and submitted. A \<^verbatim>\<open>matmul\<close> job carries a certificate and is checked at
  once; an \<^verbatim>\<open>int8-mlp\<close> or \<^verbatim>\<open>int8-model\<close> job carries a commitment to all segments of its plan, the API draws some of them, and the
  node opens those. A verified job is booked in one batch: fee captured from the hold, reward entries written, job done. A caught
  node is suspended and its held pay clawed. Every epoch the ledger is closed to a Merkle root (\<open>closeEpochs\<close>), which the keeper
  recomputes, posts, and after the veto and vesting periods pays out leaf by leaf.

  \<^bold>\<open>Where it is modelled.\<close> Every theory opens with what it holds; a definition has the name of the function it models.
  \<^item> Shared: \<open>Prelude\<close> (loops, reads, byte strings), \<open>Hex\<close>, \<open>Doubles\<close> and \<open>DoubleError\<close> (IEEE doubles as rounded rationals),
    \<open>Primality\<close>.
  \<^item> Proof of useful work: \<open>Matrix\<close>, \<open>Transcript\<close>, \<open>CuPow\<close>, \<open>Bridge\<close>, \<open>Freivalds\<close> for \<^verbatim>\<open>pouw/src\<close>: field matrices, the block product
    with its transcript hash, noise, solver and verifier, integer workloads, and the randomised product check.
  \<^item> Verification of committed work: \<open>Segments\<close> (\<^verbatim>\<open>shared/verification.ts\<close>), the interface \<open>ChallengeWork\<close> with its instances
    \<open>Int8Mlp\<close> and \<open>Int8Model\<close> (\<^verbatim>\<open>shared/work-int8-*.ts\<close>), and the registry \<open>WorkTypes\<close>.
  \<^item> Storage: \<open>StorageProof\<close> (\<^verbatim>\<open>shared/storage-proof.ts\<close>).
  \<^item> The API's tables: \<open>JobTables\<close>, \<open>Balance\<close>, \<open>Nodes\<close>, \<open>Pricing\<close> (the services of these names).
  \<^item> The job service (\<^verbatim>\<open>jobs.service.ts\<close>): \<open>Draw\<close>, \<open>Jobs\<close>, \<open>Submit\<close> are its code; \<open>JobsInv\<close> and \<open>JobsRun\<close> the invariant, the step
    relation \<open>jobs_step\<close> over all its operations and the runs \<open>jobs_run\<close>; \<open>JobsSafe\<close>, \<open>JobsPay\<close>, \<open>JobsHonest\<close>, \<open>JobsChecks\<close> what follows.
  \<^item> The reward ledger (\<^verbatim>\<open>ledger.service.ts\<close>): \<open>FeeSplit\<close>, \<open>Ledger\<close>; \<open>LedgerInv\<close>, \<open>LedgerBudget\<close>, \<open>LedgerClaws\<close> what holds of it.
  \<^item> Settlement: \<open>PairTree\<close>, \<open>EpochMerkle\<close> and \<open>KeeperTree\<close> (the tree, built twice by two programs), \<open>Settlement\<close> (the contract),
    \<open>Keeper\<close> (one pass over both systems), \<open>KeeperLife\<close> (the life of an epoch).
  \<^item> The relay: \<open>RelayProtocol\<close> (\<^verbatim>\<open>shared/relay-protocol.ts\<close>) and \<open>RelayHub\<close> (\<^verbatim>\<open>relay/src/hub.ts\<close>) are the code; \<open>RelayHubInv\<close> has its
    events, their runs and the invariant, \<open>RelayHubSafe\<close> slots and window, \<open>RelayAnswers\<close> that requests are answered.

  \<^bold>\<open>State and effects.\<close> A database is a record with one list of rows per table and one field per column that is read or written;
  \<^verbatim>\<open>SELECT\<close> is a filter, \<^verbatim>\<open>UPDATE ... WHERE\<close> rewrites the matching rows, and a batch is the composition of its statements, each
  with the guard the SQL gives it. An operation is a function from the state to the new state and the source's result; exceptions
  and refusals are values. Times, random ids and random bytes, answers of other services and outcomes of external writes are
  arguments, and every theorem holds for all of them. SHA-256, HMAC, Keccak and ABI functions, number printing and JSON are
  parameters; what is assumed of them (a digest has 32 bytes, \<^verbatim>\<open>viem_ok\<close>) is a named hypothesis. Soundness theorems name the
  collision or the bad random vector they exclude instead of assuming that there is none.

  \<^bold>\<open>What the lemma groups show.\<close> Exactness: the noisy product, the integer bridge, the quantized blocks and the fee split compute
  the numbers they mean, in doubles included. Completeness: honest work is accepted, for every choice of drawn segments and random
  bytes, and paid. Soundness: accepted work is right up to a named collision or a vector out of one in \<open>p\<close>. Money: held funds are
  the prices of open jobs, fees are captured exactly with results, lane totals are sums of entries, budgets are not exceeded.
  Control: assignments are exclusive, refusals end, results, commitments and draws are final, draws can be replayed, epochs go
  through their states and are settled only when paid.

  \<^bold>\<open>Termination and bounds.\<close> Every loop of the sources is a structural recursion, \<open>for_range\<close> (total by its measure), or a \<open>function\<close>
  with a measure; only the puzzle solver has the attempt bound of the source itself. No fuel is used anywhere else, except
  the id loop of the relay hub, whose fuel is one more than the open streams, which \<open>fresh_id_ex\<close> shows to be enough.
  \<open>dbl\<close> has no overflow and no subnormals; all modelled quantities are far inside that range.

  \<^bold>\<open>Interleaving.\<close> Operations of the API run one after another here. Between two awaited statements the source could be
  interrupted; the batches and guarded updates that the source relies on for this are modelled statement by statement, and the
  guards are part of the definitions.

  \<^bold>\<open>Not modelled.\<close> The web client and its pages, HTTP routes, middleware and API schemas (parsing and formatting around the
  modelled services); payments by Stripe and the deposit watcher (third-party protocols around \<open>creditUcld\<close>); deployments, duties,
  storage placement, fleets, templates and waitlist (own tables, reached from the modelled parts only through \<^verbatim>\<open>requeue\<close> and
  \<^verbatim>\<open>registerObject\<close>, which are arguments); the node agent's containers, hosting and hardware probes (operating-system calls); the
  gateway, and the sockets of the relay and of the agent around the protocol; the older contracts and the token; simulations, scripts, circuits and the subgraph.
  They are listed as components with the reason.
\<close>

end
